(* ===== verification/Prelude.thy ===== *)
theory Prelude
  imports Main "HOL-Library.Word"
begin

text \<open>
  Shared vocabulary of the collector's development: Go's fixed-width integers as words,
  the \<open>error + value\<close> convention for fallible functions, big-endian byte strings,
  the non-blocking operations of a bounded Go channel, and the lemma collections the
  component theories feed and use (\<open>codec_simps\<close> for encode/decode equations,
  \<open>chan_simps\<close> for channel operations).
\<close>

named_theorems codec_simps \<open>equations of encoders and decoders\<close>
named_theorems chan_simps \<open>equations of the bounded channel operations\<close>

section \<open>Machine integers\<close>

type_synonym u8 = "8 word"
type_synonym u16 = "16 word"
type_synonym u32 = "32 word"
type_synonym u64 = "64 word"
type_synonym u128 = "128 word"
type_synonym i16 = "16 word"
type_synonym i32 = "32 word"
type_synonym i64 = "64 word"
type_synonym byte = "8 word"

text \<open>
  A Go \<open>int64\<close> computation reduced to its 64 bits and read back as a signed number.
\<close>

definition wrap64 :: "int \<Rightarrow> int" where
  "wrap64 x = sint (word_of_int x :: 64 word)"

lemma wrap64_id:
  assumes "- (2 ^ 63) \<le> x" and "x < 2 ^ 63"
  shows "wrap64 x = x"
  using assms by (simp add: wrap64_def sint_sbintrunc' signed_take_bit_int_eq_self)

lemma wrap64_range: "- (2 ^ 63) \<le> wrap64 x \<and> wrap64 x < 2 ^ 63"
  using sint_greater_eq [of "word_of_int x :: 64 word"] sint_lt [of "word_of_int x :: 64 word"]
  by (simp add: wrap64_def)

lemma unat_bound: "unat (w :: 'a::len word) < 2 ^ LENGTH('a)"
  by (rule unsigned_less)

section \<open>Errors as values\<close>

fun is_ok :: "'e + 'a \<Rightarrow> bool" where
  "is_ok (Inl _) = False"
| "is_ok (Inr _) = True"

lemma is_ok_iff: "is_ok r \<longleftrightarrow> (\<exists>v. r = Inr v)"
  by (cases r) auto

section \<open>Big-endian byte strings\<close>

primrec be_bytes :: "nat \<Rightarrow> nat \<Rightarrow> byte list" where
  "be_bytes 0 x = []"
| "be_bytes (Suc k) x = be_bytes k (x div 256) @ [of_nat x]"

definition be_nat :: "byte list \<Rightarrow> nat" where
  "be_nat bs = foldl (\<lambda>n b. n * 256 + unat b) 0 bs"

lemma be_nat_Nil [simp, codec_simps]: "be_nat [] = 0"
  by (simp add: be_nat_def)

lemma be_nat_snoc [simp, codec_simps]: "be_nat (bs @ [b]) = be_nat bs * 256 + unat b"
  by (simp add: be_nat_def)

lemma length_be_bytes [simp, codec_simps]: "length (be_bytes k x) = k"
  by (induction k arbitrary: x) simp_all

lemma be_nat_be_bytes [codec_simps]: "be_nat (be_bytes k x) = x mod 256 ^ k"
proof (induction k arbitrary: x)
  case 0
  show ?case by simp
next
  case (Suc k)
  have "unat (of_nat x :: byte) = x mod 256"
    by (simp add: unat_of_nat)
  then show ?case
    by (simp add: Suc.IH mod_mult2_eq)
qed

lemma be_nat_bound: "be_nat bs < 256 ^ length bs"
proof (induction bs rule: rev_induct)
  case Nil
  show ?case by simp
next
  case (snoc b bs)
  have "unat b < 256" using unat_bound [of b] by simp
  then have "be_nat bs * 256 + unat b < (be_nat bs + 1) * 256" by simp
  also have "\<dots> \<le> 256 ^ length bs * 256"
    using snoc.IH by (intro mult_le_mono1) simp
  finally show ?case by (simp add: mult.commute)
qed

lemma be_bytes_be_nat: "length bs = k \<Longrightarrow> be_bytes k (be_nat bs) = bs"
proof (induction k arbitrary: bs)
  case 0
  then show ?case by simp
next
  case (Suc k)
  then obtain cs c where bs: "bs = cs @ [c]" and len: "length cs = k"
    by (cases bs rule: rev_cases) auto
  have c: "unat c < 256" using unat_bound [of c] by simp
  have "(be_nat cs * 256 + unat c) div 256 = be_nat cs"
    using c by (simp add: div_add1_eq)
  moreover have "(of_nat (be_nat cs * 256 + unat c) :: byte) = c"
    using c by (simp add: word_unat_eq_iff unat_of_nat del: of_nat_add of_nat_mult)
  ultimately show ?case using bs Suc.IH [OF len] by simp
qed

lemma be_bytes_inject:
  assumes "x < 256 ^ k" and "y < 256 ^ k"
  shows "be_bytes k x = be_bytes k y \<longleftrightarrow> x = y"
proof
  assume "be_bytes k x = be_bytes k y"
  then have "be_nat (be_bytes k x) = be_nat (be_bytes k y)" by simp
  with assms show "x = y" by (simp add: be_nat_be_bytes)
qed simp

text \<open>
  \<open>binary.BigEndian.AppendUint16\<close>, \<open>AppendUint32\<close> and \<open>AppendUint64\<close>
  and the 16-byte form of an address.
\<close>

definition be16 :: "u16 \<Rightarrow> byte list" where
  "be16 w = be_bytes 2 (unat w)"

definition be32 :: "u32 \<Rightarrow> byte list" where
  "be32 w = be_bytes 4 (unat w)"

definition be64 :: "u64 \<Rightarrow> byte list" where
  "be64 w = be_bytes 8 (unat w)"

definition be128 :: "u128 \<Rightarrow> byte list" where
  "be128 w = be_bytes 16 (unat w)"

lemma length_be_words [simp]:
  "length (be16 w) = 2" "length (be32 v) = 4" "length (be64 u) = 8" "length (be128 t) = 16"
  by (simp_all add: be16_def be32_def be64_def be128_def)

lemma be16_inject [simp]: "be16 x = be16 y \<longleftrightarrow> x = y"
  using unat_bound [of x] unat_bound [of y]
  by (simp add: be16_def be_bytes_inject word_unat_eq_iff)

lemma be32_inject [simp]: "be32 x = be32 y \<longleftrightarrow> x = y"
  using unat_bound [of x] unat_bound [of y]
  by (simp add: be32_def be_bytes_inject word_unat_eq_iff)

lemma be64_inject [simp]: "be64 x = be64 y \<longleftrightarrow> x = y"
  using unat_bound [of x] unat_bound [of y]
  by (simp add: be64_def be_bytes_inject word_unat_eq_iff)

lemma be128_inject [simp]: "be128 x = be128 y \<longleftrightarrow> x = y"
  using unat_bound [of x] unat_bound [of y]
  by (simp add: be128_def be_bytes_inject word_unat_eq_iff)

lemma be_nat_words [simp, codec_simps]:
  "be_nat (be16 a) = unat a" "be_nat (be32 b) = unat b"
  "be_nat (be64 c) = unat c" "be_nat (be128 d) = unat d"
  using unat_bound [of a] unat_bound [of b] unat_bound [of c] unat_bound [of d]
  by (simp_all add: be16_def be32_def be64_def be128_def be_nat_be_bytes)

section \<open>Bounded Go channels\<close>

text \<open>
  The two \<open>select\<close> forms with a \<open>default\<close> branch the collector uses. A buffered channel
  is the list of its elements, oldest first. A send succeeds exactly when there is room
  (\<open>None\<close> is the \<open>default\<close> branch), a receive exactly when there is an element.
\<close>

definition chan_try_send :: "nat \<Rightarrow> 'a list \<Rightarrow> 'a \<Rightarrow> 'a list option" where
  "chan_try_send cap q x = (if length q < cap then Some (q @ [x]) else None)"

definition chan_try_recv :: "'a list \<Rightarrow> ('a \<times> 'a list) option" where
  "chan_try_recv q = (case q of [] \<Rightarrow> None | x # q' \<Rightarrow> Some (x, q'))"

lemma chan_try_send_Some [chan_simps]:
  "chan_try_send cap q x = Some q' \<longleftrightarrow> length q < cap \<and> q' = q @ [x]"
  by (auto simp: chan_try_send_def)

lemma chan_try_send_None [chan_simps]:
  "chan_try_send cap q x = None \<longleftrightarrow> cap \<le> length q"
  by (auto simp: chan_try_send_def)

lemma chan_try_recv_Some [chan_simps]:
  "chan_try_recv q = Some (x, q') \<longleftrightarrow> q = x # q'"
  by (auto simp: chan_try_recv_def split: list.splits)

lemma chan_try_recv_None [chan_simps]:
  "chan_try_recv q = None \<longleftrightarrow> q = []"
  by (auto simp: chan_try_recv_def split: list.splits)

section \<open>Lists and maps\<close>

lemma filter_all_id: "\<forall>x\<in>set xs. P x \<Longrightarrow> filter P xs = xs"
  by (induction xs) auto

lemma hd_filter_P: "filter P xs \<noteq> [] \<Longrightarrow> P (hd (filter P xs))"
  by (induction xs) auto

lemma sorted_wrt_less_map_filter:
  "sorted (map f xs) \<Longrightarrow> sorted (map f (filter P xs))"
  by (induction xs) auto

lemma finite_dom_word [simp]: "finite (dom (m :: 'a::len word \<rightharpoonup> 'b))"
  by (rule finite_subset [OF subset_UNIV finite])

lemma take_drop_mid:
  assumes "i \<le> j" and "j \<le> length xs"
  shows "take i xs @ take (j - i) (drop i xs) = take j xs"
  using assms by (metis le_add_diff_inverse take_add)

lemma nth_take_drop:
  assumes "xs = take (l + 1 - f) (drop (f - 1) ys)" and "1 \<le> f" and "l \<le> length ys"
    and "f \<le> k" and "k \<le> l"
  shows "xs ! (k - f) = ys ! (k - 1)"
  using assms by (simp add: nth_take nth_drop)

end
