(* ===== verification/Netip.thy ===== *)
theory Netip
  imports Prelude
begin

text \<open>
  The part of Go's \<open>net/netip\<close> the collector uses: the address value with its three
  states (the invalid zero value, IPv4, IPv6 with an optional zone), validity, unmapping
  of IPv4-mapped IPv6 addresses, and the byte forms.
\<close>

unbundle bit_operations_syntax

datatype Addr = AddrZero | Addr4 u32 | Addr6 u128 string

fun is_valid :: "Addr \<Rightarrow> bool" where
  "is_valid AddrZero = False"
| "is_valid (Addr4 _) = True"
| "is_valid (Addr6 _ _) = True"

fun is4in6 :: "Addr \<Rightarrow> bool" where
  "is4in6 (Addr6 w z) = (drop_bit 32 w = 0xffff)"
| "is4in6 _ = False"

fun unmap :: "Addr \<Rightarrow> Addr" where
  "unmap (Addr6 w z) = (if is4in6 (Addr6 w z) then Addr4 (ucast w) else Addr6 w z)"
| "unmap a = a"

text \<open>\<open>IsUnspecified\<close> compares with \<open>0.0.0.0\<close> and with \<open>::\<close>, so a zone makes it false.\<close>

fun is_unspecified :: "Addr \<Rightarrow> bool" where
  "is_unspecified AddrZero = False"
| "is_unspecified (Addr4 w) = (w = 0)"
| "is_unspecified (Addr6 w z) = (w = 0 \<and> z = [])"

definition map4 :: "u32 \<Rightarrow> u128" where
  "map4 w = push_bit 32 0xffff OR ucast w"

fun as16 :: "Addr \<Rightarrow> byte list" where
  "as16 AddrZero = be128 0"
| "as16 (Addr4 w) = be128 (map4 w)"
| "as16 (Addr6 w z) = be128 w"

fun as_slice :: "Addr \<Rightarrow> byte list" where
  "as_slice AddrZero = []"
| "as_slice (Addr4 w) = be32 w"
| "as_slice (Addr6 w z) = be128 w"

definition addr_from_slice :: "byte list \<Rightarrow> Addr \<times> bool" where
  "addr_from_slice b =
     (if length b = 4 then (Addr4 (of_nat (be_nat b)), True)
      else if length b = 16 then (Addr6 (of_nat (be_nat b)) [], True)
      else (AddrZero, False))"

definition addr_from4 :: "byte \<Rightarrow> byte \<Rightarrow> byte \<Rightarrow> byte \<Rightarrow> Addr" where
  "addr_from4 a b c d = Addr4 (of_nat (be_nat [a, b, c, d]))"

text \<open>
  An address in the form the ingest path hands on: not IPv4-mapped and without a zone.
\<close>

fun plain_addr :: "Addr \<Rightarrow> bool" where
  "plain_addr AddrZero = False"
| "plain_addr (Addr4 _) = True"
| "plain_addr (Addr6 w z) = (\<not> is4in6 (Addr6 w z) \<and> z = [])"

fun zone_free :: "Addr \<Rightarrow> bool" where
  "zone_free (Addr6 _ z) = (z = [])"
| "zone_free _ = True"

lemma length_as16 [simp]: "length (as16 a) = 16"
  by (cases a) simp_all

lemma is_valid_unmap [simp]: "is_valid (unmap a) = is_valid a"
  by (cases a) auto

lemma unmap_unmap [simp]: "unmap (unmap a) = unmap a"
  by (cases a) auto

lemma unmap_plain [simp]: "plain_addr a \<Longrightarrow> unmap a = a"
  by (cases a) auto

lemma is4in6_unmap [simp]: "\<not> is4in6 (unmap a)"
  by (cases a) auto

lemma drop_bit_map4: "drop_bit 32 (map4 w) = 0xffff"
proof -
  have "bit (drop_bit 32 (map4 w)) n = bit (0xffff :: u128) n" if "n < 128" for n
    using that
    by (cases "n < 96") (auto simp: map4_def bit_simps dest: bit_imp_le_length)
  then show ?thesis by (intro bit_word_eqI) simp
qed

lemma ucast_map4: "(ucast (map4 w) :: u32) = w"
proof (rule bit_word_eqI)
  fix n assume "n < LENGTH(32)"
  then have "\<not> bit (push_bit 32 (0xffff :: u128)) n"
    by (simp add: bit_push_bit_iff del: push_bit_numeral)
  with \<open>n < LENGTH(32)\<close> show "bit (ucast (map4 w) :: u32) n = bit w n"
    by (simp add: map4_def bit_simps)
qed

lemma map4_inject [simp]: "map4 a = map4 b \<longleftrightarrow> a = b"
  by (metis ucast_map4)

lemma as16_inject_plain:
  assumes "plain_addr a" and "plain_addr b"
  shows "as16 a = as16 b \<longleftrightarrow> a = b"
  using assms drop_bit_map4 by (cases a; cases b) auto

lemma addr_from_slice_as_slice:
  "is_valid a \<Longrightarrow> zone_free a \<Longrightarrow> addr_from_slice (as_slice a) = (a, True)"
  by (cases a) (simp_all add: addr_from_slice_def)

lemma unmap_addr_from_slice_as16:
  "plain_addr a \<Longrightarrow> unmap (fst (addr_from_slice (as16 a))) = a"
  by (cases a) (simp_all add: addr_from_slice_def drop_bit_map4 ucast_map4)

lemma as16_unmap [simp]: "as16 (unmap a) = as16 a"
proof (cases a)
  case (Addr6 w z)
  show ?thesis
  proof (cases "is4in6 a")
    case True
    then have hi: "drop_bit 32 w = 0xffff" using Addr6 by simp
    have "w = map4 (ucast w)"
    proof (rule bit_word_eqI)
      fix n assume "n < LENGTH(128)"
      show "bit w n = bit (map4 (ucast w)) n"
      proof (cases "n < 32")
        case True
        then have "\<not> bit (push_bit 32 (0xffff :: u128)) n"
          by (simp add: bit_push_bit_iff del: push_bit_numeral)
        with True \<open>n < LENGTH(128)\<close> show ?thesis by (simp add: map4_def bit_simps)
      next
        case False
        have "bit w n = bit (drop_bit 32 w) (n - 32)" using False by (simp add: bit_simps)
        also have "\<dots> = bit (drop_bit 32 (map4 (ucast w))) (n - 32)"
          by (simp only: hi drop_bit_map4)
        also have "\<dots> = bit (map4 (ucast w)) n" using False by (simp add: bit_simps)
        finally show ?thesis .
      qed
    qed
    then show ?thesis using Addr6 True by simp
  qed (simp add: Addr6)
qed simp_all

end
