(* ===== verification/Gotime.thy ===== *)
theory Gotime
  imports Prelude
begin

text \<open>
  Go's \<open>time.Time\<close> as the instant it denotes: nanoseconds since the Unix epoch, an
  integer. The location is not part of the model, so \<open>UTC()\<close> is the identity: every
  instant the collector stores, compares or sends has been put into UTC first. Conversions
  that go through \<open>int64\<close> wrap as Go's do (\<open>wrap64\<close>).
\<close>

type_synonym time = int
type_synonym duration = int

definition Second :: duration where "Second = 1000000000"
definition Millisecond :: duration where "Millisecond = 1000000"
definition Microsecond :: duration where "Microsecond = 1000"

text \<open>The zero \<open>time.Time\<close> is January 1 of year 1, UTC.\<close>

definition unix_to_internal :: int where
  "unix_to_internal = 62135596800"

definition zero_time :: time where
  "zero_time = - (unix_to_internal * Second)"

definition is_zero :: "time \<Rightarrow> bool" where
  "is_zero t \<longleftrightarrow> t = zero_time"

text \<open>
  \<open>Truncate\<close> rounds down to a multiple of the duration since the zero time. One second is
  a whole number of microseconds, so for \<open>time.Microsecond\<close> this is rounding down of the
  nanoseconds since the Unix epoch.
\<close>

definition truncate :: "time \<Rightarrow> duration \<Rightarrow> time" where
  "truncate t d = t - (t - zero_time) mod d"

text \<open>
  \<open>time.Unix\<close> adds the epoch difference to the seconds in \<open>int64\<close> arithmetic.
\<close>

definition time_Unix :: "int \<Rightarrow> int \<Rightarrow> time" where
  "time_Unix sec nsec =
     (let s = wrap64 (sec + nsec div Second); n = nsec mod Second
      in (wrap64 (s + unix_to_internal) - unix_to_internal) * Second + n)"

text \<open>
  \<open>UnixMilli\<close> splits with truncated division and renormalises, which is the split
  with floored division written here.
\<close>

definition time_UnixMilli :: "int \<Rightarrow> time" where
  "time_UnixMilli msec = time_Unix (msec div 1000) ((msec mod 1000) * Millisecond)"

definition unix_nano :: "time \<Rightarrow> int" where
  "unix_nano t = wrap64 t"

definition unix_micro :: "time \<Rightarrow> int" where
  "unix_micro t = wrap64 (t div Microsecond)"

definition micro :: "time \<Rightarrow> time" where
  "micro t = truncate t Microsecond"

definition on_micro :: "time \<Rightarrow> bool" where
  "on_micro t \<longleftrightarrow> t mod Microsecond = 0"

lemmas time_units = Second_def Millisecond_def Microsecond_def

lemma truncate_micro: "truncate t Microsecond = t - t mod Microsecond"
proof -
  have "(t - zero_time) mod Microsecond = t mod Microsecond"
    by (simp add: zero_time_def unix_to_internal_def time_units mod_add_eq
        flip: mod_add_right_eq)
  then show ?thesis by (simp add: truncate_def)
qed

lemma micro_eq: "micro t = t - t mod Microsecond"
  by (simp add: micro_def truncate_micro)

lemma on_micro_micro [simp]: "on_micro (micro t)"
  by (simp add: on_micro_def micro_eq)

lemma micro_id [simp]: "on_micro t \<Longrightarrow> micro t = t"
  by (simp add: on_micro_def micro_eq)

lemma micro_micro [simp]: "micro (micro t) = micro t"
  by simp

lemma micro_le: "micro t \<le> t"
  by (simp add: micro_eq time_units)

lemma micro_gt: "t - Microsecond < micro t"
  by (simp add: micro_eq time_units)

lemma micro_mono: "s \<le> t \<Longrightarrow> micro s \<le> micro t"
proof -
  assume "s \<le> t"
  then have "s div 1000 \<le> t div 1000" by (rule zdiv_mono1) simp
  then show ?thesis
    by (simp add: micro_eq time_units minus_mod_eq_div_mult)
qed

lemma zero_time_on_micro [simp]: "on_micro zero_time"
  by (simp add: on_micro_def zero_time_def unix_to_internal_def time_units)

text \<open>An instant whose nanoseconds fit an \<open>int64\<close> survives the way through them.\<close>

definition nano_fits :: "time \<Rightarrow> bool" where
  "nano_fits t \<longleftrightarrow> - (2 ^ 63) \<le> t \<and> t < 2 ^ 63"

lemma time_Unix_nano:
  assumes "nano_fits t"
  shows "time_Unix 0 (wrap64 t) = t"
proof -
  have r: "- 9223372037 \<le> t div Second" "t div Second \<le> 9223372036"
    using assms by (simp_all add: nano_fits_def time_units div_le_mono) linarith+
  then have "wrap64 (t div Second) = t div Second"
    "wrap64 (t div Second + unix_to_internal) = t div Second + unix_to_internal"
    by (simp_all add: wrap64_id unix_to_internal_def)
  moreover have "wrap64 t = t" using assms by (simp add: wrap64_id nano_fits_def)
  ultimately show ?thesis by (simp add: time_Unix_def Let_def)
qed

text \<open>An instant whose microseconds fit an \<open>int64\<close>.\<close>

definition micro_fits :: "time \<Rightarrow> bool" where
  "micro_fits t \<longleftrightarrow> - (2 ^ 63) \<le> t div Microsecond \<and> t div Microsecond < 2 ^ 63"

end
