(* ===== verification/Flow.thy ===== *)
theory Flow
  imports Netip Gotime
begin

text \<open>
  \<open>internal/flow\<close>: the record every source produces and every sink stores, the query
  every backend answers and the page it answers with. A nil slice or pointer is \<open>None\<close>.
\<close>

type_synonym FlowType = string

definition FlowTypeNetFlow5 :: FlowType where "FlowTypeNetFlow5 = ''netflow5''"
definition FlowTypeNetFlow9 :: FlowType where "FlowTypeNetFlow9 = ''netflow9''"
definition FlowTypeIPFIX :: FlowType where "FlowTypeIPFIX = ''ipfix''"

lemmas flow_types = FlowTypeNetFlow5_def FlowTypeNetFlow9_def FlowTypeIPFIX_def

definition Valid :: "FlowType \<Rightarrow> bool" where
  "Valid t = (t = FlowTypeNetFlow5 \<or> t = FlowTypeNetFlow9 \<or> t = FlowTypeIPFIX)"

lemma Valid_constants [simp]:
  "Valid FlowTypeNetFlow5" "Valid FlowTypeNetFlow9" "Valid FlowTypeIPFIX"
  by (simp_all add: Valid_def)

record FlowRecord =
  ReceivedAt :: time
  ExporterAddr :: Addr
  ExporterID :: i64
  FlowType_of :: FlowType
  FirstSwitched :: time
  LastSwitched :: time
  SrcAddr :: Addr
  DstAddr :: Addr
  SrcPort :: u16
  DstPort :: u16
  Protocol :: u8
  TCPFlags :: u8
  Packets :: u64
  Bytes :: u64
  SamplingRate :: u32
  InputIface :: u32
  OutputIface :: u32
  SrcAS :: u32
  DstAS :: u32
  NextHop :: Addr
  DedupKey :: "byte list option"

text \<open>The zero value \<open>flow.FlowRecord{}\<close>.\<close>

definition zero_record :: FlowRecord where
  "zero_record = \<lparr>ReceivedAt = zero_time, ExporterAddr = AddrZero, ExporterID = 0,
     FlowType_of = [], FirstSwitched = zero_time, LastSwitched = zero_time,
     SrcAddr = AddrZero, DstAddr = AddrZero, SrcPort = 0, DstPort = 0, Protocol = 0,
     TCPFlags = 0, Packets = 0, Bytes = 0, SamplingRate = 0, InputIface = 0,
     OutputIface = 0, SrcAS = 0, DstAS = 0, NextHop = AddrZero, DedupKey = None\<rparr>"

record Exporter =
  ex_ID :: i64
  ex_IPAddress :: Addr
  ex_Label :: "string option"
  ex_FirstSeenAt :: time
  ex_LastSeenAt :: time

record FlowQuery =
  q_Start :: time
  q_End :: time
  q_ExporterID :: i64
  q_SrcAddr :: Addr
  q_DstAddr :: Addr
  q_Protocol :: "u8 option"
  q_Limit :: int
  q_Cursor :: string

record FlowResultPage =
  Records :: "FlowRecord list"
  NextCursor :: string
  HasMore :: bool

text \<open>
  The errors the ports of the contract return, as far as a caller tells them apart:
  \<open>ErrWriteFailed\<close> of \<open>Intake.Written\<close>, cancellation, and any other error.
\<close>

datatype flow_error = ErrWriteFailed | Canceled | ErrOther string

end
