(* ===== verification/Watermark.thy ===== *)
theory Watermark
  imports Flow
begin

text \<open>
  \<open>internal/pipeline/watermark.go\<close>: how far the pipeline's write order has been made
  durable. The mutex makes every method one atomic step on the record below. The channel
  \<open>changed\<close>, closed and replaced at every wake-up, is the number of the current channel:
  a waiter that took channel \<open>g\<close> is runnable once \<open>changed\<close> differs from \<open>g\<close>.
\<close>

record span =
  sp_first :: u64
  sp_last :: u64

record watermark =
  written :: u64
  wm_done :: "u64 \<rightharpoonup> u64"
  failed :: "span list"
  changed :: nat
  wm_closed :: bool

definition wm_init :: watermark where
  "wm_init = \<lparr>written = 0, wm_done = Map.empty, failed = [], changed = 0, wm_closed = False\<rparr>"

text \<open>
  The loop of \<open>complete\<close>: while a completed batch starts right after \<open>written\<close>, forget
  it and move \<open>written\<close> to its end. Each round removes a key of a finite map.
\<close>

function advance :: "u64 \<Rightarrow> (u64 \<rightharpoonup> u64) \<Rightarrow> u64 \<times> (u64 \<rightharpoonup> u64)" where
  "advance wr d =
     (case d (wr + 1) of
        None \<Rightarrow> (wr, d)
      | Some l \<Rightarrow> advance l (d(wr + 1 := None)))"
  by pat_completeness auto
termination
proof (relation "measure (\<lambda>(wr, d). card (dom d))")
  fix wr :: u64 and d :: "u64 \<rightharpoonup> u64" and l
  assume "d (wr + 1) = Some l"
  then have "wr + 1 \<in> dom d" by blast
  then have "card (dom d - {wr + 1}) < card (dom d)"
    by (intro psubset_card_mono) auto
  then show "((l, d(wr + 1 := None)), (wr, d)) \<in> measure (\<lambda>(wr, d). card (dom d))"
    by simp
qed simp

declare advance.simps [simp del]

definition wake :: "watermark \<Rightarrow> watermark" where
  "wake w = w\<lparr>changed := Suc (changed w)\<rparr>"

definition complete :: "u64 \<Rightarrow> u64 \<Rightarrow> bool \<Rightarrow> watermark \<Rightarrow> watermark" where
  "complete first lst ok w =
     (let fs = (if \<not> ok then failed w @ [\<lparr>sp_first = first, sp_last = lst\<rparr>] else failed w);
          (wr, d) = advance (written w) ((wm_done w)(first \<mapsto> lst))
      in wake (w\<lparr>failed := fs, written := wr, wm_done := d\<rparr>))"

definition wm_close :: "watermark \<Rightarrow> watermark" where
  "wm_close w = wake (w\<lparr>wm_closed := True\<rparr>)"

text \<open>
  One iteration of the loop of \<open>await\<close> under the lock. \<open>Block g\<close> is the branch that
  releases the lock and waits on channel \<open>g\<close>.
\<close>

datatype await_outcome = Return "flow_error option" | Block nat

definition await_try :: "u64 \<Rightarrow> watermark \<Rightarrow> await_outcome \<times> watermark" where
  "await_try seq w =
     (if failed w \<noteq> [] \<and> sp_first (hd (failed w)) \<le> seq
      then (Return (Some ErrWriteFailed),
            w\<lparr>failed := filter (\<lambda>f. sp_first f > seq) (failed w)\<rparr>)
      else if written w \<ge> seq then (Return None, w)
      else if wm_closed w then (Return (Some Canceled), w)
      else (Block (changed w), w))"

text \<open>
  The whole of \<open>await\<close> against what its \<open>select\<close> sees on each round: the wake-up
  channel was closed and the watermark now is the given one, or the context ended.
  \<open>None\<close> is "still waiting".
\<close>

datatype select_event = Woken watermark | CtxDone

fun await :: "u64 \<Rightarrow> select_event list \<Rightarrow> watermark \<Rightarrow> (flow_error option \<times> watermark) option" where
  "await seq [] w =
     (case await_try seq w of (Return r, w') \<Rightarrow> Some (r, w') | (Block g, w') \<Rightarrow> None)"
| "await seq (e # es) w =
     (case await_try seq w of
        (Return r, w') \<Rightarrow> Some (r, w')
      | (Block g, w') \<Rightarrow>
          (case e of Woken w'' \<Rightarrow> await seq es w'' | CtxDone \<Rightarrow> Some (Some Canceled, w')))"

section \<open>Abstract view: the set of sequence numbers whose batches have completed\<close>

type_synonym completion = "u64 \<times> u64 \<times> bool"

fun span_wf :: "completion \<Rightarrow> bool" where
  "span_wf (f, l, ok) = (0 < f \<and> f \<le> l)"

fun span_disjoint :: "completion \<Rightarrow> completion \<Rightarrow> bool" where
  "span_disjoint (f, l, ok) (f', l', ok') = (l < f' \<or> l' < f)"

text \<open>A history of completions: non-empty ranges from 1 up, no two of which overlap.\<close>

definition history_ok :: "completion list \<Rightarrow> bool" where
  "history_ok hs = (list_all span_wf hs \<and> sorted_wrt span_disjoint hs)"

fun seqs :: "completion \<Rightarrow> nat set" where
  "seqs (f, l, ok) = {unat f..unat l}"

definition covered :: "completion list \<Rightarrow> nat set" where
  "covered hs = (\<Union>c\<in>set hs. seqs c)"

fun complete_all :: "completion list \<Rightarrow> watermark \<Rightarrow> watermark" where
  "complete_all [] w = w"
| "complete_all ((f, l, ok) # hs) w = complete_all hs (complete f l ok w)"

text \<open>
  The invariant that relates \<open>written\<close> and \<open>wm_done\<close> to a set \<open>C\<close> of completed numbers.
\<close>

definition done_seqs :: "(u64 \<rightharpoonup> u64) \<Rightarrow> nat set" where
  "done_seqs d = (\<Union>f\<in>dom d. {unat f..unat (the (d f))})"

definition wm_shape :: "u64 \<Rightarrow> (u64 \<rightharpoonup> u64) \<Rightarrow> nat set \<Rightarrow> bool" where
  "wm_shape wr d C \<longleftrightarrow>
     C = {1..unat wr} \<union> done_seqs d \<and>
     (\<forall>f l. d f = Some l \<longrightarrow> unat wr < unat f \<and> unat f \<le> unat l) \<and>
     (\<forall>f l f' l'. d f = Some l \<longrightarrow> d f' = Some l' \<longrightarrow> f \<noteq> f' \<longrightarrow>
        unat l < unat f' \<or> unat l' < unat f)"

definition wm_inv :: "watermark \<Rightarrow> nat set \<Rightarrow> bool" where
  "wm_inv w C \<longleftrightarrow> wm_shape (written w) (wm_done w) C \<and> wm_done w (written w + 1) = None"

lemma unat_Suc_word: "unat (w :: u64) < unat (v :: u64) \<Longrightarrow> unat (w + 1) = unat w + 1"
  using unat_bound [of v] by (simp add: unat_word_ariths)

lemma done_seqs_upd_None:
  "d f = Some l \<Longrightarrow> done_seqs d = {unat f..unat l} \<union> done_seqs (d(f := None))"
  by (auto simp: done_seqs_def)

lemma wm_shape_advance_step:
  assumes sh: "wm_shape wr d C" and hit: "d (wr + 1) = Some l"
  shows "wm_shape l (d(wr + 1 := None)) C"
proof -
  from sh hit have lt: "unat wr < unat (wr + 1)" and le: "unat (wr + 1) \<le> unat l"
    by (auto simp: wm_shape_def)
  have suc: "unat (wr + 1) = unat wr + 1" using lt by (rule unat_Suc_word)
  have "{1..unat wr} \<union> {unat (wr + 1)..unat l} = {1..unat l}"
    using suc le by auto
  then have cov: "C = {1..unat l} \<union> done_seqs (d(wr + 1 := None))"
    using sh done_seqs_upd_None [of d, OF hit] by (auto simp: wm_shape_def)
  have rest: "unat l < unat f \<and> unat f \<le> unat l'"
    if "d f = Some l'" "f \<noteq> wr + 1" for f l'
  proof -
    from sh that hit have "unat l < unat f \<or> unat l' < unat (wr + 1)"
      and "unat wr < unat f" and le': "unat f \<le> unat l'"
      unfolding wm_shape_def by blast+
    then show ?thesis using suc by auto
  qed
  show ?thesis
    using sh cov rest by (auto simp: wm_shape_def split: if_splits)
qed

lemma advance_shape:
  "wm_shape wr d C \<Longrightarrow> advance wr d = (wr', d') \<Longrightarrow>
     wm_shape wr' d' C \<and> d' (wr' + 1) = None \<and> unat wr \<le> unat wr'"
proof (induction wr d rule: advance.induct)
  case (1 wr d)
  show ?case
  proof (cases "d (wr + 1)")
    case None
    with "1.prems" show ?thesis by (simp add: advance.simps [of wr d])
  next
    case (Some l)
    have sh: "wm_shape l (d(wr + 1 := None)) C"
      using "1.prems"(1) Some by (rule wm_shape_advance_step)
    have eq: "advance l (d(wr + 1 := None)) = (wr', d')"
      using "1.prems"(2) Some by (simp add: advance.simps [of wr d])
    have "unat wr \<le> unat l"
      using "1.prems"(1) Some by (fastforce simp: wm_shape_def)
    with "1.IH" [OF Some sh eq] show ?thesis by simp
  qed
qed

lemma wm_shape_insert:
  assumes sh: "wm_shape wr d C" and f: "0 < f" "f \<le> l"
    and disj: "{unat f..unat l} \<inter> C = {}"
  shows "wm_shape wr (d(f \<mapsto> l)) (C \<union> {unat f..unat l})"
proof -
  have ne: "unat f \<le> unat l" and pos: "0 < unat f"
    using f by (simp_all add: word_le_nat_alt word_less_nat_alt)
  have Ceq: "C = {1..unat wr} \<union> done_seqs d" using sh by (simp add: wm_shape_def)
  have gt: "unat wr < unat f"
    using disj ne pos unfolding Ceq by (cases "unat wr < unat f") auto
  have apart: "unat l < unat f' \<or> unat l' < unat f" if "d f' = Some l'" for f' l'
  proof -
    have le': "unat f' \<le> unat l'" using sh that by (simp add: wm_shape_def)
    have "{unat f'..unat l'} \<subseteq> C"
      using that unfolding Ceq by (force simp: done_seqs_def)
    then have "{unat f..unat l} \<inter> {unat f'..unat l'} = {}" using disj by blast
    then show ?thesis using ne le'
      by (metis (no_types, lifting) atLeastAtMost_iff disjoint_iff linorder_not_less nle_le order.trans)
  qed
  have fresh: "f \<notin> dom d"
  proof
    assume "f \<in> dom d"
    then obtain l' where "d f = Some l'" by blast
    with apart [OF this] sh ne show False by (force simp: wm_shape_def)
  qed
  have "done_seqs (d(f \<mapsto> l)) = done_seqs d \<union> {unat f..unat l}"
  proof -
    have "(d(f \<mapsto> l))(f := None) = d" using fresh by (auto simp: domIff fun_upd_idem)
    then show ?thesis using done_seqs_upd_None [of "d(f \<mapsto> l)" f l] by auto
  qed
  then show ?thesis
    using sh gt ne apart unfolding wm_shape_def
    by (auto split: if_splits)
qed

lemma complete_inv:
  assumes inv: "wm_inv w C" and c: "span_wf (f, l, ok)" and disj: "seqs (f, l, ok) \<inter> C = {}"
  shows "wm_inv (complete f l ok w) (C \<union> seqs (f, l, ok))"
proof -
  have "wm_shape (written w) ((wm_done w)(f \<mapsto> l)) (C \<union> {unat f..unat l})"
    using inv c disj by (intro wm_shape_insert) (auto simp: wm_inv_def)
  moreover obtain wr' d' where "advance (written w) ((wm_done w)(f \<mapsto> l)) = (wr', d')"
    by fastforce
  ultimately show ?thesis
    using advance_shape [of "written w" "(wm_done w)(f \<mapsto> l)"]
    by (simp add: complete_def wm_inv_def wake_def)
qed

lemma wm_inv_init: "wm_inv wm_init {}"
  by (simp add: wm_inv_def wm_shape_def wm_init_def done_seqs_def)

text \<open>The invariant determines \<open>written\<close>: it is the end of the longest completed prefix.\<close>

lemma wm_inv_written:
  assumes "wm_inv w C"
  shows "n \<le> unat (written w) \<longleftrightarrow> {1..n} \<subseteq> C"
proof
  assume "n \<le> unat (written w)"
  then show "{1..n} \<subseteq> C" using assms by (auto simp: wm_inv_def wm_shape_def)
next
  assume sub: "{1..n} \<subseteq> C"
  show "n \<le> unat (written w)"
  proof (rule ccontr)
    assume "\<not> n \<le> unat (written w)"
    then have "unat (written w) + 1 \<in> C" using sub by auto
    then obtain f l where fl: "wm_done w f = Some l"
      "unat f \<le> unat (written w) + 1" "unat (written w) + 1 \<le> unat l"
      using assms by (fastforce simp: wm_inv_def wm_shape_def done_seqs_def)
    with assms have lt: "unat (written w) < unat f" by (auto simp: wm_inv_def wm_shape_def)
    then have "unat f = unat (written w + 1)"
      using fl(2) unat_Suc_word [OF lt] by simp
    then have "f = written w + 1" by (simp add: word_unat_eq_iff)
    with fl(1) assms show False by (simp add: wm_inv_def)
  qed
qed

lemma span_disjoint_seqs:
  "span_wf c \<Longrightarrow> span_wf c' \<Longrightarrow> span_disjoint c c' \<Longrightarrow> seqs c \<inter> seqs c' = {}"
  by (cases c; cases c') (auto simp: word_less_nat_alt)

lemma complete_all_inv:
  "wm_inv w C \<Longrightarrow> history_ok hs \<Longrightarrow> covered hs \<inter> C = {} \<Longrightarrow>
     wm_inv (complete_all hs w) (C \<union> covered hs)"
proof (induction hs arbitrary: w C)
  case Nil
  then show ?case by (simp add: covered_def)
next
  case (Cons c hs)
  obtain f l ok where c: "c = (f, l, ok)" by (cases c)
  have wf: "span_wf c" and ok: "history_ok hs"
    using Cons.prems(2) by (auto simp: history_ok_def)
  have inv: "wm_inv (complete f l ok w) (C \<union> seqs c)"
    using Cons.prems(1,3) wf unfolding c by (intro complete_inv) (auto simp: covered_def)
  have "covered hs \<inter> seqs c = {}"
    using Cons.prems(2) span_disjoint_seqs [OF wf]
    by (fastforce simp: history_ok_def covered_def list_all_iff)
  then have "covered hs \<inter> (C \<union> seqs c) = {}"
    using Cons.prems(3) by (auto simp: covered_def)
  from Cons.IH [OF inv ok this] show ?case
    by (simp add: c covered_def Un_assoc)
qed

section \<open>What the watermark guarantees\<close>

text \<open>
  C1. However the workers' completions interleave, \<open>written\<close> is exactly the end of the
  longest run of sequence numbers from 1 whose batches have all completed: \<open>written\<close> has
  reached \<open>n\<close> if and only if every number up to \<open>n\<close> lies in a completed batch.
\<close>

theorem written_longest_completed_prefix:
  assumes "history_ok hs"
  shows "n \<le> unat (written (complete_all hs wm_init)) \<longleftrightarrow> {1..n} \<subseteq> covered hs"
proof -
  have "wm_inv (complete_all hs wm_init) ({} \<union> covered hs)"
    using wm_inv_init assms by (rule complete_all_inv) simp
  then show ?thesis by (simp add: wm_inv_written)
qed

lemma written_longest_completed_prefix_witness:
  "history_ok [(3, 4, True), (5, 6, True), (1, 2, True)] \<and>
   (6 \<le> unat (written (complete_all [(3, 4, True), (5, 6, True), (1, 2, True)] wm_init))
      \<longleftrightarrow> {1..6} \<subseteq> covered [(3, 4, True), (5, 6, True), (1, 2, True)])"
proof -
  have h: "history_ok [(3, 4, True), (5, 6, True), (1, 2, True)]"
    by (simp add: history_ok_def)
  show ?thesis using h written_longest_completed_prefix [OF h, of 6] by simp
qed

text \<open>The pending failures are the rejected ranges in the order they completed.\<close>

definition rejected :: "completion list \<Rightarrow> span list" where
  "rejected hs = [\<lparr>sp_first = f, sp_last = l\<rparr>. (f, l, ok) \<leftarrow> hs, \<not> ok]"

lemma failed_complete [simp]:
  "failed (complete f l ok w) = failed w @ rejected [(f, l, ok)]"
  by (simp add: complete_def wake_def rejected_def split: prod.splits)

lemma changed_complete [simp]: "changed (complete f l ok w) = Suc (changed w)"
  by (simp add: complete_def wake_def split: prod.splits)

lemma wm_closed_complete [simp]: "wm_closed (complete f l ok w) = wm_closed w"
  by (simp add: complete_def wake_def split: prod.splits)

lemma failed_complete_all:
  "failed (complete_all hs w) = failed w @ rejected hs"
  by (induction hs arbitrary: w) (auto simp: rejected_def)

lemma written_complete_mono:
  assumes "wm_inv w C" and "span_wf (f, l, ok)" and "seqs (f, l, ok) \<inter> C = {}"
  shows "written w \<le> written (complete f l ok w)"
proof -
  have "{1..unat (written w)} \<subseteq> C"
    using wm_inv_written [OF assms(1), of "unat (written w)"] by simp
  then have "{1..unat (written w)} \<subseteq> C \<union> seqs (f, l, ok)" by blast
  then show ?thesis
    using wm_inv_written [OF complete_inv [OF assms]] by (simp add: word_le_nat_alt)
qed

lemma sorted_hd_le:
  "sorted (map f xs) \<Longrightarrow> x \<in> set xs \<Longrightarrow> f (hd xs) \<le> f x"
  by (cases xs) auto

lemma await_try_Return_None:
  "await_try seq w = (Return None, w') \<longleftrightarrow>
     w' = w \<and> seq \<le> written w \<and> (failed w = [] \<or> seq < sp_first (hd (failed w)))"
  by (auto simp: await_try_def not_le)

text \<open>
  C21. The acknowledgement a pull source acts on: where the pending failures are in
  sequence order, \<open>await\<close> returns success for \<open>seq\<close> only if everything up to \<open>seq\<close> has been
  through the sinks and no rejected batch that starts at or below \<open>seq\<close> is unreported, and
  it then leaves the watermark as it was.
\<close>

theorem await_success_means_durable:
  assumes "sorted (map sp_first (failed w))" and "await_try seq w = (Return None, w')"
  shows "w' = w \<and> seq \<le> written w \<and> (\<forall>s\<in>set (failed w). seq < sp_first s)"
proof -
  have "seq < sp_first s" if "s \<in> set (failed w)" for s
    using assms that sorted_hd_le [of sp_first "failed w" s]
    by (fastforce simp: await_try_Return_None)
  with assms(2) show ?thesis by (simp add: await_try_Return_None)
qed

lemma await_success_means_durable_witness:
  "sorted (map sp_first (failed (complete_all [(1, 2, True), (3, 4, False)] wm_init))) \<and>
   fst (await_try 2 (complete_all [(1, 2, True), (3, 4, False)] wm_init)) = Return None \<and>
   filter (\<lambda>s. sp_first s \<le> 2) (failed (complete_all [(1, 2, True), (3, 4, False)] wm_init)) = []"
proof -
  let ?w = "complete_all [(1, 2, True), (3, 4, False)] wm_init"
  have f: "failed ?w = [\<lparr>sp_first = 3, sp_last = 4\<rparr>]"
    by (simp add: rejected_def wm_init_def)
  then have s: "sorted (map sp_first (failed ?w))" by simp
  have "written ?w = 4"
    by (simp add: complete_def wm_init_def wake_def advance.simps)
  with f have a: "await_try 2 ?w = (Return None, ?w)"
    by (simp add: await_try_def)
  show ?thesis using s a await_success_means_durable [OF s a] by (simp add: filter_empty_conv not_le)
qed

text \<open>
  A failure is reported once and only what it covers is forgotten: when \<open>await\<close>
  returns \<open>ErrWriteFailed\<close> for \<open>seq\<close> there was a pending rejected range at or below
  \<open>seq\<close>, every pending range at or below \<open>seq\<close> is dropped, every later one is kept, and
  asking again for \<open>seq\<close> no longer fails.
\<close>

theorem await_failure_reported_once:
  assumes "await_try seq w = (Return (Some ErrWriteFailed), w')"
  shows "(\<exists>s\<in>set (failed w). sp_first s \<le> seq) \<and>
         failed w' = filter (\<lambda>s. seq < sp_first s) (failed w) \<and>
         written w' = written w \<and> wm_done w' = wm_done w \<and>
         fst (await_try seq w') \<noteq> Return (Some ErrWriteFailed)"
proof -
  have c: "failed w \<noteq> []" "sp_first (hd (failed w)) \<le> seq"
    and w': "w' = w\<lparr>failed := filter (\<lambda>f. seq < sp_first f) (failed w)\<rparr>"
    using assms by (auto simp: await_try_def split: if_splits)
  have "seq < sp_first (hd (failed w'))" if "failed w' \<noteq> []"
    using that w' hd_filter_P [of "\<lambda>f. seq < sp_first f" "failed w"] by simp
  then have "fst (await_try seq w') \<noteq> Return (Some ErrWriteFailed)"
    by (auto simp: await_try_def split: if_splits)
  with c w' show ?thesis by (auto intro: bexI [of _ "hd (failed w)"])
qed

lemma await_failure_reported_once_witness:
  "fst (await_try 6 (complete_all [(1, 2, True), (3, 4, False), (5, 6, True)] wm_init))
     = Return (Some ErrWriteFailed) \<and>
   fst (await_try 6 (snd (await_try 6
     (complete_all [(1, 2, True), (3, 4, False), (5, 6, True)] wm_init))))
     \<noteq> Return (Some ErrWriteFailed)"
proof -
  let ?w = "complete_all [(1, 2, True), (3, 4, False), (5, 6, True)] wm_init"
  have r: "fst (await_try 6 ?w) = Return (Some ErrWriteFailed)"
    by (simp add: await_try_def rejected_def wm_init_def)
  then have "await_try 6 ?w = (Return (Some ErrWriteFailed), snd (await_try 6 ?w))"
    by (simp add: prod_eq_iff)
  from await_failure_reported_once [OF this] r show ?thesis by blast
qed

text \<open>
  Out-of-order completions defeat the report. \<open>failed\<close> is in completion order while
  \<open>await\<close> looks only at its first entry, so when a later batch is rejected before an
  earlier one, waiting for the earlier one succeeds although a sink rejected it and nobody
  has been told. Here batch 3-4 and then batch 1-2 are rejected, and \<open>await\<close> of 2 returns
  success.
\<close>

lemma await_misses_out_of_order_failure:
  "let w = complete_all [(3, 4, False), (1, 2, False)] wm_init
   in await_try 2 w = (Return None, w) \<and>
      \<lparr>sp_first = 1, sp_last = 2\<rparr> \<in> set (failed w)"
proof -
  let ?w = "complete_all [(3, 4, False), (1, 2, False)] wm_init"
  have "written ?w = 4"
    by (simp add: complete_def wm_init_def wake_def advance.simps)
  then show ?thesis
    by (simp add: Let_def await_try_Return_None rejected_def wm_init_def)
qed

lemma await_returns:
  "(\<exists>e\<in>set es. e = CtxDone \<or>
      (\<exists>w'. e = Woken w' \<and> (seq \<le> written w' \<or> wm_closed w'))) \<Longrightarrow>
   await seq es w \<noteq> None"
proof (induction es arbitrary: w)
  case Nil
  then show ?case by simp
next
  case (Cons e es)
  have here: "await seq es' w' \<noteq> None" if "seq \<le> written w' \<or> wm_closed w'" for es' w'
    using that by (cases es') (auto simp: await_try_def)
  show ?case
  proof (cases "\<exists>w'. e = Woken w' \<and> \<not> (seq \<le> written w' \<or> wm_closed w')")
    case True
    then obtain w' where e: "e = Woken w'" by blast
    with Cons.prems True have "await seq es w' \<noteq> None" by (intro Cons.IH) auto
    then show ?thesis by (simp add: e split: prod.splits await_outcome.splits)
  next
    case False
    then show ?thesis using here
      by (auto split: prod.splits await_outcome.splits select_event.splits)
  qed
qed

text \<open>
  No wake-up is lost and no waiter is stranded. A waiter that blocks on channel
  \<open>g\<close> is made runnable by the next completion and by closing, since both replace the
  channel; and \<open>await\<close> returns as soon as its context ends or one of the wake-ups finds
  \<open>written\<close> at \<open>seq\<close> or the watermark closed.
\<close>

theorem await_no_lost_wakeup:
  "(fst (await_try seq w) = Block g \<longrightarrow>
      changed (complete f l ok w) \<noteq> g \<and> changed (wm_close w) \<noteq> g) \<and>
   ((\<exists>e\<in>set es. e = CtxDone \<or>
      (\<exists>w'. e = Woken w' \<and> (seq \<le> written w' \<or> wm_closed w'))) \<longrightarrow>
    await seq es w \<noteq> None)"
proof -
  have "g = changed w" if "fst (await_try seq w) = Block g"
    using that by (auto simp: await_try_def split: if_splits)
  moreover have "changed (wm_close w) = Suc (changed w)"
    by (simp add: wm_close_def wake_def)
  ultimately show ?thesis using await_returns by auto
qed

lemma await_no_lost_wakeup_witness:
  "fst (await_try 2 wm_init) = Block 0 \<and> changed (complete 1 2 True wm_init) \<noteq> 0 \<and>
   await 2 [Woken (complete 1 2 True wm_init)] wm_init \<noteq> None"
proof -
  let ?w = "complete 1 2 True wm_init"
  have b: "fst (await_try 2 wm_init) = Block 0"
    by (simp add: await_try_def wm_init_def)
  have "written ?w = 2"
    by (simp add: complete_def wm_init_def wake_def advance.simps)
  then have "\<exists>e\<in>set [Woken ?w]. e = CtxDone \<or>
      (\<exists>w'. e = Woken w' \<and> (2 \<le> written w' \<or> wm_closed w'))"
    by simp
  with b show ?thesis
    using await_no_lost_wakeup [of 2 wm_init 0 1 2 True "[Woken ?w]"] by blast
qed

end
