(* ===== verification/Pipeline.thy ===== *)
theory Pipeline
  imports Watermark
begin

text \<open>
  \<open>internal/pipeline/pipeline.go\<close>: the bounded buffer, the batcher and the worker pool.
  The record \<open>Pipeline\<close> holds the struct's fields and the metrics the package touches; its
  extension \<open>Run\<close> adds the local state of \<open>Run\<close> (the pending batch, the counters, where
  the batcher goroutine stands, what each worker goroutine holds). Every operation is a
  function on these records; the goroutines' interleavings are the relation of theory
  Pipeline_Steps. Time is not counted: the batch timer may fire at any moment.
\<close>

section \<open>Options, batches, metrics\<close>

record Options =
  BufferSize :: int
  BatchSize :: int
  BatchInterval :: duration
  Workers :: int
  WriteTimeout :: duration

record batch =
  b_records :: "FlowRecord list"
  b_first :: u64
  b_last :: u64

record metrics =
  RecordsIngested :: "string \<Rightarrow> nat"
  RecordsDropped :: "string \<Rightarrow> nat"
  BatchWriteDuration :: "string \<Rightarrow> nat"
  BatchWriteErrors :: "string \<Rightarrow> nat"
  PipelineBufferLength :: nat
  RecordVisibilityLag :: "duration list"

definition DropBufferFull :: string where "DropBufferFull = ''buffer_full''"
definition DropShutdown :: string where "DropShutdown = ''shutdown''"

definition inc :: "string \<Rightarrow> (string \<Rightarrow> nat) \<Rightarrow> string \<Rightarrow> nat" where
  "inc l c = c(l := Suc (c l))"

definition zero_metrics :: metrics where
  "zero_metrics = \<lparr>RecordsIngested = (\<lambda>_. 0), RecordsDropped = (\<lambda>_. 0),
     BatchWriteDuration = (\<lambda>_. 0), BatchWriteErrors = (\<lambda>_. 0),
     PipelineBufferLength = 0, RecordVisibilityLag = []\<rparr>"

record Pipeline =
  opts :: Options
  sinks :: "string list"
  buf :: "FlowRecord list"
  closing :: bool
  next_seq :: u64
  space :: bool
  wm :: watermark
  obs :: metrics

datatype new_error = InvalidOptions | NoSinks

definition New :: "Options \<Rightarrow> string list \<Rightarrow> new_error + Pipeline" where
  "New os ss =
     (if BufferSize os < 1 \<or> BatchSize os < 1 \<or> BatchInterval os \<le> 0 \<or> Workers os < 1
      then Inl InvalidOptions
      else let os' = (if WriteTimeout os \<le> 0 then os\<lparr>WriteTimeout := 30 * Second\<rparr> else os)
           in if ss = [] then Inl NoSinks
              else Inr \<lparr>opts = os', sinks = ss, buf = [], closing = False, next_seq = 0,
                        space = False, wm = wm_init, obs = zero_metrics\<rparr>)"

section \<open>Offering\<close>

text \<open>
  \<open>tryOffer\<close> holds \<open>offerMu\<close> throughout, so it is one step. Its result is the sequence
  number and whether the record was buffered.
\<close>

definition tryOffer :: "FlowRecord \<Rightarrow> 'a Pipeline_scheme \<Rightarrow> (u64 \<times> bool) \<times> 'a Pipeline_scheme" where
  "tryOffer rec p =
     (case chan_try_send (nat (BufferSize (opts p))) (buf p) rec of
        Some b \<Rightarrow>
          (let p' = p\<lparr>buf := b, next_seq := next_seq p + 1,
                      obs := (obs p)\<lparr>PipelineBufferLength := length b\<rparr>\<rparr>
           in ((next_seq p', True), p'))
      | None \<Rightarrow> ((0, False), p))"

text \<open>
  \<open>Offer\<close> reads \<open>closing\<close> and then calls \<open>tryOffer\<close>; \<open>offer_open\<close> is what follows when
  the flag was clear.
\<close>

definition count_ingested :: "string \<Rightarrow> 'a Pipeline_scheme \<Rightarrow> 'a Pipeline_scheme" where
  "count_ingested source p =
     p\<lparr>obs := (obs p)\<lparr>RecordsIngested := inc source (RecordsIngested (obs p))\<rparr>\<rparr>"

definition count_dropped :: "string \<Rightarrow> 'a Pipeline_scheme \<Rightarrow> 'a Pipeline_scheme" where
  "count_dropped reason p =
     p\<lparr>obs := (obs p)\<lparr>RecordsDropped := inc reason (RecordsDropped (obs p))\<rparr>\<rparr>"

definition offer_open :: "string \<Rightarrow> FlowRecord \<Rightarrow> 'a Pipeline_scheme \<Rightarrow> bool \<times> 'a Pipeline_scheme" where
  "offer_open source rec p =
     (case tryOffer rec p of
        ((_, True), p') \<Rightarrow> (True, count_ingested source p')
      | ((_, False), p') \<Rightarrow> (False, count_dropped DropBufferFull p'))"

definition Offer :: "string \<Rightarrow> FlowRecord \<Rightarrow> 'a Pipeline_scheme \<Rightarrow> bool \<times> 'a Pipeline_scheme" where
  "Offer source rec p =
     (if closing p then (False, count_dropped DropShutdown p) else offer_open source rec p)"

text \<open>
  One round of the loop of \<open>intake.Offer\<close>: an error when the pipeline is closing, the
  sequence number when the record was buffered, or \<open>None\<close>, to wait for \<open>space\<close> or the
  end of the context. \<open>intake_open\<close> is what follows when \<open>closing\<close> was clear.
\<close>

definition intake_open :: "string \<Rightarrow> FlowRecord \<Rightarrow> 'a Pipeline_scheme \<Rightarrow> u64 option \<times> 'a Pipeline_scheme" where
  "intake_open source rec p =
     (case tryOffer rec p of
        ((seq, True), p') \<Rightarrow> (Some seq, count_ingested source p')
      | ((_, False), p') \<Rightarrow> (None, p'))"

definition intake_round :: "string \<Rightarrow> FlowRecord \<Rightarrow> 'a Pipeline_scheme \<Rightarrow>
    (flow_error + u64) option \<times> 'a Pipeline_scheme" where
  "intake_round source rec p =
     (if closing p then (Some (Inl (ErrOther ''pipeline: closing'')), p)
      else case intake_open source rec p of (r, p') \<Rightarrow> (map_option Inr r, p'))"

text \<open>The \<open>select\<close> of \<open>intake.Offer\<close> on the one-slot channel \<open>space\<close>.\<close>

definition recv_space :: "'a Pipeline_scheme \<Rightarrow> 'a Pipeline_scheme option" where
  "recv_space p = (if space p then Some (p\<lparr>space := False\<rparr>) else None)"

definition Written :: "u64 \<Rightarrow> select_event list \<Rightarrow> 'a Pipeline_scheme \<Rightarrow>
    (flow_error option \<times> 'a Pipeline_scheme) option" where
  "Written seq es p = map_option (\<lambda>(r, w). (r, p\<lparr>wm := w\<rparr>)) (await seq es (wm p))"

section \<open>The batcher and the workers\<close>

text \<open>
  Where the goroutine of \<open>Run\<close> stands. \<open>Sending c\<close> is the blocking send of \<open>flush\<close> on the
  unbuffered channel \<open>batches\<close>, with \<open>c\<close> what it goes on with.
\<close>

datatype cont = ToLoop | ToDrain | ToClose

datatype run_pc = Looping | Sending cont | Draining | ClosingBatches | WaitingWorkers | Returned

fun resume :: "cont \<Rightarrow> run_pc" where
  "resume ToLoop = Looping"
| "resume ToDrain = Draining"
| "resume ToClose = ClosingBatches"

datatype worker = Idle | Busy batch | Wrote batch bool

record Run = Pipeline +
  pending :: "FlowRecord list"
  taken :: u64
  run_first :: u64
  pc :: run_pc
  workers :: "worker list"

definition start_run :: "Pipeline \<Rightarrow> Run" where
  "start_run p =
     \<lparr>opts = opts p, sinks = sinks p, buf = buf p, closing = closing p,
      next_seq = next_seq p, space = space p, wm = wm p, obs = obs p,
      pending = [], taken = 0, run_first = 1, pc = Looping,
      workers = replicate (nat (Workers (opts p))) Idle\<rparr>"

definition take_rec :: "FlowRecord \<Rightarrow> 'a Run_scheme \<Rightarrow> 'a Run_scheme" where
  "take_rec rec s = s\<lparr>taken := taken s + 1, pending := pending s @ [rec], space := True\<rparr>"

text \<open>\<open>flush\<close> up to its send: nothing to do when nothing is pending.\<close>

definition flush :: "cont \<Rightarrow> 'a Run_scheme \<Rightarrow> 'a Run_scheme" where
  "flush c s = (if pending s = [] then s\<lparr>pc := resume c\<rparr> else s\<lparr>pc := Sending c\<rparr>)"

definition current_batch :: "'a Run_scheme \<Rightarrow> batch" where
  "current_batch s = \<lparr>b_records = pending s, b_first = run_first s, b_last = taken s\<rparr>"

text \<open>The send meets the receive of idle worker \<open>i\<close>; \<open>flush\<close> then resets its locals.\<close>

definition hand_over :: "nat \<Rightarrow> cont \<Rightarrow> 'a Run_scheme \<Rightarrow> 'a Run_scheme" where
  "hand_over i c s =
     s\<lparr>workers := (workers s)[i := Busy (current_batch s)],
       run_first := taken s + 1, pending := [], pc := resume c\<rparr>"

definition batch_full :: "'a Run_scheme \<Rightarrow> bool" where
  "batch_full s \<longleftrightarrow> int (length (pending s)) \<ge> BatchSize (opts s)"

text \<open>\<open>case rec := <-p.buf\<close> of the main loop, and the same case of the drain loop.\<close>

definition loop_take :: "FlowRecord \<Rightarrow> FlowRecord list \<Rightarrow> 'a Run_scheme \<Rightarrow> 'a Run_scheme" where
  "loop_take rec rest s =
     (let s1 = take_rec rec (s\<lparr>buf := rest, obs := (obs s)\<lparr>PipelineBufferLength := length rest\<rparr>\<rparr>)
      in if batch_full s1 then flush ToLoop s1 else s1)"

definition drain_take :: "FlowRecord \<Rightarrow> FlowRecord list \<Rightarrow> 'a Run_scheme \<Rightarrow> 'a Run_scheme" where
  "drain_take rec rest s =
     (let s1 = take_rec rec (s\<lparr>buf := rest\<rparr>)
      in if batch_full s1 then flush ToDrain s1 else s1)"

definition stop_loop :: "'a Run_scheme \<Rightarrow> 'a Run_scheme" where
  "stop_loop s = s\<lparr>closing := True, pc := Draining\<rparr>"

definition close_batches :: "'a Run_scheme \<Rightarrow> 'a Run_scheme" where
  "close_batches s = s\<lparr>obs := (obs s)\<lparr>PipelineBufferLength := 0\<rparr>, pc := WaitingWorkers\<rparr>"

definition finish_run :: "'a Run_scheme \<Rightarrow> 'a Run_scheme" where
  "finish_run s = s\<lparr>wm := wm_close (wm s), pc := Returned\<rparr>"

text \<open>
  \<open>write\<close> (here \<open>fan_out\<close>): one \<open>WriteBatch\<close> per sink, whose outcomes are given in the order of \<open>sinks\<close>
  (\<open>True\<close>: no error). All of them are awaited; the result is whether every sink succeeded.
\<close>

fun write_metrics :: "string list \<Rightarrow> bool list \<Rightarrow> metrics \<Rightarrow> metrics" where
  "write_metrics (s # ss) (ok # oks) m =
     write_metrics ss oks
       (let m' = m\<lparr>BatchWriteDuration := inc s (BatchWriteDuration m)\<rparr>
        in if ok then m' else m'\<lparr>BatchWriteErrors := inc s (BatchWriteErrors m')\<rparr>)"
| "write_metrics _ _ m = m"

definition fan_out :: "time \<Rightarrow> FlowRecord list \<Rightarrow> bool list \<Rightarrow> 'a Pipeline_scheme \<Rightarrow> bool \<times> 'a Pipeline_scheme" where
  "fan_out now records oks p =
     (let m = write_metrics (sinks p) oks (obs p);
          succeeded = length (filter id oks)
      in if succeeded = 0 then (False, p\<lparr>obs := m\<rparr>)
         else (succeeded = length (sinks p),
               p\<lparr>obs := m\<lparr>RecordVisibilityLag :=
                   RecordVisibilityLag m @ map (\<lambda>r. now - ReceivedAt r) records\<rparr>\<rparr>))"

text \<open>The body of a worker's loop, in its two halves.\<close>

definition worker_write :: "nat \<Rightarrow> time \<Rightarrow> batch \<Rightarrow> bool list \<Rightarrow> 'a Run_scheme \<Rightarrow> 'a Run_scheme" where
  "worker_write i now b oks s =
     (case fan_out now (b_records b) oks s of
        (ok, s') \<Rightarrow> s'\<lparr>workers := (workers s')[i := Wrote b ok]\<rparr>)"

definition worker_complete :: "nat \<Rightarrow> batch \<Rightarrow> bool \<Rightarrow> 'a Run_scheme \<Rightarrow> 'a Run_scheme" where
  "worker_complete i b ok s =
     s\<lparr>wm := complete (b_first b) (b_last b) ok (wm s), workers := (workers s)[i := Idle]\<rparr>"

section \<open>Each operation on every branch\<close>

lemma New_ok:
  "New os ss = Inr p \<Longrightarrow>
     1 \<le> BufferSize (opts p) \<and> 1 \<le> BatchSize (opts p) \<and> 0 < BatchInterval (opts p) \<and>
     1 \<le> Workers (opts p) \<and> 0 < WriteTimeout (opts p) \<and> sinks p \<noteq> [] \<and> buf p = [] \<and>
     \<not> closing p \<and> next_seq p = 0 \<and> wm p = wm_init \<and> obs p = zero_metrics"
  by (auto simp: New_def Let_def time_units split: if_splits)

lemma tryOffer_cases:
  obtains (buffered) "length (buf p) < nat (BufferSize (opts p))"
      "tryOffer rec p = ((next_seq p + 1, True),
         p\<lparr>buf := buf p @ [rec], next_seq := next_seq p + 1,
           obs := (obs p)\<lparr>PipelineBufferLength := Suc (length (buf p))\<rparr>\<rparr>)"
    | (full) "nat (BufferSize (opts p)) \<le> length (buf p)" "tryOffer rec p = ((0, False), p)"
  by (cases "length (buf p) < nat (BufferSize (opts p))")
    (auto simp: tryOffer_def chan_try_send_def Let_def)

lemma fan_out_result:
  assumes "length oks = length (sinks p)" and "sinks p \<noteq> []"
  shows "fst (fan_out now rs oks p) \<longleftrightarrow> (\<forall>ok\<in>set oks. ok)"
proof -
  have "length (filter id oks) = length oks \<longleftrightarrow> (\<forall>ok\<in>set oks. ok)"
    by (metis (mono_tags, lifting) filter_True filter_id_conv id_apply length_filter_less
        nat_less_le)
  then show ?thesis using assms by (auto simp: fan_out_def Let_def)
qed

end
