(* ===== verification/Pipeline_Steps.thy ===== *)
theory Pipeline_Steps
  imports Pipeline "HOL-Library.Multiset"
begin

text \<open>
  The goroutines of a running pipeline interleaved: calls of \<open>Offer\<close> and \<open>intake.Offer\<close>,
  the goroutine of \<open>Run\<close>, its workers, and waiters on the watermark. Each rule of \<open>step\<close>
  is one atomic section of one goroutine and uses the operations of theory Pipeline. The
  record \<open>World\<close> adds the calls in flight, and a log of what happened, which no operation
  reads: the records accepted, the batches handed to workers, the batches completed, the
  rejected ranges waiters were told of, and what each sink has been given successfully.
\<close>

datatype offer = PushSend string FlowRecord
  | PullTry string FlowRecord | PullSend string FlowRecord | PullWait string FlowRecord

record World = Run +
  inflight :: "offer list"
  offered :: nat
  accepted :: "FlowRecord list"
  accepted_by :: "(bool \<times> string) list"
  handed :: "batch list"
  completed :: "(batch \<times> bool) list"
  reported :: "span list"
  sink_log :: "nat \<Rightarrow> batch list"

definition world_init :: "Pipeline \<Rightarrow> World" where
  "world_init p =
     (let r = start_run p in
      \<lparr>opts = opts r, sinks = sinks r, buf = buf r, closing = closing r,
       next_seq = next_seq r, space = space r, wm = wm r, obs = obs r,
       pending = pending r, taken = taken r, run_first = run_first r, pc = pc r,
       workers = workers r,
       inflight = [], offered = 0, accepted = [], accepted_by = [],
       handed = [], completed = [], reported = [], sink_log = (\<lambda>_. [])\<rparr>)"

text \<open>What is logged when a record has been buffered, and when a batch has been written.\<close>

definition log_accept :: "bool \<Rightarrow> string \<Rightarrow> FlowRecord \<Rightarrow> World \<Rightarrow> World" where
  "log_accept push src rec s =
     s\<lparr>accepted := accepted s @ [rec], accepted_by := accepted_by s @ [(push, src)]\<rparr>"

definition log_writes :: "batch \<Rightarrow> bool list \<Rightarrow> World \<Rightarrow> World" where
  "log_writes b oks s =
     s\<lparr>sink_log := (\<lambda>i. if i < length oks \<and> oks ! i then sink_log s i @ [b] else sink_log s i)\<rparr>"

text \<open>The rejected ranges a waiter has just been told about.\<close>

definition told :: "await_outcome \<Rightarrow> u64 \<Rightarrow> span list \<Rightarrow> span list" where
  "told r seq fs =
     (if r = Return (Some ErrWriteFailed) then filter (\<lambda>f. sp_first f \<le> seq) fs else [])"

inductive step :: "World \<Rightarrow> World \<Rightarrow> bool" where
  push_refused:
    "closing s \<Longrightarrow> Offer src rec s = (r, t) \<Longrightarrow> step s (t\<lparr>offered := Suc (offered t)\<rparr>)"
| push_enter:
    "\<not> closing s \<Longrightarrow>
     step s (s\<lparr>inflight := PushSend src rec # inflight s, offered := Suc (offered s)\<rparr>)"
| push_buffered:
    "inflight s = xs @ PushSend src rec # ys \<Longrightarrow>
     offer_open src rec (s\<lparr>inflight := xs @ ys\<rparr>) = (True, t) \<Longrightarrow>
     step s (log_accept True src rec t)"
| push_dropped:
    "inflight s = xs @ PushSend src rec # ys \<Longrightarrow>
     offer_open src rec (s\<lparr>inflight := xs @ ys\<rparr>) = (False, t) \<Longrightarrow> step s t"
| pull_enter:
    "step s (s\<lparr>inflight := PullTry src rec # inflight s\<rparr>)"
| pull_closing:
    "inflight s = xs @ PullTry src rec # ys \<Longrightarrow> closing s \<Longrightarrow>
     step s (s\<lparr>inflight := xs @ ys\<rparr>)"
| pull_open:
    "inflight s = xs @ PullTry src rec # ys \<Longrightarrow> \<not> closing s \<Longrightarrow>
     step s (s\<lparr>inflight := xs @ PullSend src rec # ys\<rparr>)"
| pull_buffered:
    "inflight s = xs @ PullSend src rec # ys \<Longrightarrow>
     intake_open src rec (s\<lparr>inflight := xs @ ys\<rparr>) = (Some seq, t) \<Longrightarrow>
     step s (log_accept False src rec t)"
| pull_full:
    "inflight s = xs @ PullSend src rec # ys \<Longrightarrow>
     intake_open src rec (s\<lparr>inflight := xs @ PullWait src rec # ys\<rparr>) = (None, t) \<Longrightarrow>
     step s t"
| pull_wake:
    "inflight s = xs @ PullWait src rec # ys \<Longrightarrow>
     recv_space (s\<lparr>inflight := xs @ PullTry src rec # ys\<rparr>) = Some t \<Longrightarrow> step s t"
| pull_cancel:
    "inflight s = xs @ PullWait src rec # ys \<Longrightarrow> step s (s\<lparr>inflight := xs @ ys\<rparr>)"
| run_take:
    "pc s = Looping \<Longrightarrow> chan_try_recv (buf s) = Some (rec, rest) \<Longrightarrow>
     step s (loop_take rec rest s)"
| run_timer:
    "pc s = Looping \<Longrightarrow> step s (flush ToLoop s)"
| run_cancel:
    "pc s = Looping \<Longrightarrow> step s (stop_loop s)"
| run_drain:
    "pc s = Draining \<Longrightarrow> chan_try_recv (buf s) = Some (rec, rest) \<Longrightarrow>
     step s (drain_take rec rest s)"
| run_drained:
    "pc s = Draining \<Longrightarrow> chan_try_recv (buf s) = None \<Longrightarrow> step s (flush ToClose s)"
| run_hand:
    "pc s = Sending c \<Longrightarrow> i < length (workers s) \<Longrightarrow> workers s ! i = Idle \<Longrightarrow>
     step s ((hand_over i c s)\<lparr>handed := handed s @ [current_batch s]\<rparr>)"
| run_close:
    "pc s = ClosingBatches \<Longrightarrow> step s (close_batches s)"
| run_finish:
    "pc s = WaitingWorkers \<Longrightarrow> \<forall>i<length (workers s). workers s ! i = Idle \<Longrightarrow>
     step s (finish_run s)"
| worker_writes:
    "i < length (workers s) \<Longrightarrow> workers s ! i = Busy b \<Longrightarrow> length oks = length (sinks s) \<Longrightarrow>
     step s (log_writes b oks (worker_write i now b oks s))"
| worker_completes:
    "i < length (workers s) \<Longrightarrow> workers s ! i = Wrote b ok \<Longrightarrow>
     step s ((worker_complete i b ok s)\<lparr>completed := completed s @ [(b, ok)]\<rparr>)"
| awaiting:
    "await_try seq (wm s) = (r, w) \<Longrightarrow>
     step s (s\<lparr>wm := w, reported := reported s @ told r seq (failed (wm s))\<rparr>)"

inductive_cases step_to: "step s t"

inductive reachable :: "Pipeline \<Rightarrow> World \<Rightarrow> bool" for p where
  start: "reachable p (world_init p)"
| more: "reachable p s \<Longrightarrow> step s t \<Longrightarrow> reachable p t"

lemma reachable_induct_inv:
  assumes "reachable p s" and "I (world_init p)"
    and "\<And>s t. reachable p s \<Longrightarrow> I s \<Longrightarrow> step s t \<Longrightarrow> I t"
  shows "I s"
  using assms(1) by (induction rule: reachable.induct) (use assms(2,3) in auto)

section \<open>Operations as equations\<close>

lemma offer_open_True:
  "offer_open src rec p = (True, t) \<longleftrightarrow>
     length (buf p) < nat (BufferSize (opts p)) \<and>
     t = count_ingested src (p\<lparr>buf := buf p @ [rec], next_seq := next_seq p + 1,
           obs := (obs p)\<lparr>PipelineBufferLength := Suc (length (buf p))\<rparr>\<rparr>)"
  by (auto simp: offer_open_def tryOffer_def chan_try_send_def Let_def)

lemma offer_open_False:
  "offer_open src rec p = (False, t) \<longleftrightarrow>
     nat (BufferSize (opts p)) \<le> length (buf p) \<and> t = count_dropped DropBufferFull p"
  by (auto simp: offer_open_def tryOffer_def chan_try_send_def Let_def)

lemma intake_open_Some:
  "intake_open src rec p = (Some seq, t) \<longleftrightarrow>
     length (buf p) < nat (BufferSize (opts p)) \<and> seq = next_seq p + 1 \<and>
     t = count_ingested src (p\<lparr>buf := buf p @ [rec], next_seq := next_seq p + 1,
           obs := (obs p)\<lparr>PipelineBufferLength := Suc (length (buf p))\<rparr>\<rparr>)"
  by (auto simp: intake_open_def tryOffer_def chan_try_send_def Let_def)

lemma intake_open_None:
  "intake_open src rec p = (None, t) \<longleftrightarrow> nat (BufferSize (opts p)) \<le> length (buf p) \<and> t = p"
  by (auto simp: intake_open_def tryOffer_def chan_try_send_def Let_def)

lemma fan_out_frame:
  "snd (fan_out now rs oks p) = p\<lparr>obs := obs (snd (fan_out now rs oks p))\<rparr>"
  by (simp add: fan_out_def Let_def)

lemma worker_write_eq:
  "worker_write i now b oks s =
     s\<lparr>obs := obs (snd (fan_out now (b_records b) oks s)),
       workers := (workers s)[i := Wrote b (fst (fan_out now (b_records b) oks s))]\<rparr>"
  by (simp add: worker_write_def fan_out_def Let_def)

lemma recv_space_Some: "recv_space p = Some t \<longleftrightarrow> space p \<and> t = p\<lparr>space := False\<rparr>"
  by (auto simp: recv_space_def)

lemmas step_eqs = offer_open_True offer_open_False intake_open_Some intake_open_None
  worker_write_eq recv_space_Some count_ingested_def count_dropped_def log_accept_def
  log_writes_def chan_simps

lemmas run_defs = take_rec_def flush_def current_batch_def hand_over_def loop_take_def
  drain_take_def stop_loop_def close_batches_def finish_run_def worker_complete_def Let_def

section \<open>Invariants of every interleaving\<close>

text \<open>The configuration and the number of workers never change.\<close>

lemma step_static:
  "step s t \<Longrightarrow> opts t = opts s \<and> sinks t = sinks s \<and> length (workers t) = length (workers s)"
  by (erule step.cases) (auto simp: step_eqs run_defs Offer_def)

lemma reachable_static:
  "reachable p s \<Longrightarrow>
     opts s = opts p \<and> sinks s = sinks p \<and> length (workers s) = nat (Workers (opts p))"
  by (induction rule: reachable.induct)
    (auto simp: world_init_def start_run_def Let_def dest!: step_static)

text \<open>The buffer and the pending batch stay within their configured sizes.\<close>

definition sizes_ok :: "World \<Rightarrow> bool" where
  "sizes_ok s \<longleftrightarrow>
     length (buf s) \<le> nat (BufferSize (opts s)) \<and>
     int (length (pending s)) \<le> BatchSize (opts s) \<and>
     (pc s = Looping \<or> pc s = Draining \<longrightarrow> int (length (pending s)) < BatchSize (opts s)) \<and>
     (\<forall>b\<in>set (handed s). int (length (b_records b)) \<le> BatchSize (opts s)) \<and>
     1 \<le> BatchSize (opts s)"

lemma step_sizes_ok: "step s t \<Longrightarrow> sizes_ok s \<Longrightarrow> sizes_ok t"
  by (erule step.cases)
    (auto simp: step_eqs run_defs sizes_ok_def Offer_def batch_full_def split: if_splits)

text \<open>Where the batcher stands, what is pending and whether offers are refused.\<close>

definition phase_ok :: "World \<Rightarrow> bool" where
  "phase_ok s \<longleftrightarrow>
     (\<forall>c. pc s = Sending c \<longrightarrow> pending s \<noteq> []) \<and>
     (pc s \<in> {ClosingBatches, WaitingWorkers, Returned} \<longrightarrow> pending s = []) \<and>
     (closing s \<longleftrightarrow> pc s \<notin> {Looping, Sending ToLoop}) \<and>
     (pc s = Returned \<longrightarrow> (\<forall>i<length (workers s). workers s ! i = Idle))"

lemma resume_iff [simp]:
  "resume c = Looping \<longleftrightarrow> c = ToLoop" "resume c = Draining \<longleftrightarrow> c = ToDrain"
  "resume c = ClosingBatches \<longleftrightarrow> c = ToClose" "resume c \<noteq> Sending c'"
  "resume c \<noteq> WaitingWorkers" "resume c \<noteq> Returned"
  by (cases c; simp)+

lemma step_phase_ok: "step s t \<Longrightarrow> phase_ok s \<Longrightarrow> phase_ok t"
  by (erule step.cases)
    (auto simp: step_eqs run_defs phase_ok_def Offer_def batch_full_def nth_list_update
      split: if_splits)

text \<open>
  Conservation: the accepted records, in order, are those handed to workers, those
  pending and those in the buffer; the counters count them; and the batches handed over
  form a chain of adjacent ranges that says where each record is.
\<close>

abbreviation batched :: "World \<Rightarrow> FlowRecord list" where
  "batched s \<equiv> concat (map b_records (handed s))"

fun batch_chain :: "nat \<Rightarrow> batch list \<Rightarrow> bool" where
  "batch_chain n [] = True"
| "batch_chain n (b # bs) =
     (b_records b \<noteq> [] \<and> b_first b = of_nat (n + 1) \<and>
      b_last b = of_nat (n + length (b_records b)) \<and>
      batch_chain (n + length (b_records b)) bs)"

lemma batch_chain_snoc:
  "batch_chain n (bs @ [b]) \<longleftrightarrow>
     batch_chain n bs \<and> batch_chain (n + length (concat (map b_records bs))) [b]"
  by (induction bs arbitrary: n) (auto simp: add.assoc)

definition conserved :: "World \<Rightarrow> bool" where
  "conserved s \<longleftrightarrow>
     accepted s = batched s @ pending s @ buf s \<and>
     next_seq s = of_nat (length (accepted s)) \<and>
     taken s = of_nat (length (batched s) + length (pending s)) \<and>
     run_first s = of_nat (length (batched s) + 1) \<and>
     batch_chain 0 (handed s)"

lemma step_conserved: "step s t \<Longrightarrow> phase_ok s \<Longrightarrow> conserved s \<Longrightarrow> conserved t"
  by (erule step.cases)
    (auto simp: step_eqs run_defs conserved_def phase_ok_def Offer_def batch_chain_snoc)

text \<open>Every batch handed over is held by one worker or has been completed once.\<close>

fun held :: "worker \<Rightarrow> batch list" where
  "held Idle = []"
| "held (Busy b) = [b]"
| "held (Wrote b ok) = [b]"

definition held_all :: "worker list \<Rightarrow> batch multiset" where
  "held_all ws = mset (concat (map held ws))"

lemma held_all_update:
  "i < length ws \<Longrightarrow>
     held_all (ws[i := w]) + mset (held (ws ! i)) = held_all ws + mset (held w)"
proof (induction ws arbitrary: i)
  case Nil
  then show ?case by simp
next
  case (Cons v ws)
  show ?case
  proof (cases i)
    case 0
    then show ?thesis by (simp add: held_all_def union_ac)
  next
    case (Suc j)
    with Cons.prems Cons.IH [of j] show ?thesis
      by (simp add: held_all_def union_ac)
  qed
qed

lemma held_all_update':
  assumes "i < length ws" and "ws ! i = v"
  shows "held_all (ws[i := w]) = held_all ws - mset (held v) + mset (held w)"
proof -
  have "mset (held v) \<subseteq># held_all ws"
    using assms
  proof (induction ws arbitrary: i)
    case (Cons u ws)
    then show ?case
      by (cases i) (auto simp: held_all_def subset_mset.add_increasing)
  qed simp
  then show ?thesis
    using held_all_update [OF assms(1), of w] assms(2)
    by (metis add.commute add_diff_cancel_right' subset_mset.add_diff_assoc2 subset_mset.diff_add_assoc2)
qed

definition worked :: "World \<Rightarrow> bool" where
  "worked s \<longleftrightarrow> mset (handed s) = mset (map fst (completed s)) + held_all (workers s)"

lemma held_nth: "i < length ws \<Longrightarrow> set (held (ws ! i)) \<subseteq> set_mset (held_all ws)"
  by (auto simp: held_all_def intro: nth_mem)

lemma step_worked: "step s t \<Longrightarrow> worked s \<Longrightarrow> worked t"
proof (erule step.cases, goal_cases)
  case (17 s c i)
  then show ?case
    by (auto simp: worked_def hand_over_def held_all_update' add.assoc)
next
  case (20 i s b oks now)
  then have "held_all ((workers s)[i := Wrote b ok]) = held_all (workers s)" for ok
    using held_all_update [of i "workers s" "Wrote b ok"] by simp
  with 20 show ?case
    by (auto simp: worked_def worker_write_eq log_writes_def)
next
  case (21 i s b ok)
  then have "held_all ((workers s)[i := Idle]) + {#b#} = held_all (workers s)"
    using held_all_update [of i "workers s" Idle] by simp
  with 21 show ?case
    by (auto simp: worked_def worker_complete_def simp flip: add_mset_add_single)
qed (auto simp: step_eqs run_defs worked_def Offer_def)

text \<open>
  The batches of a chain, read as ranges of sequence numbers, are well formed and pairwise
  disjoint as long as the sequence numbers have not wrapped around.
\<close>

definition completion_of :: "batch \<times> bool \<Rightarrow> completion" where
  "completion_of bo = (b_first (fst bo), b_last (fst bo), snd bo)"

definition history :: "World \<Rightarrow> completion list" where
  "history s = map completion_of (completed s)"

lemma unat_of_nat_small: "n < 2 ^ 64 \<Longrightarrow> unat (of_nat n :: u64) = n"
  by (simp add: unat_of_nat)

lemma batch_chain_member:
  "batch_chain n bs \<Longrightarrow> n + length (concat (map b_records bs)) < 2 ^ 64 \<Longrightarrow> b \<in> set bs \<Longrightarrow>
     n < unat (b_first b) \<and> unat (b_first b) \<le> unat (b_last b) \<and>
     unat (b_last b) \<le> n + length (concat (map b_records bs)) \<and>
     length (b_records b) = unat (b_last b) + 1 - unat (b_first b)"
proof (induction bs arbitrary: n)
  case Nil
  then show ?case by simp
next
  case (Cons c bs)
  let ?m = "n + length (b_records c)"
  have bound: "?m + length (concat (map b_records bs)) < 2 ^ 64"
    using Cons.prems(2) by simp
  show ?case
  proof (cases "b = c")
    case True
    have len: "0 < length (b_records c)" using Cons.prems(1) by simp
    then have small: "n + 1 < 2 ^ 64" "?m < 2 ^ 64" using bound by linarith+
    have "unat (b_first c) = n + 1" and "unat (b_last c) = ?m"
      using Cons.prems(1) small [THEN unat_of_nat_small] by simp_all
    then show ?thesis using True len by (simp add: Suc_le_eq)
  next
    case False
    then have "b \<in> set bs" using Cons.prems(3) by simp
    with Cons.IH [of ?m] Cons.prems(1) bound show ?thesis by fastforce
  qed
qed

lemma batch_chain_sorted:
  "batch_chain n bs \<Longrightarrow> n + length (concat (map b_records bs)) < 2 ^ 64 \<Longrightarrow>
     sorted_wrt (\<lambda>b c. unat (b_last b) < unat (b_first c)) bs"
proof (induction bs arbitrary: n)
  case Nil
  then show ?case by simp
next
  case (Cons c bs)
  let ?m = "n + length (b_records c)"
  have ch: "batch_chain ?m bs" and bound: "?m + length (concat (map b_records bs)) < 2 ^ 64"
    using Cons.prems by simp_all
  have "unat (b_last c) = ?m"
    using Cons.prems(1) bound by (simp add: unat_of_nat_small del: of_nat_add)
  then have "\<forall>b\<in>set bs. unat (b_last c) < unat (b_first b)"
    using batch_chain_member [OF ch bound] by simp
  with Cons.IH [OF ch bound] show ?case by simp
qed

lemma sorted_wrt_pair:
  "sorted_wrt R xs \<Longrightarrow> {#b, c#} \<subseteq># mset xs \<Longrightarrow> R b c \<or> R c b"
proof (induction xs)
  case Nil
  then show ?case by simp
next
  case (Cons x xs)
  show ?case
  proof (cases "x = b \<or> x = c")
    case True
    then have "c \<in># mset xs \<and> x = b \<or> b \<in># mset xs \<and> x = c"
      using Cons.prems(2)
      by (auto simp: insert_subset_eq_iff split: if_splits)
    then show ?thesis using Cons.prems(1) by auto
  next
    case False
    then have "{#b, c#} \<subseteq># mset xs"
      using Cons.prems(2) by (auto simp: insert_subset_eq_iff)
    with Cons show ?thesis by simp
  qed
qed

lemma chain_disjoint:
  assumes "conserved s" and "length (accepted s) < 2 ^ 64" and "worked s"
    and "b \<in># held_all (workers s)"
  shows "span_wf (b_first b, b_last b, ok) \<and> seqs (b_first b, b_last b, ok) \<inter> covered (history s) = {}"
proof -
  have ch: "batch_chain 0 (handed s)" and bound: "0 + length (batched s) < 2 ^ 64"
    using assms(1,2) by (simp_all add: conserved_def)
  have sub: "{#b, fst bo#} \<subseteq># mset (handed s)" if "bo \<in> set (completed s)" for bo
  proof -
    have "{#b#} + {#fst bo#} \<subseteq># held_all (workers s) + mset (map fst (completed s))"
      using that assms(4) by (intro subset_mset.add_mono) auto
    then show ?thesis using assms(3) by (simp add: worked_def add.commute add_mset_commute)
  qed
  have mem: "b \<in> set (handed s)"
    using assms(3,4) by (simp add: worked_def flip: set_mset_mset)
  have "seqs (b_first b, b_last b, ok) \<inter> seqs (completion_of bo) = {}"
    if bo: "bo \<in> set (completed s)" for bo
    using sorted_wrt_pair [OF batch_chain_sorted [OF ch bound] sub [OF bo]]
    by (auto simp: completion_of_def)
  then have "seqs (b_first b, b_last b, ok) \<inter> covered (history s) = {}"
    by (auto simp: covered_def history_def)
  then show ?thesis
    using batch_chain_member [OF ch bound mem]
    by (simp add: word_less_nat_alt word_le_nat_alt)
qed

definition tracked :: "World \<Rightarrow> bool" where
  "tracked s \<longleftrightarrow> wm_inv (wm s) (covered (history s))"

lemma wm_inv_cong: "written v = written w \<Longrightarrow> wm_done v = wm_done w \<Longrightarrow> wm_inv v C = wm_inv w C"
  by (simp add: wm_inv_def)

lemma await_try_frame:
  "await_try seq w = (r, v) \<Longrightarrow> written v = written w \<and> wm_done v = wm_done w \<and>
     wm_closed v = wm_closed w \<and> changed v = changed w"
  by (auto simp: await_try_def split: if_splits)

lemma wm_inv_await [simp]:
  "await_try seq w = (r, v) \<Longrightarrow> wm_inv v C = wm_inv w C"
  by (rule wm_inv_cong) (auto dest: await_try_frame)

lemma wm_inv_close [simp]: "wm_inv (wm_close w) C = wm_inv w C"
  by (rule wm_inv_cong) (simp_all add: wm_close_def wake_def)

lemma step_tracked:
  "step s t \<Longrightarrow> conserved s \<Longrightarrow> worked s \<Longrightarrow> length (accepted s) < 2 ^ 64 \<Longrightarrow> tracked s \<Longrightarrow>
   tracked t"
proof (erule step.cases, goal_cases)
  case (21 i s' b ok)
  have "b \<in># held_all (workers s)"
    using 21(5-8) held_nth [of i "workers s"] by simp
  from chain_disjoint [OF 21(1) 21(3) 21(2) this, of ok]
  have "wm_inv (complete (b_first b) (b_last b) ok (wm s))
      (covered (history s) \<union> seqs (b_first b, b_last b, ok))"
    using 21(4) by (intro complete_inv) (simp_all add: tracked_def)
  then show ?case using 21(5-8)
    by (simp add: tracked_def worker_complete_def history_def covered_def completion_of_def Un_commute)
qed (auto simp: step_eqs run_defs tracked_def history_def Offer_def)

text \<open>
  What the sinks have: a batch that completed successfully is in the log of every sink,
  and a sink is given nothing but batches that were handed to a worker.
\<close>

definition wrote_ok :: "World \<Rightarrow> batch \<Rightarrow> bool" where
  "wrote_ok s b \<longleftrightarrow> (b, True) \<in> set (completed s) \<or> Wrote b True \<in> set (workers s)"

definition in_every_sink :: "World \<Rightarrow> batch \<Rightarrow> bool" where
  "in_every_sink s b \<longleftrightarrow> (\<forall>i<length (sinks s). b \<in> set (sink_log s i))"

definition delivered :: "World \<Rightarrow> bool" where
  "delivered s \<longleftrightarrow>
     sinks s \<noteq> [] \<and> (\<forall>b. wrote_ok s b \<longrightarrow> in_every_sink s b) \<and>
     (\<forall>i. set (sink_log s i) \<subseteq> set (handed s))"

lemma set_list_update_subset: "x \<in> set (xs[i := y]) \<Longrightarrow> x = y \<or> x \<in> set xs"
  by (meson insertE set_update_subset_insert subsetD)

lemma worked_held: "worked s \<Longrightarrow> i < length (workers s) \<Longrightarrow> set (held (workers s ! i)) \<subseteq> set (handed s)"
  using held_nth [of i "workers s"] by (auto simp: worked_def simp flip: set_mset_mset)

lemma fan_out_ok_all:
  assumes "fst (fan_out now rs oks s)" and "length oks = length (sinks s)" and "sinks s \<noteq> []"
    and "i < length (sinks s)"
  shows "oks ! i"
  using fan_out_result [of oks s now rs] assms by auto

lemma step_delivered: "step s t \<Longrightarrow> worked s \<Longrightarrow> delivered s \<Longrightarrow> delivered t"
proof (erule step.cases, goal_cases)
  case (17 s' c i)
  then show ?case
    by (auto simp: delivered_def wrote_ok_def in_every_sink_def hand_over_def
        dest!: set_list_update_subset)
next
  case (20 i s' b oks now)
  then have "b \<in> set (handed s)" using worked_held [of s i] by simp
  with 20 show ?case
    by (auto simp: delivered_def wrote_ok_def in_every_sink_def worker_write_eq log_writes_def
        dest!: set_list_update_subset intro: fan_out_ok_all)
next
  case (21 i s' b ok)
  then have "Wrote b ok \<in> set (workers s)" by (metis nth_mem)
  with 21 show ?case
    by (auto simp: delivered_def wrote_ok_def in_every_sink_def worker_complete_def
        dest!: set_list_update_subset)
qed (auto simp: step_eqs run_defs delivered_def wrote_ok_def in_every_sink_def Offer_def)

text \<open>Every rejected batch is pending in the watermark or has been reported.\<close>

definition span_of :: "batch \<Rightarrow> span" where
  "span_of b = \<lparr>sp_first = b_first b, sp_last = b_last b\<rparr>"

definition accounted :: "World \<Rightarrow> bool" where
  "accounted s \<longleftrightarrow>
     (\<forall>b. (b, False) \<in> set (completed s) \<longrightarrow>
        span_of b \<in> set (failed (wm s)) \<union> set (reported s))"

lemma await_told:
  assumes "await_try seq w = (r, v)"
  shows "set (failed w) \<subseteq> set (failed v) \<union> set (told r seq (failed w))"
  using assms by (auto simp: await_try_def told_def not_less split: if_splits)

lemma step_accounted: "step s t \<Longrightarrow> accounted s \<Longrightarrow> accounted t"
proof (erule step.cases, goal_cases)
  case (21 i s' b ok)
  then show ?case
    by (auto simp: accounted_def worker_complete_def rejected_def span_of_def)
next
  case (22 seq s' r w)
  with await_told [of seq "wm s" r w] show ?case
    by (auto simp: accounted_def)
qed (auto simp: step_eqs run_defs accounted_def Offer_def wm_close_def wake_def)

text \<open>
  The counters: every call of \<open>Offer\<close> is accepted, dropped or still between its two
  steps, and the ingested counter of a source is the number of its accepted records.
\<close>

fun is_push_send :: "offer \<Rightarrow> bool" where
  "is_push_send (PushSend _ _) = True"
| "is_push_send _ = False"

definition counted :: "World \<Rightarrow> bool" where
  "counted s \<longleftrightarrow>
     offered s = length (filter fst (accepted_by s))
       + RecordsDropped (obs s) DropBufferFull + RecordsDropped (obs s) DropShutdown
       + length (filter is_push_send (inflight s)) \<and>
     length (accepted_by s) = length (accepted s) \<and>
     (\<forall>src. RecordsIngested (obs s) src = length (filter (\<lambda>x. snd x = src) (accepted_by s)))"

lemma write_metrics_frame [simp]:
  "RecordsIngested (write_metrics ss oks m) = RecordsIngested m"
  "RecordsDropped (write_metrics ss oks m) = RecordsDropped m"
  by (induction ss oks m rule: write_metrics.induct) (simp_all add: Let_def)

lemma fan_out_counters [simp]:
  "RecordsIngested (obs (snd (fan_out now rs oks s))) = RecordsIngested (obs s)"
  "RecordsDropped (obs (snd (fan_out now rs oks s))) = RecordsDropped (obs s)"
  by (simp_all add: fan_out_def Let_def)

lemma drop_reasons_differ [simp]:
  "DropBufferFull \<noteq> DropShutdown" "DropShutdown \<noteq> DropBufferFull"
  by (simp_all add: DropBufferFull_def DropShutdown_def)

lemma step_counted: "step s t \<Longrightarrow> counted s \<Longrightarrow> counted t"
  by (erule step.cases) (auto simp: step_eqs run_defs counted_def Offer_def inc_def)

text \<open>
  A call of \<open>intake.Offer\<close> that waits for space is never forgotten: a token is waiting in
  \<open>space\<close>, or there is a record whose removal will put one there, or another call is
  between its wake-up and its attempt, or the pipeline is closing.
\<close>

fun is_pull_wait :: "offer \<Rightarrow> bool" where
  "is_pull_wait (PullWait _ _) = True"
| "is_pull_wait _ = False"

fun is_pull_active :: "offer \<Rightarrow> bool" where
  "is_pull_active (PullTry _ _) = True"
| "is_pull_active (PullSend _ _) = True"
| "is_pull_active _ = False"

definition wakeable :: "World \<Rightarrow> bool" where
  "wakeable s \<longleftrightarrow>
     1 \<le> BufferSize (opts s) \<and>
     ((\<exists>x\<in>set (inflight s). is_pull_wait x) \<longrightarrow>
        space s \<or> buf s \<noteq> [] \<or> (\<exists>x\<in>set (inflight s). is_pull_active x) \<or> closing s)"

lemma step_wakeable: "step s t \<Longrightarrow> wakeable s \<Longrightarrow> wakeable t"
  by (erule step.cases) (auto simp: step_eqs run_defs wakeable_def Offer_def)

section \<open>All invariants together\<close>

lemma step_accepted_mono: "step s t \<Longrightarrow> length (accepted s) \<le> length (accepted t)"
  by (erule step.cases) (auto simp: step_eqs run_defs Offer_def)

definition inv :: "World \<Rightarrow> bool" where
  "inv s \<longleftrightarrow> sizes_ok s \<and> phase_ok s \<and> conserved s \<and> worked s \<and> delivered s \<and>
     accounted s \<and> counted s \<and> wakeable s \<and>
     (length (accepted s) < 2 ^ 64 \<longrightarrow> tracked s)"

lemma inv_init:
  assumes "New os ss = Inr p"
  shows "inv (world_init p)"
proof -
  have "held_all (replicate n Idle) = {#}" for n
    by (induction n) (simp_all add: held_all_def)
  then show ?thesis
    using New_ok [OF assms]
    by (auto simp: inv_def world_init_def start_run_def sizes_ok_def phase_ok_def conserved_def
        worked_def delivered_def wrote_ok_def in_every_sink_def accounted_def counted_def
        wakeable_def tracked_def history_def covered_def zero_metrics_def wm_inv_init)
qed

lemma step_inv: "step s t \<Longrightarrow> inv s \<Longrightarrow> inv t"
  using step_accepted_mono [of s t]
  by (auto simp: inv_def intro: step_sizes_ok step_phase_ok step_conserved step_worked
      step_delivered step_accounted step_counted step_wakeable step_tracked)

theorem reachable_inv: "New os ss = Inr p \<Longrightarrow> reachable p s \<Longrightarrow> inv s"
  by (erule reachable_induct_inv) (auto intro: inv_init step_inv)

end
