(* ===== verification/Pipeline_Exec.thy ===== *)
theory Pipeline_Exec
  imports Pipeline_Steps
begin

text \<open>
  The step relation run as a program: an \<open>action\<close> names a rule and the choices the rule
  leaves open, \<open>perform\<close> carries it out where it is enabled, and every run of actions stays
  within the reachable worlds. The concrete runs of the development are built with it.
\<close>

datatype action =
    Push string FlowRecord | PushGo nat
  | Pull string FlowRecord | PullGo nat | PullCancel nat
  | Take | Timer | Stop | Hand nat | CloseB | Finish
  | Write nat time "bool list" | Complete nat | Await u64

definition without :: "nat \<Rightarrow> 'a list \<Rightarrow> 'a list" where
  "without k xs = take k xs @ drop (Suc k) xs"

definition replacing :: "nat \<Rightarrow> 'a \<Rightarrow> 'a list \<Rightarrow> 'a list" where
  "replacing k x xs = take k xs @ x # drop (Suc k) xs"

fun pull_go :: "nat \<Rightarrow> offer \<Rightarrow> World \<Rightarrow> World option" where
  "pull_go k (PullTry src rec) s =
     Some (if closing s then s\<lparr>inflight := without k (inflight s)\<rparr>
           else s\<lparr>inflight := replacing k (PullSend src rec) (inflight s)\<rparr>)"
| "pull_go k (PullSend src rec) s =
     (case intake_open src rec (s\<lparr>inflight := without k (inflight s)\<rparr>) of
        (Some seq, t) \<Rightarrow> Some (log_accept False src rec t)
      | (None, _) \<Rightarrow> Some (s\<lparr>inflight := replacing k (PullWait src rec) (inflight s)\<rparr>))"
| "pull_go k (PullWait src rec) s =
     recv_space (s\<lparr>inflight := replacing k (PullTry src rec) (inflight s)\<rparr>)"
| "pull_go k (PushSend src rec) s = None"

fun perform :: "action \<Rightarrow> World \<Rightarrow> World option" where
  "perform (Push src rec) s =
     (if closing s then (case Offer src rec s of (_, t) \<Rightarrow> Some (t\<lparr>offered := Suc (offered t)\<rparr>))
      else Some (s\<lparr>inflight := PushSend src rec # inflight s, offered := Suc (offered s)\<rparr>))"
| "perform (PushGo k) s =
     (if k < length (inflight s) then
        (case inflight s ! k of
           PushSend src rec \<Rightarrow>
             (case offer_open src rec (s\<lparr>inflight := without k (inflight s)\<rparr>) of
                (True, t) \<Rightarrow> Some (log_accept True src rec t)
              | (False, t) \<Rightarrow> Some t)
         | _ \<Rightarrow> None)
      else None)"
| "perform (Pull src rec) s = Some (s\<lparr>inflight := PullTry src rec # inflight s\<rparr>)"
| "perform (PullGo k) s =
     (if k < length (inflight s) then pull_go k (inflight s ! k) s else None)"
| "perform (PullCancel k) s =
     (if k < length (inflight s) \<and> is_pull_wait (inflight s ! k)
      then Some (s\<lparr>inflight := without k (inflight s)\<rparr>) else None)"
| "perform Take s =
     (case pc s of
        Looping \<Rightarrow> (case chan_try_recv (buf s) of
            Some (rec, rest) \<Rightarrow> Some (loop_take rec rest s) | None \<Rightarrow> None)
      | Draining \<Rightarrow> (case chan_try_recv (buf s) of
            Some (rec, rest) \<Rightarrow> Some (drain_take rec rest s) | None \<Rightarrow> Some (flush ToClose s))
      | _ \<Rightarrow> None)"
| "perform Timer s = (if pc s = Looping then Some (flush ToLoop s) else None)"
| "perform Stop s = (if pc s = Looping then Some (stop_loop s) else None)"
| "perform (Hand i) s =
     (case pc s of
        Sending c \<Rightarrow>
          if i < length (workers s) \<and> workers s ! i = Idle
          then Some ((hand_over i c s)\<lparr>handed := handed s @ [current_batch s]\<rparr>) else None
      | _ \<Rightarrow> None)"
| "perform CloseB s = (if pc s = ClosingBatches then Some (close_batches s) else None)"
| "perform Finish s =
     (if pc s = WaitingWorkers \<and> list_all (\<lambda>w. w = Idle) (workers s)
      then Some (finish_run s) else None)"
| "perform (Write i now oks) s =
     (if i < length (workers s) \<and> length oks = length (sinks s) then
        (case workers s ! i of
           Busy b \<Rightarrow> Some (log_writes b oks (worker_write i now b oks s)) | _ \<Rightarrow> None)
      else None)"
| "perform (Complete i) s =
     (if i < length (workers s) then
        (case workers s ! i of
           Wrote b ok \<Rightarrow> Some ((worker_complete i b ok s)\<lparr>completed := completed s @ [(b, ok)]\<rparr>)
         | _ \<Rightarrow> None)
      else None)"
| "perform (Await seq) s =
     (case await_try seq (wm s) of
        (r, w) \<Rightarrow> Some (s\<lparr>wm := w, reported := reported s @ told r seq (failed (wm s))\<rparr>))"

fun run :: "action list \<Rightarrow> World \<Rightarrow> World option" where
  "run [] s = Some s"
| "run (a # as) s = (case perform a s of None \<Rightarrow> None | Some t \<Rightarrow> run as t)"

lemma split_at: "k < length xs \<Longrightarrow> xs = take k xs @ (xs ! k) # drop (Suc k) xs"
  by (rule id_take_nth_drop)

lemma pull_go_step:
  assumes "k < length (inflight s)" and "pull_go k (inflight s ! k) s = Some t"
  shows "step s t"
proof (cases "inflight s ! k")
  case (PullTry src rec)
  then have "inflight s = take k (inflight s) @ PullTry src rec # drop (Suc k) (inflight s)"
    using split_at [OF assms(1)] by simp
  then show ?thesis using assms(2) PullTry
    by (auto simp: without_def replacing_def intro: step.pull_closing step.pull_open split: if_splits)
next
  case (PullSend src rec)
  then have eq: "inflight s = take k (inflight s) @ PullSend src rec # drop (Suc k) (inflight s)"
    using split_at [OF assms(1)] by simp
  show ?thesis
  proof (cases "fst (intake_open src rec (s\<lparr>inflight := without k (inflight s)\<rparr>))")
    case None
    then have "intake_open src rec (s\<lparr>inflight := replacing k (PullWait src rec) (inflight s)\<rparr>)
        = (None, s\<lparr>inflight := replacing k (PullWait src rec) (inflight s)\<rparr>)"
      by (auto simp: intake_open_def tryOffer_def chan_try_send_def Let_def split: if_splits)
    with None show ?thesis using assms(2) PullSend step.pull_full [OF eq]
      by (auto simp: replacing_def split: prod.splits)
  next
    case (Some seq)
    then show ?thesis using assms(2) PullSend step.pull_buffered [OF eq]
      by (auto simp: without_def split: prod.splits)
  qed
next
  case (PullWait src rec)
  then have "inflight s = take k (inflight s) @ PullWait src rec # drop (Suc k) (inflight s)"
    using split_at [OF assms(1)] by simp
  then show ?thesis using assms(2) PullWait
    by (auto simp: replacing_def intro: step.pull_wake)
qed (use assms in auto)

lemma perform_step: "perform a s = Some t \<Longrightarrow> step s t"
proof (cases a)
  case (PushGo k)
  assume p: "perform a s = Some t"
  with PushGo obtain src rec where k: "k < length (inflight s)" "inflight s ! k = PushSend src rec"
    by (auto split: if_splits offer.splits)
  then have eq: "inflight s = take k (inflight s) @ PushSend src rec # drop (Suc k) (inflight s)"
    using split_at [OF k(1)] by simp
  show ?thesis using p PushGo k step.push_buffered [OF eq] step.push_dropped [OF eq]
    by (auto simp: without_def split: prod.splits bool.splits)
next
  case (PullGo k)
  assume "perform a s = Some t"
  with PullGo show ?thesis by (auto intro: pull_go_step split: if_splits)
next
  case (PullCancel k)
  assume p: "perform a s = Some t"
  with PullCancel obtain src rec where k: "k < length (inflight s)" "inflight s ! k = PullWait src rec"
    by (cases "inflight s ! k") (auto split: if_splits)
  then have "inflight s = take k (inflight s) @ PullWait src rec # drop (Suc k) (inflight s)"
    using split_at [OF k(1)] by simp
  from step.pull_cancel [OF this] show ?thesis using p PullCancel k by (simp add: without_def)
next
  case Take
  assume "perform a s = Some t"
  with Take show ?thesis
    by (auto intro: step.run_take step.run_drain step.run_drained split: run_pc.splits option.splits)
next
  case Finish
  assume "perform a s = Some t"
  with Finish show ?thesis
    by (auto intro: step.run_finish simp: list_all_length split: if_splits)
qed (auto intro: step.intros split: if_splits prod.splits run_pc.splits worker.splits)

lemma run_reachable: "reachable p s \<Longrightarrow> run as s = Some t \<Longrightarrow> reachable p t"
  by (induction as arbitrary: s)
    (auto split: option.splits intro: reachable.more dest: perform_step)

lemma run_steps: "run as s = Some t \<Longrightarrow> step\<^sup>*\<^sup>* s t"
  by (induction as arbitrary: s)
    (auto split: option.splits intro: converse_rtranclp_into_rtranclp dest: perform_step)

end
