(* ===== verification/Pipeline_Props.thy ===== *)
theory Pipeline_Props
  imports Pipeline_Exec
begin

text \<open>
  What the pipeline guarantees in every interleaving of its goroutines, read off the
  invariants of theory Pipeline_Steps: the accounting of offers, the bounds of the buffer
  and of the batches, what a batch's sequence range means, what the watermark tells a pull
  source, that a shutdown loses nothing, and that \<open>Run\<close> can always return.
\<close>

section \<open>A small pipeline for concrete runs\<close>

definition demo_opts :: "int \<Rightarrow> Options" where
  "demo_opts n = \<lparr>BufferSize = 2, BatchSize = 1, BatchInterval = Second, Workers = n,
     WriteTimeout = 0\<rparr>"

definition demo_pipe :: "int \<Rightarrow> Pipeline" where
  "demo_pipe n = \<lparr>opts = (demo_opts n)\<lparr>WriteTimeout := 30 * Second\<rparr>, sinks = [''postgres''],
     buf = [], closing = False, next_seq = 0, space = False, wm = wm_init, obs = zero_metrics\<rparr>"

definition demo_run :: "int \<Rightarrow> action list \<Rightarrow> World" where
  "demo_run n as = the (run as (world_init (demo_pipe n)))"

lemma demo_New: "1 \<le> n \<Longrightarrow> New (demo_opts n) [''postgres''] = Inr (demo_pipe n)"
  by (simp add: New_def demo_opts_def demo_pipe_def time_units)

lemma demo_reachable:
  "run as (world_init (demo_pipe n)) \<noteq> None \<Longrightarrow> reachable (demo_pipe n) (demo_run n as)"
  using run_reachable [OF reachable.start] by (auto simp: demo_run_def)

lemma world_init_inflight [simp]: "inflight (world_init p) = []"
  by (simp add: world_init_def Let_def)

lemmas demo_defs = world_init_def start_run_def demo_pipe_def demo_opts_def Let_def
  without_def replacing_def offer_open_def intake_open_def tryOffer_def chan_try_send_def
  chan_try_recv_def count_ingested_def count_dropped_def inc_def log_accept_def loop_take_def
  drain_take_def take_rec_def batch_full_def flush_def hand_over_def current_batch_def
  log_writes_def worker_write_def fan_out_def worker_complete_def stop_loop_def
  close_batches_def finish_run_def zero_metrics_def Offer_def recv_space_def

definition one_written :: "action list" where
  "one_written = [Push ''netflow'' zero_record, PushGo 0, Take, Hand 0, Write 0 0 [True], Complete 0]"

lemma one_written_run:
  "run one_written (world_init (demo_pipe 1)) =
     Some (world_init (demo_pipe 1)
       \<lparr>next_seq := 1, space := True, taken := 1, run_first := 2, offered := 1,
        wm := complete 1 1 True wm_init,
        obs := zero_metrics\<lparr>RecordsIngested := (\<lambda>_. 0)(''netflow'' := 1),
          BatchWriteDuration := (\<lambda>_. 0)(''postgres'' := 1),
          RecordVisibilityLag := [- zero_time]\<rparr>,
        accepted := [zero_record], accepted_by := [(True, ''netflow'')],
        handed := [\<lparr>b_records = [zero_record], b_first = 1, b_last = 1\<rparr>],
        completed := [(\<lparr>b_records = [zero_record], b_first = 1, b_last = 1\<rparr>, True)],
        sink_log := (\<lambda>_. [])(0 := [\<lparr>b_records = [zero_record], b_first = 1, b_last = 1\<rparr>])\<rparr>)"
  by (simp add: one_written_def demo_defs zero_record_def fun_eq_iff)

lemma one_written_reachable: "reachable (demo_pipe 1) (demo_run 1 one_written)"
  by (rule demo_reachable) (simp add: one_written_run)

section \<open>Accounting and bounds\<close>

definition pulled :: "World \<Rightarrow> nat" where
  "pulled s = length (filter (\<lambda>x. \<not> fst x) (accepted_by s))"

lemma sum_count_sources:
  "finite S \<Longrightarrow> snd ` set xs \<subseteq> S \<Longrightarrow>
     (\<Sum>src\<in>S. length (filter (\<lambda>x. snd x = src) xs)) = length xs"
proof (induction xs)
  case Nil
  then show ?case by simp
next
  case (Cons x xs)
  have "(\<Sum>src\<in>S. length (filter (\<lambda>y. snd y = src) (x # xs))) =
        (\<Sum>src\<in>S. (if snd x = src then 1 else 0) + length (filter (\<lambda>y. snd y = src) xs))"
    by (intro sum.cong) auto
  then show ?case using Cons by (simp add: sum.distrib sum.delta')
qed

text \<open>
  C16. Nothing offered goes uncounted: whenever no call of \<open>Offer\<close> is in progress, the
  calls made so far plus the records pull sources have had buffered equal the ingested
  records over all sources plus the records dropped for a full buffer plus those dropped at
  shutdown.
\<close>

theorem ingested_plus_dropped_is_offered:
  assumes "New os ss = Inr p" and "reachable p s"
    and "\<forall>x\<in>set (inflight s). \<not> is_push_send x"
    and "finite S" and "snd ` set (accepted_by s) \<subseteq> S"
  shows "offered s + pulled s =
    (\<Sum>src\<in>S. RecordsIngested (obs s) src) + RecordsDropped (obs s) DropBufferFull
      + RecordsDropped (obs s) DropShutdown"
proof -
  have c: "counted s" using reachable_inv [OF assms(1,2)] by (simp add: inv_def)
  have "(\<Sum>src\<in>S. RecordsIngested (obs s) src) = length (accepted_by s)"
    using c sum_count_sources [OF assms(4,5)] by (simp add: counted_def)
  also have "\<dots> = length (filter fst (accepted_by s)) + pulled s"
    by (simp add: pulled_def sum_length_filter_compl)
  finally show ?thesis
    using c assms(3) by (simp add: counted_def filter_empty_conv)
qed

lemma ingested_plus_dropped_is_offered_witness:
  "offered (demo_run 1 one_written) + pulled (demo_run 1 one_written) =
     (\<Sum>src\<in>{''netflow''}. RecordsIngested (obs (demo_run 1 one_written)) src)
      + RecordsDropped (obs (demo_run 1 one_written)) DropBufferFull
      + RecordsDropped (obs (demo_run 1 one_written)) DropShutdown"
proof (rule ingested_plus_dropped_is_offered [OF demo_New one_written_reachable])
  show "\<forall>x\<in>set (inflight (demo_run 1 one_written)). \<not> is_push_send x"
    and "snd ` set (accepted_by (demo_run 1 one_written)) \<subseteq> {''netflow''}"
    by (simp_all add: demo_run_def one_written_run)
qed simp_all

text \<open>
  C18. The queue never grows: in every interleaving the buffer holds at most
  \<open>BufferSize\<close> records, the pending batch at most \<open>BatchSize\<close>, and every batch handed to a
  worker has between 1 and \<open>BatchSize\<close> records.
\<close>

theorem queues_bounded:
  assumes "New os ss = Inr p" and "reachable p s"
  shows "int (length (buf s)) \<le> BufferSize os \<and> int (length (pending s)) \<le> BatchSize os \<and>
    (\<forall>b\<in>set (handed s). 1 \<le> length (b_records b) \<and> int (length (b_records b)) \<le> BatchSize os)"
proof -
  have i: "sizes_ok s" "conserved s" using reachable_inv [OF assms] by (simp_all add: inv_def)
  have "BufferSize (opts p) = BufferSize os" "BatchSize (opts p) = BatchSize os" "1 \<le> BufferSize os"
    using assms(1) by (auto simp: New_def Let_def split: if_splits)
  moreover have "b_records b \<noteq> []" if "b \<in> set bs" "batch_chain n bs" for b bs n
    using that by (induction bs arbitrary: n) auto
  ultimately show ?thesis
    using i reachable_static [OF assms(2)]
    by (auto simp: sizes_ok_def conserved_def Suc_le_eq)
qed

lemma queues_bounded_witness:
  "int (length (buf (demo_run 1 one_written))) \<le> BufferSize (demo_opts 1)"
  using queues_bounded [OF demo_New one_written_reachable] by simp

section \<open>Sequence numbers\<close>

lemma batch_chain_records:
  "batch_chain n bs \<Longrightarrow> n + length (concat (map b_records bs)) < 2 ^ 64 \<Longrightarrow> b \<in> set bs \<Longrightarrow>
     b_records b = take (length (b_records b))
       (drop (unat (b_first b) - 1 - n) (concat (map b_records bs)))"
proof (induction bs arbitrary: n)
  case Nil
  then show ?case by simp
next
  case (Cons c bs)
  let ?m = "n + length (b_records c)"
  have ch: "batch_chain ?m bs" and bound: "?m + length (concat (map b_records bs)) < 2 ^ 64"
    using Cons.prems(1,2) by simp_all
  have c: "unat (b_first c) = n + 1"
    using batch_chain_member [OF Cons.prems(1,2), of c] Cons.prems(1) bound
      unat_of_nat_small [of "n + 1"]
    by (cases "b_records c") auto
  show ?case
  proof (cases "b = c")
    case True
    then show ?thesis using c by simp
  next
    case False
    then have mem: "b \<in> set bs" using Cons.prems(3) by simp
    have "?m < unat (b_first b)" using batch_chain_member [OF ch bound mem] by simp
    then have "unat (b_first b) - 1 - n = length (b_records c) + (unat (b_first b) - 1 - ?m)"
      by simp
    then show ?thesis using Cons.IH [OF ch bound mem] by (simp add: drop_append)
  qed
qed

lemma batch_at_range:
  assumes "New os ss = Inr p" and "reachable p s" and "length (accepted s) < 2 ^ 64"
    and "b \<in> set (handed s)"
  shows "b_records b = take (unat (b_last b) + 1 - unat (b_first b))
           (drop (unat (b_first b) - 1) (accepted s)) \<and>
         1 \<le> unat (b_first b) \<and> unat (b_first b) \<le> unat (b_last b) \<and>
         unat (b_last b) \<le> length (accepted s) \<and>
         accepted s = concat (map b_records (handed s)) @ pending s @ buf s"
proof -
  have c: "conserved s" using reachable_inv [OF assms(1,2)] by (simp add: inv_def)
  then have acc: "accepted s = batched s @ pending s @ buf s" and ch: "batch_chain 0 (handed s)"
    by (simp_all add: conserved_def)
  have bound: "0 + length (batched s) < 2 ^ 64" using acc assms(3) by simp
  note m = batch_chain_member [OF ch bound assms(4)]
  have "b_records b = take (length (b_records b)) (drop (unat (b_first b) - 1) (batched s))"
    using batch_chain_records [OF ch bound assms(4)] by simp
  also have "\<dots> = take (length (b_records b)) (drop (unat (b_first b) - 1) (accepted s))"
    using m by (simp add: acc take_append drop_append)
  finally show ?thesis using m acc by simp
qed

text \<open>
  C17. The batcher knows a batch's range by counting: a batch handed to a worker with
  range \<open>first\<close> to \<open>last\<close> holds exactly the records that were accepted as numbers
  \<open>first\<close> to \<open>last\<close>, in that order, the batches handed over so far are consecutive from 1,
  and the accepted records are those of the batches, then the pending ones, then those in
  the buffer.
\<close>

theorem batch_holds_its_range:
  assumes "New os ss = Inr p" and "reachable p s" and "length (accepted s) < 2 ^ 64"
    and "b \<in> set (handed s)"
  shows "b_records b = take (unat (b_last b) + 1 - unat (b_first b))
           (drop (unat (b_first b) - 1) (accepted s)) \<and>
         1 \<le> unat (b_first b) \<and> unat (b_first b) \<le> unat (b_last b) \<and>
         unat (b_last b) \<le> length (accepted s) \<and>
         accepted s = concat (map b_records (handed s)) @ pending s @ buf s"
  using assms by (rule batch_at_range)

lemma batch_holds_its_range_witness:
  "\<exists>b. b \<in> set (handed (demo_run 1 one_written)) \<and>
     b_records b = take (unat (b_last b) + 1 - unat (b_first b))
       (drop (unat (b_first b) - 1) (accepted (demo_run 1 one_written)))"
proof -
  let ?s = "demo_run 1 one_written"
  let ?b = "\<lparr>b_records = [zero_record], b_first = 1, b_last = 1\<rparr>"
  have b: "?b \<in> set (handed ?s)" and n: "length (accepted ?s) < 2 ^ 64"
    by (simp_all add: demo_run_def one_written_run)
  show ?thesis
    using b batch_holds_its_range [OF demo_New one_written_reachable n b] by auto
qed

section \<open>Acknowledgement\<close>

lemma in_written_completed:
  assumes "inv s" and "length (accepted s) < 2 ^ 64" and "1 \<le> k" and "k \<le> unat (written (wm s))"
  shows "\<exists>b ok. (b, ok) \<in> set (completed s) \<and> b \<in> set (handed s) \<and>
    unat (b_first b) \<le> k \<and> k \<le> unat (b_last b)"
proof -
  have "wm_inv (wm s) (covered (history s))"
    using assms(1,2) by (simp add: inv_def tracked_def)
  then have "k \<in> covered (history s)"
    using wm_inv_written [of "wm s" "covered (history s)" k] assms(3,4)
    by (simp add: subset_iff)
  then obtain b ok where b: "(b, ok) \<in> set (completed s)" "unat (b_first b) \<le> k" "k \<le> unat (b_last b)"
    by (auto simp: covered_def history_def completion_of_def)
  moreover have "b \<in># mset (handed s)"
    using assms(1) b(1) by (force simp: inv_def worked_def)
  ultimately show ?thesis by auto
qed

text \<open>
  C2. What \<open>written\<close> means for a record, with any number of workers: record number
  \<open>k\<close> at or below \<open>written\<close> sits, at its place, in a batch that has been through every
  sink; if the outcome was success every sink has the batch, and if a sink rejected it the
  range is pending as a failure or has been reported to a waiter.
\<close>

theorem written_record_durable_or_rejected:
  assumes "New os ss = Inr p" and "reachable p s" and "length (accepted s) < 2 ^ 64"
    and "1 \<le> k" and "k \<le> unat (written (wm s))"
  shows "\<exists>b ok. (b, ok) \<in> set (completed s) \<and>
    unat (b_first b) \<le> k \<and> k \<le> unat (b_last b) \<and>
    b_records b ! (k - unat (b_first b)) = accepted s ! (k - 1) \<and>
    (if ok then in_every_sink s b else span_of b \<in> set (failed (wm s)) \<union> set (reported s))"
proof -
  have i: "inv s" by (rule reachable_inv [OF assms(1,2)])
  obtain b ok where b: "(b, ok) \<in> set (completed s)" "b \<in> set (handed s)"
      "unat (b_first b) \<le> k" "k \<le> unat (b_last b)"
    using in_written_completed [OF i assms(3-5)] by blast
  have "b_records b = take (unat (b_last b) + 1 - unat (b_first b))
      (drop (unat (b_first b) - 1) (accepted s))"
    and "1 \<le> unat (b_first b)" "unat (b_last b) \<le> length (accepted s)"
    using batch_at_range [OF assms(1-3) b(2)] by blast+
  then have "b_records b ! (k - unat (b_first b)) = accepted s ! (k - 1)"
    using b(3,4) by (intro nth_take_drop) simp_all
  moreover have "if ok then in_every_sink s b
      else span_of b \<in> set (failed (wm s)) \<union> set (reported s)"
    using i b(1) by (auto simp: inv_def delivered_def wrote_ok_def accounted_def)
  ultimately show ?thesis using b by blast
qed

lemma one_written_written: "written (wm (demo_run 1 one_written)) = 1"
  by (simp add: demo_run_def one_written_run complete_def wm_init_def wake_def advance.simps)

lemma one_written_accepted: "accepted (demo_run 1 one_written) = [zero_record]"
  by (simp add: demo_run_def one_written_run)

lemma written_record_durable_or_rejected_witness:
  "\<exists>b ok. (b, ok) \<in> set (completed (demo_run 1 one_written)) \<and>
     b_records b ! (1 - unat (b_first b)) = zero_record \<and>
     (if ok then in_every_sink (demo_run 1 one_written) b
      else span_of b \<in> set (failed (wm (demo_run 1 one_written)))
        \<union> set (reported (demo_run 1 one_written)))"
proof -
  have n: "length (accepted (demo_run 1 one_written)) < 2 ^ 64"
    and k: "1 \<le> unat (written (wm (demo_run 1 one_written)))"
    by (simp_all add: one_written_accepted one_written_written)
  have a: "accepted (demo_run 1 one_written) ! (1 - 1) = zero_record"
    by (simp add: one_written_accepted)
  show ?thesis
    using written_record_durable_or_rejected [OF demo_New one_written_reachable n le_refl k]
    unfolding a by blast
qed

text \<open>
  With a single worker the batches complete in the order they were handed over, so the
  pending failures stay in sequence order.
\<close>

definition in_order :: "World \<Rightarrow> bool" where
  "in_order s \<longleftrightarrow>
     length (workers s) = 1 \<and>
     handed s = map fst (completed s) @ held (hd (workers s)) \<and>
     (\<forall>f\<in>set (failed (wm s)). \<exists>b\<in>set (map fst (completed s)). f = span_of b) \<and>
     (length (accepted s) < 2 ^ 64 \<longrightarrow> sorted (map sp_first (failed (wm s))))"

lemma sorted_filter_spans:
  "sorted (map sp_first fs) \<Longrightarrow> sorted (map sp_first (filter P fs))"
  by (rule sorted_wrt_less_map_filter)

lemma in_order_later:
  assumes "inv s" and "in_order s" and "length (accepted s) < 2 ^ 64"
    and "held (hd (workers s)) = [b]" and "f \<in> set (failed (wm s))"
  shows "sp_first f \<le> b_first b"
proof -
  obtain c where c: "c \<in> set (map fst (completed s))" "f = span_of c"
    using assms(2,5) unfolding in_order_def by blast
  have ch: "batch_chain 0 (handed s)" and bound: "0 + length (batched s) < 2 ^ 64"
    using assms(1,3) by (simp_all add: inv_def conserved_def)
  have h: "handed s = map fst (completed s) @ [b]"
    using assms(2,4) by (simp add: in_order_def)
  have "unat (b_last c) < unat (b_first b)"
    using batch_chain_sorted [OF ch bound] c(1) unfolding h by (auto simp: sorted_wrt_append)
  moreover have "unat (b_first c) \<le> unat (b_last c)"
    using batch_chain_member [OF ch bound, of c] c(1) h by simp
  ultimately show ?thesis by (simp add: c(2) span_of_def word_le_nat_alt)
qed

lemma step_in_order:
  "step s t \<Longrightarrow> inv s \<Longrightarrow> in_order s \<Longrightarrow> in_order t"
proof (erule step.cases, goal_cases)
  case (17 s' c i)
  then have "workers s = [Idle]" "i = 0"
    by (auto simp: in_order_def length_Suc_conv)
  with 17 show ?case by (auto simp: in_order_def hand_over_def)
next
  case (20 i s' b oks now)
  then have "workers s = [Busy b]" "i = 0"
    by (auto simp: in_order_def length_Suc_conv)
  with 20 show ?case by (auto simp: in_order_def worker_write_eq log_writes_def)
next
  case (21 i s' b ok)
  then have w: "workers s = [Wrote b ok]" "i = 0"
    by (auto simp: in_order_def length_Suc_conv)
  then have "\<forall>f\<in>set (failed (wm s)). sp_first f \<le> b_first b"
    if "length (accepted s) < 2 ^ 64"
    using in_order_later [OF 21(1,2) that] by simp
  with w 21 show ?case
    by (auto simp: in_order_def worker_complete_def rejected_def span_of_def sorted_append)
next
  case (22 seq s' r w)
  then show ?case
    by (auto simp: in_order_def await_try_def sorted_filter_spans split: if_splits)
qed (auto simp: step_eqs run_defs in_order_def Offer_def wm_close_def wake_def)

lemma reachable_in_order:
  assumes "New os ss = Inr p" and "reachable p s" and "Workers os = 1"
  shows "in_order s"
  using assms(2)
proof (rule reachable_induct_inv)
  have "Workers (opts p) = 1"
    using assms(1,3) by (auto simp: New_def Let_def split: if_splits)
  then show "in_order (world_init p)"
    using New_ok [OF assms(1)]
    by (simp add: in_order_def world_init_def start_run_def Let_def wm_init_def)
next
  fix s t assume "reachable p s" "in_order s" "step s t"
  then show "in_order t" using step_in_order reachable_inv [OF assms(1)] by blast
qed

lemma single_worker_ack:
  assumes "New os ss = Inr p" and "reachable p s" and "Workers os = 1"
    and "length (accepted s) < 2 ^ 64"
    and "await_try seq (wm s) = (Return None, w)" and "1 \<le> k" and "k \<le> unat seq"
  shows "\<exists>b ok. (b, ok) \<in> set (completed s) \<and>
    unat (b_first b) \<le> k \<and> k \<le> unat (b_last b) \<and>
    (in_every_sink s b \<or> span_of b \<in> set (reported s))"
proof -
  have i: "inv s" by (rule reachable_inv [OF assms(1,2)])
  have "in_order s" by (rule reachable_in_order [OF assms(1,2,3)])
  then have srt: "sorted (map sp_first (failed (wm s)))"
    using assms(4) by (simp add: in_order_def)
  have le: "seq \<le> written (wm s)"
    and nf: "failed (wm s) = [] \<or> seq < sp_first (hd (failed (wm s)))"
    using assms(5) by (simp_all add: await_try_Return_None)
  then have "k \<le> unat (written (wm s))" using assms(7) by (simp add: word_le_nat_alt)
  then obtain b ok where b: "(b, ok) \<in> set (completed s)"
      "unat (b_first b) \<le> k" "k \<le> unat (b_last b)"
    using in_written_completed [OF i assms(4,6)] by blast
  have "span_of b \<notin> set (failed (wm s))"
  proof
    assume f: "span_of b \<in> set (failed (wm s))"
    then have "sp_first (hd (failed (wm s))) \<le> b_first b"
      using sorted_hd_le [OF srt f] by (simp add: span_of_def)
    with nf f have "seq < b_first b" by auto
    with b(2) assms(7) show False by (simp add: word_less_nat_alt)
  qed
  then have "in_every_sink s b \<or> span_of b \<in> set (reported s)"
    using i b(1) by (cases ok) (auto simp: inv_def delivered_def wrote_ok_def accounted_def)
  with b show ?thesis by blast
qed

text \<open>
  C13. At-least-once for a pull source when the pipeline has one worker: if waiting for
  \<open>seq\<close> succeeds, then every record up to \<open>seq\<close> is in a completed batch which every sink
  has, unless the failure of that batch has been reported to a waiter before. So a source
  that acknowledges only after success, and rewinds when told of a failure, never
  acknowledges a record that a sink is missing.
\<close>

theorem single_worker_ack_is_safe:
  assumes "New os ss = Inr p" and "reachable p s" and "Workers os = 1"
    and "length (accepted s) < 2 ^ 64"
    and "await_try seq (wm s) = (Return None, w)" and "1 \<le> k" and "k \<le> unat seq"
  shows "\<exists>b ok. (b, ok) \<in> set (completed s) \<and>
    unat (b_first b) \<le> k \<and> k \<le> unat (b_last b) \<and>
    (in_every_sink s b \<or> span_of b \<in> set (reported s))"
  using assms by (rule single_worker_ack)

lemma single_worker_ack_is_safe_witness:
  "\<exists>b ok. (b, ok) \<in> set (completed (demo_run 1 one_written)) \<and>
     (in_every_sink (demo_run 1 one_written) b \<or> span_of b \<in> set (reported (demo_run 1 one_written)))"
proof -
  let ?s = "demo_run 1 one_written"
  have n: "length (accepted ?s) < 2 ^ 64" by (simp add: one_written_accepted)
  have w: "Workers (demo_opts 1) = 1" by (simp add: demo_opts_def)
  have "failed (wm ?s) = []"
    by (simp add: demo_run_def one_written_run rejected_def wm_init_def)
  then have a: "await_try 1 (wm ?s) = (Return None, wm ?s)"
    by (simp add: await_try_Return_None one_written_written)
  show ?thesis
    using single_worker_ack_is_safe [OF demo_New one_written_reachable w n a, of 1] by auto
qed

definition lost_ack :: "action list" where
  "lost_ack =
     [Pull ''kafka'' zero_record, PullGo 0, PullGo 0, Take, Hand 0,
      Pull ''kafka'' zero_record, PullGo 0, PullGo 0, Take, Hand 1,
      Write 1 0 [False], Complete 1, Write 0 0 [False], Complete 0]"

text \<open>
  C20. With two workers the same acknowledgement is unsafe. In the run below two records
  are accepted and batched; the sink rejects the second batch, then the first. Waiting for
  record 1 then succeeds although its batch was rejected, no sink has it and nobody has
  been told of any failure: a pull source would acknowledge a record that is lost.
\<close>

theorem two_workers_ack_loses_record:
  "reachable (demo_pipe 2) (demo_run 2 lost_ack) \<and>
   New (demo_opts 2) [''postgres''] = Inr (demo_pipe 2) \<and>
   accepted (demo_run 2 lost_ack) ! 0 = zero_record \<and>
   fst (await_try 1 (wm (demo_run 2 lost_ack))) = Return None \<and>
   (\<lparr>b_records = [zero_record], b_first = 1, b_last = 1\<rparr>, False)
      \<in> set (completed (demo_run 2 lost_ack)) \<and>
   (\<forall>i. sink_log (demo_run 2 lost_ack) i = []) \<and>
   reported (demo_run 2 lost_ack) = []"
proof -
  have two: "replicate (nat 2) Idle = [Idle, Idle]" by (simp add: numeral_2_eq_2)
  have r: "\<exists>t. run lost_ack (world_init (demo_pipe 2)) = Some t \<and>
      accepted t = [zero_record, zero_record] \<and>
      wm t = complete 1 1 False (complete 2 2 False wm_init) \<and>
      completed t = [(\<lparr>b_records = [zero_record], b_first = 2, b_last = 2\<rparr>, False),
                     (\<lparr>b_records = [zero_record], b_first = 1, b_last = 1\<rparr>, False)] \<and>
      (\<forall>i. sink_log t i = []) \<and> reported t = []"
    by (simp add: lost_ack_def demo_defs two nth_Cons')
  then obtain t where t: "demo_run 2 lost_ack = t" "run lost_ack (world_init (demo_pipe 2)) \<noteq> None"
      "accepted t = [zero_record, zero_record]"
      "wm t = complete 1 1 False (complete 2 2 False wm_init)"
      "completed t = [(\<lparr>b_records = [zero_record], b_first = 2, b_last = 2\<rparr>, False),
                     (\<lparr>b_records = [zero_record], b_first = 1, b_last = 1\<rparr>, False)]"
      "\<forall>i. sink_log t i = []" "reported t = []"
    by (auto simp: demo_run_def)
  have "written (complete 1 1 False (complete 2 2 False wm_init)) = 2"
    by (simp add: complete_def wm_init_def wake_def advance.simps)
  then have "fst (await_try 1 (wm t)) = Return None"
    by (simp add: t(4) await_try_def rejected_def wm_init_def word_le_nat_alt)
  with t demo_reachable [OF t(2)] show ?thesis
    by (simp add: demo_New)
qed

section \<open>Waiting for space, shutdown, and termination\<close>

fun is_send :: "offer \<Rightarrow> bool" where
  "is_send (PushSend _ _) = True"
| "is_send (PullSend _ _) = True"
| "is_send _ = False"

text \<open>
  Once the loop has been left with no call past its check of \<open>closing\<close>, nothing is
  accepted any more and the buffer is empty from the end of the drain on.
\<close>

definition sealed :: "World \<Rightarrow> bool" where
  "sealed s \<longleftrightarrow> closing s \<and> (\<forall>x\<in>set (inflight s). \<not> is_send x) \<and>
     pc s \<noteq> Looping \<and> pc s \<noteq> Sending ToLoop \<and>
     (pc s \<in> {Sending ToClose, ClosingBatches, WaitingWorkers, Returned} \<longrightarrow> buf s = [])"

lemma step_sealed: "step s t \<Longrightarrow> sealed s \<Longrightarrow> sealed t \<and> accepted t = accepted s"
  by (erule step.cases)
    (auto simp: step_eqs run_defs sealed_def Offer_def batch_full_def split: if_splits)

lemma steps_sealed: "step\<^sup>*\<^sup>* s t \<Longrightarrow> sealed s \<Longrightarrow> sealed t \<and> accepted t = accepted s"
  by (induction rule: rtranclp_induct) (auto dest: step_sealed)

lemma steps_inv: "step\<^sup>*\<^sup>* s t \<Longrightarrow> inv s \<Longrightarrow> inv t"
  by (induction rule: rtranclp_induct) (auto intro: step_inv)

lemma returned_all_idle: "phase_ok s \<Longrightarrow> pc s = Returned \<Longrightarrow> held_all (workers s) = {#}"
  by (auto simp: phase_ok_def held_all_def in_set_conv_nth)

text \<open>
  C14. A shutdown loses nothing that was accepted: if the context of \<open>Run\<close> ends when no
  offer is past its check of \<open>closing\<close> (the application stops its sources first), then in
  every continuation in which \<open>Run\<close> returns, the records accepted are exactly those accepted
  before, every one of them has been handed to a worker, in order, and every batch handed
  over has been written and completed exactly once.
\<close>

theorem shutdown_drains_everything:
  assumes "New os ss = Inr p" and "reachable p s" and "pc s = Looping"
    and "\<forall>x\<in>set (inflight s). \<not> is_send x"
    and "step\<^sup>*\<^sup>* (stop_loop s) t" and "pc t = Returned"
  shows "accepted t = accepted s \<and>
    concat (map b_records (handed t)) = accepted s \<and>
    mset (map fst (completed t)) = mset (handed t)"
proof -
  have "inv (stop_loop s)"
    using step_inv [OF step.run_cancel [OF assms(3)]] reachable_inv [OF assms(1,2)] by blast
  then have i: "inv t" using steps_inv [OF assms(5)] by blast
  have "sealed (stop_loop s)" using assms(4) by (simp add: sealed_def stop_loop_def)
  then have e: "sealed t" "accepted t = accepted (stop_loop s)"
    using steps_sealed [OF assms(5)] by blast+
  then have "buf t = []" "accepted t = accepted s"
    using assms(6) by (simp_all add: sealed_def stop_loop_def)
  moreover have "pending t = []" using i assms(6) by (simp add: inv_def phase_ok_def)
  moreover have "held_all (workers t) = {#}"
    using i assms(6) returned_all_idle by (simp add: inv_def)
  ultimately show ?thesis using i by (simp add: inv_def conserved_def worked_def)
qed

lemma shutdown_drains_everything_witness:
  "\<exists>t. step\<^sup>*\<^sup>* (stop_loop (demo_run 1 one_written)) t \<and> pc t = Returned \<and>
     concat (map b_records (handed t)) = accepted (demo_run 1 one_written)"
proof -
  let ?s = "demo_run 1 one_written"
  have s: "pc ?s = Looping" "\<forall>x\<in>set (inflight ?s). \<not> is_send x"
    unfolding demo_run_def one_written_run option.sel
    by (simp_all add: world_init_def start_run_def Let_def)
  have "\<exists>t. run [Take, CloseB, Finish] (stop_loop ?s) = Some t \<and> pc t = Returned"
    unfolding demo_run_def one_written_run option.sel
    by (simp add: demo_defs)
  then obtain t where t: "step\<^sup>*\<^sup>* (stop_loop ?s) t" "pc t = Returned"
    using run_steps by blast
  show ?thesis
    using t shutdown_drains_everything [OF demo_New one_written_reachable s t] by auto
qed

text \<open>
  A measure that some step of the batcher or of a worker decreases until \<open>Run\<close> returns.
\<close>

fun work_left :: "worker \<Rightarrow> nat" where
  "work_left Idle = 0"
| "work_left (Busy _) = 2"
| "work_left (Wrote _ _) = 1"

fun phase_left :: "run_pc \<Rightarrow> nat" where
  "phase_left (Sending ToLoop) = 10"
| "phase_left Looping = 7"
| "phase_left (Sending ToDrain) = 9"
| "phase_left Draining = 6"
| "phase_left (Sending ToClose) = 5"
| "phase_left ClosingBatches = 2"
| "phase_left WaitingWorkers = 1"
| "phase_left Returned = 0"

definition left :: "World \<Rightarrow> nat" where
  "left s = sum_list (map work_left (workers s)) + phase_left (pc s) + 10 * length (buf s)"

lemma work_left_update:
  "i < length ws \<Longrightarrow> sum_list (map work_left (ws[i := w])) + work_left (ws ! i) =
     sum_list (map work_left ws) + work_left w"
  by (induction ws arbitrary: i) (auto split: nat.splits)

lemma worker_progress:
  assumes "i < length (workers s)" and "workers s ! i \<noteq> Idle"
  shows "\<exists>t. step s t \<and> left t < left s"
proof (cases "workers s ! i")
  case (Busy b)
  let ?oks = "replicate (length (sinks s)) True"
  have "step s (log_writes b ?oks (worker_write i 0 b ?oks s))"
    using assms(1) Busy by (intro step.worker_writes) simp_all
  moreover have "left (log_writes b ?oks (worker_write i 0 b ?oks s)) < left s"
    using work_left_update [OF assms(1), of "Wrote b (fst (fan_out 0 (b_records b) ?oks s))"] Busy
    by (simp add: left_def log_writes_def worker_write_eq)
  ultimately show ?thesis by blast
next
  case (Wrote b ok)
  have "step s ((worker_complete i b ok s)\<lparr>completed := completed s @ [(b, ok)]\<rparr>)"
    using assms(1) Wrote by (rule step.worker_completes)
  moreover have "left ((worker_complete i b ok s)\<lparr>completed := completed s @ [(b, ok)]\<rparr>) < left s"
    using work_left_update [OF assms(1), of Idle] Wrote
    by (simp add: left_def worker_complete_def)
  ultimately show ?thesis by blast
qed (use assms in simp)

lemma batcher_progress:
  assumes "inv s" and "pc s \<noteq> Returned" and "workers s \<noteq> []"
    and idle: "\<forall>i<length (workers s). workers s ! i = Idle"
  shows "\<exists>t. step s t \<and> left t < left s"
proof (cases "pc s")
  case Looping
  then have "step s (stop_loop s)" by (rule step.run_cancel)
  then show ?thesis using Looping by (force simp: left_def stop_loop_def)
next
  case (Sending c)
  let ?t = "(hand_over 0 c s)\<lparr>handed := handed s @ [current_batch s]\<rparr>"
  have z: "0 < length (workers s)" "workers s ! 0 = Idle" using assms(3) idle by auto
  have "step s ?t" using Sending z by (rule step.run_hand)
  moreover have "left ?t < left s"
    using work_left_update [OF z(1), of "Busy (current_batch s)"] z(2) Sending
    by (cases c) (simp_all add: left_def hand_over_def)
  ultimately show ?thesis by blast
next
  case Draining
  show ?thesis
  proof (cases "buf s")
    case Nil
    then have "step s (flush ToClose s)" using Draining by (intro step.run_drained) (simp_all add: chan_simps)
    then show ?thesis using Draining by (force simp: left_def flush_def)
  next
    case (Cons r rest)
    then have "step s (drain_take r rest s)" using Draining
      by (intro step.run_drain) (simp_all add: chan_simps)
    then show ?thesis using Draining Cons
      by (force simp: left_def drain_take_def take_rec_def flush_def Let_def)
  qed
next
  case ClosingBatches
  then have "step s (close_batches s)" by (rule step.run_close)
  then show ?thesis using ClosingBatches by (force simp: left_def close_batches_def)
next
  case WaitingWorkers
  then have "step s (finish_run s)" using idle by (rule step.run_finish)
  then show ?thesis using WaitingWorkers by (force simp: left_def finish_run_def)
qed (use assms in simp)

lemma can_return:
  "inv s \<Longrightarrow> workers s \<noteq> [] \<Longrightarrow> \<exists>t. step\<^sup>*\<^sup>* s t \<and> pc t = Returned"
proof (induction "left s" arbitrary: s rule: less_induct)
  case less
  show ?case
  proof (cases "pc s = Returned")
    case True
    then show ?thesis by blast
  next
    case False
    obtain t where t: "step s t" "left t < left s"
      using worker_progress [of _ s] batcher_progress [OF less.prems(1) False less.prems(2)] by blast
    then have "inv t" "workers t \<noteq> []"
      using step_inv less.prems step_static [OF t(1)] by auto
    then obtain u where "step\<^sup>*\<^sup>* t u" "pc u = Returned" using less.hyps [OF t(2)] by blast
    with t(1) show ?thesis by (meson converse_rtranclp_into_rtranclp)
  qed
qed

text \<open>
  C15. \<open>Run\<close> never deadlocks: from every reachable world there is a continuation in
  which \<open>Run\<close> returns, whatever is buffered, whichever workers are busy and whatever calls
  are waiting.
\<close>

theorem run_can_always_return:
  assumes "New os ss = Inr p" and "reachable p s"
  shows "\<exists>t. step\<^sup>*\<^sup>* s t \<and> pc t = Returned"
proof (rule can_return)
  show "inv s" by (rule reachable_inv [OF assms])
  show "workers s \<noteq> []"
    using reachable_static [OF assms(2)] New_ok [OF assms(1)] by auto
qed

lemma run_can_always_return_witness:
  "\<exists>t. step\<^sup>*\<^sup>* (demo_run 2 lost_ack) t \<and> pc t = Returned"
proof -
  have two: "replicate (nat 2) Idle = [Idle, Idle]" by (simp add: numeral_2_eq_2)
  have "run lost_ack (world_init (demo_pipe 2)) \<noteq> None"
    by (simp add: lost_ack_def demo_defs two)
  from run_can_always_return [OF demo_New demo_reachable [OF this]] show ?thesis by simp
qed

text \<open>
  C19. A pull source that waits for buffer space is never stranded. As long as the pipeline is not
  closing, however many calls of \<open>intake.Offer\<close> are in flight and one of them waits: the wake-up token is there;
  or the buffer holds a record, so the batcher has one to take and taking it leaves the token; or the
  buffer is empty and another call is on its way to its send, and that send succeeds at once and leaves
  such a record.
\<close>

theorem waiting_pull_offer_is_woken:
  assumes "New os ss = Inr p" and "reachable p s"
    and "PullWait src rec \<in> set (inflight s)" and "\<not> closing s"
  shows "space s \<or>
    (\<exists>r rest. buf s = r # rest \<and> space (loop_take r rest s)) \<or>
    (buf s = [] \<and>
     (\<exists>src' rec' seq t. (PullTry src' rec' \<in> set (inflight s) \<or> PullSend src' rec' \<in> set (inflight s)) \<and>
        intake_round src' rec' s = (Some (Inr seq), t) \<and> buf t = [rec']))"
proof -
  have inv: "wakeable s" using reachable_inv [OF assms(1,2)] by (simp add: inv_def)
  have taken: "space (loop_take r rest s)" for r rest
    by (simp add: loop_take_def take_rec_def flush_def Let_def)
  have room: "0 < nat (BufferSize (opts s))" using inv by (simp add: wakeable_def)
  have sends: "\<exists>seq t. intake_round src' rec' s = (Some (Inr seq), t) \<and> buf t = [rec']" if "buf s = []" for src' rec'
    using that room assms(4)
    by (simp add: intake_round_def intake_open_def tryOffer_def chan_try_send_def count_ingested_def Let_def)
  have active: "\<exists>src' rec'. PullTry src' rec' \<in> set (inflight s) \<or> PullSend src' rec' \<in> set (inflight s)"
    if act: "\<exists>x\<in>set (inflight s). is_pull_active x"
  proof -
    obtain x where "x \<in> set (inflight s)" "is_pull_active x" using act by blast
    then show ?thesis by (cases x rule: offer.exhaust) auto
  qed
  have "\<exists>x\<in>set (inflight s). is_pull_wait x"
    using assms(3) by (rule bexI [rotated]) simp
  then have "space s \<or> buf s \<noteq> [] \<or> (\<exists>x\<in>set (inflight s). is_pull_active x)"
    using inv assms(4) by (auto simp: wakeable_def)
  then show ?thesis using taken sends active by (cases "buf s") (simp_all, blast)
qed

definition third_waits :: "action list" where
  "third_waits = concat (replicate 3 [Pull ''kafka'' zero_record, PullGo 0, PullGo 0])"

lemma third_waits_run:
  "\<exists>t. run third_waits (world_init (demo_pipe 1)) = Some t \<and>
     inflight t = [PullWait ''kafka'' zero_record] \<and> \<not> closing t"
  by (simp add: third_waits_def numeral_3_eq_3 demo_defs)

lemma waiting_pull_offer_is_woken_witness:
  "space (demo_run 1 third_waits) \<or>
   (\<exists>r rest. buf (demo_run 1 third_waits) = r # rest \<and> space (loop_take r rest (demo_run 1 third_waits)))"
proof -
  have r: "run third_waits (world_init (demo_pipe 1)) \<noteq> None"
    and f: "inflight (demo_run 1 third_waits) = [PullWait ''kafka'' zero_record]"
      "\<not> closing (demo_run 1 third_waits)"
    using third_waits_run by (auto simp: demo_run_def)
  show ?thesis
    using waiting_pull_offer_is_woken [OF demo_New demo_reachable [OF r], of "''kafka''" zero_record] f by simp
qed

end
