(* ===== verification/Netflow_Decode.thy ===== *)
theory Netflow_Decode
  imports Flow
begin

text \<open>
  \<open>internal/source/netflow/decode.go\<close>: one datagram to flow records. The packet parsers of
  goflow2 are not part of this repository: they are the arguments \<open>lib5\<close> and \<open>libT\<close> of
  the definitions, and the records below are the fields the collector reads of what they
  return. The numbers of the information elements belong to goflow2 too, so an element is
  named by its constructor, as the source names it by its constant.
\<close>

unbundle bit_operations_syntax

definition v5HeaderLen :: nat where "v5HeaderLen = 24"
definition v5RecordLen :: nat where "v5RecordLen = 48"

datatype decode_error = ErrShort | ErrVersion u16 | ErrV5Short nat nat | ErrLib string

record v5_record =
  r5_SrcAddr :: u32
  r5_DstAddr :: u32
  r5_NextHop :: u32
  r5_Input :: u16
  r5_Output :: u16
  r5_DPkts :: u32
  r5_DOctets :: u32
  r5_First :: u32
  r5_Last :: u32
  r5_SrcPort :: u16
  r5_DstPort :: u16
  r5_TCPFlags :: u8
  r5_Proto :: u8
  r5_SrcAS :: u16
  r5_DstAS :: u16

record v5_packet =
  p5_SysUptime :: u32
  p5_UnixSecs :: u32
  p5_UnixNSecs :: u32
  p5_SamplingInterval :: u16
  p5_Records :: "v5_record list"

datatype element =
    octetDeltaCount | packetDeltaCount | protocolIdentifier | tcpControlBits
  | sourceTransportPort | destinationTransportPort
  | sourceIPv4Address | sourceIPv6Address
  | destinationIPv4Address | destinationIPv6Address
  | ipNextHopIPv4Address | ipNextHopIPv6Address
  | ingressInterface | egressInterface | bgpSourceAsNumber | bgpDestinationAsNumber
  | samplingInterval | samplerRandomInterval | samplingPacketInterval
  | flowStartSysUpTime | flowEndSysUpTime | flowStartSeconds | flowEndSeconds
  | flowStartMilliseconds | flowEndMilliseconds | flowStartMicroseconds | flowEndMicroseconds
  | OtherElement u16

record data_field =
  df_PenProvided :: bool
  df_Type :: element
  df_Value :: "byte list option"

datatype flow_set = DataFlowSet "data_field list list" | OtherFlowSet

record v9_packet =
  v9_Version :: u16
  v9_UnixSeconds :: u32
  v9_SystemUptime :: u32
  v9_FlowSets :: "flow_set list"

record ipfix_packet =
  ix_ExportTime :: u32
  ix_FlowSets :: "flow_set list"

section \<open>Helpers\<close>

definition beUint :: "byte list \<Rightarrow> u64" where
  "beUint b = foldl (\<lambda>n c. push_bit 8 n OR ucast c) 0 b"

definition addr :: "byte list \<Rightarrow> Addr" where
  "addr b = fst (addr_from_slice b)"

definition ipv4 :: "u32 \<Rightarrow> Addr" where
  "ipv4 n = addr_from4 (ucast (drop_bit 24 n)) (ucast (drop_bit 16 n)) (ucast (drop_bit 8 n)) (ucast n)"

definition nextHop4 :: "u32 \<Rightarrow> Addr" where
  "nextHop4 n = (if n = 0 then AddrZero else ipv4 n)"

definition uptimeToTime :: "time \<Rightarrow> u32 \<Rightarrow> time" where
  "uptimeToTime boot ms = micro (boot + uint ms * Millisecond)"

text \<open>
  The fraction is computed in \<open>float64\<close>: a 32-bit integer divided by \<open>2 ^ 32\<close> and
  multiplied by \<open>10 ^ 9 = 1953125 * 2 ^ 9\<close>. The 32-bit integer times 1953125 is below
  \<open>2 ^ 53\<close>, so every intermediate value is exact and the conversion to a duration rounds
  the exact quotient down.
\<close>

definition ntpEpochOffset :: int where "ntpEpochOffset = 2208988800"

definition ntpToTime :: "u64 \<Rightarrow> time" where
  "ntpToTime v =
     (let secs = uint (drop_bit 32 v) - ntpEpochOffset;
          frac = (uint (v AND 0xffffffff) * Second) div 2 ^ 32
      in micro (time_Unix secs frac))"

section \<open>NetFlow v5\<close>

definition be_u16_at :: "nat \<Rightarrow> byte list \<Rightarrow> u16" where
  "be_u16_at i b = of_nat (be_nat (take 2 (drop i b)))"

definition v5_boot :: "v5_packet \<Rightarrow> time" where
  "v5_boot pkt =
     time_Unix (uint (p5_UnixSecs pkt)) (uint (p5_UnixNSecs pkt))
       - uint (p5_SysUptime pkt) * Millisecond"

definition v5_rate :: "v5_packet \<Rightarrow> u32" where
  "v5_rate pkt =
     (let rate = (ucast (p5_SamplingInterval pkt AND 0x3fff) :: u32) in if rate = 0 then 1 else rate)"

definition v5_flow :: "v5_packet \<Rightarrow> Addr \<Rightarrow> time \<Rightarrow> v5_record \<Rightarrow> FlowRecord" where
  "v5_flow pkt exporter receivedAt r = zero_record
     \<lparr>ReceivedAt := receivedAt,
      ExporterAddr := exporter,
      FlowType_of := FlowTypeNetFlow5,
      FirstSwitched := uptimeToTime (v5_boot pkt) (r5_First r),
      LastSwitched := uptimeToTime (v5_boot pkt) (r5_Last r),
      SrcAddr := ipv4 (r5_SrcAddr r),
      DstAddr := ipv4 (r5_DstAddr r),
      SrcPort := r5_SrcPort r,
      DstPort := r5_DstPort r,
      Protocol := r5_Proto r,
      TCPFlags := r5_TCPFlags r,
      Packets := ucast (r5_DPkts r),
      Bytes := ucast (r5_DOctets r),
      SamplingRate := v5_rate pkt,
      InputIface := ucast (r5_Input r),
      OutputIface := ucast (r5_Output r),
      SrcAS := ucast (r5_SrcAS r),
      DstAS := ucast (r5_DstAS r),
      NextHop := nextHop4 (r5_NextHop r)\<rparr>"

type_synonym v5_lib = "byte list \<Rightarrow> string + v5_packet"

definition decodeV5 :: "v5_lib \<Rightarrow> byte list \<Rightarrow> Addr \<Rightarrow> time \<Rightarrow> decode_error + FlowRecord list" where
  "decodeV5 lib5 b exporter receivedAt =
     (if length b < v5HeaderLen then Inl ErrShort
      else let count = unat (be_u16_at 2 b)
           in if length b < v5HeaderLen + count * v5RecordLen
              then Inl (ErrV5Short (length b) count)
              else case lib5 b of
                     Inl e \<Rightarrow> Inl (ErrLib e)
                   | Inr pkt \<Rightarrow> Inr (map (v5_flow pkt exporter receivedAt) (p5_Records pkt)))"

section \<open>NetFlow v9 and IPFIX\<close>

definition applyField :: "FlowRecord \<Rightarrow> data_field \<Rightarrow> time \<Rightarrow> FlowRecord" where
  "applyField r f boot =
     (let v = (case df_Value f of None \<Rightarrow> [] | Some b \<Rightarrow> b)
      in if df_PenProvided f \<or> length v = 0 then r
         else case df_Type f of
            octetDeltaCount \<Rightarrow> r\<lparr>Bytes := beUint v\<rparr>
          | packetDeltaCount \<Rightarrow> r\<lparr>Packets := beUint v\<rparr>
          | protocolIdentifier \<Rightarrow> r\<lparr>Protocol := ucast (beUint v)\<rparr>
          | tcpControlBits \<Rightarrow> r\<lparr>TCPFlags := ucast (beUint v)\<rparr>
          | sourceTransportPort \<Rightarrow> r\<lparr>SrcPort := ucast (beUint v)\<rparr>
          | destinationTransportPort \<Rightarrow> r\<lparr>DstPort := ucast (beUint v)\<rparr>
          | sourceIPv4Address \<Rightarrow> r\<lparr>SrcAddr := addr v\<rparr>
          | sourceIPv6Address \<Rightarrow> r\<lparr>SrcAddr := addr v\<rparr>
          | destinationIPv4Address \<Rightarrow> r\<lparr>DstAddr := addr v\<rparr>
          | destinationIPv6Address \<Rightarrow> r\<lparr>DstAddr := addr v\<rparr>
          | ipNextHopIPv4Address \<Rightarrow>
              (let a = addr v in if is_valid a \<and> \<not> is_unspecified a then r\<lparr>NextHop := a\<rparr> else r)
          | ipNextHopIPv6Address \<Rightarrow>
              (let a = addr v in if is_valid a \<and> \<not> is_unspecified a then r\<lparr>NextHop := a\<rparr> else r)
          | ingressInterface \<Rightarrow> r\<lparr>InputIface := ucast (beUint v)\<rparr>
          | egressInterface \<Rightarrow> r\<lparr>OutputIface := ucast (beUint v)\<rparr>
          | bgpSourceAsNumber \<Rightarrow> r\<lparr>SrcAS := ucast (beUint v)\<rparr>
          | bgpDestinationAsNumber \<Rightarrow> r\<lparr>DstAS := ucast (beUint v)\<rparr>
          | samplingInterval \<Rightarrow>
              (let n = (ucast (beUint v) :: u32) in if n > 0 then r\<lparr>SamplingRate := n\<rparr> else r)
          | samplerRandomInterval \<Rightarrow>
              (let n = (ucast (beUint v) :: u32) in if n > 0 then r\<lparr>SamplingRate := n\<rparr> else r)
          | samplingPacketInterval \<Rightarrow>
              (let n = (ucast (beUint v) :: u32) in if n > 0 then r\<lparr>SamplingRate := n\<rparr> else r)
          | flowStartSysUpTime \<Rightarrow> r\<lparr>FirstSwitched := uptimeToTime boot (ucast (beUint v))\<rparr>
          | flowEndSysUpTime \<Rightarrow> r\<lparr>LastSwitched := uptimeToTime boot (ucast (beUint v))\<rparr>
          | flowStartSeconds \<Rightarrow> r\<lparr>FirstSwitched := time_Unix (sint (beUint v)) 0\<rparr>
          | flowEndSeconds \<Rightarrow> r\<lparr>LastSwitched := time_Unix (sint (beUint v)) 0\<rparr>
          | flowStartMilliseconds \<Rightarrow> r\<lparr>FirstSwitched := time_UnixMilli (sint (beUint v))\<rparr>
          | flowEndMilliseconds \<Rightarrow> r\<lparr>LastSwitched := time_UnixMilli (sint (beUint v))\<rparr>
          | flowStartMicroseconds \<Rightarrow> r\<lparr>FirstSwitched := ntpToTime (beUint v)\<rparr>
          | flowEndMicroseconds \<Rightarrow> r\<lparr>LastSwitched := ntpToTime (beUint v)\<rparr>
          | OtherElement _ \<Rightarrow> r)"

definition apply_record :: "FlowRecord \<Rightarrow> time \<Rightarrow> data_field list \<Rightarrow> FlowRecord" where
  "apply_record base boot values =
     (let r = foldl (\<lambda>r f. applyField r f boot) base values
      in if is_zero (LastSwitched r) then r\<lparr>LastSwitched := FirstSwitched r\<rparr> else r)"

fun flow_set_records :: "FlowRecord \<Rightarrow> time \<Rightarrow> flow_set \<Rightarrow> FlowRecord list" where
  "flow_set_records base boot (DataFlowSet recs) = map (apply_record base boot) recs"
| "flow_set_records base boot OtherFlowSet = []"

text \<open>
  The decoder's state: one template system per exporter. Decoding a packet may add
  templates to the exporter's system whether or not it succeeds.
\<close>

record 'ts decoder =
  templates :: "Addr \<rightharpoonup> 'ts"
  newSystem :: "Addr \<Rightarrow> 'ts"

type_synonym 'ts templated_lib =
  "byte list \<Rightarrow> 'ts \<Rightarrow> (string + v9_packet \<times> ipfix_packet) \<times> 'ts"

definition templatesFor :: "Addr \<Rightarrow> 'ts decoder \<Rightarrow> 'ts \<times> 'ts decoder" where
  "templatesFor exporter d =
     (case templates d exporter of
        Some ts \<Rightarrow> (ts, d)
      | None \<Rightarrow> (let ts = newSystem d exporter
                 in (ts, d\<lparr>templates := (templates d)(exporter \<mapsto> ts)\<rparr>)))"

definition templated_base :: "Addr \<Rightarrow> time \<Rightarrow> FlowType \<Rightarrow> FlowRecord" where
  "templated_base exporter receivedAt ft =
     zero_record\<lparr>FlowType_of := ft, ReceivedAt := receivedAt, ExporterAddr := exporter,
       SamplingRate := 1\<rparr>"

definition templated_records ::
    "v9_packet \<Rightarrow> ipfix_packet \<Rightarrow> Addr \<Rightarrow> time \<Rightarrow> FlowRecord list" where
  "templated_records v9 ipfix exporter receivedAt =
     (let (flowSets, ft, boot) =
        (if v9_Version v9 = 9
         then (v9_FlowSets v9, FlowTypeNetFlow9,
               time_Unix (uint (v9_UnixSeconds v9)) 0 - uint (v9_SystemUptime v9) * Millisecond)
         else (ix_FlowSets ipfix, FlowTypeIPFIX, time_Unix (uint (ix_ExportTime ipfix)) 0))
      in concat (map (flow_set_records (templated_base exporter receivedAt ft) boot) flowSets))"

definition decodeTemplated :: "'ts templated_lib \<Rightarrow> byte list \<Rightarrow> Addr \<Rightarrow> time \<Rightarrow> 'ts decoder \<Rightarrow>
    (decode_error + FlowRecord list) \<times> 'ts decoder" where
  "decodeTemplated libT b exporter receivedAt d =
     (let (ts, d1) = templatesFor exporter d;
          (res, ts') = libT b ts;
          d2 = d1\<lparr>templates := (templates d1)(exporter \<mapsto> ts')\<rparr>
      in case res of
           Inl e \<Rightarrow> (Inl (ErrLib e), d2)
         | Inr (v9, ipfix) \<Rightarrow> (Inr (templated_records v9 ipfix exporter receivedAt), d2))"

definition decode :: "v5_lib \<Rightarrow> 'ts templated_lib \<Rightarrow> byte list \<Rightarrow> Addr \<Rightarrow> time \<Rightarrow> 'ts decoder \<Rightarrow>
    (decode_error + FlowRecord list) \<times> 'ts decoder" where
  "decode lib5 libT b exporter receivedAt d =
     (if length b < 2 then (Inl ErrShort, d)
      else let version = be_u16_at 0 b
           in if version = 5 then (decodeV5 lib5 b exporter receivedAt, d)
              else if version = 9 \<or> version = 10 then decodeTemplated libT b exporter receivedAt d
              else (Inl (ErrVersion version), d))"

text \<open>
  \<open>netflow.go\<close>: the sender's address of a datagram. \<open>None\<close> is a sender that is not a
  UDP address.
\<close>

definition exporterAddr :: "byte list option \<Rightarrow> Addr" where
  "exporterAddr a =
     (case a of
        Some ip \<Rightarrow> (case addr_from_slice ip of (x, True) \<Rightarrow> unmap x | (_, False) \<Rightarrow> AddrZero)
      | None \<Rightarrow> AddrZero)"

section \<open>Integers and instants\<close>

lemma push_or_byte: "push_bit 8 (n :: u64) OR ucast (c :: byte) = n * 256 + ucast c"
proof -
  have "push_bit 8 n OR ucast c = push_bit 8 n + (ucast c :: u64)"
  proof (rule disjunctive_add_eq_or [symmetric])
    show "push_bit 8 n AND ucast c = 0"
      by (rule bit_word_eqI) (auto simp: bit_simps dest: bit_imp_le_length)
  qed
  then show ?thesis by (simp add: push_bit_eq_mult)
qed

lemma beUint_eq: "beUint bs = of_nat (be_nat bs)"
proof (induction bs rule: rev_induct)
  case Nil
  show ?case by (simp add: beUint_def)
next
  case (snoc b bs)
  have "beUint (bs @ [b]) = beUint bs * 256 + ucast b"
    by (simp add: beUint_def push_or_byte)
  also have "(ucast b :: u64) = of_nat (unat b)"
    by (simp add: unsigned_ucast_eq of_nat_unat)
  finally show ?case by (simp add: snoc.IH)
qed

lemma beUint_be_bytes: "k \<le> 8 \<Longrightarrow> x < 256 ^ k \<Longrightarrow> unat (beUint (be_bytes k x)) = x"
proof -
  assume k: "k \<le> 8" and x: "x < 256 ^ k"
  have "(256 :: nat) ^ k \<le> 256 ^ 8" using k by (intro power_increasing) simp_all
  then have "x < 2 ^ 64" using x by simp
  then show ?thesis using x by (simp add: beUint_eq be_nat_be_bytes unat_of_nat)
qed

lemma ucast_drop_bit_byte:
  "(ucast (drop_bit k (n :: 'a::len word)) :: byte) = of_nat (unat n div 2 ^ k)"
proof -
  have "(ucast (drop_bit k n) :: byte) = of_nat (unat (drop_bit k n))" by simp
  also have "\<dots> = of_nat (unat n div 2 ^ k)"
    unfolding unat_drop_bit_eq unfolding drop_bit_eq_div ..
  finally show ?thesis .
qed

lemma be32_bytes:
  "be32 n = [ucast (drop_bit 24 n), ucast (drop_bit 16 n), ucast (drop_bit 8 n), ucast n]"
proof -
  have four: "4 = Suc (Suc (Suc (Suc 0)))" by simp
  have "be32 n = be_bytes (Suc (Suc (Suc (Suc 0)))) (unat n)"
    unfolding be32_def four ..
  then show ?thesis
    using ucast_drop_bit_byte [of 0 n] by (simp add: ucast_drop_bit_byte flip: div_mult2_eq)
qed

lemma ipv4_eq [simp]: "ipv4 n = Addr4 n"
  by (simp add: ipv4_def addr_from4_def flip: be32_bytes)

lemma on_micro_time_Unix [simp]: "on_micro (time_Unix s 0)"
  by (simp add: on_micro_def time_Unix_def time_units Let_def)

lemma on_micro_time_UnixMilli [simp]: "on_micro (time_UnixMilli ms)"
proof -
  have split: "(ms mod 1000 * 1000000) div 1000000000 = 0"
    "(ms mod 1000 * 1000000) mod 1000000000 = ms mod 1000 * 1000000"
    by (simp_all add: zdiv_eq_0_iff zmod_trivial_iff)
  have "a * 1000000000 + b * 1000000 = (a * 1000000 + b * 1000) * 1000" for a b :: int
    by simp
  then have "(a * 1000000000 + b * 1000000) mod 1000 = 0" for a b :: int
    by (metis mod_mult_self2_is_0)
  then show ?thesis
    by (simp add: on_micro_def time_UnixMilli_def time_Unix_def time_units Let_def split)
qed

lemma on_micro_uptimeToTime [simp]: "on_micro (uptimeToTime boot ms)"
  by (simp add: uptimeToTime_def)

lemma on_micro_ntpToTime [simp]: "on_micro (ntpToTime v)"
  by (simp add: ntpToTime_def Let_def)

lemma time_Unix_small:
  assumes "- (2 ^ 62) \<le> s" and "s < 2 ^ 62" and "0 \<le> n" and "n < Second"
  shows "time_Unix s n = s * Second + n"
proof -
  have n: "n div Second = 0" "n mod Second = n"
    using assms(3,4) by (simp_all add: div_pos_pos_trivial)
  have "wrap64 s = s" using assms(1,2) by (intro wrap64_id) simp_all
  moreover have "wrap64 (s + unix_to_internal) = s + unix_to_internal"
    using assms(1,2) by (intro wrap64_id) (simp_all add: unix_to_internal_def)
  ultimately show ?thesis by (simp add: time_Unix_def n Let_def)
qed

text \<open>Rounding down twice, to the nanosecond and then to the microsecond, rounds down once.\<close>

lemma micro_div: "0 < d \<Longrightarrow> micro (x div d) = (x div (1000 * d)) * 1000"
  by (simp add: micro_eq time_units minus_mod_eq_div_mult mult.commute zdiv_zmult2_eq)

lemma ntp_fraction: "uint ((v :: u64) AND 0xffffffff) = uint v mod 2 ^ 32"
proof -
  have m: "(0xffffffff :: u64) = mask 32" by (simp add: mask_eq_exp_minus_1)
  show ?thesis
    unfolding m take_bit_eq_mask [symmetric] unsigned_take_bit_eq
    by (simp add: take_bit_eq_mod)
qed

lemma ntp_seconds: "uint (drop_bit 32 (v :: u64)) = uint v div 2 ^ 32"
  unfolding unsigned_drop_bit_eq using uint_bounded [of v]
  by (simp add: drop_bit_eq_div take_bit_eq_mod)

lemma ntp_nanoseconds:
  "ntpToTime v = micro (uint v * Second div 2 ^ 32 - ntpEpochOffset * Second)"
proof -
  define hi lo where "hi = uint v div 2 ^ 32" and "lo = uint v mod 2 ^ 32"
  have v: "uint v = hi * 2 ^ 32 + lo" by (simp add: hi_def lo_def)
  have lo: "0 \<le> lo" "lo < 2 ^ 32" by (simp_all add: lo_def)
  have "uint v < 2 ^ 64" using uint_bounded [of v] by simp
  then have hi: "0 \<le> hi" "hi < 2 ^ 32" by (simp_all add: hi_def pos_imp_zdiv_nonneg_iff)
  have f: "0 \<le> lo * Second div 2 ^ 32" "lo * Second div 2 ^ 32 < Second"
    using lo by (simp_all add: time_units)
  have "ntpToTime v = micro ((hi - ntpEpochOffset) * Second + lo * Second div 2 ^ 32)"
    unfolding ntpToTime_def Let_def ntp_seconds ntp_fraction hi_def [symmetric] lo_def [symmetric]
    using hi f by (subst time_Unix_small) (simp_all add: ntpEpochOffset_def)
  moreover have "uint v * Second = lo * Second + (hi * Second) * 2 ^ 32"
    by (simp add: v distrib_right)
  ultimately show ?thesis by (simp add: left_diff_distrib diff_add_eq)
qed

text \<open>
  The conversion of a 64-bit NTP timestamp is exact to the microsecond: the result is
  the number of whole microseconds in the instant \<open>v / 2 ^ 32\<close> seconds after
  January 1, 1900, in spite of the detour through a nanosecond count.
\<close>

theorem ntpToTime_exact:
  "ntpToTime v + ntpEpochOffset * Second = (uint v * 1000000 div 2 ^ 32) * Microsecond"
proof -
  define x where "x = uint v * Second div 2 ^ 32"
  have "ntpToTime v = micro (x - ntpEpochOffset * Second)"
    by (simp add: ntp_nanoseconds x_def)
  also have "\<dots> = micro x - ntpEpochOffset * Second"
    by (simp add: micro_eq time_units ntpEpochOffset_def flip: mod_diff_right_eq)
  also have "micro x = (uint v * 1000000 div 2 ^ 32) * Microsecond"
    by (simp add: x_def micro_div) (simp add: time_units)
  finally show ?thesis by simp
qed

section \<open>What every decoded record satisfies\<close>

definition decoded_ok :: "Addr \<Rightarrow> time \<Rightarrow> FlowRecord \<Rightarrow> bool" where
  "decoded_ok exporter receivedAt r \<longleftrightarrow>
     ReceivedAt r = receivedAt \<and> ExporterAddr r = exporter \<and> ExporterID r = 0 \<and>
     Valid (FlowType_of r) \<and> SamplingRate r \<noteq> 0 \<and> \<not> is_unspecified (NextHop r) \<and>
     on_micro (FirstSwitched r) \<and> on_micro (LastSwitched r) \<and> DedupKey r = None"

lemma applyField_ok:
  "decoded_ok e t r \<Longrightarrow> decoded_ok e t (applyField r f boot)"
  unfolding applyField_def Let_def
  by (cases "df_Type f") (auto simp: decoded_ok_def)

lemma foldl_applyField_ok:
  "decoded_ok e t r \<Longrightarrow> decoded_ok e t (foldl (\<lambda>r f. applyField r f boot) r fs)"
  by (induction fs arbitrary: r) (simp_all add: applyField_ok)

lemma apply_record_ok:
  assumes "decoded_ok e t base"
  shows "decoded_ok e t (apply_record base boot fs)"
  using foldl_applyField_ok [OF assms, of boot fs]
  by (auto simp: apply_record_def Let_def decoded_ok_def)

lemma templated_base_ok: "Valid ft \<Longrightarrow> decoded_ok e t (templated_base e t ft)"
  by (simp add: templated_base_def decoded_ok_def zero_record_def)

lemma flow_set_records_ok:
  "decoded_ok e t base \<Longrightarrow> r \<in> set (flow_set_records base boot fs) \<Longrightarrow> decoded_ok e t r"
  by (cases fs) (auto simp: apply_record_ok)

lemma templated_records_ok:
  "r \<in> set (templated_records v9 ix e t) \<Longrightarrow> decoded_ok e t r"
  by (auto simp: templated_records_def Let_def templated_base_ok split: if_splits
      dest!: flow_set_records_ok [rotated])

lemma v5_flow_ok: "decoded_ok e t (v5_flow pkt e t r)"
  by (auto simp: decoded_ok_def v5_flow_def zero_record_def v5_rate_def nextHop4_def Let_def)

lemma decodeV5_Inr:
  "decodeV5 lib5 b e t = Inr rs \<longleftrightarrow>
     v5HeaderLen + unat (be_u16_at 2 b) * v5RecordLen \<le> length b \<and>
     (\<exists>pkt. lib5 b = Inr pkt \<and> rs = map (v5_flow pkt e t) (p5_Records pkt))"
  by (auto simp: decodeV5_def Let_def split: sum.splits)

lemma decodeTemplated_Inr:
  "decodeTemplated libT b e t d = (Inr rs, d') \<Longrightarrow>
     \<exists>v9 ix. fst (libT b (fst (templatesFor e d))) = Inr (v9, ix) \<and>
       rs = templated_records v9 ix e t"
  by (auto simp: decodeTemplated_def Let_def split: prod.splits sum.splits)

section \<open>Template systems\<close>

lemma templatesFor_same:
  "templatesFor e (snd (templatesFor e d)) = templatesFor e d \<or> templates d e = None"
  by (auto simp: templatesFor_def Let_def split: option.splits)

lemma templatesFor_other: "e' \<noteq> e \<Longrightarrow> templates (snd (templatesFor e d)) e' = templates d e'"
  by (simp add: templatesFor_def Let_def split: option.splits)

lemma decode_other:
  "e' \<noteq> e \<Longrightarrow> templates (snd (decode lib5 libT b e t d)) e' = templates d e'"
  using templatesFor_other [of e' e d]
  by (auto simp: decode_def decodeTemplated_def Let_def split: prod.splits sum.splits)

lemma decode_newSystem:
  "newSystem (snd (decode lib5 libT b e t d)) = newSystem d"
  by (auto simp: decode_def decodeTemplated_def templatesFor_def Let_def
      split: prod.splits sum.splits option.splits)

text \<open>
  Two decoders agree on an exporter when its template system is the same in both, counting
  a system that has not been built yet as the one that would be.
\<close>

definition agree_on :: "Addr \<Rightarrow> 'ts decoder \<Rightarrow> 'ts decoder \<Rightarrow> bool" where
  "agree_on e d d' \<longleftrightarrow> fst (templatesFor e d) = fst (templatesFor e d')"

lemma templatesFor_fst:
  "fst (templatesFor e d) = (case templates d e of Some ts \<Rightarrow> ts | None \<Rightarrow> newSystem d e)"
  by (simp add: templatesFor_def Let_def split: option.splits)

lemma decodeTemplated_result:
  "fst (decodeTemplated libT b e t d) =
     (case fst (libT b (fst (templatesFor e d))) of
        Inl x \<Rightarrow> Inl (ErrLib x)
      | Inr (v9, ix) \<Rightarrow> Inr (templated_records v9 ix e t))"
  by (simp add: decodeTemplated_def Let_def split: prod.splits sum.splits)

lemma decodeTemplated_templates:
  "fst (templatesFor e (snd (decodeTemplated libT b e t d)))
     = snd (libT b (fst (templatesFor e d)))"
  by (auto simp: decodeTemplated_def Let_def templatesFor_def split: prod.splits sum.splits)

lemma decode_agree:
  assumes "agree_on e d d'"
  shows "fst (decode lib5 libT b e t d) = fst (decode lib5 libT b e t d')"
    and "agree_on e (snd (decode lib5 libT b e t d)) (snd (decode lib5 libT b e t d'))"
  using assms
  by (simp_all add: agree_on_def decode_def Let_def decodeTemplated_result
      decodeTemplated_templates)

lemma agree_on_other:
  assumes "e' \<noteq> e" shows "agree_on e' (snd (decode lib5 libT b e t d)) d"
  using decode_other [OF assms, of lib5 libT b t d] decode_newSystem [of lib5 libT b e t d]
  by (simp add: agree_on_def templatesFor_fst split: option.splits)

end
