(* ===== verification/Netflow_Wire.thy ===== *)
theory Netflow_Wire
  imports Netflow_Decode
begin

text \<open>
  What \<open>decode\<close> makes of datagrams: v5 datagrams in the documented layout and cut-short
  ones, the well-formedness of every decoded record, and the data records of v9 and IPFIX.
\<close>

unbundle bit_operations_syntax

section \<open>NetFlow v5 on the wire\<close>

text \<open>
  The documented layout of a v5 datagram, as the encoder of \<open>netflow_test.go\<close> has it but with every
  field of the header and of the records free, and a reader of it. The reader stands for nothing in
  the source: it shows that the layout determines the header and the records, so that the law
  \<open>reads_v5\<close> can hold.
\<close>

record v5_header =
  h5_SysUptime :: u32
  h5_UnixSecs :: u32
  h5_UnixNSecs :: u32
  h5_FlowSequence :: u32
  h5_EngineType :: u8
  h5_EngineId :: u8
  h5_SamplingInterval :: u16

record v5_wire = v5_record +
  w5_Pad1 :: u8
  w5_Tos :: u8
  w5_SrcMask :: u8
  w5_DstMask :: u8
  w5_Pad2 :: u16

definition v5_record_bytes :: "v5_wire \<Rightarrow> byte list" where
  "v5_record_bytes r =
     be32 (r5_SrcAddr r) @ be32 (r5_DstAddr r) @ be32 (r5_NextHop r) @
     be16 (r5_Input r) @ be16 (r5_Output r) @ be32 (r5_DPkts r) @ be32 (r5_DOctets r) @
     be32 (r5_First r) @ be32 (r5_Last r) @ be16 (r5_SrcPort r) @ be16 (r5_DstPort r) @
     [w5_Pad1 r, r5_TCPFlags r, r5_Proto r, w5_Tos r] @ be16 (r5_SrcAS r) @ be16 (r5_DstAS r) @
     [w5_SrcMask r, w5_DstMask r] @ be16 (w5_Pad2 r)"

definition v5_datagram :: "v5_header \<Rightarrow> v5_wire list \<Rightarrow> byte list" where
  "v5_datagram h recs =
     be16 5 @ be16 (of_nat (length recs)) @ be32 (h5_SysUptime h) @ be32 (h5_UnixSecs h) @
     be32 (h5_UnixNSecs h) @ be32 (h5_FlowSequence h) @ [h5_EngineType h, h5_EngineId h] @
     be16 (h5_SamplingInterval h) @ concat (map v5_record_bytes recs)"

definition v5_contents :: "v5_header \<Rightarrow> v5_wire list \<Rightarrow> v5_packet" where
  "v5_contents h recs =
     \<lparr>p5_SysUptime = h5_SysUptime h, p5_UnixSecs = h5_UnixSecs h, p5_UnixNSecs = h5_UnixNSecs h,
      p5_SamplingInterval = h5_SamplingInterval h, p5_Records = map v5_record.truncate recs\<rparr>"

definition reads_v5 :: "v5_lib \<Rightarrow> bool" where
  "reads_v5 lib5 \<longleftrightarrow>
     (\<forall>h recs. length recs < 2 ^ 16 \<longrightarrow> lib5 (v5_datagram h recs) = Inr (v5_contents h recs))"

definition be_field :: "nat \<Rightarrow> nat \<Rightarrow> byte list \<Rightarrow> nat" where
  "be_field i n b = be_nat (take n (drop i b))"

definition read_v5_record :: "byte list \<Rightarrow> v5_record" where
  "read_v5_record b =
     \<lparr>r5_SrcAddr = of_nat (be_field 0 4 b), r5_DstAddr = of_nat (be_field 4 4 b),
      r5_NextHop = of_nat (be_field 8 4 b), r5_Input = of_nat (be_field 12 2 b),
      r5_Output = of_nat (be_field 14 2 b), r5_DPkts = of_nat (be_field 16 4 b),
      r5_DOctets = of_nat (be_field 20 4 b), r5_First = of_nat (be_field 24 4 b),
      r5_Last = of_nat (be_field 28 4 b), r5_SrcPort = of_nat (be_field 32 2 b),
      r5_DstPort = of_nat (be_field 34 2 b), r5_TCPFlags = of_nat (be_field 37 1 b),
      r5_Proto = of_nat (be_field 38 1 b), r5_SrcAS = of_nat (be_field 40 2 b),
      r5_DstAS = of_nat (be_field 42 2 b)\<rparr>"

definition v5_reader :: v5_lib where
  "v5_reader b = Inr
     \<lparr>p5_SysUptime = of_nat (be_field 4 4 b), p5_UnixSecs = of_nat (be_field 8 4 b),
      p5_UnixNSecs = of_nat (be_field 12 4 b), p5_SamplingInterval = of_nat (be_field 22 2 b),
      p5_Records = map (\<lambda>i. read_v5_record (take v5RecordLen (drop (v5HeaderLen + i * v5RecordLen) b)))
        [0..<be_field 2 2 b]\<rparr>"

lemma length_v5_record_bytes [simp]: "length (v5_record_bytes r) = 48"
  by (simp add: v5_record_bytes_def)

lemma read_v5_record_bytes: "read_v5_record (v5_record_bytes r) = v5_record.truncate r"
  by (simp add: read_v5_record_def v5_record.truncate_def v5_record_bytes_def be_field_def be_nat_def [of "[_]"])

lemma take_drop_concat_chunks:
  assumes "\<And>x. length (f x) = k" and "i < length xs"
  shows "take k (drop (i * k) (concat (map f xs))) = f (xs ! i)"
  using assms(2)
proof (induction xs arbitrary: i)
  case Nil
  then show ?case by simp
next
  case (Cons x xs)
  then show ?case using assms(1) [of x] by (cases i) (simp_all add: drop_append)
qed

lemma length_v5_body: "length (concat (map v5_record_bytes recs)) = length recs * 48"
  by (induction recs) simp_all

lemma length_v5_datagram:
  "length (v5_datagram h recs) = v5HeaderLen + length recs * v5RecordLen"
  by (simp add: v5_datagram_def length_v5_body v5HeaderLen_def v5RecordLen_def)

lemma v5_datagram_count:
  "length recs < 2 ^ 16 \<Longrightarrow> be_field 2 2 (v5_datagram h recs) = length recs"
  by (simp add: v5_datagram_def be_field_def unat_of_nat)

lemma drop_v5_header:
  "drop (24 + n) (v5_datagram h recs) = drop n (concat (map v5_record_bytes recs))"
proof -
  have "drop 24 (v5_datagram h recs) = concat (map v5_record_bytes recs)"
    by (simp add: v5_datagram_def)
  then show ?thesis by (metis add.commute drop_drop)
qed

lemma v5_reader_reads: "reads_v5 v5_reader"
  unfolding reads_v5_def
proof (intro allI impI)
  fix h :: v5_header and recs :: "v5_wire list"
  assume n: "length recs < 2 ^ 16"
  let ?b = "v5_datagram h recs"
  have "map (\<lambda>i. read_v5_record (take 48 (drop (24 + i * 48) ?b))) [0..<length recs] =
      map v5_record.truncate recs"
    by (rule nth_equalityI)
      (simp_all add: drop_v5_header take_drop_concat_chunks read_v5_record_bytes)
  then show "v5_reader ?b = Inr (v5_contents h recs)"
    by (simp add: v5_reader_def v5_datagram_count [OF n] v5HeaderLen_def v5RecordLen_def
        v5_contents_def)
      (simp add: be_field_def v5_datagram_def)
qed


lemma v5_datagram_version: "be_u16_at 0 (v5_datagram h recs) = 5"
  by (simp add: v5_datagram_def be_u16_at_def)

lemma v5_datagram_prefix:
  assumes "4 \<le> n" and "length recs < 2 ^ 16"
  shows "be_u16_at 0 (take n (v5_datagram h recs)) = 5"
    and "unat (be_u16_at 2 (take n (v5_datagram h recs))) = length recs"
proof -
  have t: "take 2 (drop i (take n xs)) = take 2 (drop i xs)" if "i \<le> 2" for i and xs :: "byte list"
    using that assms(1) by (simp add: drop_take min_def)
  show "be_u16_at 0 (take n (v5_datagram h recs)) = 5"
    using v5_datagram_version [of h recs] t [of 0] by (simp add: be_u16_at_def)
  show "unat (be_u16_at 2 (take n (v5_datagram h recs))) = length recs"
    using v5_datagram_count [OF assms(2), of h] assms(2)
    by (simp only: be_u16_at_def t [OF order_refl] be_field_def) (simp add: unat_of_nat)
qed

text \<open>
  The clock arithmetic of v5, with no wrap-around left in it: the exporter's clock in nanoseconds, moved by
  the distance of two uptimes and cut to the microsecond.
\<close>

definition v5_instant :: "v5_header \<Rightarrow> u32 \<Rightarrow> time" where
  "v5_instant h ms =
     micro (uint (h5_UnixSecs h) * Second + uint (h5_UnixNSecs h) +
            (uint ms - uint (h5_SysUptime h)) * Millisecond)"

lemma time_Unix_carry:
  assumes "0 \<le> s" "s < 2 ^ 32" and "0 \<le> n" "n < 2 ^ 32"
  shows "time_Unix s n = s * Second + n"
proof -
  have "n div Second \<le> 4" "0 \<le> n div Second"
    using assms(3,4) by (simp_all add: time_units pos_imp_zdiv_nonneg_iff)
  then have w: "wrap64 (s + n div Second) = s + n div Second"
    "wrap64 (s + n div Second + unix_to_internal) = s + n div Second + unix_to_internal"
    using assms(1,2) by (auto intro!: wrap64_id simp: unix_to_internal_def)
  show ?thesis
    unfolding time_Unix_def Let_def w by (simp add: distrib_right)
qed

lemma time_Unix_u32: "time_Unix (uint (s :: u32)) (uint (n :: u32)) = uint s * Second + uint n"
  using uint_bounded [of s] uint_bounded [of n] by (intro time_Unix_carry) simp_all

lemma uptimeToTime_v5: "uptimeToTime (v5_boot (v5_contents h recs)) ms = v5_instant h ms"
  by (simp add: uptimeToTime_def v5_boot_def v5_contents_def v5_instant_def time_Unix_u32 algebra_simps)

lemma v5_rate_contents:
  "v5_rate (v5_contents h recs) = max 1 (ucast (take_bit 14 (h5_SamplingInterval h)))"
proof -
  have m: "(0x3fff :: u16) = mask 14" by (simp add: mask_eq_exp_minus_1)
  show ?thesis
    unfolding v5_rate_def m take_bit_eq_mask [symmetric]
    by (auto simp: v5_contents_def Let_def max_def word_le_nat_alt unat_gt_0 Suc_le_eq)
qed

lemma decode_v5_flows:
  assumes "reads_v5 lib5" and "length recs < 2 ^ 16"
  shows "decode lib5 libT (v5_datagram h recs) exporter at d
    = (Inr (map (\<lambda>r. v5_flow (v5_contents h recs) exporter at (v5_record.truncate r)) recs), d)"
proof -
  let ?b = "v5_datagram h recs"
  have lib: "lib5 ?b = Inr (v5_contents h recs)"
    using assms by (simp add: reads_v5_def)
  have count: "unat (be_u16_at 2 ?b) = length recs"
    using v5_datagram_prefix(2) [OF _ assms(2), of "length ?b" h]
    by (simp add: length_v5_datagram v5HeaderLen_def)
  show ?thesis
    using v5_datagram_version [of h recs]
    by (simp add: decode_def decodeV5_def count lib length_v5_datagram v5HeaderLen_def
        v5_contents_def Let_def comp_def)
qed

text \<open>The first record of \<open>netflow_test.go\<close>, a library that decodes no template, a fresh decoder.\<close>

definition demo_header :: v5_header where
  "demo_header = \<lparr>h5_SysUptime = 10000, h5_UnixSecs = 1758288000, h5_UnixNSecs = 123456789,
     h5_FlowSequence = 1, h5_EngineType = 0, h5_EngineId = 2, h5_SamplingInterval = 0x4064\<rparr>"

definition demo_v5 :: v5_wire where
  "demo_v5 = \<lparr>r5_SrcAddr = 0xCB00710A, r5_DstAddr = 0xC63364C8, r5_NextHop = 0xC6336401,
     r5_Input = 3, r5_Output = 7, r5_DPkts = 12, r5_DOctets = 9000, r5_First = 1000,
     r5_Last = 2500, r5_SrcPort = 51514, r5_DstPort = 443, r5_TCPFlags = 24, r5_Proto = 6,
     r5_SrcAS = 64500, r5_DstAS = 64501,
     w5_Pad1 = 0, w5_Tos = 0xB8, w5_SrcMask = 24, w5_DstMask = 16, w5_Pad2 = 0\<rparr>"

definition demo_libT :: "unit templated_lib" where
  "demo_libT b ts = (Inl ''no template'', ts)"

definition demo_decoder :: "unit decoder" where
  "demo_decoder = \<lparr>templates = Map.empty, newSystem = (\<lambda>_. ())\<rparr>"

text \<open>
  C22. A v5 datagram in the documented layout, whatever its header and its records hold, decodes,
  without touching the templates, to one record per wire record, in order, with every field of
  the wire record the collector keeps widened, the flow's first and last instant the exporter's
  clock of the header, seconds and nanoseconds, moved by the distance of the two uptimes and cut to the
  microsecond, and the sampling rate the low 14 bits of the header field and at least 1.
\<close>

theorem decode_v5_datagram:
  assumes "reads_v5 lib5" and "length recs < 2 ^ 16"
  shows "decode lib5 libT (v5_datagram h recs) exporter at d =
    (Inr (map (\<lambda>r. \<lparr>ReceivedAt = at, ExporterAddr = exporter, ExporterID = 0,
       FlowType_of = ''netflow5'',
       FirstSwitched = v5_instant h (r5_First r),
       LastSwitched = v5_instant h (r5_Last r),
       SrcAddr = Addr4 (r5_SrcAddr r), DstAddr = Addr4 (r5_DstAddr r),
       SrcPort = r5_SrcPort r, DstPort = r5_DstPort r, Protocol = r5_Proto r,
       TCPFlags = r5_TCPFlags r, Packets = ucast (r5_DPkts r), Bytes = ucast (r5_DOctets r),
       SamplingRate = max 1 (ucast (take_bit 14 (h5_SamplingInterval h))),
       InputIface = ucast (r5_Input r), OutputIface = ucast (r5_Output r),
       SrcAS = ucast (r5_SrcAS r), DstAS = ucast (r5_DstAS r),
       NextHop = (if r5_NextHop r = 0 then AddrZero else Addr4 (r5_NextHop r)),
       DedupKey = None\<rparr>) recs), d)"
  using assms by (simp add: decode_v5_flows v5_flow_def zero_record_def uptimeToTime_v5
      v5_rate_contents nextHop4_def flow_types v5_record.truncate_def)

lemma decode_v5_datagram_witness:
  "fst (decode v5_reader demo_libT (v5_datagram demo_header [demo_v5]) (Addr4 7) 5 demo_decoder)
   = Inr [\<lparr>ReceivedAt = 5, ExporterAddr = Addr4 7, ExporterID = 0, FlowType_of = ''netflow5'',
       FirstSwitched = 1758287991123456000, LastSwitched = 1758287992623456000,
       SrcAddr = Addr4 0xCB00710A, DstAddr = Addr4 0xC63364C8, SrcPort = 51514, DstPort = 443,
       Protocol = 6, TCPFlags = 24, Packets = 12, Bytes = 9000, SamplingRate = 100,
       InputIface = 3, OutputIface = 7, SrcAS = 64500, DstAS = 64501,
       NextHop = Addr4 0xC6336401, DedupKey = None\<rparr>]"
  using decode_v5_datagram [OF v5_reader_reads, where recs = "[demo_v5]" and libT = demo_libT
      and h = demo_header and exporter = "Addr4 7" and at = 5 and d = demo_decoder]
  by (simp add: demo_v5_def demo_header_def v5_instant_def time_units micro_eq take_bit_eq_mod)

text \<open>
  Cutting a v5 datagram short anywhere is an error, never a record: no prefix of a
  datagram decodes to a list of records, however the packet library treats short input.
\<close>

theorem decode_v5_truncated:
  assumes "length recs < 2 ^ 16" and "n < length (v5_datagram h recs)"
  shows "\<exists>e. decode lib5 libT (take n (v5_datagram h recs)) exporter at d = (Inl e, d)"
proof (cases "n < 4")
  case False
  then have "be_u16_at 0 (take n (v5_datagram h recs)) = 5"
    and "unat (be_u16_at 2 (take n (v5_datagram h recs))) = length recs"
    using v5_datagram_prefix [OF _ assms(1)] by simp_all
  then show ?thesis
    using False assms(2) by (simp add: decode_def decodeV5_def length_v5_datagram Let_def)
next
  case True
  then have "be_u16_at 0 (take n (v5_datagram h recs)) = 5" if "2 \<le> n"
    using that v5_datagram_version [of h recs] by (simp add: be_u16_at_def min_def)
  with True show ?thesis
    by (auto simp: decode_def decodeV5_def v5HeaderLen_def Let_def min_def)
qed


lemma decode_v5_truncated_witness:
  "\<exists>e. decode v5_reader demo_libT (take 71 (v5_datagram demo_header [demo_v5])) (Addr4 7) 5
     demo_decoder = (Inl e, demo_decoder)"
  using decode_v5_truncated [of "[demo_v5]" 71 demo_header v5_reader demo_libT "Addr4 7" 5
      demo_decoder]
  by (simp add: length_v5_datagram v5HeaderLen_def v5RecordLen_def)

text \<open>
  Whatever the packet libraries return, every record a datagram decodes to carries
  the datagram's receive time and sender, a known flow type, a sampling rate of at least
  one, no next hop instead of an unspecified one, instants on the microsecond the storage
  backends keep, and neither an exporter id nor a dedup key.
\<close>

theorem decode_records_ok:
  assumes "decode lib5 libT b e t d = (Inr rs, d')" and "r \<in> set rs"
  shows "decoded_ok e t r"
proof -
  consider "decodeV5 lib5 b e t = Inr rs" | "decodeTemplated libT b e t d = (Inr rs, d')"
    using assms(1) by (auto simp: decode_def Let_def split: if_splits)
  then show ?thesis
  proof cases
    case 1
    with assms(2) show ?thesis by (auto simp: decodeV5_Inr v5_flow_ok)
  next
    case 2
    with assms(2) show ?thesis by (auto dest!: decodeTemplated_Inr simp: templated_records_ok)
  qed
qed

lemma decode_records_ok_witness:
  "decoded_ok (Addr4 7) 5
     (v5_flow (v5_contents demo_header [demo_v5]) (Addr4 7) 5 (v5_record.truncate demo_v5))"
  by (rule decode_records_ok [of v5_reader demo_libT "v5_datagram demo_header [demo_v5]"])
    (simp add: decode_v5_flows v5_reader_reads, simp)

section \<open>Data records of a template\<close>

text \<open>
  The values a v9 or IPFIX exporter puts into a data record for a flow, for a template that
  names every element the collector reads, in full size and with millisecond instants.
\<close>

definition value_of :: "element \<Rightarrow> byte list \<Rightarrow> data_field" where
  "value_of t v = \<lparr>df_PenProvided = False, df_Type = t, df_Value = Some v\<rparr>"

fun addr_value :: "element \<Rightarrow> element \<Rightarrow> Addr \<Rightarrow> data_field list" where
  "addr_value t4 t6 AddrZero = []"
| "addr_value t4 t6 (Addr4 w) = [value_of t4 (be32 w)]"
| "addr_value t4 t6 (Addr6 w _) = [value_of t6 (be128 w)]"

definition milli_value :: "element \<Rightarrow> time \<Rightarrow> data_field" where
  "milli_value t x = value_of t (be64 (word_of_int (x div Millisecond)))"

definition record_values :: "FlowRecord \<Rightarrow> data_field list" where
  "record_values r =
     addr_value sourceIPv4Address sourceIPv6Address (SrcAddr r) @
     addr_value destinationIPv4Address destinationIPv6Address (DstAddr r) @
     addr_value ipNextHopIPv4Address ipNextHopIPv6Address (NextHop r) @
     [value_of sourceTransportPort (be16 (SrcPort r)),
      value_of destinationTransportPort (be16 (DstPort r)),
      value_of protocolIdentifier [Protocol r],
      value_of tcpControlBits [TCPFlags r],
      value_of packetDeltaCount (be64 (Packets r)),
      value_of octetDeltaCount (be64 (Bytes r)),
      value_of samplingInterval (be32 (SamplingRate r)),
      value_of ingressInterface (be32 (InputIface r)),
      value_of egressInterface (be32 (OutputIface r)),
      value_of bgpSourceAsNumber (be32 (SrcAS r)),
      value_of bgpDestinationAsNumber (be32 (DstAS r)),
      milli_value flowStartMilliseconds (FirstSwitched r),
      milli_value flowEndMilliseconds (LastSwitched r)]"

definition on_milli :: "time \<Rightarrow> bool" where
  "on_milli x \<longleftrightarrow> x mod Millisecond = 0 \<and> \<bar>x\<bar> < 2 ^ 80 \<and> x \<noteq> zero_time"

lemma addr_be32: "addr (be32 w) = Addr4 w"
  by (simp add: addr_def addr_from_slice_def)

lemma addr_be128: "addr (be128 w) = Addr6 w []"
  by (simp add: addr_def addr_from_slice_def)

lemma beUint_words:
  "beUint [c] = ucast c" "beUint (be16 x) = ucast x" "beUint (be32 y) = ucast y"
  "beUint (be64 z) = z"
  by (simp_all add: beUint_eq) (simp add: be_nat_def)

lemma be_words_nonempty [simp]:
  "be16 x \<noteq> []" "be32 y \<noteq> []" "be64 z \<noteq> []" "be128 u \<noteq> []"
  using length_be_words(1) [of x] length_be_words(2) [of y] length_be_words(3) [of z]
    length_be_words(4) [of u] by (metis list.size(3) zero_neq_numeral)+

lemma milli_roundtrip:
  assumes "on_milli x"
  shows "time_UnixMilli (sint (word_of_int (x div Millisecond) :: u64)) = x"
proof -
  define m where "m = x div Millisecond"
  have x: "x = m * Millisecond" and b: "\<bar>x\<bar> < 2 ^ 80"
    using assms by (auto simp: on_milli_def m_def)
  have m: "\<bar>m\<bar> < 2 ^ 62" using b by (simp add: x time_units abs_mult)
  then have "sint (word_of_int m :: u64) = m"
    using wrap64_id [of m] by (simp add: wrap64_def)
  moreover have "time_UnixMilli m = m div 1000 * Second + m mod 1000 * Millisecond"
    unfolding time_UnixMilli_def using m
    by (intro time_Unix_small) (auto simp: time_units)
  moreover have "a * Second + c * Millisecond = (a * 1000 + c) * Millisecond" for a c
    by (simp add: time_units)
  ultimately have "time_UnixMilli (sint (word_of_int m :: u64)) = x" using x by simp
  then show ?thesis by (simp add: m_def)
qed

lemma ucast_u64_id [simp]:
  "ucast (ucast (a :: u8) :: u64) = a" "ucast (ucast (b :: u16) :: u64) = b"
  "ucast (ucast (c :: u32) :: u64) = c"
  by (rule bit_word_eqI, simp add: bit_simps)+

lemma apply_src:
  assumes "zone_free a" and "a = AddrZero \<longrightarrow> SrcAddr r = AddrZero"
  shows "foldl (\<lambda>r f. applyField r f boot) r
    (addr_value sourceIPv4Address sourceIPv6Address a) = r\<lparr>SrcAddr := a\<rparr>"
  using assms by (cases a; cases r; simp add: applyField_def value_of_def addr_be32 addr_be128)

lemma apply_dst:
  assumes "zone_free a" and "a = AddrZero \<longrightarrow> DstAddr r = AddrZero"
  shows "foldl (\<lambda>r f. applyField r f boot) r
    (addr_value destinationIPv4Address destinationIPv6Address a) = r\<lparr>DstAddr := a\<rparr>"
  using assms by (cases a; cases r; simp add: applyField_def value_of_def addr_be32 addr_be128)

lemma apply_hop:
  assumes "zone_free a" and "a = AddrZero \<longrightarrow> NextHop r = AddrZero" and "\<not> is_unspecified a"
  shows "foldl (\<lambda>r f. applyField r f boot) r
    (addr_value ipNextHopIPv4Address ipNextHopIPv6Address a) = r\<lparr>NextHop := a\<rparr>"
  using assms
  by (cases a; cases r; simp add: applyField_def value_of_def addr_be32 addr_be128 Let_def)

lemma apply_values:
  assumes "decoded_ok e t r" and "zone_free (SrcAddr r)" "zone_free (DstAddr r)"
    "zone_free (NextHop r)" "on_milli (FirstSwitched r)" "on_milli (LastSwitched r)"
  shows "apply_record (templated_base e t (FlowType_of r)) boot (record_values r) = r"
proof -
  let ?apply = "foldl (\<lambda>r f. applyField r f boot)" and ?base = "templated_base e t (FlowType_of r)"
  have addrs: "?apply (?apply (?apply ?base
        (addr_value sourceIPv4Address sourceIPv6Address (SrcAddr r)))
        (addr_value destinationIPv4Address destinationIPv6Address (DstAddr r)))
        (addr_value ipNextHopIPv4Address ipNextHopIPv6Address (NextHop r))
    = ?base\<lparr>SrcAddr := SrcAddr r, DstAddr := DstAddr r, NextHop := NextHop r\<rparr>"
    using assms by (simp add: apply_src apply_dst apply_hop templated_base_def zero_record_def
        decoded_ok_def)
  have "?apply ?base (record_values r) = r"
    using assms unfolding record_values_def foldl_append addrs
    by (cases r)
      (simp add: templated_base_def zero_record_def decoded_ok_def applyField_def value_of_def
        milli_value_def beUint_words milli_roundtrip word_gt_0)
  then show ?thesis using assms(6) by (simp add: apply_record_def is_zero_def on_milli_def)
qed

definition reportable :: "Addr \<Rightarrow> time \<Rightarrow> FlowType \<Rightarrow> FlowRecord \<Rightarrow> bool" where
  "reportable e t ft r \<longleftrightarrow>
     decoded_ok e t r \<and> FlowType_of r = ft \<and> zone_free (SrcAddr r) \<and> zone_free (DstAddr r) \<and>
     zone_free (NextHop r) \<and> on_milli (FirstSwitched r) \<and> on_milli (LastSwitched r)"

text \<open>The flow sets of a packet: \<open>None\<close> is a template or options set.\<close>

fun packet_sets :: "FlowRecord list option list \<Rightarrow> flow_set list" where
  "packet_sets [] = []"
| "packet_sets (None # sets) = OtherFlowSet # packet_sets sets"
| "packet_sets (Some rs # sets) = DataFlowSet (map record_values rs) # packet_sets sets"

fun packet_records :: "FlowRecord list option list \<Rightarrow> FlowRecord list" where
  "packet_records [] = []"
| "packet_records (None # sets) = packet_records sets"
| "packet_records (Some rs # sets) = rs @ packet_records sets"

lemma packet_sets_records:
  "(\<And>r. r \<in> set (packet_records sets) \<Longrightarrow> reportable e t ft r) \<Longrightarrow>
   concat (map (flow_set_records (templated_base e t ft) boot) (packet_sets sets))
     = packet_records sets"
proof (induction sets rule: packet_sets.induct)
  case (3 rs sets)
  have "apply_record (templated_base e t ft) boot (record_values r) = r" if "r \<in> set rs" for r
    using apply_values [of e t r] 3(2) [of r] that by (auto simp: reportable_def)
  with 3 show ?case by (simp add: map_idI)
qed simp_all

text \<open>
  C23. Flows with millisecond instants that an exporter reports in data records of a full
  template come out of the templated decoder as they went in, for v9 and for IPFIX, in
  the order of the packet's sets, whatever the packet's clock fields are; template and
  options sets in the same packet add no record.
\<close>

theorem decodeTemplated_roundtrip:
  assumes "\<And>r. r \<in> set (packet_records sets) \<Longrightarrow>
      reportable e t (if v9_Version vp = 9 then FlowTypeNetFlow9 else FlowTypeIPFIX) r"
    and "fst (libT b (fst (templatesFor e d))) = Inr (vp, ix)"
    and "(if v9_Version vp = 9 then v9_FlowSets vp else ix_FlowSets ix) = packet_sets sets"
  shows "fst (decodeTemplated libT b e t d) = Inr (packet_records sets)"
  using assms
  by (simp add: decodeTemplated_result templated_records_def packet_sets_records Let_def
      split: if_splits)

definition demo_flow :: FlowRecord where
  "demo_flow = zero_record
     \<lparr>ReceivedAt := 5000, ExporterAddr := Addr4 7, FlowType_of := FlowTypeIPFIX,
      FirstSwitched := 1758287991000000000, LastSwitched := 1758287992500000000,
      SrcAddr := Addr6 0x20010db8000000000000000000000001 [], DstAddr := Addr4 0xC63364C8,
      SrcPort := 51514, DstPort := 443, Protocol := 6, TCPFlags := 24, Packets := 12,
      Bytes := 9000, SamplingRate := 100, InputIface := 3, OutputIface := 7,
      SrcAS := 64500, DstAS := 64501, NextHop := Addr4 0xC6336401\<rparr>"

definition demo_packet :: "v9_packet \<times> ipfix_packet" where
  "demo_packet =
     (\<lparr>v9_Version = 0, v9_UnixSeconds = 0, v9_SystemUptime = 0, v9_FlowSets = []\<rparr>,
      \<lparr>ix_ExportTime = 1758288000,
       ix_FlowSets = [OtherFlowSet, DataFlowSet [record_values demo_flow, record_values demo_flow]]\<rparr>)"

lemma decodeTemplated_roundtrip_witness:
  "fst (decodeTemplated (\<lambda>b ts. (Inr demo_packet, ts)) [0, 10] (Addr4 7) 5000 demo_decoder)
     = Inr [demo_flow, demo_flow]"
proof -
  have "reportable (Addr4 7) 5000 FlowTypeIPFIX demo_flow"
    by (simp add: reportable_def demo_flow_def decoded_ok_def zero_record_def on_micro_def
        on_milli_def time_units zero_time_def unix_to_internal_def)
  then show ?thesis
    using decodeTemplated_roundtrip [where sets = "[None, Some [demo_flow, demo_flow]]"
        and e = "Addr4 7" and t = 5000 and vp = "fst demo_packet" and ix = "snd demo_packet"
        and libT = "\<lambda>b ts. (Inr demo_packet, ts)" and b = "[0, 10]" and d = demo_decoder]
    by (simp add: demo_packet_def)
qed
end
