(* ===== verification/Wire.thy ===== *)
theory Wire
  imports Flow
begin

text \<open>
  \<open>internal/wire\<close>: the collector's own message format. \<open>Message\<close> is the schema with its
  fields; turning a message into a JSON body and back is \<open>encoding/json\<close>, an argument of
  \<open>Encode\<close> and \<open>Decode\<close> (\<open>marshal\<close>, \<open>unmarshal\<close>). The law \<open>faithful_json\<close> says what the format
  relies on: a message whose instants have a four-digit year, whose addresses have no zone and whose
  texts are plain comes back unchanged.
\<close>

definition Format :: string where "Format = ''netflow-collector/v1''"

record Message =
  m_Format :: string
  m_ExporterAddr :: Addr
  m_FlowType :: string
  m_ReceivedAt :: "time option"
  m_FirstSwitched :: time
  m_LastSwitched :: time
  m_SrcAddr :: Addr
  m_DstAddr :: Addr
  m_SrcPort :: u16
  m_DstPort :: u16
  m_Protocol :: u8
  m_TCPFlags :: u8
  m_Packets :: u64
  m_Bytes :: u64
  m_SamplingRate :: u32
  m_InputIface :: u32
  m_OutputIface :: u32
  m_SrcAS :: u32
  m_DstAS :: u32
  m_NextHop :: "Addr option"

datatype wire_error =
    EncodeFailed string
  | DecodeFailed string
  | NoExporterAddr
  | UnknownFlowType string
  | NoAddresses
  | NoSwitched
  | NoReceivedAt

definition message_of :: "FlowRecord \<Rightarrow> Message" where
  "message_of r =
     \<lparr>m_Format = Format,
      m_ExporterAddr = ExporterAddr r,
      m_FlowType = FlowType_of r,
      m_ReceivedAt = Some (micro (ReceivedAt r)),
      m_FirstSwitched = micro (FirstSwitched r),
      m_LastSwitched = micro (LastSwitched r),
      m_SrcAddr = SrcAddr r,
      m_DstAddr = DstAddr r,
      m_SrcPort = SrcPort r,
      m_DstPort = DstPort r,
      m_Protocol = Protocol r,
      m_TCPFlags = TCPFlags r,
      m_Packets = Packets r,
      m_Bytes = Bytes r,
      m_SamplingRate = SamplingRate r,
      m_InputIface = InputIface r,
      m_OutputIface = OutputIface r,
      m_SrcAS = SrcAS r,
      m_DstAS = DstAS r,
      m_NextHop = (if is_valid (NextHop r) then Some (NextHop r) else None)\<rparr>"

definition Encode :: "(Message \<Rightarrow> string + 'body) \<Rightarrow> FlowRecord \<Rightarrow> wire_error + 'body" where
  "Encode marshal r =
     (case marshal (message_of r) of Inl e \<Rightarrow> Inl (EncodeFailed e) | Inr body \<Rightarrow> Inr body)"

definition record_of :: "Message \<Rightarrow> time \<Rightarrow> wire_error + FlowRecord" where
  "record_of m recordTime =
     (if \<not> is_valid (m_ExporterAddr m) then Inl NoExporterAddr
      else if \<not> Valid (m_FlowType m) then Inl (UnknownFlowType (m_FlowType m))
      else if \<not> is_valid (m_SrcAddr m) \<or> \<not> is_valid (m_DstAddr m) then Inl NoAddresses
      else if is_zero (m_FirstSwitched m) \<or> is_zero (m_LastSwitched m) then Inl NoSwitched
      else let receivedAt = (case m_ReceivedAt m of Some t \<Rightarrow> t | None \<Rightarrow> recordTime)
           in if is_zero receivedAt then Inl NoReceivedAt
              else Inr
                \<lparr>ReceivedAt = micro receivedAt,
                 ExporterAddr = unmap (m_ExporterAddr m),
                 ExporterID = 0,
                 FlowType_of = m_FlowType m,
                 FirstSwitched = micro (m_FirstSwitched m),
                 LastSwitched = micro (m_LastSwitched m),
                 SrcAddr = unmap (m_SrcAddr m),
                 DstAddr = unmap (m_DstAddr m),
                 SrcPort = m_SrcPort m,
                 DstPort = m_DstPort m,
                 Protocol = m_Protocol m,
                 TCPFlags = m_TCPFlags m,
                 Packets = m_Packets m,
                 Bytes = m_Bytes m,
                 SamplingRate = (if m_SamplingRate m = 0 then 1 else m_SamplingRate m),
                 InputIface = m_InputIface m,
                 OutputIface = m_OutputIface m,
                 SrcAS = m_SrcAS m,
                 DstAS = m_DstAS m,
                 NextHop = (case m_NextHop m of
                     Some a \<Rightarrow> if is_valid a then unmap a else AddrZero
                   | None \<Rightarrow> AddrZero),
                 DedupKey = None\<rparr>)"

definition Decode :: "('body \<Rightarrow> string + Message) \<Rightarrow> 'body \<Rightarrow> time \<Rightarrow> wire_error + FlowRecord" where
  "Decode unmarshal body recordTime =
     (case unmarshal body of
        Inl e \<Rightarrow> Inl (DecodeFailed e)
      | Inr m \<Rightarrow> record_of m recordTime)"

section \<open>What the wire keeps\<close>

text \<open>
  The instants JSON can carry: \<open>time.Time\<close> refuses a year outside \<open>[0, 9999]\<close>.
\<close>

definition json_time :: "time \<Rightarrow> bool" where
  "json_time t \<longleftrightarrow> - 62167219200 * Second \<le> t \<and> t < 253402300800 * Second"

definition json_message :: "Message \<Rightarrow> bool" where
  "json_message m \<longleftrightarrow>
     (case m_ReceivedAt m of Some t \<Rightarrow> json_time t | None \<Rightarrow> True) \<and>
     json_time (m_FirstSwitched m) \<and> json_time (m_LastSwitched m) \<and>
     zone_free (m_ExporterAddr m) \<and> zone_free (m_SrcAddr m) \<and> zone_free (m_DstAddr m) \<and>
     (case m_NextHop m of Some a \<Rightarrow> zone_free a | None \<Rightarrow> True) \<and>
     list_all (\<lambda>c. c \<in> set ''abcdefghijklmnopqrstuvwxyz0123456789-/'') (m_Format m @ m_FlowType m)"

definition faithful_json ::
    "(Message \<Rightarrow> string + 'body) \<Rightarrow> ('body \<Rightarrow> string + Message) \<Rightarrow> bool" where
  "faithful_json marshal unmarshal \<longleftrightarrow>
     (\<forall>m. json_message m \<longrightarrow> (\<exists>body. marshal m = Inr body \<and> unmarshal body = Inr m))"

text \<open>A record a source may emit and a consumer must be able to read back.\<close>

definition sendable :: "FlowRecord \<Rightarrow> bool" where
  "sendable r \<longleftrightarrow>
     is_valid (ExporterAddr r) \<and> is_valid (SrcAddr r) \<and> is_valid (DstAddr r) \<and>
     zone_free (ExporterAddr r) \<and> zone_free (SrcAddr r) \<and> zone_free (DstAddr r) \<and>
     zone_free (NextHop r) \<and> Valid (FlowType_of r) \<and>
     json_time (micro (ReceivedAt r)) \<and> \<not> is_zero (micro (ReceivedAt r)) \<and>
     json_time (micro (FirstSwitched r)) \<and> \<not> is_zero (micro (FirstSwitched r)) \<and>
     json_time (micro (LastSwitched r)) \<and> \<not> is_zero (micro (LastSwitched r))"

text \<open>The record as every storage engine sees it: microseconds, no mapped address, rate 1 for 0.\<close>

definition canonical :: "FlowRecord \<Rightarrow> FlowRecord" where
  "canonical r = r
     \<lparr>ReceivedAt := micro (ReceivedAt r), FirstSwitched := micro (FirstSwitched r),
      LastSwitched := micro (LastSwitched r), ExporterAddr := unmap (ExporterAddr r),
      SrcAddr := unmap (SrcAddr r), DstAddr := unmap (DstAddr r), NextHop := unmap (NextHop r),
      SamplingRate := (if SamplingRate r = 0 then 1 else SamplingRate r),
      ExporterID := 0, DedupKey := None\<rparr>"

lemma canonical_canonical [simp]: "canonical (canonical r) = canonical r"
  by (simp add: canonical_def)

lemma sendable_message: "sendable r \<Longrightarrow> json_message (message_of r)"
  by (auto simp: sendable_def json_message_def message_of_def Valid_def flow_types Format_def)

lemma not_valid: "\<not> is_valid a \<Longrightarrow> a = AddrZero"
  by (cases a) simp_all

text \<open>
  JSON carries more records than a consumer accepts: those without an address or an instant are encoded, and
  refused for the first thing missing.
\<close>

definition carried :: "FlowRecord \<Rightarrow> bool" where
  "carried r \<longleftrightarrow> json_message (message_of r)"

definition complete_record :: "FlowRecord \<Rightarrow> bool" where
  "complete_record r \<longleftrightarrow>
     is_valid (ExporterAddr r) \<and> Valid (FlowType_of r) \<and> is_valid (SrcAddr r) \<and> is_valid (DstAddr r) \<and>
     \<not> is_zero (micro (FirstSwitched r)) \<and> \<not> is_zero (micro (LastSwitched r)) \<and> \<not> is_zero (micro (ReceivedAt r))"

definition refusal :: "FlowRecord \<Rightarrow> wire_error" where
  "refusal r =
     (if \<not> is_valid (ExporterAddr r) then NoExporterAddr
      else if \<not> Valid (FlowType_of r) then UnknownFlowType (FlowType_of r)
      else if \<not> is_valid (SrcAddr r) \<or> \<not> is_valid (DstAddr r) then NoAddresses
      else if is_zero (micro (FirstSwitched r)) \<or> is_zero (micro (LastSwitched r)) then NoSwitched
      else NoReceivedAt)"

lemma sendable_iff: "sendable r \<longleftrightarrow> carried r \<and> complete_record r"
proof -
  have "list_all (\<lambda>c. c \<in> set ''abcdefghijklmnopqrstuvwxyz0123456789-/'') (Format @ FlowType_of r)"
    if "Valid (FlowType_of r)"
    using that by (auto simp: Valid_def flow_types Format_def)
  moreover have "zone_free (NextHop r)" if "\<not> is_valid (NextHop r)"
    using not_valid [OF that] by simp
  ultimately show ?thesis
    by (auto simp: sendable_def carried_def complete_record_def json_message_def message_of_def split: if_splits)
qed

lemma record_of_message_of:
  "record_of (message_of r) recordTime = (if complete_record r then Inr (canonical r) else Inl (refusal r))"
  by (auto simp: complete_record_def refusal_def record_of_def message_of_def canonical_def Let_def dest: not_valid)

lemma record_of_message:
  "sendable r \<Longrightarrow> record_of (message_of r) recordTime = Inr (canonical r)"
  by (simp add: sendable_iff record_of_message_of)

lemma unmarshal_Encode:
  "faithful_json marshal unmarshal \<Longrightarrow> carried r \<Longrightarrow> Encode marshal r = Inr body \<Longrightarrow> unmarshal body = Inr (message_of r)"
  by (fastforce simp: faithful_json_def carried_def Encode_def split: sum.splits)

text \<open>
  What the edge tier sends the central tier reads: a record with valid zone-free addresses, a
  known flow type and instants JSON can carry is encoded, and decoding the body gives the
  record in canonical form whatever the transport's own timestamp is. Only the storage id
  and the dedup key, which the wire does not carry, are lost.
\<close>

theorem wire_roundtrip:
  assumes "faithful_json marshal unmarshal" and "sendable r"
  shows "\<exists>body. Encode marshal r = Inr body \<and>
    (\<forall>recordTime. Decode unmarshal body recordTime = Inr (canonical r))"
proof -
  obtain body where "marshal (message_of r) = Inr body" "unmarshal body = Inr (message_of r)"
    using assms sendable_message by (auto simp: faithful_json_def)
  then show ?thesis
    using record_of_message [OF assms(2)] by (auto simp: Encode_def Decode_def)
qed

definition demo_sent :: FlowRecord where
  "demo_sent = zero_record
     \<lparr>ReceivedAt := 1758288000123456789, ExporterAddr := Addr6 0xffff0a000001 [],
      ExporterID := 9, FlowType_of := FlowTypeIPFIX,
      FirstSwitched := 1758287990000000000, LastSwitched := 1758287995000000000,
      SrcAddr := Addr4 0x0a000002, DstAddr := Addr6 1 [], DedupKey := Some [1]\<rparr>"

lemma wire_roundtrip_witness:
  "\<exists>body. Encode Inr demo_sent = Inr body \<and>
     Decode Inr body 0 = Inr (zero_record
       \<lparr>ReceivedAt := 1758288000123456000, ExporterAddr := Addr4 0x0a000001,
        FlowType_of := FlowTypeIPFIX,
        FirstSwitched := 1758287990000000000, LastSwitched := 1758287995000000000,
        SrcAddr := Addr4 0x0a000002, DstAddr := Addr6 1 [], SamplingRate := 1\<rparr>)"
proof -
  have f: "faithful_json Inr Inr" by (simp add: faithful_json_def)
  have s: "sendable demo_sent"
    by (simp add: sendable_def demo_sent_def zero_record_def json_time_def micro_eq time_units
        is_zero_def zero_time_def unix_to_internal_def)
  have "canonical demo_sent = zero_record
       \<lparr>ReceivedAt := 1758288000123456000, ExporterAddr := Addr4 0x0a000001,
        FlowType_of := FlowTypeIPFIX,
        FirstSwitched := 1758287990000000000, LastSwitched := 1758287995000000000,
        SrcAddr := Addr4 0x0a000002, DstAddr := Addr6 1 [], SamplingRate := 1\<rparr>"
    by (simp add: canonical_def demo_sent_def zero_record_def micro_eq time_units drop_bit_eq_div)
  then show ?thesis using wire_roundtrip [OF f s] by simp metis
qed

text \<open>
  What a consumer accepts is well formed: valid plain addresses, a known flow type,
  a sampling rate of at least one, whole microseconds, no storage id and no dedup key.
\<close>

lemma Decode_wf:
  assumes "Decode unmarshal body t = Inr r"
  shows "is_valid (ExporterAddr r) \<and> is_valid (SrcAddr r) \<and> is_valid (DstAddr r) \<and>
    Valid (FlowType_of r) \<and> SamplingRate r \<noteq> 0 \<and> canonical r = r \<and>
    on_micro (ReceivedAt r) \<and> on_micro (FirstSwitched r) \<and> on_micro (LastSwitched r)"
proof -
  obtain m where "record_of m t = Inr r"
    using assms by (auto simp: Decode_def split: sum.splits)
  then show ?thesis
    by (auto simp: record_of_def Let_def canonical_def split: if_splits option.splits)
qed

end
