(* ===== verification/Sha256.thy ===== *)
theory Sha256
  imports Prelude
begin

text \<open>
  \<open>crypto/sha256\<close>, which the dedup key is a prefix of: the hash of FIPS 180-4 on byte
  strings of less than \<open>2 ^ 61\<close> bytes.
\<close>

unbundle bit_operations_syntax

definition rotr :: "nat \<Rightarrow> u32 \<Rightarrow> u32" where
  "rotr n x = (drop_bit n x) OR (push_bit (32 - n) x)"

definition sha_k :: "u32 list" where
  "sha_k =
    [1116352408, 1899447441, 3049323471, 3921009573, 961987163, 1508970993, 2453635748, 2870763221,
     3624381080, 310598401, 607225278, 1426881987, 1925078388, 2162078206, 2614888103, 3248222580,
     3835390401, 4022224774, 264347078, 604807628, 770255983, 1249150122, 1555081692, 1996064986,
     2554220882, 2821834349, 2952996808, 3210313671, 3336571891, 3584528711, 113926993, 338241895,
     666307205, 773529912, 1294757372, 1396182291, 1695183700, 1986661051, 2177026350, 2456956037,
     2730485921, 2820302411, 3259730800, 3345764771, 3516065817, 3600352804, 4094571909, 275423344,
     430227734, 506948616, 659060556, 883997877, 958139571, 1322822218, 1537002063, 1747873779,
     1955562222, 2024104815, 2227730452, 2361852424, 2428436474, 2756734187, 3204031479, 3329325298]"

definition sha_h0 :: "u32 list" where
  "sha_h0 = [1779033703, 3144134277, 1013904242, 2773480762, 1359893119, 2600822924, 528734635,
     1541459225]"

definition sha_pad :: "byte list \<Rightarrow> byte list" where
  "sha_pad m =
     m @ [0x80] @ replicate ((119 - length m mod 64) mod 64) 0 @ be64 (of_nat (8 * length m))"

fun be_words32 :: "byte list \<Rightarrow> u32 list" where
  "be_words32 (a # b # c # d # bs) = of_nat (be_nat [a, b, c, d]) # be_words32 bs"
| "be_words32 _ = []"

text \<open>The message schedule, the newest word first.\<close>

definition sha_next_w :: "u32 list \<Rightarrow> u32" where
  "sha_next_w ws =
     (let w15 = ws ! 14; w2 = ws ! 1;
          s0 = rotr 7 w15 XOR rotr 18 w15 XOR drop_bit 3 w15;
          s1 = rotr 17 w2 XOR rotr 19 w2 XOR drop_bit 10 w2
      in ws ! 15 + s0 + ws ! 6 + s1)"

primrec sha_extend :: "nat \<Rightarrow> u32 list \<Rightarrow> u32 list" where
  "sha_extend 0 ws = ws"
| "sha_extend (Suc n) ws = sha_extend n (sha_next_w ws # ws)"

definition sha_schedule :: "u32 list \<Rightarrow> u32 list" where
  "sha_schedule block = rev (sha_extend 48 (rev block))"

fun sha_round :: "u32 list \<Rightarrow> u32 \<times> u32 \<Rightarrow> u32 list" where
  "sha_round [a, b, c, d, e, f, g, h] (k, w) =
     (let s1 = rotr 6 e XOR rotr 11 e XOR rotr 25 e;
          ch = (e AND f) XOR (NOT e AND g);
          t1 = h + s1 + ch + k + w;
          s0 = rotr 2 a XOR rotr 13 a XOR rotr 22 a;
          maj = (a AND b) XOR (a AND c) XOR (b AND c)
      in [t1 + s0 + maj, a, b, c, d + t1, e, f, g])"
| "sha_round s _ = s"

definition sha_block :: "u32 list \<Rightarrow> u32 list \<Rightarrow> u32 list" where
  "sha_block h block =
     map2 (+) h (foldl sha_round h (zip sha_k (sha_schedule block)))"

fun sha_blocks :: "nat \<Rightarrow> u32 list \<Rightarrow> u32 list \<Rightarrow> u32 list" where
  "sha_blocks 0 h ws = h"
| "sha_blocks (Suc n) h ws = sha_blocks n (sha_block h (take 16 ws)) (drop 16 ws)"

definition Sum256 :: "byte list \<Rightarrow> byte list" where
  "Sum256 m =
     (let ws = be_words32 (sha_pad m)
      in concat (map be32 (sha_blocks (length ws div 16) sha_h0 ws)))"

lemma length_sha_round: "length h = 8 \<Longrightarrow> length (sha_round h kw) = 8"
  by (induction h kw rule: sha_round.induct) (simp_all add: Let_def)

lemma length_sha_rounds: "length h = 8 \<Longrightarrow> length (foldl sha_round h kws) = 8"
  by (induction kws arbitrary: h) (simp_all add: length_sha_round)

lemma length_sha_blocks: "length h = 8 \<Longrightarrow> length (sha_blocks n h ws) = 8"
  by (induction n h ws rule: sha_blocks.induct) (simp_all add: sha_block_def length_sha_rounds)

lemma length_Sum256 [simp]: "length (Sum256 m) = 32"
  by (simp add: Sum256_def Let_def length_concat o_def sum_list_triv length_sha_blocks sha_h0_def)

end
