(* ===== verification/Kafka_Dedup.thy ===== *)
theory Kafka_Dedup
  imports Wire Sha256
begin

text \<open>
  \<open>internal/source/kafka\<close>: decoding one message, and the dedup key that makes a redelivered
  message collide with itself.
\<close>

text \<open>
  The bytes that are hashed: exporter, first instant in microseconds, both addresses in
  16-byte form, the ports and the protocol.
\<close>

definition natural_key :: "FlowRecord \<Rightarrow> byte list" where
  "natural_key r =
     as16 (ExporterAddr r) @ be64 (word_of_int (unix_micro (micro (FirstSwitched r)))) @
     as16 (SrcAddr r) @ as16 (DstAddr r) @ be16 (SrcPort r) @ be16 (DstPort r) @ [Protocol r]"

definition DedupKey_of :: "FlowRecord \<Rightarrow> byte list" where
  "DedupKey_of r = take 16 (Sum256 (natural_key r))"

definition Decode_keyed ::
    "('body \<Rightarrow> string + Message) \<Rightarrow> 'body \<Rightarrow> time \<Rightarrow> wire_error + FlowRecord" where
  "Decode_keyed unmarshal body recordTime =
     (case Decode unmarshal body recordTime of
        Inl e \<Rightarrow> Inl e
      | Inr r \<Rightarrow> Inr (r\<lparr>DedupKey := Some (DedupKey_of r)\<rparr>))"

section \<open>The key\<close>

lemma length_natural_key: "length (natural_key r) = 61"
  by (simp add: natural_key_def)

lemma length_DedupKey_of: "length (DedupKey_of r) = 16"
  by (simp add: DedupKey_of_def)

lemma micro_div_id: "micro t div Microsecond = t div Microsecond"
  by (simp add: micro_eq time_units minus_mod_eq_mult_div)

lemma unix_micro_word_inject:
  assumes "micro_fits s" and "micro_fits t"
  shows "(word_of_int (unix_micro (micro s)) :: u64) = word_of_int (unix_micro (micro t))
    \<longleftrightarrow> micro s = micro t"
proof
  assume "(word_of_int (unix_micro (micro s)) :: u64) = word_of_int (unix_micro (micro t))"
  then have "wrap64 (unix_micro (micro s)) = wrap64 (unix_micro (micro t))"
    by (simp add: wrap64_def)
  moreover have "unix_micro (micro x) = x div Microsecond"
      "wrap64 (unix_micro (micro x)) = x div Microsecond" if "micro_fits x" for x
    using that by (simp_all add: unix_micro_def micro_div_id micro_fits_def wrap64_id)
  ultimately have "s div Microsecond = t div Microsecond" using assms by simp
  then show "micro s = micro t"
    by (simp add: micro_eq minus_mod_eq_div_mult)
qed simp

text \<open>
  The dedup key separates flows: on plain addresses, the hashed bytes of two records
  are equal exactly when the records agree on exporter, first instant to the microsecond,
  both addresses, both ports and protocol, so two flows share a key only where the hash
  itself collides.
\<close>

theorem natural_key_inject:
  assumes "plain_addr (ExporterAddr r)" "plain_addr (SrcAddr r)" "plain_addr (DstAddr r)"
    and "plain_addr (ExporterAddr s)" "plain_addr (SrcAddr s)" "plain_addr (DstAddr s)"
    and "micro_fits (FirstSwitched r)" "micro_fits (FirstSwitched s)"
  shows "natural_key r = natural_key s \<longleftrightarrow>
    ExporterAddr r = ExporterAddr s \<and> micro (FirstSwitched r) = micro (FirstSwitched s) \<and>
    SrcAddr r = SrcAddr s \<and> DstAddr r = DstAddr s \<and>
    SrcPort r = SrcPort s \<and> DstPort r = DstPort s \<and> Protocol r = Protocol s"
  using assms by (simp add: natural_key_def as16_inject_plain unix_micro_word_inject)

lemma natural_key_inject_witness:
  "natural_key (demo_sent\<lparr>ExporterAddr := Addr4 1\<rparr>) \<noteq>
   natural_key (demo_sent\<lparr>ExporterAddr := Addr4 1, FirstSwitched := 1758287990000001000\<rparr>)"
  using natural_key_inject [of "demo_sent\<lparr>ExporterAddr := Addr4 1\<rparr>"
      "demo_sent\<lparr>ExporterAddr := Addr4 1, FirstSwitched := 1758287990000001000\<rparr>"]
  by (simp add: demo_sent_def micro_fits_def micro_eq time_units drop_bit_eq_div)

section \<open>Redelivery\<close>

lemma natural_key_canonical [simp]: "natural_key (canonical r) = natural_key r"
  by (simp add: natural_key_def canonical_def)

text \<open>Whether a body says itself when its record was received; every body \<open>Encode\<close> makes does.\<close>

definition tells_received :: "('body \<Rightarrow> string + Message) \<Rightarrow> 'body \<Rightarrow> bool" where
  "tells_received unmarshal body \<longleftrightarrow> (\<exists>m. unmarshal body = Inr m \<and> m_ReceivedAt m \<noteq> None)"

lemma record_of_Inr:
  assumes "record_of m t = Inr r"
  shows "m_ReceivedAt m \<noteq> None \<Longrightarrow> record_of m t' = Inr r"
    and "m_ReceivedAt m = None \<Longrightarrow> \<not> is_zero t' \<Longrightarrow> record_of m t' = Inr (r\<lparr>ReceivedAt := micro t'\<rparr>)"
  using assms by (auto simp: record_of_def Let_def split: if_splits option.splits)

lemma DedupKey_of_received [simp]: "DedupKey_of (r\<lparr>ReceivedAt := t\<rparr>) = DedupKey_of r"
  by (simp add: DedupKey_of_def natural_key_def)

lemma Decode_keyed_again:
  assumes "Decode_keyed unmarshal body t = Inr r"
  shows "tells_received unmarshal body \<Longrightarrow> Decode_keyed unmarshal body t' = Inr r"
    and "\<not> tells_received unmarshal body \<Longrightarrow> \<not> is_zero t' \<Longrightarrow>
      Decode_keyed unmarshal body t' = Inr (r\<lparr>ReceivedAt := micro t'\<rparr>)"
proof -
  obtain m s where m: "unmarshal body = Inr m" "record_of m t = Inr s" "r = s\<lparr>DedupKey := Some (DedupKey_of s)\<rparr>"
    using assms by (auto simp: Decode_keyed_def Decode_def split: sum.splits)
  then show "tells_received unmarshal body \<Longrightarrow> Decode_keyed unmarshal body t' = Inr r"
    using record_of_Inr(1) [OF m(2), of t'] by (auto simp: tells_received_def Decode_keyed_def Decode_def)
  show "\<not> tells_received unmarshal body \<Longrightarrow> \<not> is_zero t' \<Longrightarrow>
      Decode_keyed unmarshal body t' = Inr (r\<lparr>ReceivedAt := micro t'\<rparr>)"
    using record_of_Inr(2) [OF m(2), of t'] m by (simp add: tells_received_def Decode_keyed_def Decode_def)
qed

lemma Decode_keyed_Encode:
  assumes "faithful_json marshal unmarshal" and "carried x" and "Encode marshal x = Inr body"
  shows "tells_received unmarshal body"
    and "Decode_keyed unmarshal body t =
      (if complete_record x then Inr ((canonical x)\<lparr>DedupKey := Some (DedupKey_of x)\<rparr>) else Inl (refusal x))"
  using unmarshal_Encode [OF assms]
  by (simp_all add: tells_received_def message_of_def [of x] Decode_keyed_def Decode_def DedupKey_of_def
      record_of_message_of [unfolded message_of_def])

text \<open>
  C27. Redelivery is the same row. When a message decodes, whoever wrote it, a second delivery with
  any other transport timestamp decodes to a record with the same 16-byte dedup key and the same fields; also the
  receive time is the same, so that the whole row is, when the body tells it, and otherwise it is the
  timestamp of that delivery. Every body \<open>Encode\<close> makes of a record JSON can carry tells it, and what it decodes to,
  however often, is that record in canonical form with the key of the record that was sent.
\<close>

theorem redelivery_same_row:
  assumes "Decode_keyed unmarshal body t = Inr r"
  shows "(\<exists>key. DedupKey r = Some key \<and> length key = 16) \<and>
    (tells_received unmarshal body \<longrightarrow> Decode_keyed unmarshal body t' = Inr r) \<and>
    (\<not> tells_received unmarshal body \<and> \<not> is_zero t' \<longrightarrow>
       Decode_keyed unmarshal body t' = Inr (r\<lparr>ReceivedAt := micro t'\<rparr>)) \<and>
    (faithful_json marshal unmarshal \<and> carried x \<and> Encode marshal x = Inr body \<longrightarrow>
       tells_received unmarshal body \<and> r = (canonical x)\<lparr>DedupKey := Some (DedupKey_of x)\<rparr>)"
proof (intro conjI impI)
  show "\<exists>key. DedupKey r = Some key \<and> length key = 16"
    using assms length_DedupKey_of by (auto simp: Decode_keyed_def split: sum.splits)
next
  assume e: "faithful_json marshal unmarshal \<and> carried x \<and> Encode marshal x = Inr body"
  then show "tells_received unmarshal body" using Decode_keyed_Encode(1) [of marshal unmarshal x body] by simp
  show "r = (canonical x)\<lparr>DedupKey := Some (DedupKey_of x)\<rparr>"
    using e assms Decode_keyed_Encode(2) [of marshal unmarshal x body t] by (auto split: if_splits)
qed (use Decode_keyed_again [OF assms] in blast)+

definition untold :: Message where
  "untold = (message_of demo_sent)\<lparr>m_ReceivedAt := None\<rparr>"

lemma redelivery_same_row_witness:
  "Decode_keyed Inr (message_of demo_sent) 77 =
     Inr ((canonical demo_sent)\<lparr>DedupKey := Some (DedupKey_of demo_sent)\<rparr>) \<and>
   Decode_keyed Inr untold 9000 =
     Inr ((canonical demo_sent)\<lparr>ReceivedAt := 9000, DedupKey := Some (DedupKey_of demo_sent)\<rparr>)"
proof -
  let ?r = "(canonical demo_sent)\<lparr>DedupKey := Some (DedupKey_of demo_sent)\<rparr>"
  let ?u = "?r\<lparr>ReceivedAt := 5000\<rparr>"
  have f: "faithful_json Inr Inr" by (simp add: faithful_json_def)
  have s: "carried demo_sent" "complete_record demo_sent"
    using sendable_iff [of demo_sent]
    by (auto simp: sendable_def demo_sent_def zero_record_def json_time_def micro_eq time_units
        is_zero_def zero_time_def unix_to_internal_def)
  have e: "Encode Inr demo_sent = Inr (message_of demo_sent)" by (simp add: Encode_def)
  have 1: "Decode_keyed Inr (message_of demo_sent) 0 = Inr ?r" and t: "tells_received Inr (message_of demo_sent)"
    using Decode_keyed_Encode [OF f s(1) e] s(2) by simp_all
  have 2: "Decode_keyed Inr untold 5000 = Inr ?u"
    using s(2) by (auto simp: Decode_keyed_def Decode_def record_of_def untold_def message_of_def complete_record_def canonical_def
        Let_def is_zero_def zero_time_def unix_to_internal_def micro_eq time_units DedupKey_of_def natural_key_def
        dest: not_valid)
  have u: "\<not> tells_received Inr untold" "\<not> is_zero 9000" "micro 9000 = 9000"
    by (simp_all add: tells_received_def untold_def is_zero_def zero_time_def unix_to_internal_def micro_eq time_units)
  show ?thesis
    using redelivery_same_row [OF 1, where t' = 77] redelivery_same_row [OF 2, where t' = 9000] t u by simp
qed

end
