(* ===== verification/Kafka_Session.thy ===== *)
theory Kafka_Session
  imports Kafka_Dedup
begin

text \<open>
  \<open>StartPull\<close> and \<open>consumeUntilFailure\<close> of \<open>internal/source/kafka\<close>: the poll loop, the
  committer goroutine and the channel between them. The client of the message bus is not
  part of this repository; of it the model uses that a poll returns, per partition, the
  messages that follow the ones returned before, that committing messages moves the
  partition's committed offset behind the last of them, and that a fresh session starts
  from the committed offsets. The pipeline is reached only through the two methods of
  \<open>flow.Intake\<close>, which are arguments here (\<open>offer\<close>, \<open>written\<close>, \<open>wfail\<close>) next to the steps the
  pipeline makes on its own (\<open>wstep\<close>); \<open>'w\<close> is the pipeline's state.
\<close>

record 'b kmsg =
  k_partition :: nat
  k_offset :: nat
  k_value :: 'b
  k_time :: time

record 'b pollAck =
  ack_seq :: u64
  ack_records :: "'b kmsg list"

definition ackBacklog :: nat where "ackBacklog = 64"

datatype 'b poll_pc = Polling | Offering "'b kmsg list" | Acking | Stopped | Ended bool

datatype 'b committer = CReceive | CAwait "'b pollAck" | CCommit "'b pollAck" | CDone

text \<open>
  \<open>decode\<close>: \<open>Decode\<close> plus the error counter. The fields from \<open>settled\<close> on are a log: the
  messages of polls the pipeline has confirmed, and where the session began.
\<close>

record ('b, 'w) session =
  world :: 'w
  position :: "nat \<Rightarrow> nat"
  poll :: "'b poll_pc"
  poll_last :: u64
  poll_records :: "'b kmsg list"
  acks :: "'b pollAck list"
  committer :: "'b committer"
  failed_signal :: bool
  sess_cancelled :: bool
  ctx_done :: bool
  committed :: "nat \<Rightarrow> nat"
  decode_errors :: nat
  rewinds :: nat
  settled :: "'b kmsg list"
  sess_start :: "nat \<Rightarrow> nat"
  sess_world :: 'w

definition decode_message ::
    "('b \<Rightarrow> string + Message) \<Rightarrow> 'b kmsg \<Rightarrow> FlowRecord option" where
  "decode_message unmarshal m =
     (case Decode_keyed unmarshal (k_value m) (k_time m) of Inl _ \<Rightarrow> None | Inr r \<Rightarrow> Some r)"

section \<open>The operations of a session\<close>

definition start_session :: "'w \<Rightarrow> (nat \<Rightarrow> nat) \<Rightarrow> bool \<Rightarrow> nat \<Rightarrow> nat \<Rightarrow> ('b, 'w) session" where
  "start_session w c done errs rew =
     \<lparr>world = w, position = c, poll = Polling, poll_last = 0, poll_records = [], acks = [],
      committer = CReceive, failed_signal = False, sess_cancelled = done, ctx_done = done,
      committed = c, decode_errors = errs, rewinds = rew,
      settled = [], sess_start = c, sess_world = w\<rparr>"

definition in_partition :: "nat \<Rightarrow> 'b kmsg list \<Rightarrow> 'b kmsg list" where
  "in_partition p ms = filter (\<lambda>m. k_partition m = p) ms"

definition begin_poll :: "'b kmsg list \<Rightarrow> ('b, 'w) session \<Rightarrow> ('b, 'w) session" where
  "begin_poll ms s =
     s\<lparr>poll := Offering ms, poll_last := 0, poll_records := [],
       position := (\<lambda>p. position s p + length (in_partition p ms))\<rparr>"

definition skip_message :: "'b kmsg \<Rightarrow> 'b kmsg list \<Rightarrow> ('b, 'w) session \<Rightarrow> ('b, 'w) session" where
  "skip_message m ms s =
     s\<lparr>poll_records := poll_records s @ [m], decode_errors := Suc (decode_errors s),
       poll := Offering ms\<rparr>"

definition accept_message ::
    "'b kmsg \<Rightarrow> 'b kmsg list \<Rightarrow> u64 \<Rightarrow> 'w \<Rightarrow> ('b, 'w) session \<Rightarrow> ('b, 'w) session" where
  "accept_message m ms seq w s =
     s\<lparr>poll_records := poll_records s @ [m], poll_last := seq, world := w, poll := Offering ms\<rparr>"

definition stop_polling :: "('b, 'w) session \<Rightarrow> ('b, 'w) session" where
  "stop_polling s = s\<lparr>poll := Stopped\<rparr>"

definition finish_poll :: "('b, 'w) session \<Rightarrow> ('b, 'w) session" where
  "finish_poll s = s\<lparr>poll := (if poll_records s = [] then Polling else Acking)\<rparr>"

definition send_ack :: "('b, 'w) session \<Rightarrow> ('b, 'w) session option" where
  "send_ack s =
     map_option (\<lambda>q. s\<lparr>acks := q, poll := Polling, poll_records := []\<rparr>)
       (chan_try_send ackBacklog (acks s)
          \<lparr>ack_seq = poll_last s, ack_records = poll_records s\<rparr>)"

definition recv_ack :: "('b, 'w) session \<Rightarrow> ('b, 'w) session option" where
  "recv_ack s = map_option (\<lambda>(a, q). s\<lparr>acks := q, committer := CAwait a\<rparr>) (chan_try_recv (acks s))"

definition ack_confirmed :: "'b pollAck \<Rightarrow> ('b, 'w) session \<Rightarrow> ('b, 'w) session" where
  "ack_confirmed a s = s\<lparr>committer := CCommit a, settled := settled s @ ack_records a\<rparr>"

definition ack_failed :: "'w \<Rightarrow> ('b, 'w) session \<Rightarrow> ('b, 'w) session" where
  "ack_failed w s =
     s\<lparr>world := w, failed_signal := True, sess_cancelled := True, committer := CDone\<rparr>"

definition ack_error :: "('b, 'w) session \<Rightarrow> ('b, 'w) session" where
  "ack_error s = s\<lparr>sess_cancelled := True, committer := CDone\<rparr>"

definition commit_offsets :: "'b kmsg list \<Rightarrow> (nat \<Rightarrow> nat) \<Rightarrow> nat \<Rightarrow> nat" where
  "commit_offsets ms c p =
     (if in_partition p ms = [] then c p
      else Suc (fold max (map k_offset (in_partition p ms)) 0))"

definition commit_records :: "bool \<Rightarrow> 'b pollAck \<Rightarrow> ('b, 'w) session \<Rightarrow> ('b, 'w) session" where
  "commit_records ok a s =
     s\<lparr>committed := (if ok then commit_offsets (ack_records a) (committed s) else committed s),
       committer := CReceive\<rparr>"

definition end_session :: "('b, 'w) session \<Rightarrow> ('b, 'w) session" where
  "end_session s = s\<lparr>poll := Ended (failed_signal s \<and> \<not> ctx_done s)\<rparr>"

definition rewind :: "('b, 'w) session \<Rightarrow> ('b, 'w) session" where
  "rewind s = start_session (world s) (committed s) (ctx_done s) (decode_errors s) (Suc (rewinds s))"

section \<open>Interleavings\<close>

text \<open>The messages a poll may return: per partition, the next ones of the log.\<close>

definition fetched :: "(nat \<Rightarrow> 'b kmsg list) \<Rightarrow> (nat \<Rightarrow> nat) \<Rightarrow> 'b kmsg list \<Rightarrow> bool" where
  "fetched topic pos ms \<longleftrightarrow>
     (\<forall>p. in_partition p ms = take (length (in_partition p ms)) (drop (pos p) (topic p)))"

inductive sess_step for topic :: "nat \<Rightarrow> 'b kmsg list" and dec :: "'b kmsg \<Rightarrow> FlowRecord option"
    and wstep :: "'w \<Rightarrow> 'w \<Rightarrow> bool" and offer :: "'w \<Rightarrow> FlowRecord \<Rightarrow> u64 \<Rightarrow> 'w \<Rightarrow> bool"
    and written :: "'w \<Rightarrow> u64 \<Rightarrow> bool" and wfail :: "'w \<Rightarrow> u64 \<Rightarrow> 'w \<Rightarrow> bool" where
  poll_cancelled:
    "poll s = Polling \<Longrightarrow> sess_cancelled s \<Longrightarrow>
     sess_step topic dec wstep offer written wfail s (stop_polling s)"
| poll_fetch:
    "poll s = Polling \<Longrightarrow> \<not> sess_cancelled s \<Longrightarrow> fetched topic (position s) ms \<Longrightarrow>
     sess_step topic dec wstep offer written wfail s (begin_poll ms s)"
| message_poison:
    "poll s = Offering (m # ms) \<Longrightarrow> dec m = None \<Longrightarrow>
     sess_step topic dec wstep offer written wfail s (skip_message m ms s)"
| message_offered:
    "poll s = Offering (m # ms) \<Longrightarrow> dec m = Some rec \<Longrightarrow> offer (world s) rec seq w \<Longrightarrow>
     sess_step topic dec wstep offer written wfail s (accept_message m ms seq w s)"
| message_refused:
    "poll s = Offering (m # ms) \<Longrightarrow> dec m = Some rec \<Longrightarrow>
     sess_step topic dec wstep offer written wfail s (stop_polling s)"
| poll_done:
    "poll s = Offering [] \<Longrightarrow>
     sess_step topic dec wstep offer written wfail s (finish_poll s)"
| ack_sent:
    "poll s = Acking \<Longrightarrow> send_ack s = Some t \<Longrightarrow>
     sess_step topic dec wstep offer written wfail s t"
| ack_abandoned:
    "poll s = Acking \<Longrightarrow> sess_cancelled s \<Longrightarrow>
     sess_step topic dec wstep offer written wfail s (stop_polling s)"
| commit_receive:
    "committer s = CReceive \<Longrightarrow> recv_ack s = Some t \<Longrightarrow>
     sess_step topic dec wstep offer written wfail s t"
| commit_closed:
    "committer s = CReceive \<Longrightarrow> acks s = [] \<Longrightarrow> poll s = Stopped \<Longrightarrow>
     sess_step topic dec wstep offer written wfail s (s\<lparr>committer := CDone\<rparr>)"
| commit_confirmed:
    "committer s = CAwait a \<Longrightarrow> written (world s) (ack_seq a) \<Longrightarrow>
     sess_step topic dec wstep offer written wfail s (ack_confirmed a s)"
| commit_failed:
    "committer s = CAwait a \<Longrightarrow> wfail (world s) (ack_seq a) w \<Longrightarrow>
     sess_step topic dec wstep offer written wfail s (ack_failed w s)"
| commit_cancelled:
    "committer s = CAwait a \<Longrightarrow>
     sess_step topic dec wstep offer written wfail s (ack_error s)"
| commit_done:
    "committer s = CCommit a \<Longrightarrow>
     sess_step topic dec wstep offer written wfail s (commit_records ok a s)"
| pipeline_moves:
    "wstep (world s) w \<Longrightarrow>
     sess_step topic dec wstep offer written wfail s (s\<lparr>world := w\<rparr>)"
| context_ends:
    "sess_step topic dec wstep offer written wfail s (s\<lparr>ctx_done := True, sess_cancelled := True\<rparr>)"
| session_over:
    "poll s = Stopped \<Longrightarrow> committer s = CDone \<Longrightarrow>
     sess_step topic dec wstep offer written wfail s (end_session s)"
| session_again:
    "poll s = Ended True \<Longrightarrow>
     sess_step topic dec wstep offer written wfail s (rewind s)"

inductive pulling for topic :: "nat \<Rightarrow> 'b kmsg list" and dec :: "'b kmsg \<Rightarrow> FlowRecord option"
    and wstep :: "'w \<Rightarrow> 'w \<Rightarrow> bool" and offer :: "'w \<Rightarrow> FlowRecord \<Rightarrow> u64 \<Rightarrow> 'w \<Rightarrow> bool"
    and written :: "'w \<Rightarrow> u64 \<Rightarrow> bool" and wfail :: "'w \<Rightarrow> u64 \<Rightarrow> 'w \<Rightarrow> bool"
    and w\<^sub>0 :: 'w and c\<^sub>0 :: "nat \<Rightarrow> nat" where
  pull_start: "pulling topic dec wstep offer written wfail w\<^sub>0 c\<^sub>0 (start_session w\<^sub>0 c\<^sub>0 False 0 0)"
| pull_more: "pulling topic dec wstep offer written wfail w\<^sub>0 c\<^sub>0 s \<Longrightarrow>
    sess_step topic dec wstep offer written wfail s t \<Longrightarrow>
    pulling topic dec wstep offer written wfail w\<^sub>0 c\<^sub>0 t"

section \<open>Slices of the partition logs\<close>

definition log_wf :: "(nat \<Rightarrow> 'b kmsg list) \<Rightarrow> bool" where
  "log_wf topic \<longleftrightarrow>
     (\<forall>p i. i < length (topic p) \<longrightarrow> k_partition (topic p ! i) = p \<and> k_offset (topic p ! i) = i)"

definition log_slice :: "(nat \<Rightarrow> 'b kmsg list) \<Rightarrow> (nat \<Rightarrow> nat) \<Rightarrow> 'b kmsg list \<Rightarrow> bool" where
  "log_slice topic c ms \<longleftrightarrow> (\<forall>p. \<exists>n. in_partition p ms = take n (drop (c p) (topic p)))"

lemma in_partition_append [simp]:
  "in_partition p (xs @ ys) = in_partition p xs @ in_partition p ys"
  by (simp add: in_partition_def)

lemma in_partition_Nil [simp]: "in_partition p [] = []"
  by (simp add: in_partition_def)

lemma fetched_slice: "fetched topic pos ms \<Longrightarrow> log_slice topic pos ms"
  by (auto simp: fetched_def log_slice_def)

lemma slice_prefix: "log_slice topic c (xs @ ys) \<Longrightarrow> log_slice topic c xs"
proof (unfold log_slice_def, rule allI)
  fix p assume "\<forall>p. \<exists>n. in_partition p (xs @ ys) = take n (drop (c p) (topic p))"
  then obtain n where n: "in_partition p xs @ in_partition p ys = take n (drop (c p) (topic p))"
    by (metis in_partition_append)
  then have "in_partition p xs = take (length (in_partition p xs)) (take n (drop (c p) (topic p)))"
    by (metis append_eq_conv_conj)
  then show "\<exists>n. in_partition p xs = take n (drop (c p) (topic p))"
    by (metis take_take)
qed

lemma slice_extend:
  assumes "log_slice topic c xs" and "log_slice topic (\<lambda>p. c p + length (in_partition p xs)) ys"
  shows "log_slice topic c (xs @ ys)"
  unfolding log_slice_def
proof
  fix p
  obtain n where n: "in_partition p xs = take n (drop (c p) (topic p))"
    using assms(1) by (auto simp: log_slice_def)
  obtain k where k: "in_partition p ys = take k (drop (c p + length (in_partition p xs)) (topic p))"
    using assms(2) by (auto simp: log_slice_def)
  let ?l = "length (in_partition p xs)"
  have "in_partition p xs = take ?l (drop (c p) (topic p))"
    using n by (metis length_take min.cobounded1 nat_le_linear take_all_iff take_take min_def)
  moreover have "in_partition p ys = take k (drop ?l (drop (c p) (topic p)))"
    using k by (simp add: add.commute)
  ultimately have "in_partition p (xs @ ys) = take (?l + k) (drop (c p) (topic p))"
    by (metis in_partition_append take_add)
  then show "\<exists>n. in_partition p (xs @ ys) = take n (drop (c p) (topic p))" ..
qed

lemma slice_nth:
  assumes "log_slice topic c ms" and "i < length (in_partition p ms)"
  shows "in_partition p ms ! i = topic p ! (c p + i) \<and> c p + i < length (topic p)"
proof -
  obtain n where "in_partition p ms = take n (drop (c p) (topic p))"
    using assms(1) by (auto simp: log_slice_def)
  then show ?thesis using assms(2) by (auto simp: add.commute)
qed

lemma fold_max_less: "(\<And>x. x \<in> set xs \<Longrightarrow> x < n) \<Longrightarrow> a < n \<Longrightarrow> fold max xs a < (n :: nat)"
  by (induction xs arbitrary: a) auto

lemma commit_offsets_le:
  assumes "log_wf topic" and "log_slice topic c ms" and "set rs \<subseteq> set ms"
    and "k p \<le> c p + length (in_partition p ms)"
  shows "commit_offsets rs k p \<le> c p + length (in_partition p ms)"
proof (cases "in_partition p rs = []")
  case False
  have off: "k_offset m < c p + length (in_partition p ms)" if m: "m \<in> set (in_partition p rs)" for m
  proof -
    have "m \<in> set (in_partition p ms)" using m assms(3) by (auto simp: in_partition_def)
    then obtain i where i: "i < length (in_partition p ms)" "m = in_partition p ms ! i"
      by (metis in_set_conv_nth)
    then show ?thesis
      using slice_nth [OF assms(2) i(1)] assms(1) by (auto simp: log_wf_def)
  qed
  obtain m where "m \<in> set (in_partition p rs)" using False by (cases "in_partition p rs") auto
  from off [OF this] have "0 < c p + length (in_partition p ms)" by (rule le_less_trans [OF le0])
  then have "fold max (map k_offset (in_partition p rs)) 0 < c p + length (in_partition p ms)"
    using off by (intro fold_max_less) auto
  then show ?thesis using False by (simp add: commit_offsets_def)
qed (use assms(4) in \<open>simp add: commit_offsets_def\<close>)

section \<open>The contract of an intake\<close>

text \<open>
  What \<open>flow.Intake\<close> promises a pull source. \<open>numbered w k rec\<close>: \<open>rec\<close> is record \<open>k\<close> of the
  write order; \<open>stored w rec\<close>: every sink has it; \<open>was_told w k\<close>: a waiter has been told that
  the batch of record \<open>k\<close> was rejected.
\<close>

locale intake =
  fixes wstep :: "'w \<Rightarrow> 'w \<Rightarrow> bool"
    and offer :: "'w \<Rightarrow> FlowRecord \<Rightarrow> u64 \<Rightarrow> 'w \<Rightarrow> bool"
    and written :: "'w \<Rightarrow> u64 \<Rightarrow> bool"
    and wfail :: "'w \<Rightarrow> u64 \<Rightarrow> 'w \<Rightarrow> bool"
    and ok :: "'w \<Rightarrow> bool"
    and total :: "'w \<Rightarrow> nat"
    and numbered :: "'w \<Rightarrow> nat \<Rightarrow> FlowRecord \<Rightarrow> bool"
    and stored :: "'w \<Rightarrow> FlowRecord \<Rightarrow> bool"
    and was_told :: "'w \<Rightarrow> nat \<Rightarrow> bool"
    and moves :: "'w \<Rightarrow> 'w \<Rightarrow> bool"
  assumes wstep_moves: "wstep w v \<Longrightarrow> moves w v"
    and offer_moves: "offer w rec seq v \<Longrightarrow> moves w v"
    and wfail_moves: "wfail w seq v \<Longrightarrow> moves w v"
    and ok_moves: "ok w \<Longrightarrow> moves w v \<Longrightarrow> ok v"
    and total_moves: "ok w \<Longrightarrow> moves w v \<Longrightarrow> total w \<le> total v"
    and numbered_moves: "ok w \<Longrightarrow> moves w v \<Longrightarrow> numbered w k rec \<Longrightarrow> numbered v k rec"
    and stored_moves: "ok w \<Longrightarrow> moves w v \<Longrightarrow> stored w rec \<Longrightarrow> stored v rec"
    and wstep_told: "ok w \<Longrightarrow> wstep w v \<Longrightarrow> was_told v k \<Longrightarrow> was_told w k"
    and offer_told: "ok w \<Longrightarrow> offer w rec seq v \<Longrightarrow> was_told v k \<Longrightarrow> was_told w k"
    and told_total: "ok w \<Longrightarrow> was_told w k \<Longrightarrow> k \<le> total w"
    and numbered_total: "ok w \<Longrightarrow> numbered w k rec \<Longrightarrow> k \<le> total w"
    and offer_numbered: "ok w \<Longrightarrow> offer w rec seq v \<Longrightarrow>
      total w < unat seq \<and> numbered v (unat seq) rec"
    and written_stored: "ok w \<Longrightarrow> written w seq \<Longrightarrow> numbered w k rec \<Longrightarrow> k \<le> unat seq \<Longrightarrow>
      stored w rec \<or> was_told w k"
begin

text \<open>Every decodable message of \<open>ms\<close> has a number of this session at or below \<open>seq\<close>.\<close>

definition covers where
  "covers dec w n seq ms \<longleftrightarrow>
     (\<forall>m\<in>set ms. \<forall>rec. dec m = Some rec \<longrightarrow>
        (\<exists>k. n < k \<and> k \<le> unat seq \<and> numbered w k rec))"

lemma covers_Nil [simp]: "covers dec w n seq []"
  by (simp add: covers_def)

lemma covers_moves: "ok w \<Longrightarrow> moves w v \<Longrightarrow> covers dec w n seq ms \<Longrightarrow> covers dec v n seq ms"
  unfolding covers_def using numbered_moves by meson

lemma covers_poison: "dec m = None \<Longrightarrow> covers dec w n seq ms \<Longrightarrow> covers dec w n seq (ms @ [m])"
  by (auto simp: covers_def)

lemma covers_offer:
  assumes "ok w" and "offer w rec seq v" and "dec m = Some rec" and "n \<le> total w"
    and "covers dec w n prev ms"
  shows "covers dec v n seq (ms @ [m])"
proof -
  have seq: "total w < unat seq" "numbered v (unat seq) rec"
    using offer_numbered [OF assms(1,2)] by auto
  have "\<exists>k. n < k \<and> k \<le> unat seq \<and> numbered v k r" if m: "m' \<in> set ms" "dec m' = Some r" for m' r
  proof -
    obtain k where "n < k" "numbered w k r" using assms(5) m by (auto simp: covers_def)
    then show ?thesis
      using numbered_total [OF assms(1)] numbered_moves [OF assms(1) offer_moves [OF assms(2)]] seq(1)
      by (meson less_imp_le order_trans)
  qed
  moreover have "n < unat seq" using assms(4) seq(1) by simp
  ultimately show ?thesis using seq(2) assms(3) by (auto simp: covers_def)
qed

lemma covers_stored:
  assumes "ok w" and "written w seq" and "covers dec w n seq ms"
    and "\<And>k. was_told w k \<Longrightarrow> k \<le> n" and "m \<in> set ms" and "dec m = Some rec"
  shows "stored w rec"
proof -
  obtain k where k: "n < k" "k \<le> unat seq" "numbered w k rec"
    using assms(3,5,6) by (auto simp: covers_def)
  then show ?thesis using written_stored [OF assms(1,2) k(3,2)] assms(4) [of k] by fastforce
qed

end

end
