(* ===== verification/Kafka_Delivery.thy ===== *)
theory Kafka_Delivery
  imports Kafka_Session
begin

text \<open>
  At-least-once delivery of the Kafka source over any intake that keeps the contract:
  whatever the interleaving of poll loop, committer and pipeline, and however often the
  source rewinds, a message below the committed offset of its partition is stored.
\<close>

definition awaited :: "('b, 'w) session \<Rightarrow> 'b pollAck list" where
  "awaited s = (case committer s of CAwait a \<Rightarrow> [a] | _ \<Rightarrow> []) @ acks s"

definition polled :: "('b, 'w) session \<Rightarrow> 'b kmsg list" where
  "polled s =
     (case poll s of Offering ms \<Rightarrow> poll_records s @ ms | Acking \<Rightarrow> poll_records s | _ \<Rightarrow> [])"

definition consumed :: "('b, 'w) session \<Rightarrow> 'b kmsg list" where
  "consumed s = settled s @ concat (map ack_records (awaited s)) @ polled s"

fun running :: "'b poll_pc \<Rightarrow> bool" where
  "running Stopped = False"
| "running (Ended _) = False"
| "running _ = True"

fun ended :: "'b poll_pc \<Rightarrow> bool" where
  "ended (Ended _) = True"
| "ended _ = False"

text \<open>The order of consumption, independent of the pipeline.\<close>

definition sliced :: "(nat \<Rightarrow> 'b kmsg list) \<Rightarrow> ('b, 'w) session \<Rightarrow> bool" where
  "sliced topic s \<longleftrightarrow>
     log_slice topic (sess_start s) (settled s) \<and>
     (committer s \<noteq> CDone \<longrightarrow> log_slice topic (sess_start s) (consumed s) \<and>
        (running (poll s) \<longrightarrow>
         (\<forall>p. position s p = sess_start s p + length (in_partition p (consumed s))))) \<and>
     (\<forall>a. committer s = CCommit a \<longrightarrow> set (ack_records a) \<subseteq> set (settled s)) \<and>
     (\<forall>p. committed s p \<le> sess_start s p + length (in_partition p (settled s))) \<and>
     (ended (poll s) \<longrightarrow> committer s = CDone)"

lemmas session_defs = start_session_def begin_poll_def skip_message_def accept_message_def
  stop_polling_def finish_poll_def send_ack_def recv_ack_def ack_confirmed_def ack_failed_def
  ack_error_def commit_records_def end_session_def rewind_def

lemmas consumed_defs = consumed_def polled_def awaited_def

lemma sliced_start: "sliced topic (start_session w c d e n)"
  by (simp add: sliced_def session_defs consumed_defs log_slice_def)

lemma sliced_stop:
  assumes "sliced topic s" and "running (poll s)"
  shows "sliced topic (stop_polling s)"
proof -
  have "consumed s = consumed (stop_polling s) @ polled s"
    by (simp add: consumed_def awaited_def stop_polling_def polled_def [of "s\<lparr>poll := Stopped\<rparr>"])
  then show ?thesis
    using assms slice_prefix [of topic "sess_start s" "consumed (stop_polling s)" "polled s"]
    by (auto simp: sliced_def stop_polling_def)
qed

lemma sliced_poll:
  assumes "sliced topic s" and "poll s = Polling" and "fetched topic (position s) ms"
  shows "sliced topic (begin_poll ms s)"
proof -
  have c: "consumed (begin_poll ms s) = consumed s @ ms"
    using assms(2) by (simp add: consumed_defs begin_poll_def)
  have "log_slice topic (sess_start s) (consumed s @ ms)" if "committer s \<noteq> CDone"
    using slice_extend [of topic "sess_start s" "consumed s" ms] fetched_slice [OF assms(3)]
      assms(1,2) that by (auto simp: sliced_def simp flip: fun_eq_iff)
  with assms c show ?thesis by (auto simp: sliced_def begin_poll_def)
qed

lemma sliced_move:
  assumes "sliced topic s"
    and "consumed t = consumed s" "settled t = settled s" "sess_start t = sess_start s"
    and "committer t = committer s \<or> committer t = CReceive \<or>
      (\<exists>a. committer t = CAwait a) \<and> committer s = CReceive"
    and "position t = position s" "committed t = committed s"
    and "running (poll t) = running (poll s)" "ended (poll t) = ended (poll s)"
    and "committer s = CDone \<longrightarrow> committer t = CDone"
  shows "sliced topic t"
  using assms(5)
proof (elim disjE)
  assume "committer t = committer s"
  then show ?thesis using assms(1) unfolding sliced_def assms(2-4,6-9) by simp
qed (use assms(1,10) in \<open>unfold sliced_def assms(2-4,6-9), auto\<close>)

lemma sliced_confirm:
  assumes "sliced topic s" and "committer s = CAwait a"
  shows "sliced topic (ack_confirmed a s)"
proof -
  have "consumed (ack_confirmed a s) = consumed s"
    using assms(2) by (simp add: consumed_defs ack_confirmed_def split: poll_pc.splits)
  moreover have "log_slice topic (sess_start s) (settled s @ ack_records a)"
    using assms slice_prefix [of topic "sess_start s" "settled s @ ack_records a"
        "concat (map ack_records (acks s)) @ polled s"]
    by (simp add: sliced_def consumed_def awaited_def)
  ultimately show ?thesis
    using assms by (auto simp: sliced_def ack_confirmed_def intro: le_trans)
qed

lemma sliced_commit:
  assumes "sliced topic s" and "log_wf topic" and "committer s = CCommit a"
  shows "sliced topic (commit_records c a s)"
proof -
  have "consumed (commit_records c a s) = consumed s"
    using assms(3) by (simp add: consumed_defs commit_records_def split: poll_pc.splits)
  moreover have "commit_offsets (ack_records a) (committed s) p
      \<le> sess_start s p + length (in_partition p (settled s))" for p
    using assms by (intro commit_offsets_le) (auto simp: sliced_def)
  ultimately show ?thesis
    using assms(1,3) by (auto simp: sliced_def commit_records_def)
qed

lemma sliced_done:
  "sliced topic s \<Longrightarrow> sliced topic (s\<lparr>world := w, failed_signal := f, sess_cancelled := c, committer := CDone\<rparr>)"
  by (auto simp: sliced_def)

lemma sess_step_sliced:
  assumes "sess_step topic dec wstep offer written wfail s t" and "log_wf topic" and "sliced topic s"
  shows "sliced topic t"
  using assms(1)
proof cases
  case poll_cancelled
  then show ?thesis using sliced_stop [OF assms(3)] by simp
next
  case (poll_fetch ms)
  then show ?thesis using sliced_poll [OF assms(3)] by simp
next
  case (message_refused m ms rec)
  then show ?thesis using sliced_stop [OF assms(3)] by simp
next
  case ack_abandoned
  then show ?thesis using sliced_stop [OF assms(3)] by simp
next
  case (commit_confirmed a)
  then show ?thesis using sliced_confirm [OF assms(3)] by simp
next
  case (commit_failed a w)
  then show ?thesis
    using sliced_done [OF assms(3), where w = w and f = True and c = True] by (simp add: ack_failed_def)
next
  case (commit_cancelled a)
  then show ?thesis
    using sliced_done [OF assms(3), where w = "world s" and f = "failed_signal s" and c = True] by (simp add: ack_error_def)
next
  case (commit_done a ok)
  then show ?thesis using sliced_commit [OF assms(3,2)] by simp
next
  case commit_closed
  then show ?thesis
    using sliced_done [OF assms(3), where w = "world s" and f = "failed_signal s" and c = "sess_cancelled s"] by simp
next
  case session_over
  then show ?thesis using assms(3) by (auto simp: sliced_def end_session_def)
next
  case session_again
  then show ?thesis by (simp add: rewind_def sliced_start)
next
  case (message_poison m ms)
  then show ?thesis
    by (intro sliced_move [OF assms(3)]) (auto simp: session_defs consumed_defs)
next
  case (message_offered m ms rec seq w)
  then show ?thesis
    by (intro sliced_move [OF assms(3)]) (auto simp: session_defs consumed_defs)
next
  case poll_done
  then show ?thesis
    by (intro sliced_move [OF assms(3)]) (auto simp: session_defs consumed_defs)
next
  case ack_sent
  then show ?thesis
    by (intro sliced_move [OF assms(3)]) (auto simp: session_defs consumed_defs chan_simps)
next
  case commit_receive
  then show ?thesis
    by (intro sliced_move [OF assms(3)])
      (auto simp: session_defs consumed_defs chan_simps split: poll_pc.splits)
next
  case (pipeline_moves w)
  then show ?thesis
    by (intro sliced_move [OF assms(3)]) (auto simp: consumed_defs split: poll_pc.splits)
next
  case context_ends
  then show ?thesis
    by (intro sliced_move [OF assms(3)]) (auto simp: consumed_defs split: poll_pc.splits)
qed

section \<open>Delivery over an intake\<close>

context intake
begin

text \<open>
  The state of a session against the pipeline: nothing told since it began unless the
  committer is done, every awaited poll numbered at or below the sequence it waits for,
  every settled message stored.
\<close>

definition session_ok where
  "session_ok dec s \<longleftrightarrow>
     ok (world s) \<and> total (sess_world s) \<le> total (world s) \<and>
     (committer s \<noteq> CDone \<longrightarrow> (\<forall>k. was_told (world s) k \<longrightarrow> k \<le> total (sess_world s))) \<and>
     (\<forall>a\<in>set (awaited s). covers dec (world s) (total (sess_world s)) (ack_seq a) (ack_records a)) \<and>
     (running (poll s) \<and> poll s \<noteq> Polling \<longrightarrow>
        covers dec (world s) (total (sess_world s)) (poll_last s) (poll_records s)) \<and>
     (\<forall>m\<in>set (settled s). \<forall>rec. dec m = Some rec \<longrightarrow> stored (world s) rec)"

lemma session_ok_start: "ok w \<Longrightarrow> session_ok dec (start_session w c d e n)"
  by (auto simp: session_ok_def start_session_def awaited_def dest: told_total)

text \<open>A move of the pipeline that tells nobody anything keeps the session in order.\<close>

lemma session_ok_world:
  assumes "session_ok dec s" and "moves (world s) w"
    and "committer s \<noteq> CDone \<Longrightarrow> \<forall>k. was_told w k \<longrightarrow> k \<le> total (sess_world s)"
  shows "session_ok dec (s\<lparr>world := w\<rparr>)"
proof -
  have o: "ok (world s)" using assms(1) by (simp add: session_ok_def)
  have "total (sess_world s) \<le> total w"
    using assms(1) total_moves [OF o assms(2)] by (simp add: session_ok_def)
  moreover have "covers dec w n q ms" if "covers dec (world s) n q ms" for n q ms
    using covers_moves [OF o assms(2) that] .
  moreover have "stored w rec" if "stored (world s) rec" for rec
    using stored_moves [OF o assms(2) that] .
  moreover have "awaited (s\<lparr>world := w\<rparr>) = awaited s" by (simp add: awaited_def)
  ultimately show ?thesis
    using assms(1,3) ok_moves [OF o assms(2)] by (auto simp: session_ok_def)
qed

lemma session_ok_confirm:
  assumes "session_ok dec s" and "committer s = CAwait a" and "written (world s) (ack_seq a)"
  shows "session_ok dec (ack_confirmed a s)"
proof -
  have "stored (world s) rec" if "m \<in> set (ack_records a)" "dec m = Some rec" for m rec
    using assms that
    by (intro covers_stored [where dec = dec and ms = "ack_records a"
          and n = "total (sess_world s)" and seq = "ack_seq a"])
      (auto simp: session_ok_def awaited_def)
  then show ?thesis
    using assms(1,2) by (auto simp: session_ok_def ack_confirmed_def awaited_def)
qed

lemma session_ok_offer:
  assumes "session_ok dec s" and "poll s = Offering (m # ms)" and "dec m = Some rec"
    and "offer (world s) rec seq w"
  shows "session_ok dec (accept_message m ms seq w s)"
proof -
  have o: "ok (world s)" using assms(1) by (simp add: session_ok_def)
  have "session_ok dec (s\<lparr>world := w\<rparr>)"
    using assms(1) offer_told [OF o assms(4)]
    by (intro session_ok_world [OF assms(1) offer_moves [OF assms(4)]]) (auto simp: session_ok_def)
  moreover have "covers dec w (total (sess_world s)) seq (poll_records s @ [m])"
    using assms
    by (intro covers_offer [where dec = dec and w = "world s", OF o assms(4,3)])
      (auto simp: session_ok_def)
  ultimately show ?thesis
    by (auto simp: session_ok_def accept_message_def awaited_def)
qed

lemma sess_step_ok:
  assumes "sess_step topic dec wstep offer written wfail s t" and "session_ok dec s"
  shows "session_ok dec t"
  using assms(1)
proof cases
  case (message_offered m ms rec seq w)
  then show ?thesis using session_ok_offer [OF assms(2)] by simp
next
  case (commit_confirmed a)
  then show ?thesis using session_ok_confirm [OF assms(2)] by simp
next
  case (commit_failed a w)
  have "session_ok dec (s\<lparr>committer := CDone\<rparr>)"
    using assms(2) by (auto simp: session_ok_def awaited_def)
  then have "session_ok dec (s\<lparr>committer := CDone\<rparr>\<lparr>world := w\<rparr>)"
    using wfail_moves [OF commit_failed(3)] by (intro session_ok_world) auto
  then show ?thesis using commit_failed(1) by (auto simp: session_ok_def ack_failed_def awaited_def)
next
  case (pipeline_moves w)
  have o: "ok (world s)" using assms(2) by (simp add: session_ok_def)
  have "session_ok dec (s\<lparr>world := w\<rparr>)"
    using assms(2) wstep_told [OF o pipeline_moves(2)]
    by (intro session_ok_world [OF assms(2) wstep_moves [OF pipeline_moves(2)]])
      (auto simp: session_ok_def)
  then show ?thesis using pipeline_moves(1) by simp
next
  case session_again
  have "ok (world s)" using assms(2) by (simp add: session_ok_def)
  from session_ok_start [OF this] show ?thesis using session_again(1) by (simp add: rewind_def)
next
  case (message_poison m ms)
  then show ?thesis
    using assms(2) covers_poison [of dec m "world s" "total (sess_world s)" "poll_last s" "poll_records s"]
    by (auto simp: session_ok_def skip_message_def awaited_def)
next
  case ack_sent
  then show ?thesis
    using assms(2) by (auto simp: session_ok_def send_ack_def awaited_def chan_simps)
next
  case commit_receive
  then show ?thesis
    using assms(2) by (auto simp: session_ok_def recv_ack_def awaited_def chan_simps)
qed (use assms(2) in \<open>auto simp: session_ok_def session_defs awaited_def\<close>)

text \<open>
  A message between the offsets the source began with and the committed offset is stored.
\<close>

definition delivered_below where
  "delivered_below topic dec c w d \<longleftrightarrow>
     (\<forall>p i rec. c p \<le> i \<longrightarrow> i < d p \<longrightarrow> i < length (topic p) \<longrightarrow> dec (topic p ! i) = Some rec \<longrightarrow>
        stored w rec)"

lemma delivered_moves:
  "ok w \<Longrightarrow> moves w v \<Longrightarrow> delivered_below topic dec c w d \<Longrightarrow> delivered_below topic dec c v d"
  unfolding delivered_below_def using stored_moves by meson

lemma session_delivers:
  assumes "sliced topic s" and "session_ok dec s"
    and "delivered_below topic dec c (world s) (sess_start s)"
  shows "delivered_below topic dec c (world s) (committed s)"
  unfolding delivered_below_def
proof (intro allI impI)
  fix p i rec
  assume i: "c p \<le> i" "i < committed s p" "i < length (topic p)" "dec (topic p ! i) = Some rec"
  show "stored (world s) rec"
  proof (cases "i < sess_start s p")
    case True
    then show ?thesis using assms(3) i by (auto simp: delivered_below_def)
  next
    case False
    let ?j = "i - sess_start s p"
    have "committed s p \<le> sess_start s p + length (in_partition p (settled s))"
      using assms(1) by (simp add: sliced_def)
    then have j: "?j < length (in_partition p (settled s))" using False i(2) by linarith
    then have "in_partition p (settled s) ! ?j = topic p ! i"
      using slice_nth [OF _ j, of topic "sess_start s"] assms(1) False by (simp add: sliced_def)
    then have "topic p ! i \<in> set (settled s)"
      using j by (metis in_partition_def filter_is_subset nth_mem subsetD)
    then show ?thesis using assms(2) i(4) by (auto simp: session_ok_def)
  qed
qed

lemma pulling_inv:
  assumes "pulling topic dec wstep offer written wfail w0 c0 s" and "log_wf topic" and "ok w0"
  shows "sliced topic s \<and> session_ok dec s \<and>
    delivered_below topic dec c0 (world s) (sess_start s)"
  using assms(1)
proof induction
  case pull_start
  then show ?case
    using assms(3) by (auto simp: sliced_start session_ok_start delivered_below_def start_session_def
        intro!: session_ok_start [unfolded start_session_def] sliced_start [unfolded start_session_def])
next
  case (pull_more s t)
  then have s: "sliced topic s" "session_ok dec s"
    and d: "delivered_below topic dec c0 (world s) (sess_start s)" by auto
  have o: "ok (world s)" using s(2) by (simp add: session_ok_def)
  have "delivered_below topic dec c0 (world t) (sess_start t)"
    using pull_more.hyps(2)
  proof cases
    case (message_offered m ms rec seq w)
    then show ?thesis
      using delivered_moves [OF o offer_moves d] by (simp add: accept_message_def)
  next
    case (commit_failed a w)
    then show ?thesis
      using delivered_moves [OF o wfail_moves d] by (simp add: ack_failed_def)
  next
    case (pipeline_moves w)
    then show ?thesis using delivered_moves [OF o wstep_moves d] by simp
  next
    case session_again
    then show ?thesis
      using session_delivers [OF s d] by (simp add: rewind_def start_session_def)
  qed (use d in \<open>auto simp: session_defs\<close>)
  then show ?case
    using s sess_step_sliced [OF pull_more.hyps(2) assms(2)] sess_step_ok [OF pull_more.hyps(2)]
    by blast
qed

lemma pulling_delivers:
  assumes "pulling topic dec wstep offer written wfail w0 c0 s" and "log_wf topic" and "ok w0"
    and "c0 p \<le> i" and "i < committed s p" and "i < length (topic p)"
    and "dec (topic p ! i) = Some rec"
  shows "stored (world s) rec"
  using session_delivers pulling_inv [OF assms(1-3)] assms(4-)
  by (meson delivered_below_def)

end

end
