(* ===== verification/Kafka_Pipeline.thy ===== *)
theory Kafka_Pipeline
  imports Kafka_Delivery Pipeline_Props
begin

text \<open>
  The pipeline of theory Pipeline as the intake of the Kafka source. \<open>pipe_offer\<close> is the
  step in which a waiting \<open>intake.Offer\<close> gets its record into the buffer, \<open>pipe_written\<close>
  and \<open>pipe_wfail\<close> are the two answers of \<open>Written\<close> that end the wait, \<open>pipe_wstep\<close> is
  every other step. The contract is discharged for a pipeline with one worker.
\<close>

definition pipe_moves :: "World \<Rightarrow> World \<Rightarrow> bool" where
  "pipe_moves w v \<longleftrightarrow> step w v \<and> length (accepted v) < 2 ^ 64"

definition pipe_wstep :: "World \<Rightarrow> World \<Rightarrow> bool" where
  "pipe_wstep w v \<longleftrightarrow> pipe_moves w v \<and> reported v = reported w"

definition pipe_offer :: "string \<Rightarrow> World \<Rightarrow> FlowRecord \<Rightarrow> u64 \<Rightarrow> World \<Rightarrow> bool" where
  "pipe_offer src w rec seq v \<longleftrightarrow>
     (\<exists>xs ys t. inflight w = xs @ PullSend src rec # ys \<and>
        intake_open src rec (w\<lparr>inflight := xs @ ys\<rparr>) = (Some seq, t) \<and>
        v = log_accept False src rec t) \<and> length (accepted v) < 2 ^ 64"

definition pipe_written :: "World \<Rightarrow> u64 \<Rightarrow> bool" where
  "pipe_written w seq \<longleftrightarrow> fst (await_try seq (wm w)) = Return None"

definition pipe_wfail :: "World \<Rightarrow> u64 \<Rightarrow> World \<Rightarrow> bool" where
  "pipe_wfail w seq v \<longleftrightarrow>
     (\<exists>m. await_try seq (wm w) = (Return (Some ErrWriteFailed), m) \<and>
        v = w\<lparr>wm := m, reported := reported w @
          told (Return (Some ErrWriteFailed)) seq (failed (wm w))\<rparr>) \<and>
     length (accepted v) < 2 ^ 64"

definition one_worker :: "World \<Rightarrow> bool" where
  "one_worker w \<longleftrightarrow>
     (\<exists>os ss p. New os ss = Inr p \<and> Workers os = 1 \<and> reachable p w) \<and>
     length (accepted w) < 2 ^ 64"

definition accepted_as :: "World \<Rightarrow> nat \<Rightarrow> FlowRecord \<Rightarrow> bool" where
  "accepted_as w k rec \<longleftrightarrow> 1 \<le> k \<and> k \<le> length (accepted w) \<and> accepted w ! (k - 1) = rec"

definition in_all_sinks :: "World \<Rightarrow> FlowRecord \<Rightarrow> bool" where
  "in_all_sinks w rec \<longleftrightarrow>
     sinks w \<noteq> [] \<and> (\<forall>i<length (sinks w). \<exists>b\<in>set (sink_log w i). rec \<in> set (b_records b))"

definition told_of :: "World \<Rightarrow> nat \<Rightarrow> bool" where
  "told_of w k \<longleftrightarrow>
     (\<exists>f\<in>set (reported w). unat (sp_first f) \<le> k \<and> k \<le> unat (sp_last f))"

section \<open>What steps keep\<close>

lemma step_accepted_prefix: "step s t \<Longrightarrow> \<exists>ys. accepted t = accepted s @ ys"
  by (erule step.cases) (auto simp: step_eqs run_defs Offer_def)

lemma step_sink_log: "step s t \<Longrightarrow> set (sink_log s i) \<subseteq> set (sink_log t i)"
  by (erule step.cases) (auto simp: step_eqs run_defs Offer_def)

text \<open>Only completed batches are pending as failures or have been reported.\<close>

definition spans_known :: "World \<Rightarrow> bool" where
  "spans_known s \<longleftrightarrow>
     set (failed (wm s)) \<union> set (reported s) \<subseteq> span_of ` fst ` set (completed s)"

lemma step_spans_known: "step s t \<Longrightarrow> spans_known s \<Longrightarrow> spans_known t"
proof (erule step.cases, goal_cases)
  case (21 i s' b ok)
  then show ?case
    by (auto simp: spans_known_def worker_complete_def rejected_def span_of_def)
next
  case (22 seq s' r w)
  then have "set (failed w) \<subseteq> set (failed (wm s))"
    "set (told r seq (failed (wm s))) \<subseteq> set (failed (wm s))"
    by (auto simp: await_try_def told_def split: if_splits)
  with 22 show ?case by (auto simp: spans_known_def)
qed (auto simp: step_eqs run_defs spans_known_def Offer_def wm_close_def wake_def)

lemma reachable_spans_known:
  assumes "New os ss = Inr p" and "reachable p s"
  shows "spans_known s"
  using assms(2)
proof (rule reachable_induct_inv)
  show "spans_known (world_init p)"
    using New_ok [OF assms(1)]
    by (simp add: world_init_def start_run_def Let_def spans_known_def wm_init_def)
qed (rule step_spans_known)

section \<open>The contract discharged\<close>

lemma one_worker_inv: "one_worker w \<Longrightarrow> inv w"
  by (auto simp: one_worker_def intro: reachable_inv)

lemma one_worker_next_seq: "one_worker w \<Longrightarrow> unat (next_seq w) = length (accepted w)"
proof -
  assume w: "one_worker w"
  then have "next_seq w = of_nat (length (accepted w))"
    using one_worker_inv by (simp add: inv_def conserved_def)
  moreover have "length (accepted w) < 2 ^ 64" using w by (simp add: one_worker_def)
  ultimately show ?thesis by (simp add: unat_of_nat)
qed

lemma completed_handed: "inv w \<Longrightarrow> (b, ok) \<in> set (completed w) \<Longrightarrow> b \<in> set (handed w)"
proof -
  assume "inv w" and b: "(b, ok) \<in> set (completed w)"
  then have "mset (handed w) = mset (map fst (completed w)) + held_all (workers w)"
    by (simp add: inv_def worked_def)
  moreover have "b \<in># mset (map fst (completed w))" using b by force
  ultimately show ?thesis by (metis set_mset_mset union_iff)
qed

lemma one_worker_batch:
  assumes "one_worker w" and "b \<in> set (handed w)"
  shows "b_records b = take (unat (b_last b) + 1 - unat (b_first b))
           (drop (unat (b_first b) - 1) (accepted w)) \<and>
         1 \<le> unat (b_first b) \<and> unat (b_first b) \<le> unat (b_last b) \<and>
         unat (b_last b) \<le> length (accepted w)"
  using assms batch_at_range unfolding one_worker_def by blast

lemma told_of_total:
  assumes "one_worker w" and "told_of w k"
  shows "k \<le> length (accepted w)"
proof -
  obtain b ok where "(b, ok) \<in> set (completed w)" "k \<le> unat (b_last b)"
    using assms reachable_spans_known
    by (fastforce simp: one_worker_def told_of_def spans_known_def span_of_def)
  then show ?thesis
    using one_worker_batch [OF assms(1)] completed_handed [OF one_worker_inv [OF assms(1)]]
    by fastforce
qed

lemma pipe_written_stored:
  assumes "one_worker w" and "pipe_written w seq" and "accepted_as w k rec" and "k \<le> unat seq"
  shows "in_all_sinks w rec \<or> told_of w k"
proof -
  obtain os ss p where p: "New os ss = Inr p" "Workers os = 1" "reachable p w"
    and n: "length (accepted w) < 2 ^ 64"
    using assms(1) by (auto simp: one_worker_def)
  obtain m where "await_try seq (wm w) = (Return None, m)"
    using assms(2) by (metis pipe_written_def prod.collapse)
  moreover have "1 \<le> k" using assms(3) by (simp add: accepted_as_def)
  ultimately obtain b ok where b: "(b, ok) \<in> set (completed w)"
      "unat (b_first b) \<le> k" "k \<le> unat (b_last b)"
      "in_every_sink w b \<or> span_of b \<in> set (reported w)"
    using single_worker_ack [OF p(1) p(3) p(2) n _ _ assms(4)] by blast
  have i: "inv w" by (rule one_worker_inv [OF assms(1)])
  have r: "b_records b = take (unat (b_last b) + 1 - unat (b_first b))
           (drop (unat (b_first b) - 1) (accepted w))" "1 \<le> unat (b_first b)"
      "unat (b_last b) \<le> length (accepted w)"
    using one_worker_batch [OF assms(1) completed_handed [OF i b(1)]] by auto
  have "b_records b ! (k - unat (b_first b)) = rec"
    using nth_take_drop [OF r(1,2,3) b(2,3)] assms(3) by (simp add: accepted_as_def)
  moreover have "k - unat (b_first b) < length (b_records b)"
    using r b(2,3) by simp
  ultimately have "rec \<in> set (b_records b)" by (metis nth_mem)
  moreover have "sinks w \<noteq> []" using i by (simp add: inv_def delivered_def)
  ultimately have "in_all_sinks w rec" if "in_every_sink w b"
    using that by (auto simp: in_all_sinks_def in_every_sink_def)
  moreover have "told_of w k" if "span_of b \<in> set (reported w)"
    unfolding told_of_def using b(2,3) by (intro bexI [OF _ that]) (simp add: span_of_def)
  ultimately show ?thesis using b(4) by blast
qed

lemma pipe_offer_step: "pipe_offer src w rec seq v \<Longrightarrow> pipe_wstep w v"
proof -
  assume "pipe_offer src w rec seq v"
  then obtain xs ys t where t: "inflight w = xs @ PullSend src rec # ys"
      "intake_open src rec (w\<lparr>inflight := xs @ ys\<rparr>) = (Some seq, t)" "v = log_accept False src rec t"
    and n: "length (accepted v) < 2 ^ 64"
    unfolding pipe_offer_def by blast
  have "step w v" unfolding t(3) by (rule step.pull_buffered [OF t(1,2)])
  moreover have "reported v = reported w" using t(2,3) by (auto simp: step_eqs)
  ultimately show ?thesis using n by (simp add: pipe_wstep_def pipe_moves_def)
qed

lemma pipe_wfail_step: "pipe_wfail w seq v \<Longrightarrow> pipe_moves w v"
  by (auto simp: pipe_wfail_def pipe_moves_def intro: step.awaiting)

interpretation one: intake pipe_wstep "pipe_offer src" pipe_written pipe_wfail one_worker
  "\<lambda>w. length (accepted w)" accepted_as in_all_sinks told_of pipe_moves
proof unfold_locales
  fix w v assume "pipe_wstep w v" then show "pipe_moves w v" by (simp add: pipe_wstep_def)
next
  fix w rec seq v assume "pipe_offer src w rec seq v"
  then show "pipe_moves w v" using pipe_offer_step by (simp add: pipe_wstep_def)
next
  fix w seq v assume "pipe_wfail w seq v" then show "pipe_moves w v" by (rule pipe_wfail_step)
next
  fix w v assume "one_worker w" "pipe_moves w v"
  then show "one_worker v" by (auto simp: one_worker_def pipe_moves_def intro: reachable.more)
next
  fix w v assume "one_worker w" "pipe_moves w v"
  then show "length (accepted w) \<le> length (accepted v)"
    by (simp add: pipe_moves_def step_accepted_mono)
next
  fix w v k rec assume "one_worker w" "pipe_moves w v" "accepted_as w k rec"
  then show "accepted_as v k rec"
    by (auto simp: pipe_moves_def accepted_as_def nth_append dest!: step_accepted_prefix)
next
  fix w v rec assume "one_worker w" "pipe_moves w v" "in_all_sinks w rec"
  then show "in_all_sinks v rec"
    using step_sink_log [of w v] step_static [of w v]
    by (fastforce simp: pipe_moves_def in_all_sinks_def)
next
  fix w v k assume "one_worker w" "pipe_wstep w v" "told_of v k"
  then show "told_of w k" by (simp add: pipe_wstep_def told_of_def)
next
  fix w rec seq v k assume "one_worker w" "pipe_offer src w rec seq v" "told_of v k"
  then show "told_of w k" by (auto dest!: pipe_offer_step simp: pipe_wstep_def told_of_def)
next
  fix w k assume "one_worker w" "told_of w k"
  then show "k \<le> length (accepted w)" by (rule told_of_total)
next
  fix w k rec assume "one_worker w" "accepted_as w k rec"
  then show "k \<le> length (accepted w)" by (simp add: accepted_as_def)
next
  fix w rec seq v assume w: "one_worker w" and "pipe_offer src w rec seq v"
  then have "seq = next_seq w + 1" "accepted v = accepted w @ [rec]" "length (accepted v) < 2 ^ 64"
    by (auto simp: pipe_offer_def step_eqs)
  moreover from this have "unat seq = Suc (length (accepted w))"
    using one_worker_next_seq [OF w] by (simp add: unat_word_ariths)
  ultimately show "length (accepted w) < unat seq \<and> accepted_as v (unat seq) rec"
    by (simp add: accepted_as_def)
next
  fix w seq k rec
  assume "one_worker w" "pipe_written w seq" "accepted_as w k rec" "k \<le> unat seq"
  then show "in_all_sinks w rec \<or> told_of w k" by (rule pipe_written_stored)
qed

section \<open>A concrete delivery\<close>

lemma step_reported_prefix: "step s t \<Longrightarrow> \<exists>ys. reported t = reported s @ ys"
  by (erule step.cases) (auto simp: step_eqs run_defs Offer_def)

lemma run_reported_prefix: "run as s = Some t \<Longrightarrow> \<exists>ys. reported t = reported s @ ys"
proof (induction as arbitrary: s)
  case (Cons a as)
  then obtain u where u: "perform a s = Some u" "run as u = Some t" by (auto split: option.splits)
  then show ?case using Cons.IH [OF u(2)] step_reported_prefix [OF perform_step [OF u(1)]] by auto
qed simp

lemma run_accepted_mono: "run as s = Some t \<Longrightarrow> length (accepted s) \<le> length (accepted t)"
proof (induction as arbitrary: s)
  case (Cons a as)
  then obtain u where u: "perform a s = Some u" "run as u = Some t" by (auto split: option.splits)
  then show ?case using Cons.IH [OF u(2)] step_accepted_mono [OF perform_step [OF u(1)]] by simp
qed simp

lemma pulling_run:
  assumes "run as (world s) = Some v" and "reported v = reported (world s)"
    and "length (accepted v) < 2 ^ 64" and "pulling topic dec pipe_wstep off wr wfl w0 c0 s"
  shows "pulling topic dec pipe_wstep off wr wfl w0 c0 (s\<lparr>world := v\<rparr>)"
  using assms
proof (induction as arbitrary: s)
  case Nil
  then have "s\<lparr>world := v\<rparr> = s" by (cases s) simp
  from this Nil.prems(4) show ?case by (rule ssubst)
next
  case (Cons a as)
  then obtain u where u: "perform a (world s) = Some u" "run as u = Some v"
    by (auto split: option.splits)
  have st: "step (world s) u" by (rule perform_step [OF u(1)])
  obtain ys zs where "reported u = reported (world s) @ ys" "reported v = reported u @ zs"
    using run_reported_prefix [OF u(2)] step_reported_prefix [OF st] by blast
  then have "reported u = reported (world s)" using Cons.prems(2) by (metis append_self_conv
        append.assoc append_is_Nil_conv)
  moreover note st
  moreover have "length (accepted u) < 2 ^ 64" using run_accepted_mono [OF u(2)] Cons.prems(3) by simp
  ultimately have "pipe_wstep (world s) u" by (simp add: pipe_wstep_def pipe_moves_def)
  then have "pulling topic dec pipe_wstep off wr wfl w0 c0 (s\<lparr>world := u\<rparr>)"
    using Cons.prems(4) by (intro pull_more [OF _ sess_step.pipeline_moves]) auto
  from Cons.IH [OF _ _ Cons.prems(3) this] show ?case
    using u(2) Cons.prems(2) \<open>reported u = reported (world s)\<close> by simp
qed

definition demo_msg :: "Message kmsg" where
  "demo_msg = \<lparr>k_partition = 0, k_offset = 0, k_value = message_of demo_sent, k_time = 0\<rparr>"

definition demo_rec :: FlowRecord where
  "demo_rec = (canonical demo_sent)\<lparr>DedupKey := Some (DedupKey_of demo_sent)\<rparr>"

definition demo_topic :: "nat \<Rightarrow> Message kmsg list" where
  "demo_topic p = (if p = 0 then [demo_msg] else [])"

lemma decode_demo_msg: "decode_message Inr demo_msg = Some demo_rec"
proof -
  have "sendable demo_sent"
    by (simp add: sendable_def demo_sent_def zero_record_def json_time_def micro_eq time_units
        is_zero_def zero_time_def unix_to_internal_def)
  from record_of_message [OF this] show ?thesis
    by (simp add: decode_message_def demo_msg_def Decode_keyed_def Decode_def demo_rec_def
        DedupKey_of_def)
qed

abbreviation demo_pulling :: "(Message, World) session \<Rightarrow> bool" where
  "demo_pulling \<equiv> pulling demo_topic (decode_message Inr) pipe_wstep (pipe_offer ''kafka'')
     pipe_written pipe_wfail (world_init (demo_pipe 1)) (\<lambda>_. 0)"

definition demo_offering :: World where
  "demo_offering = (world_init (demo_pipe 1))\<lparr>inflight := [PullSend ''kafka'' demo_rec]\<rparr>"

definition demo_offered :: World where
  "demo_offered = log_accept False ''kafka'' demo_rec
     (snd (intake_open ''kafka'' demo_rec (world_init (demo_pipe 1))))"

definition demo_stored :: World where
  "demo_stored = the (run [Take, Hand 0, Write 0 0 [True], Complete 0] demo_offered)"

lemma demo_offering_run:
  "run [Pull ''kafka'' demo_rec, PullGo 0] (world_init (demo_pipe 1)) = Some demo_offering"
  by (simp add: demo_offering_def demo_defs)

lemma demo_offer: "pipe_offer ''kafka'' demo_offering demo_rec 1 demo_offered"
  unfolding pipe_offer_def
proof (intro conjI exI)
  show "inflight demo_offering = [] @ PullSend ''kafka'' demo_rec # []"
    by (simp add: demo_offering_def)
  show "intake_open ''kafka'' demo_rec (demo_offering\<lparr>inflight := [] @ []\<rparr>)
      = (Some 1, snd (intake_open ''kafka'' demo_rec (world_init (demo_pipe 1))))"
    by (simp add: demo_offering_def demo_defs)
qed (simp_all add: demo_offered_def demo_defs)

lemma demo_stored_run:
  "run [Take, Hand 0, Write 0 0 [True], Complete 0] demo_offered = Some demo_stored"
  "reported demo_stored = []" "accepted demo_stored = [demo_rec]"
  "wm demo_stored = complete 1 1 True wm_init"
  by (simp_all add: demo_stored_def demo_offered_def demo_defs)

lemma demo_pulled:
  "\<exists>s. demo_pulling s \<and> committed s 0 = 1 \<and> world s = demo_stored"
proof -
  have fetch: "fetched demo_topic (\<lambda>_. 0) [demo_msg]"
    by (auto simp: fetched_def demo_topic_def in_partition_def demo_msg_def)
  let ?s0 = "start_session (world_init (demo_pipe 1)) (\<lambda>_. 0) False 0 0 :: (Message, World) session"
  have 0: "demo_pulling ?s0" by (rule pull_start)
  have 1: "demo_pulling (begin_poll [demo_msg] ?s0)"
    using fetch by (intro pull_more [OF 0 sess_step.poll_fetch]) (simp_all add: start_session_def)
  let ?s2 = "(begin_poll [demo_msg] ?s0)\<lparr>world := demo_offering\<rparr>"
  have 2: "demo_pulling ?s2"
  proof (rule pulling_run [OF _ _ _ 1])
    show "run [Pull ''kafka'' demo_rec, PullGo 0] (world (begin_poll [demo_msg] ?s0))
        = Some demo_offering"
      using demo_offering_run by (simp add: begin_poll_def start_session_def)
  qed (simp_all add: begin_poll_def start_session_def demo_offering_def world_init_def Let_def)
  let ?s3 = "accept_message demo_msg [] 1 demo_offered ?s2"
  have 3: "demo_pulling ?s3"
    using demo_offer decode_demo_msg
    by (intro pull_more [OF 2 sess_step.message_offered]) (auto simp: begin_poll_def)
  have 4: "demo_pulling (finish_poll ?s3)"
    by (intro pull_more [OF 3 sess_step.poll_done]) (simp add: accept_message_def)
  let ?a = "\<lparr>ack_seq = 1, ack_records = [demo_msg]\<rparr> :: Message pollAck"
  let ?s5 = "(finish_poll ?s3)\<lparr>acks := [?a], poll := Polling, poll_records := []\<rparr>"
  have 5: "demo_pulling ?s5"
    by (intro pull_more [OF 4 sess_step.ack_sent])
      (simp_all add: finish_poll_def accept_message_def begin_poll_def start_session_def
        send_ack_def chan_try_send_def ackBacklog_def)
  have 6: "demo_pulling (?s5\<lparr>world := demo_stored\<rparr>)"
  proof (rule pulling_run [OF _ _ _ 5])
    show "run [Take, Hand 0, Write 0 0 [True], Complete 0] (world ?s5) = Some demo_stored"
      using demo_stored_run(1) by (simp add: finish_poll_def accept_message_def)
  qed (simp_all add: demo_stored_run finish_poll_def accept_message_def demo_offered_def demo_defs)
  let ?s7 = "?s5\<lparr>world := demo_stored, acks := [], committer := CAwait ?a\<rparr>"
  have 7: "demo_pulling ?s7"
    by (intro pull_more [OF 6 sess_step.commit_receive])
      (simp_all add: recv_ack_def chan_try_recv_def finish_poll_def accept_message_def
        begin_poll_def start_session_def)
  have "pipe_written demo_stored 1"
    by (simp add: pipe_written_def demo_stored_run await_try_def rejected_def wm_init_def
        complete_def wake_def advance.simps)
  then have 8: "demo_pulling (ack_confirmed ?a ?s7)"
    by (intro pull_more [OF 7 sess_step.commit_confirmed]) simp_all
  have 9: "demo_pulling (commit_records True ?a (ack_confirmed ?a ?s7))"
    by (intro pull_more [OF 8 sess_step.commit_done]) (simp add: ack_confirmed_def)
  have "committed (commit_records True ?a (ack_confirmed ?a ?s7)) 0 = 1"
    by (simp add: commit_records_def commit_offsets_def in_partition_def demo_msg_def)
  moreover have "world (commit_records True ?a (ack_confirmed ?a ?s7)) = demo_stored"
    by (simp add: commit_records_def ack_confirmed_def)
  ultimately show ?thesis using 9 by blast
qed

text \<open>
  C3. End to end, at least once: run the Kafka source against the pipeline with one
  worker, in any interleaving, with any sink failures and any number of rewinds. Every
  message of a partition between the offset the source began at and the offset committed
  to the bus that decodes to a record is in every sink.
\<close>

theorem kafka_committed_is_stored:
  assumes "pulling topic (decode_message unmarshal) pipe_wstep (pipe_offer src) pipe_written
      pipe_wfail w0 c0 s"
    and "log_wf topic" and "one_worker w0"
    and "c0 p \<le> i" and "i < committed s p" and "i < length (topic p)"
    and "decode_message unmarshal (topic p ! i) = Some rec"
  shows "in_all_sinks (world s) rec"
  using assms by (rule one.pulling_delivers)


lemma kafka_committed_is_stored_witness: "in_all_sinks demo_stored demo_rec"
proof -
  obtain s where s: "demo_pulling s" "committed s 0 = 1" "world s = demo_stored"
    using demo_pulled by blast
  have wf: "log_wf demo_topic" by (simp add: log_wf_def demo_topic_def demo_msg_def)
  have "Workers (demo_opts 1) = 1" by (simp add: demo_opts_def)
  then have ow: "one_worker (world_init (demo_pipe 1))"
    using demo_New [of 1] reachable.start by (auto simp: one_worker_def world_init_def Let_def)
  show ?thesis
    using kafka_committed_is_stored [OF s(1) wf ow, of 0 0 demo_rec] s decode_demo_msg
    by (simp add: demo_topic_def)
qed

end
