(* ===== verification/Push_Source.thy ===== *)
theory Push_Source
  imports Kafka_Session Pipeline
begin

text \<open>
  The push-shaped sources: \<open>Start\<close> of \<open>internal/source/kafka\<close>, which marks what it polls for the
  client's automatic commit, and \<open>Pipeline.RunSource\<close>, which picks the pull entry of a source that has one and
  otherwise offers what the source sends. A poll came back with messages or found the context cancelled; \<open>sends\<close>
  is how many sends on the channel succeed before the context is done (none: it never is).
\<close>

section \<open>\<open>Start\<close> of the Kafka source\<close>

record 'b pushing =
  marked :: "'b kmsg list"
  pushed :: "FlowRecord list"
  push_errors :: nat
  sends :: "nat option"
  push_stop :: bool

definition push_record :: "('b \<Rightarrow> string + Message) \<Rightarrow> 'b kmsg \<Rightarrow> 'b pushing \<Rightarrow> 'b pushing" where
  "push_record unmarshal m s =
     (if push_stop s then s
      else let s1 = s\<lparr>marked := marked s @ [m]\<rparr>
           in case decode_message unmarshal m of
                None \<Rightarrow> s1\<lparr>push_errors := Suc (push_errors s)\<rparr>
              | Some r \<Rightarrow>
                  (case sends s of
                     Some 0 \<Rightarrow> s1\<lparr>push_stop := True\<rparr>
                   | n \<Rightarrow> s1\<lparr>pushed := pushed s @ [r], sends := map_option (\<lambda>k. k - 1) n\<rparr>))"

datatype 'b poll_result = PollCancelled | Fetched "'b kmsg list"

fun Start_push :: "('b \<Rightarrow> string + Message) \<Rightarrow> 'b poll_result list \<Rightarrow> 'b pushing \<Rightarrow> 'b pushing" where
  "Start_push unmarshal [] s = s"
| "Start_push unmarshal (PollCancelled # ps) s = s"
| "Start_push unmarshal (Fetched ms # ps) s =
     (let s' = fold (push_record unmarshal) ms s
      in if push_stop s' then s' else Start_push unmarshal ps s')"

definition push_init :: "nat option \<Rightarrow> 'b pushing" where
  "push_init n = \<lparr>marked = [], pushed = [], push_errors = 0, sends = n, push_stop = False\<rparr>"

definition push_inv :: "('b \<Rightarrow> string + Message) \<Rightarrow> 'b pushing \<Rightarrow> bool" where
  "push_inv unmarshal s \<longleftrightarrow>
     (\<exists>lost. marked s = (if push_stop s then butlast (marked s) @ [lost] else marked s) \<and>
        pushed s = List.map_filter (decode_message unmarshal)
                     (if push_stop s then butlast (marked s) else marked s) \<and>
        (push_stop s \<longrightarrow> decode_message unmarshal lost \<noteq> None)) \<and>
     push_errors s = length (filter (\<lambda>m. decode_message unmarshal m = None) (marked s))"

lemma map_filter_snoc:
  "List.map_filter f (xs @ [x]) = List.map_filter f xs @ (case f x of Some y \<Rightarrow> [y] | None \<Rightarrow> [])"
  by (simp add: List.map_filter_def split: option.split)

lemma push_record_inv: "push_inv unmarshal s \<Longrightarrow> push_inv unmarshal (push_record unmarshal m s)"
  by (auto simp: push_inv_def push_record_def Let_def map_filter_snoc split: option.splits nat.splits)

lemma push_records_inv: "push_inv unmarshal s \<Longrightarrow> push_inv unmarshal (fold (push_record unmarshal) ms s)"
  by (induction ms arbitrary: s) (auto intro: push_record_inv)

lemma Start_push_inv: "push_inv unmarshal s \<Longrightarrow> push_inv unmarshal (Start_push unmarshal ps s)"
  by (induction unmarshal ps s rule: Start_push.induct) (auto simp: Let_def intro: push_records_inv)

text \<open>
  The push entry is at most once: what it sent is exactly the decodable part of what it
  marked for commit, in order and once each, with one exception, a single last message when the context ended
  during its send, which is marked, and so committed, but was not sent; every undecodable message is marked and
  counted, so none is polled again.
\<close>

theorem kafka_push_at_most_once:
  "let s = Start_push unmarshal ps (push_init n); ms = (if push_stop s then butlast (marked s) else marked s)
   in pushed s = List.map_filter (decode_message unmarshal) ms \<and>
      push_errors s = length (filter (\<lambda>m. decode_message unmarshal m = None) (marked s)) \<and>
      length (marked s) \<le> Suc (length ms)"
proof -
  have "push_inv unmarshal (push_init n)" by (simp add: push_inv_def push_init_def List.map_filter_def)
  from Start_push_inv [OF this, of ps] show ?thesis by (auto simp: push_inv_def Let_def)
qed

section \<open>\<open>RunSource\<close>\<close>

text \<open>
  A source that runs: what its pull entry did, or what \<open>Start\<close> sent, each record with the steps the rest
  of the process makes before its offer, and the error it ended with.
\<close>

datatype 'p source_run = PullRun "string option" 'p | PushRun "(('p \<Rightarrow> 'p) \<times> FlowRecord) list" "string option"

definition RunSource :: "string \<Rightarrow> 'a Pipeline_scheme source_run \<Rightarrow> 'a Pipeline_scheme \<Rightarrow>
    (string \<times> string) option \<times> 'a Pipeline_scheme" where
  "RunSource name src p =
     (case src of
        PullRun err p' \<Rightarrow> (map_option (\<lambda>e. (name, e)) err, p')
      | PushRun sent err \<Rightarrow>
          (map_option (\<lambda>e. (name, e)) err, fold (\<lambda>(env, rec) p. snd (Offer name rec (env p))) sent p))"

text \<open>The records a source was heard on: buffered under its name, or dropped.\<close>

definition heard :: "string \<Rightarrow> 'a Pipeline_scheme \<Rightarrow> nat" where
  "heard name p = RecordsIngested (obs p) name + RecordsDropped (obs p) DropBufferFull + RecordsDropped (obs p) DropShutdown"

lemma Offer_heard: "heard name (snd (Offer name rec p)) = Suc (heard name p)"
  by (auto simp: heard_def Offer_def offer_open_def count_dropped_def count_ingested_def tryOffer_def inc_def
      chan_try_send_def DropBufferFull_def DropShutdown_def Let_def split: option.splits prod.splits if_splits)

text \<open>
  A push source is heard to the end: when \<open>RunSource\<close> returns, with or without an error, every record the source sent
  has been offered exactly once, buffered or counted as dropped, whatever the rest of the process did in between as
  long as it touches none of these counters.
\<close>

theorem RunSource_offers_everything:
  assumes "list_all (\<lambda>(env, _). \<forall>p. heard name (env p) = heard name p) sent"
  shows "heard name (snd (RunSource name (PushRun sent err) p)) = heard name p + length sent"
proof -
  have "heard name (fold (\<lambda>(env, rec) p. snd (Offer name rec (env p))) sent p) = heard name p + length sent"
    using assms by (induction sent arbitrary: p) (auto simp: Offer_heard)
  then show ?thesis by (simp add: RunSource_def)
qed

definition demo_pipeline :: Pipeline where
  "demo_pipeline =
     \<lparr>opts = \<lparr>BufferSize = 1, BatchSize = 1, BatchInterval = Second, Workers = 1, WriteTimeout = Second\<rparr>,
      sinks = [''postgres''], buf = [], closing = False, next_seq = 0, space = False, wm = wm_init, obs = zero_metrics\<rparr>"

theorem RunSource_offers_everything_witness:
  "heard ''netflow'' (snd (RunSource ''netflow'' (PushRun [(\<lambda>p. p, zero_record), (\<lambda>p. p\<lparr>closing := True\<rparr>, zero_record)] None)
      demo_pipeline)) = 2"
proof -
  have "heard ''netflow'' (demo_pipeline\<lparr>closing := c\<rparr>) = 0" for c
    by (simp add: heard_def demo_pipeline_def zero_metrics_def)
  moreover have "demo_pipeline = demo_pipeline\<lparr>closing := False\<rparr>" by (simp add: demo_pipeline_def)
  ultimately have "heard ''netflow'' demo_pipeline = 0" by metis
  then show ?thesis
    using RunSource_offers_everything [of "''netflow''"
        "[(\<lambda>p. p, zero_record), (\<lambda>p. p\<lparr>closing := True\<rparr>, zero_record)]" None demo_pipeline]
    by (simp add: heard_def)
qed

end
