(* ===== verification/Gotext.thy ===== *)
theory Gotext
  imports Prelude "HOL-Library.Char_ord"
begin

text \<open>
  The text side of Go's standard library the collector uses: decimal integers
  (\<open>strconv.ParseUint\<close>, \<open>ParseInt\<close>, \<open>Atoi\<close> and printing), ASCII case folding, trimming and
  splitting of strings.
\<close>

named_theorems text_simps \<open>equations of printers and parsers\<close>

section \<open>Decimal integers\<close>

definition digit_char :: "nat \<Rightarrow> char" where
  "digit_char d = char_of (48 + d)"

definition is_digit :: "char \<Rightarrow> bool" where
  "is_digit c \<longleftrightarrow> 48 \<le> (of_char c :: nat) \<and> (of_char c :: nat) \<le> 57"

definition digit_val :: "char \<Rightarrow> nat" where
  "digit_val c = of_char c - 48"

fun dec_nat :: "nat \<Rightarrow> string" where
  "dec_nat n = (if n < 10 then [digit_char n] else dec_nat (n div 10) @ [digit_char (n mod 10)])"

declare dec_nat.simps [simp del]

definition dec_int :: "int \<Rightarrow> string" where
  "dec_int i = (if i < 0 then CHR ''-'' # dec_nat (nat (- i)) else dec_nat (nat i))"

definition dec_val :: "string \<Rightarrow> nat" where
  "dec_val cs = foldl (\<lambda>n c. n * 10 + digit_val c) 0 cs"

datatype num_error = ErrSyntax | ErrRange

definition ParseUint :: "string \<Rightarrow> nat \<Rightarrow> num_error + nat" where
  "ParseUint s bits =
     (if s = [] \<or> \<not> list_all is_digit s then Inl ErrSyntax
      else if 2 ^ bits \<le> dec_val s then Inl ErrRange
      else Inr (dec_val s))"

definition ParseInt :: "string \<Rightarrow> nat \<Rightarrow> num_error + int" where
  "ParseInt s bits =
     (let neg = (case s of c # _ \<Rightarrow> c = CHR ''-'' | [] \<Rightarrow> False);
          ds = (case s of c # cs \<Rightarrow> if c = CHR ''-'' \<or> c = CHR ''+'' then cs else s | [] \<Rightarrow> [])
      in if ds = [] \<or> \<not> list_all is_digit ds then Inl ErrSyntax
         else if \<not> neg \<and> 2 ^ (bits - 1) \<le> dec_val ds then Inl ErrRange
         else if neg \<and> 2 ^ (bits - 1) < dec_val ds then Inl ErrRange
         else Inr (if neg then - int (dec_val ds) else int (dec_val ds)))"

definition Atoi :: "string \<Rightarrow> num_error + int" where
  "Atoi s = ParseInt s 64"

lemma of_char_digit: "d < 10 \<Longrightarrow> (of_char (digit_char d) :: nat) = 48 + d"
  by (simp add: digit_char_def of_char_of)

lemma digit_char_facts [simp]:
  assumes "d < 10"
  shows "is_digit (digit_char d)" and "digit_val (digit_char d) = d"
  using assms by (simp_all add: is_digit_def digit_val_def of_char_digit)

lemma dec_val_snoc [simp]: "dec_val (cs @ [c]) = dec_val cs * 10 + digit_val c"
  by (simp add: dec_val_def)

lemma dec_val_Nil [simp]: "dec_val [] = 0"
  by (simp add: dec_val_def)

lemma dec_nat_induct [case_names small large]:
  assumes "\<And>n :: nat. n < 10 \<Longrightarrow> P n" and "\<And>n. \<not> n < 10 \<Longrightarrow> P (n div 10) \<Longrightarrow> P n"
  shows "P n"
  by (induction n rule: dec_nat.induct) (use assms in blast)

lemma dec_val_dec_nat [simp]: "dec_val (dec_nat n) = n"
proof (induction n rule: dec_nat_induct)
  case (small n)
  then show ?case using dec_val_snoc [of "[]" "digit_char n"] by (simp add: dec_nat.simps [of n])
next
  case (large n)
  then show ?case by (simp add: dec_nat.simps [of n])
qed

lemma dec_nat_digits [simp]: "list_all is_digit (dec_nat n)"
  by (induction n rule: dec_nat_induct) (simp_all add: dec_nat.simps)

lemma dec_nat_nonempty [simp]: "dec_nat n \<noteq> []"
  by (simp add: dec_nat.simps [of n])

lemma is_digit_not_sign [simp]: "is_digit c \<Longrightarrow> c \<noteq> CHR ''-''" "is_digit c \<Longrightarrow> c \<noteq> CHR ''+''"
  by (auto simp: is_digit_def)

lemma hd_dec_nat: "is_digit (hd (dec_nat n))"
  using dec_nat_digits [of n] dec_nat_nonempty [of n] by (cases "dec_nat n") auto

lemma ParseUint_dec_nat [text_simps]: "n < 2 ^ bits \<Longrightarrow> ParseUint (dec_nat n) bits = Inr n"
  by (simp add: ParseUint_def)

lemma ParseInt_dec_nat [text_simps]:
  assumes "n < 2 ^ (bits - 1)"
  shows "ParseInt (dec_nat n) bits = Inr (int n)"
proof -
  obtain c cs where c: "dec_nat n = c # cs" using dec_nat_nonempty [of n] by (cases "dec_nat n") auto
  then have "is_digit c" using hd_dec_nat [of n] by simp
  then have "c \<noteq> CHR ''-''" "c \<noteq> CHR ''+''" by simp_all
  then show ?thesis
    using assms dec_nat_digits [of n] dec_val_dec_nat [of n] unfolding c
    by (simp add: ParseInt_def Let_def)
qed

lemma ParseInt_dec_int [text_simps]:
  assumes "- (2 ^ (bits - 1)) \<le> i" and "i < 2 ^ (bits - 1)"
  shows "ParseInt (dec_int i) bits = Inr i"
proof (cases "i < 0")
  case True
  then have "nat (- i) \<le> 2 ^ (bits - 1)" using assms(1) by (simp add: nat_le_iff)
  with True show ?thesis by (simp add: dec_int_def ParseInt_def Let_def)
next
  case False
  then have "nat i < 2 ^ (bits - 1)" using assms(2) by (simp add: nat_less_iff)
  with False show ?thesis by (simp add: dec_int_def ParseInt_dec_nat)
qed

lemma ParseInt_too_large:
  assumes "2 ^ (bits - 1) \<le> n"
  shows "ParseInt (dec_nat n) bits = Inl ErrRange"
proof -
  obtain c cs where c: "dec_nat n = c # cs" using dec_nat_nonempty [of n] by (cases "dec_nat n") auto
  then have "is_digit c" using hd_dec_nat [of n] by simp
  then have "c \<noteq> CHR ''-''" "c \<noteq> CHR ''+''" by simp_all
  then show ?thesis
    using assms dec_nat_digits [of n] dec_val_dec_nat [of n] unfolding c
    by (simp add: ParseInt_def Let_def)
qed

section \<open>Strings\<close>

definition is_space :: "char \<Rightarrow> bool" where
  "is_space c \<longleftrightarrow> (of_char c :: nat) \<in> {9, 10, 11, 12, 13, 32}"

text \<open>\<open>strings.TrimSpace\<close>, \<open>ToLower\<close> and \<open>EqualFold\<close> on ASCII text.\<close>

definition TrimSpace :: "string \<Rightarrow> string" where
  "TrimSpace s = rev (dropWhile is_space (rev (dropWhile is_space s)))"

definition to_lower :: "char \<Rightarrow> char" where
  "to_lower c = (let n = (of_char c :: nat) in if 65 \<le> n \<and> n \<le> 90 then char_of (n + 32) else c)"

definition ToLower :: "string \<Rightarrow> string" where
  "ToLower s = map to_lower s"

definition EqualFold :: "string \<Rightarrow> string \<Rightarrow> bool" where
  "EqualFold s t \<longleftrightarrow> ToLower s = ToLower t"

text \<open>\<open>strings.Cut\<close> at a character, and \<open>strings.Split\<close>.\<close>

fun cut_at :: "char \<Rightarrow> string \<Rightarrow> string \<times> string \<times> bool" where
  "cut_at c [] = ([], [], False)"
| "cut_at c (x # xs) =
     (if x = c then ([], xs, True)
      else case cut_at c xs of (a, b, found) \<Rightarrow> if found then (x # a, b, True) else (x # xs, [], False))"

fun split_at_char :: "char \<Rightarrow> string \<Rightarrow> string list" where
  "split_at_char c [] = [[]]"
| "split_at_char c (x # xs) =
     (if x = c then [] # split_at_char c xs
      else case split_at_char c xs of p # ps \<Rightarrow> (x # p) # ps | [] \<Rightarrow> [[x]])"

lemma split_at_char_nonempty [simp]: "split_at_char c s \<noteq> []"
  by (induction s) (auto split: list.splits)

lemma split_at_char_none: "c \<notin> set s \<Longrightarrow> split_at_char c s = [s]"
  by (induction s) auto

lemma split_at_char_join:
  "c \<notin> set s \<Longrightarrow> split_at_char c (s @ c # t) = s # split_at_char c t"
  by (induction s) auto

lemma dec_nat_no_char: "\<not> is_digit c \<Longrightarrow> c \<notin> set (dec_nat n)"
  using dec_nat_digits [of n] by (auto simp: list_all_iff)

lemma ToLower_ToLower [simp]: "ToLower (ToLower s) = ToLower s"
proof -
  have "to_lower (to_lower c) = to_lower c" for c
    by (auto simp: to_lower_def Let_def of_char_of)
  then show ?thesis by (simp add: ToLower_def)
qed

lemma dropWhile_idem: "dropWhile P (dropWhile P xs) = dropWhile P xs"
  by (induction xs) auto

lemma dropWhile_trimmed:
  "dropWhile P (rev (dropWhile P (rev (dropWhile P xs)))) = rev (dropWhile P (rev (dropWhile P xs)))"
proof (cases "dropWhile P xs")
  case (Cons y ys)
  have y: "\<not> P y" using Cons by (metis hd_dropWhile list.distinct(1) list.sel(1))
  have "rev (dropWhile P (rev (y # ys))) = y # rev (dropWhile P (rev ys))"
    using y by (cases "dropWhile P (rev ys) = []") (auto simp: dropWhile_append)
  then show ?thesis using Cons y by simp
next
  case Nil
  show ?thesis unfolding Nil by simp
qed

lemma TrimSpace_TrimSpace [simp]: "TrimSpace (TrimSpace s) = TrimSpace s"
  by (simp add: TrimSpace_def dropWhile_idem dropWhile_trimmed)

end
