(* ===== verification/Json.thy ===== *)
theory Json
  imports Gotext
begin

text \<open>
  \<open>encoding/json\<close>: the grammar of RFC 8259 as Go's scanner accepts it, and the printing of
  the flat objects the collector writes. Text is a list of bytes; a byte of 128 and above in
  a string stands for itself. The parser carries fuel, which the length of the text bounds
  (\<open>pvalue_fuel\<close>).
\<close>

datatype json = JNull | JBool bool | JNum string | JStr string | JArr "json list"
  | JObj "(string \<times> json) list"

definition quote :: char where "quote = CHR 0x22"
definition backslash :: char where "backslash = CHR 0x5C"

definition is_ws :: "char \<Rightarrow> bool" where
  "is_ws c \<longleftrightarrow> (of_char c :: nat) \<in> {9, 10, 13, 32}"

definition skip_ws :: "string \<Rightarrow> string" where
  "skip_ws s = dropWhile is_ws s"

section \<open>Strings\<close>

definition hex_val :: "char \<Rightarrow> nat option" where
  "hex_val c =
     (let n = (of_char c :: nat)
      in if 48 \<le> n \<and> n \<le> 57 then Some (n - 48)
         else if 97 \<le> n \<and> n \<le> 102 then Some (n - 87)
         else if 65 \<le> n \<and> n \<le> 70 then Some (n - 55)
         else None)"

fun hex4 :: "string \<Rightarrow> (nat \<times> string) option" where
  "hex4 (a # b # c # d # r) =
     (case (hex_val a, hex_val b, hex_val c, hex_val d) of
        (Some w, Some x, Some y, Some z) \<Rightarrow> Some (w * 4096 + x * 256 + y * 16 + z, r)
      | _ \<Rightarrow> None)"
| "hex4 _ = None"

definition utf8 :: "nat \<Rightarrow> string" where
  "utf8 n = map char_of
     (if n < 0x80 then [n]
      else if n < 0x800 then [0xC0 + n div 64, 0x80 + n mod 64]
      else if n < 0x10000 then [0xE0 + n div 4096, 0x80 + n div 64 mod 64, 0x80 + n mod 64]
      else [0xF0 + n div 262144, 0x80 + n div 4096 mod 64, 0x80 + n div 64 mod 64, 0x80 + n mod 64])"

definition escape_val :: "char \<Rightarrow> char option" where
  "escape_val c =
     (if c = quote \<or> c = backslash \<or> c = CHR ''/'' then Some c
      else if c = CHR ''b'' then Some (char_of (8 :: nat))
      else if c = CHR ''f'' then Some (char_of (12 :: nat))
      else if c = CHR ''n'' then Some (char_of (10 :: nat))
      else if c = CHR ''r'' then Some (char_of (13 :: nat))
      else if c = CHR ''t'' then Some (char_of (9 :: nat))
      else None)"

text \<open>
  What follows a backslash: a high surrogate followed by a low one is one code point, a
  lone surrogate is U+FFFD.
\<close>

definition p_unicode :: "nat \<Rightarrow> string \<Rightarrow> string \<times> string" where
  "p_unicode n r =
     (if 0xD800 \<le> n \<and> n < 0xDC00 then
        (case r of
           b # u # r1 \<Rightarrow>
             if b = backslash \<and> u = CHR ''u'' then
               (case hex4 r1 of
                  Some (m, r2) \<Rightarrow>
                    if 0xDC00 \<le> m \<and> m < 0xE000
                    then (utf8 (0x10000 + (n - 0xD800) * 1024 + (m - 0xDC00)), r2)
                    else (utf8 0xFFFD, r)
                | None \<Rightarrow> (utf8 0xFFFD, r))
             else (utf8 0xFFFD, r)
         | _ \<Rightarrow> (utf8 0xFFFD, r))
      else if 0xDC00 \<le> n \<and> n < 0xE000 then (utf8 0xFFFD, r)
      else (utf8 n, r))"

definition p_escape :: "string \<Rightarrow> (string \<times> string) option" where
  "p_escape s =
     (case s of
        [] \<Rightarrow> None
      | e # r \<Rightarrow>
          if e = CHR ''u'' then map_option (\<lambda>(n, r). p_unicode n r) (hex4 r)
          else map_option (\<lambda>x. ([x], r)) (escape_val e))"

lemma hex4_length: "hex4 s = Some (n, r) \<Longrightarrow> length r < length s"
  by (induction s rule: hex4.induct) (auto split: option.splits)

lemma p_unicode_length: "length (snd (p_unicode n r)) \<le> length r"
  by (auto simp: p_unicode_def dest!: hex4_length split: list.splits option.splits)

lemma p_escape_length: "p_escape s = Some (u, r) \<Longrightarrow> length r < length s"
proof -
  assume "p_escape s = Some (u, r)"
  moreover have "length r < Suc (length b)" if "hex4 b = Some (n, c)" "p_unicode n c = (u, r)" for n b c
    using hex4_length [OF that(1)] p_unicode_length [of n c] that(2) by simp
  ultimately show ?thesis by (auto simp: p_escape_def split: list.splits if_splits)
qed

text \<open>The characters of a string up to its closing quote.\<close>

function pstr :: "string \<Rightarrow> (string \<times> string) option" where
  "pstr [] = None"
| "pstr (c # cs) =
     (if c = quote then Some ([], cs)
      else if c = backslash then
        (case p_escape cs of
           None \<Rightarrow> None
         | Some (u, r) \<Rightarrow> map_option (\<lambda>(t, out). (u @ t, out)) (pstr r))
      else if (of_char c :: nat) < 32 then None
      else map_option (\<lambda>(t, out). (c # t, out)) (pstr cs))"
  by pat_completeness auto

termination
  by (relation "measure length") (auto dest: p_escape_length)

section \<open>Numbers\<close>

definition p_digits :: "string \<Rightarrow> string \<times> string" where
  "p_digits s = (takeWhile is_digit s, dropWhile is_digit s)"

definition p_frac :: "string \<Rightarrow> (string \<times> string) option" where
  "p_frac s =
     (case s of
        c # cs \<Rightarrow>
          if c = CHR ''.'' then
            (case p_digits cs of (ds, r) \<Rightarrow> if ds = [] then None else Some (c # ds, r))
          else Some ([], s)
      | [] \<Rightarrow> Some ([], []))"

definition p_exp :: "string \<Rightarrow> (string \<times> string) option" where
  "p_exp s =
     (case s of
        c # cs \<Rightarrow>
          if c = CHR ''e'' \<or> c = CHR ''E'' then
            (case (case cs of
                     x # xs \<Rightarrow> if x = CHR ''+'' \<or> x = CHR ''-'' then ([x], xs) else ([], cs)
                   | [] \<Rightarrow> ([], [])) of
               (sg, r) \<Rightarrow>
                 (case p_digits r of (ds, r') \<Rightarrow> if ds = [] then None else Some (c # sg @ ds, r')))
          else Some ([], s)
      | [] \<Rightarrow> Some ([], []))"

text \<open>The integer part of a number: at least one digit.\<close>

definition p_int :: "string \<Rightarrow> (string \<times> string) option" where
  "p_int s =
     (case s of
        [] \<Rightarrow> None
      | d # ds \<Rightarrow>
          if \<not> is_digit d then None
          else Some (if d = CHR ''0'' then ([d], ds) else p_digits s))"

definition p_sign :: "string \<Rightarrow> string \<times> string" where
  "p_sign s = (case s of c # cs \<Rightarrow> if c = CHR ''-'' then ([c], cs) else ([], s) | [] \<Rightarrow> ([], []))"

definition pnum :: "string \<Rightarrow> (string \<times> string) option" where
  "pnum s =
     (case p_sign s of
        (sg, r) \<Rightarrow>
          (case p_int r of
             None \<Rightarrow> None
           | Some (ip, r1) \<Rightarrow>
               (case p_frac r1 of
                  None \<Rightarrow> None
                | Some (fp, r2) \<Rightarrow>
                    (case p_exp r2 of
                       None \<Rightarrow> None
                     | Some (ep, r3) \<Rightarrow> Some (sg @ ip @ fp @ ep, r3)))))"

section \<open>Values\<close>

text \<open>One level of a value, of the members of an object and of the elements of an array.\<close>

definition value_body ::
    "(string \<Rightarrow> ((string \<times> json) list \<times> string) option) \<Rightarrow> (string \<Rightarrow> (json list \<times> string) option) \<Rightarrow>
     string \<Rightarrow> (json \<times> string) option" where
  "value_body pm pe s =
     (case skip_ws s of
        [] \<Rightarrow> None
      | c # cs \<Rightarrow>
          if c = quote then map_option (\<lambda>(t, r). (JStr t, r)) (pstr cs)
          else if c = CHR ''{'' then
            (case skip_ws cs of
               [] \<Rightarrow> None
             | d # r \<Rightarrow> if d = CHR ''}'' then Some (JObj [], r)
                        else map_option (\<lambda>(ms, r). (JObj ms, r)) (pm (d # r)))
          else if c = CHR ''['' then
            (case skip_ws cs of
               [] \<Rightarrow> None
             | d # r \<Rightarrow> if d = CHR '']'' then Some (JArr [], r)
                        else map_option (\<lambda>(vs, r). (JArr vs, r)) (pe (d # r)))
          else if c = CHR ''n'' then
            (if take 3 cs = ''ull'' then Some (JNull, drop 3 cs) else None)
          else if c = CHR ''t'' then
            (if take 3 cs = ''rue'' then Some (JBool True, drop 3 cs) else None)
          else if c = CHR ''f'' then
            (if take 4 cs = ''alse'' then Some (JBool False, drop 4 cs) else None)
          else map_option (\<lambda>(t, r). (JNum t, r)) (pnum (c # cs)))"

definition members_body ::
    "(string \<Rightarrow> (json \<times> string) option) \<Rightarrow> (string \<Rightarrow> ((string \<times> json) list \<times> string) option) \<Rightarrow>
     string \<Rightarrow> ((string \<times> json) list \<times> string) option" where
  "members_body pv pm s =
     (case skip_ws s of
        [] \<Rightarrow> None
      | c # cs \<Rightarrow>
          if c \<noteq> quote then None
          else case pstr cs of
            None \<Rightarrow> None
          | Some (k, r) \<Rightarrow>
              (case skip_ws r of
                 [] \<Rightarrow> None
               | d # r1 \<Rightarrow>
                   if d \<noteq> CHR '':'' then None
                   else case pv r1 of
                     None \<Rightarrow> None
                   | Some (v, r2) \<Rightarrow>
                       (case skip_ws r2 of
                          [] \<Rightarrow> None
                        | e # r3 \<Rightarrow>
                            if e = CHR ''}'' then Some ([(k, v)], r3)
                            else if e = CHR '','' then
                              map_option (\<lambda>(ms, r). ((k, v) # ms, r)) (pm r3)
                            else None)))"

definition elements_body ::
    "(string \<Rightarrow> (json \<times> string) option) \<Rightarrow> (string \<Rightarrow> (json list \<times> string) option) \<Rightarrow>
     string \<Rightarrow> (json list \<times> string) option" where
  "elements_body pv pe s =
     (case pv s of
        None \<Rightarrow> None
      | Some (v, r) \<Rightarrow>
          (case skip_ws r of
             [] \<Rightarrow> None
           | e # r1 \<Rightarrow>
               if e = CHR '']'' then Some ([v], r1)
               else if e = CHR '','' then map_option (\<lambda>(vs, r). (v # vs, r)) (pe r1)
               else None))"

fun pvalue :: "nat \<Rightarrow> string \<Rightarrow> (json \<times> string) option"
  and pmembers :: "nat \<Rightarrow> string \<Rightarrow> ((string \<times> json) list \<times> string) option"
  and pelements :: "nat \<Rightarrow> string \<Rightarrow> (json list \<times> string) option" where
  "pvalue 0 s = None"
| "pvalue (Suc n) s = value_body (pmembers n) (pelements n) s"
| "pmembers 0 s = None"
| "pmembers (Suc n) s = members_body (pvalue n) (pmembers n) s"
| "pelements 0 s = None"
| "pelements (Suc n) s = elements_body (pvalue n) (pelements n) s"

definition parse_json :: "string \<Rightarrow> json option" where
  "parse_json s =
     (case pvalue (Suc (2 * length s)) s of
        Some (v, r) \<Rightarrow> if skip_ws r = [] then Some v else None
      | None \<Rightarrow> None)"

section \<open>The fuel is enough\<close>

lemma length_skip_ws: "length (skip_ws s) \<le> length s"
  by (simp add: skip_ws_def length_dropWhile_le)

lemma skip_ws_Cons: "skip_ws s = c # cs \<Longrightarrow> length cs < length s"
  using length_skip_ws [of s] by simp

lemma pstr_length: "pstr s = Some (t, r) \<Longrightarrow> length r < length s"
proof (induction s arbitrary: t r rule: pstr.induct)
  case (2 c cs)
  then show ?case
    by (fastforce split: if_splits option.splits dest: p_escape_length)
qed simp

lemma p_digits_length: "p_digits s = (ds, r) \<Longrightarrow> length r \<le> length s"
  by (auto simp: p_digits_def length_dropWhile_le)

lemma p_frac_length: "p_frac s = Some (t, r) \<Longrightarrow> length r \<le> length s"
  by (auto simp: p_frac_def dest!: p_digits_length split: list.splits if_splits prod.splits)

lemma p_exp_length: "p_exp s = Some (t, r) \<Longrightarrow> length r \<le> length s"
  by (auto simp: p_exp_def dest!: p_digits_length split: list.splits if_splits prod.splits)

lemma p_int_length: "p_int s = Some (t, r) \<Longrightarrow> length r < length s"
  by (auto simp: p_int_def p_digits_def length_dropWhile_le le_imp_less_Suc split: list.splits if_splits)

lemma p_sign_length: "length (snd (p_sign s)) \<le> length s"
  by (auto simp: p_sign_def split: list.splits)

lemma pnum_length: "pnum s = Some (t, r) \<Longrightarrow> length r < length s"
  using p_sign_length [of s]
  by (fastforce simp: pnum_def dest!: p_int_length p_frac_length p_exp_length
      split: prod.splits option.splits)

text \<open>Every parser consumes something.\<close>

definition shortens :: "(string \<Rightarrow> ('a \<times> string) option) \<Rightarrow> bool" where
  "shortens p \<longleftrightarrow> (\<forall>s v r. p s = Some (v, r) \<longrightarrow> length r < length s)"

lemma shortensD: "shortens p \<Longrightarrow> p s = Some (v, r) \<Longrightarrow> length r < length s"
  by (simp add: shortens_def)

lemma shortens_value:
  assumes "shortens pm" and "shortens pe"
  shows "shortens (value_body pm pe)"
  unfolding shortens_def
proof (intro allI impI)
  fix s v r assume v: "value_body pm pe s = Some (v, r)"
  then obtain c cs where c: "skip_ws s = c # cs" by (auto simp: value_body_def split: list.splits)
  have "length r < Suc (length cs)"
    using v c
    by (auto simp: value_body_def split: if_splits list.splits dest!: pstr_length pnum_length
        shortensD [OF assms(1)] shortensD [OF assms(2)] skip_ws_Cons)
  then show "length r < length s" using skip_ws_Cons [OF c] by simp
qed

lemma shortens_members:
  assumes "shortens pv" and "shortens pm"
  shows "shortens (members_body pv pm)"
  unfolding shortens_def
  by (auto simp: members_body_def split: if_splits list.splits option.splits dest!: pstr_length
      shortensD [OF assms(1)] shortensD [OF assms(2)] skip_ws_Cons)

lemma shortens_elements:
  assumes "shortens pv" and "shortens pe"
  shows "shortens (elements_body pv pe)"
  unfolding shortens_def
  by (auto simp: elements_body_def split: if_splits list.splits option.splits
      dest!: shortensD [OF assms(1)] shortensD [OF assms(2)] skip_ws_Cons)

lemma shortens_parsers: "shortens (pvalue n) \<and> shortens (pmembers n) \<and> shortens (pelements n)"
proof (induction n)
  case 0
  show ?case by (simp add: shortens_def)
next
  case (Suc n)
  then have "shortens (value_body (pmembers n) (pelements n))"
    "shortens (members_body (pvalue n) (pmembers n))"
    "shortens (elements_body (pvalue n) (pelements n))"
    by (simp_all add: shortens_value shortens_members shortens_elements)
  then show ?case by (simp add: shortens_def)
qed

lemma value_body_cong:
  assumes "\<And>t. length t < length s \<Longrightarrow> pm t = pm' t" and "\<And>t. length t < length s \<Longrightarrow> pe t = pe' t"
  shows "value_body pm pe s = value_body pm' pe' s"
  using assms
  by (auto simp: value_body_def split: list.splits dest!: skip_ws_Cons)

lemma members_body_cong:
  assumes "\<And>t. length t < length s \<Longrightarrow> pv t = pv' t" and "\<And>t. length t < length s \<Longrightarrow> pm t = pm' t"
    and "shortens pv'"
  shows "members_body pv pm s = members_body pv' pm' s"
proof -
  have "pv r1 = pv' r1" if "skip_ws s = c # cs" "pstr cs = Some (k, r)" "skip_ws r = d # r1" for c cs k r d r1
    using skip_ws_Cons [OF that(1)] pstr_length [OF that(2)] skip_ws_Cons [OF that(3)]
    by (intro assms(1)) simp
  moreover have "pm r3 = pm' r3"
    if "skip_ws s = c # cs" "pstr cs = Some (k, r)" "skip_ws r = d # r1" "pv' r1 = Some (v, r2)"
      "skip_ws r2 = e # r3" for c cs k r d r1 v r2 e r3
    using skip_ws_Cons [OF that(1)] pstr_length [OF that(2)] skip_ws_Cons [OF that(3)]
      shortensD [OF assms(3) that(4)] skip_ws_Cons [OF that(5)]
    by (intro assms(2)) simp
  ultimately show ?thesis
    by (auto simp: members_body_def split: list.splits option.splits)
qed

lemma elements_body_cong:
  assumes "pv s = pv' s" and "\<And>t. length t < length s \<Longrightarrow> pe t = pe' t" and "shortens pv'"
  shows "elements_body pv pe s = elements_body pv' pe' s"
proof -
  have "pe r1 = pe' r1" if "pv' s = Some (v, r)" "skip_ws r = e # r1" for v r e r1
    using shortensD [OF assms(3) that(1)] skip_ws_Cons [OF that(2)] by (intro assms(2)) simp
  then show ?thesis
    using assms(1) by (auto simp: elements_body_def split: list.splits option.splits)
qed

lemma parser_fuel_Suc:
  "(2 * length s + 1 \<le> n \<longrightarrow> pvalue (Suc n) s = pvalue n s) \<and>
   (2 * length s + 1 \<le> n \<longrightarrow> pmembers (Suc n) s = pmembers n s) \<and>
   (2 * length s + 2 \<le> n \<longrightarrow> pelements (Suc n) s = pelements n s)"
proof (induction n arbitrary: s)
  case 0
  show ?case by simp
next
  case (Suc n)
  have v: "pvalue (Suc n) t = pvalue n t" "pmembers (Suc n) t = pmembers n t"
    if "2 * length t + 1 \<le> n" for t
    using Suc.IH [of t] that by (simp_all del: pvalue.simps pmembers.simps)
  have e: "pelements (Suc n) t = pelements n t" if "2 * length t + 2 \<le> n" for t
    using Suc.IH [of t] that by (simp del: pelements.simps)
  have sh: "shortens (pvalue n)" using shortens_parsers by simp
  have "value_body (pmembers (Suc n)) (pelements (Suc n)) s = value_body (pmembers n) (pelements n) s"
    if "2 * length s + 1 \<le> Suc n"
    using that by (intro value_body_cong v(2) e) linarith+
  moreover have "members_body (pvalue (Suc n)) (pmembers (Suc n)) s = members_body (pvalue n) (pmembers n) s"
    if "2 * length s + 1 \<le> Suc n"
    using that by (intro members_body_cong v sh) linarith+
  moreover have "elements_body (pvalue (Suc n)) (pelements (Suc n)) s = elements_body (pvalue n) (pelements n) s"
    if "2 * length s + 2 \<le> Suc n"
    using that by (intro elements_body_cong v(1) e sh) linarith+
  ultimately show ?case by simp
qed

lemma pvalue_fuel: "2 * length s + 1 \<le> n \<Longrightarrow> pvalue n s = pvalue (Suc (2 * length s)) s"
proof (induction n rule: nat_induct_at_least)
  case (Suc n)
  then show ?case using parser_fuel_Suc [of s n] by simp
qed simp

end
