(* ===== verification/Base64.thy ===== *)
theory Base64
  imports Gotext
begin

text \<open>
  \<open>encoding/base64\<close> with the unpadded URL alphabet (\<open>RawURLEncoding\<close>): encoding, and the
  decoder, which skips line breaks, ignores the unused bits of the last digit and rejects
  anything else.
\<close>

definition b64_char :: "nat \<Rightarrow> char" where
  "b64_char i =
     (if i < 26 then char_of (65 + i)
      else if i < 52 then char_of (71 + i)
      else if i < 62 then char_of (i - 4)
      else if i = 62 then CHR ''-'' else CHR ''_'')"

definition b64_val :: "char \<Rightarrow> nat option" where
  "b64_val c =
     (let n = (of_char c :: nat)
      in if 65 \<le> n \<and> n \<le> 90 then Some (n - 65)
         else if 97 \<le> n \<and> n \<le> 122 then Some (n - 71)
         else if 48 \<le> n \<and> n \<le> 57 then Some (n + 4)
         else if n = 45 then Some 62
         else if n = 95 then Some 63
         else None)"

fun b64_encode :: "nat list \<Rightarrow> nat list" where
  "b64_encode [] = []"
| "b64_encode [a] = [a div 4, a mod 4 * 16]"
| "b64_encode [a, b] = [a div 4, a mod 4 * 16 + b div 16, b mod 16 * 4]"
| "b64_encode (a # b # c # r) =
     a div 4 # (a mod 4 * 16 + b div 16) # (b mod 16 * 4 + c div 64) # (c mod 64) # b64_encode r"

fun b64_decode :: "nat list \<Rightarrow> nat list option" where
  "b64_decode [] = Some []"
| "b64_decode [x] = None"
| "b64_decode [x, y] = Some [x * 4 + y div 16]"
| "b64_decode [x, y, z] = Some [x * 4 + y div 16, y mod 16 * 16 + z div 4]"
| "b64_decode (x # y # z # w # r) =
     map_option (\<lambda>t. (x * 4 + y div 16) # (y mod 16 * 16 + z div 4) # (z mod 4 * 64 + w) # t)
       (b64_decode r)"

fun b64_vals :: "string \<Rightarrow> nat list option" where
  "b64_vals [] = Some []"
| "b64_vals (c # cs) =
     (case b64_val c of
        None \<Rightarrow> None
      | Some v \<Rightarrow> map_option ((#) v) (b64_vals cs))"

definition EncodeToString :: "string \<Rightarrow> string" where
  "EncodeToString s = map b64_char (b64_encode (map of_char s))"

definition DecodeString :: "string \<Rightarrow> string option" where
  "DecodeString s =
     (case b64_vals (filter (\<lambda>c. (of_char c :: nat) \<noteq> 10 \<and> (of_char c :: nat) \<noteq> 13) s) of
        None \<Rightarrow> None
      | Some vs \<Rightarrow> map_option (map char_of) (b64_decode vs))"

lemma b64_val_char: "i < 64 \<Longrightarrow> b64_val (b64_char i) = Some i"
  by (auto simp: b64_val_def b64_char_def Let_def of_char_of)

lemma b64_char_not_break:
  "i < 64 \<Longrightarrow> (of_char (b64_char i) :: nat) \<noteq> 10 \<and> (of_char (b64_char i) :: nat) \<noteq> 13"
  by (auto simp: b64_char_def of_char_of)

lemma b64_vals_chars: "list_all (\<lambda>i. i < 64) is \<Longrightarrow> b64_vals (map b64_char is) = Some is"
  by (induction "is") (simp_all add: b64_val_char)

lemma b64_encode_bound: "list_all (\<lambda>a. a < 256) as \<Longrightarrow> list_all (\<lambda>i. i < 64) (b64_encode as)"
  by (induction as rule: b64_encode.induct) auto

lemma b64_decode_encode: "list_all (\<lambda>a. a < 256) as \<Longrightarrow> b64_decode (b64_encode as) = Some as"
  by (induction as rule: b64_encode.induct) auto

lemma char_list_bytes: "list_all (\<lambda>a. a < 256) (map of_char s :: nat list)"
  by (induction s) simp_all

lemma DecodeString_EncodeToString [simp, text_simps]: "DecodeString (EncodeToString s) = Some s"
proof -
  let ?is = "b64_encode (map of_char s) :: nat list"
  have b: "list_all (\<lambda>i. i < 64) ?is" by (rule b64_encode_bound [OF char_list_bytes])
  then have "filter (\<lambda>c. (of_char c :: nat) \<noteq> 10 \<and> (of_char c :: nat) \<noteq> 13) (map b64_char ?is)
      = map b64_char ?is"
    by (intro filter_True) (auto simp: list_all_iff dest: b64_char_not_break)
  then have "DecodeString (EncodeToString s) = map_option (map char_of) (b64_decode ?is)"
    by (simp add: DecodeString_def EncodeToString_def b64_vals_chars [OF b])
  also have "b64_decode ?is = Some (map of_char s)" by (rule b64_decode_encode [OF char_list_bytes])
  finally show ?thesis by (simp add: comp_def)
qed

end
