(* ===== verification/Cursor.thy ===== *)
theory Cursor
  imports Json Base64
begin

text \<open>
  The opaque page token of the storage backends: base64 of a JSON object with the keyset
  pair of the last row. PostgreSQL and MariaDB put two \<open>int64\<close> into it, ClickHouse an
  \<open>int64\<close> and a \<open>uint64\<close>; the API checks a token's shape before it queries.
\<close>

section \<open>Numbers and objects as JSON\<close>

lemma takeWhile_digits: "list_all is_digit ds \<Longrightarrow> \<not> is_digit c \<Longrightarrow> takeWhile is_digit (ds @ c # r) = ds"
  by (induction ds) simp_all

lemma dropWhile_digits: "list_all is_digit ds \<Longrightarrow> \<not> is_digit c \<Longrightarrow> dropWhile is_digit (ds @ c # r) = c # r"
  by (induction ds) simp_all

lemma digit_char_0: "d < 10 \<Longrightarrow> digit_char d = CHR ''0'' \<longleftrightarrow> d = 0"
proof
  assume d: "d < 10" and "digit_char d = CHR ''0''"
  then have "(of_char (digit_char d) :: nat) = of_char (CHR ''0'')" by simp
  with d show "d = 0" by (simp add: of_char_digit)
qed (simp add: digit_char_def char_of_eq_iff)

lemma hd_dec_nat_0: "hd (dec_nat n) = CHR ''0'' \<longleftrightarrow> n = 0"
proof (induction n rule: dec_nat_induct)
  case (small n)
  then show ?case by (simp add: dec_nat.simps [of n] digit_char_0)
next
  case (large n)
  then have "n div 10 \<noteq> 0" by simp
  with large show ?case by (simp add: dec_nat.simps [of n])
qed

text \<open>A character that ends a number.\<close>

definition ends_number :: "char \<Rightarrow> bool" where
  "ends_number c \<longleftrightarrow> \<not> is_digit c \<and> c \<noteq> CHR ''.'' \<and> c \<noteq> CHR ''e'' \<and> c \<noteq> CHR ''E''"

lemma p_int_dec_nat:
  assumes "\<not> is_digit c"
  shows "p_int (dec_nat n @ c # r) = Some (dec_nat n, c # r)"
proof -
  obtain d ds where d: "dec_nat n = d # ds" using dec_nat_nonempty [of n] by (cases "dec_nat n") auto
  have dig: "is_digit d" "list_all is_digit ds" using dec_nat_digits [of n] d by simp_all
  show ?thesis
  proof (cases "d = CHR ''0''")
    case True
    then have "n = 0" using hd_dec_nat_0 [of n] d by simp
    then have "ds = []" using d by (simp add: dec_nat.simps)
    then show ?thesis using d dig True by (simp add: p_int_def)
  next
    case False
    then show ?thesis
      using d dig assms by (simp add: p_int_def p_digits_def takeWhile_digits dropWhile_digits)
  qed
qed

lemma pnum_dec_int: "ends_number c \<Longrightarrow> pnum (dec_int i @ c # r) = Some (dec_int i, c # r)"
proof -
  assume c: "ends_number c"
  have f: "p_frac (c # r) = Some ([], c # r)" "p_exp (c # r) = Some ([], c # r)"
    using c by (simp_all add: ends_number_def p_frac_def p_exp_def)
  have nd: "\<not> is_digit c" using c by (simp add: ends_number_def)
  have s: "p_sign (dec_nat n @ c # r) = ([], dec_nat n @ c # r)" for n
    using hd_dec_nat [of n] dec_nat_nonempty [of n] by (cases "dec_nat n") (auto simp: p_sign_def)
  show ?thesis
    by (cases "i < 0") (simp_all add: pnum_def dec_int_def s f p_int_dec_nat [OF nd],
        simp add: p_sign_def p_int_dec_nat [OF nd] f)
qed

lemma dec_int_first:
  obtains c cs where "dec_int i = c # cs" and "is_digit c \<or> c = CHR ''-''"
proof (cases "i < 0")
  case True
  then show ?thesis using that by (simp add: dec_int_def)
next
  case False
  then obtain c cs where "dec_nat (nat i) = c # cs" "is_digit c"
    using hd_dec_nat [of "nat i"] dec_nat_nonempty [of "nat i"] by (cases "dec_nat (nat i)") auto
  with False that show ?thesis by (simp add: dec_int_def)
qed

lemma pvalue_dec_int:
  assumes "ends_number c"
  shows "pvalue (Suc n) (dec_int i @ c # r) = Some (JNum (dec_int i), c # r)"
proof -
  obtain d ds where d: "dec_int i = d # ds" and dig: "is_digit d \<or> d = CHR ''-''"
    by (rule dec_int_first)
  then have ws: "skip_ws (dec_int i @ c # r) = dec_int i @ c # r"
    by (auto simp: skip_ws_def is_ws_def is_digit_def)
  have "d \<noteq> quote" "d \<noteq> CHR ''{''" "d \<noteq> CHR ''[''" "d \<noteq> CHR ''n''" "d \<noteq> CHR ''t''" "d \<noteq> CHR ''f''"
    using dig by (auto simp: is_digit_def quote_def)
  then show ?thesis
    using ws pnum_dec_int [OF assms, of i r] unfolding d by (simp add: value_body_def)
qed

section \<open>Reading integers into a struct\<close>

text \<open>
  \<open>json.Unmarshal\<close> into a struct of integers: \<open>null\<close> leaves a field as it is, a number must
  be an integer in range, a later member of the same name wins, names match without regard
  to case, other members are ignored. Any mismatch is an error of the whole call.
\<close>

definition set_int64 :: "json \<Rightarrow> int \<Rightarrow> string + int" where
  "set_int64 j old =
     (case j of
        JNull \<Rightarrow> Inr old
      | JNum lit \<Rightarrow> (case ParseInt lit 64 of Inr i \<Rightarrow> Inr i | Inl _ \<Rightarrow> Inl ''int64'')
      | _ \<Rightarrow> Inl ''int64'')"

definition set_uint64 :: "json \<Rightarrow> int \<Rightarrow> string + int" where
  "set_uint64 j old =
     (case j of
        JNull \<Rightarrow> Inr old
      | JNum lit \<Rightarrow> (case ParseUint lit 64 of Inr n \<Rightarrow> Inr (int n) | Inl _ \<Rightarrow> Inl ''uint64'')
      | _ \<Rightarrow> Inl ''uint64'')"

fun read_pair :: "(json \<Rightarrow> int \<Rightarrow> string + int) \<Rightarrow> (string \<times> json) list \<Rightarrow> int \<times> int \<Rightarrow>
    string + (int \<times> int)" where
  "read_pair setS [] (t, s) = Inr (t, s)"
| "read_pair setS ((k, v) # ms) (t, s) =
     (if EqualFold k ''t'' then
        (case set_int64 v t of Inl e \<Rightarrow> Inl e | Inr t' \<Rightarrow> read_pair setS ms (t', s))
      else if EqualFold k ''s'' then
        (case setS v s of Inl e \<Rightarrow> Inl e | Inr s' \<Rightarrow> read_pair setS ms (t, s'))
      else read_pair setS ms (t, s))"

definition unmarshal_pair :: "(json \<Rightarrow> int \<Rightarrow> string + int) \<Rightarrow> string \<Rightarrow> string + (int \<times> int)" where
  "unmarshal_pair setS raw =
     (case parse_json raw of
        None \<Rightarrow> Inl ''syntax''
      | Some JNull \<Rightarrow> Inr (0, 0)
      | Some (JObj ms) \<Rightarrow> read_pair setS ms (0, 0)
      | Some _ \<Rightarrow> Inl ''type'')"

definition marshal_pair :: "int \<Rightarrow> int \<Rightarrow> string" where
  "marshal_pair t s =
     CHR ''{'' # quote # CHR ''t'' # quote # CHR '':'' # dec_int t @
     CHR '','' # quote # CHR ''s'' # quote # CHR '':'' # dec_int s @ ''}''"

lemma parse_marshal_pair:
  "parse_json (marshal_pair t s) = Some (JObj [(''t'', JNum (dec_int t)), (''s'', JNum (dec_int s))])"
proof -
  let ?x = "marshal_pair t s"
  have "\<exists>k. Suc (2 * length ?x) = Suc (Suc (Suc (Suc (Suc k))))"
    by (intro exI [of _ "2 * length ?x - 4"]) (simp add: marshal_pair_def)
  then obtain k where k: "Suc (2 * length ?x) = Suc (Suc (Suc (Suc (Suc k))))" by blast
  have ends: "ends_number (CHR '','')" "ends_number (CHR ''}'')"
    by (simp_all add: ends_number_def is_digit_def)
  have ws: "skip_ws (c # r) = c # r" if "\<not> is_ws c" for c r using that by (simp add: skip_ws_def)
  have nws: "\<not> is_ws (CHR ''{'')" "\<not> is_ws quote" "\<not> is_ws (CHR '':'')" "\<not> is_ws (CHR '','')"
      "\<not> is_ws (CHR ''}'')"
    by (simp_all add: is_ws_def quote_def)
  have q: "quote \<noteq> CHR ''}''" "CHR ''{'' \<noteq> quote" by (simp_all add: quote_def)
  have key: "pstr (CHR ''t'' # quote # r) = Some (''t'', r)"
      "pstr (CHR ''s'' # quote # r) = Some (''s'', r)" for r
    by (simp_all add: quote_def backslash_def)
  have v: "pvalue (Suc n) (dec_int i @ c # r) = Some (JNum (dec_int i), c # r)"
    if "ends_number c" for n i c r using pvalue_dec_int [OF that] .
  have s: "pmembers (Suc (Suc n)) (quote # CHR ''s'' # quote # CHR '':'' # dec_int s @ ''}'')
      = Some ([(''s'', JNum (dec_int s))], [])" for n
    using v [OF ends(2), of n s "[]"]
    by (simp add: members_body_def ws nws key del: pstr.simps pvalue.simps)
  have "pmembers (Suc (Suc (Suc (Suc k)))) (quote # CHR ''t'' # quote # CHR '':'' # dec_int t @
       CHR '','' # quote # CHR ''s'' # quote # CHR '':'' # dec_int s @ ''}'')
      = Some ([(''t'', JNum (dec_int t)), (''s'', JNum (dec_int s))], [])"
    unfolding pmembers.simps(2) [of "Suc (Suc (Suc k))"]
    using v [OF ends(1)] s [of "Suc k"]
    by (simp add: members_body_def ws nws key del: pstr.simps pvalue.simps pmembers.simps)
  then have "pvalue (Suc (Suc (Suc (Suc (Suc k))))) ?x
      = Some (JObj [(''t'', JNum (dec_int t)), (''s'', JNum (dec_int s))], [])"
    unfolding pvalue.simps(2) marshal_pair_def
    by (simp add: value_body_def ws nws q del: pvalue.simps pmembers.simps)
  then show ?thesis by (simp only: parse_json_def k) (simp add: skip_ws_def)
qed

lemma unmarshal_marshal_pair:
  assumes "setS (JNum (dec_int s)) 0 = r" and "- (2 ^ 63) \<le> t" and "t < 2 ^ 63"
  shows "unmarshal_pair setS (marshal_pair t s) =
    (case r of Inl e \<Rightarrow> Inl e | Inr s' \<Rightarrow> Inr (t, s'))"
proof -
  have "set_int64 (JNum (dec_int t)) 0 = Inr t"
    using ParseInt_dec_int [of 64 t] assms(2,3) by (simp add: set_int64_def)
  moreover have "EqualFold ''t'' ''t''" "\<not> EqualFold ''s'' ''t''" "EqualFold ''s'' ''s''"
    by (simp_all add: EqualFold_def ToLower_def to_lower_def)
  ultimately show ?thesis
    using assms(1) by (simp add: unmarshal_pair_def parse_marshal_pair split: sum.splits)
qed

section \<open>The tokens\<close>

record cursor =
  c_T :: i64
  c_Seq :: i64

record ch_cursor =
  ch_T :: i64
  ch_Seq :: u64

definition encodeCursor :: "cursor \<Rightarrow> string" where
  "encodeCursor c = EncodeToString (marshal_pair (sint (c_T c)) (sint (c_Seq c)))"

definition decodeCursor :: "string \<Rightarrow> string + cursor" where
  "decodeCursor s =
     (case DecodeString s of
        None \<Rightarrow> Inl ''undecodable cursor''
      | Some raw \<Rightarrow>
          (case unmarshal_pair set_int64 raw of
             Inl e \<Rightarrow> Inl ''undecodable cursor''
           | Inr (t, q) \<Rightarrow> Inr \<lparr>c_T = word_of_int t, c_Seq = word_of_int q\<rparr>))"

definition ch_encodeCursor :: "ch_cursor \<Rightarrow> string" where
  "ch_encodeCursor c = EncodeToString (marshal_pair (sint (ch_T c)) (uint (ch_Seq c)))"

definition ch_decodeCursor :: "string \<Rightarrow> string + ch_cursor" where
  "ch_decodeCursor s =
     (case DecodeString s of
        None \<Rightarrow> Inl ''undecodable cursor''
      | Some raw \<Rightarrow>
          (case unmarshal_pair set_uint64 raw of
             Inl e \<Rightarrow> Inl ''undecodable cursor''
           | Inr (t, q) \<Rightarrow> Inr \<lparr>ch_T = word_of_int t, ch_Seq = word_of_int q\<rparr>))"

text \<open>\<open>checkCursor\<close> of the API: the shape every backend's token has, as the API reads it.\<close>

definition checkCursor :: "string \<Rightarrow> string option" where
  "checkCursor s =
     (case DecodeString s of
        None \<Rightarrow> Some ''undecodable cursor''
      | Some raw \<Rightarrow>
          (case unmarshal_pair set_int64 raw of
             Inl e \<Rightarrow> Some ''undecodable cursor''
           | Inr _ \<Rightarrow> None))"

lemma sint_bounds: "- (2 ^ 63) \<le> sint (w :: i64)" "sint (w :: i64) < 2 ^ 63"
  using sint_greater_eq [of w] sint_lt [of w] by simp_all

lemma set_int64_dec_int [simp]:
  "set_int64 (JNum (dec_int (sint (w :: i64)))) old = Inr (sint w)"
  using ParseInt_dec_int [of 64 "sint w"] sint_bounds [of w] by (simp add: set_int64_def)

lemma dec_int_uint: "dec_int (uint (w :: u64)) = dec_nat (unat w)"
  by (simp add: dec_int_def)

lemma set_uint64_dec_int [simp]:
  "set_uint64 (JNum (dec_int (uint (w :: u64)))) old = Inr (uint w)"
proof -
  have "ParseUint (dec_nat (unat w)) 64 = Inr (unat w)"
    using unat_bound [of w] by (intro ParseUint_dec_nat) simp
  then show ?thesis by (simp add: set_uint64_def dec_int_uint)
qed

lemma unmarshal_int64 [simp]:
  "unmarshal_pair set_int64 (marshal_pair (sint (t :: i64)) (sint (q :: i64))) = Inr (sint t, sint q)"
  using sint_bounds [of t] by (simp add: unmarshal_marshal_pair)

lemma unmarshal_uint64 [simp]:
  "unmarshal_pair set_uint64 (marshal_pair (sint (t :: i64)) (uint (q :: u64))) = Inr (sint t, uint q)"
  using sint_bounds [of t] by (simp add: unmarshal_marshal_pair)

lemma decodeCursor_encodeCursor [simp]: "decodeCursor (encodeCursor c) = Inr c"
  by (cases c) (simp add: decodeCursor_def encodeCursor_def)

lemma ch_decodeCursor_encodeCursor [simp]: "ch_decodeCursor (ch_encodeCursor c) = Inr c"
  by (cases c) (simp add: ch_decodeCursor_def ch_encodeCursor_def)

lemma marshal_pair_nonempty [simp]: "EncodeToString (marshal_pair t s) \<noteq> []"
proof -
  have "b64_encode (a # as) \<noteq> []" for a as by (cases "a # as" rule: b64_encode.cases) simp_all
  then show ?thesis by (simp add: EncodeToString_def marshal_pair_def)
qed

lemma encodeCursor_nonempty [simp]: "encodeCursor c \<noteq> []" "ch_encodeCursor d \<noteq> []"
  by (simp_all add: encodeCursor_def ch_encodeCursor_def)

text \<open>
  C28. A page token survives the round trip: what any backend puts into a token it reads
  back from it, for every time and every sequence number, and the API's boundary check
  accepts every token of the PostgreSQL and MariaDB backends.
\<close>

theorem cursor_roundtrip:
  "decodeCursor (encodeCursor c) = Inr c \<and> ch_decodeCursor (ch_encodeCursor d) = Inr d \<and>
   checkCursor (encodeCursor c) = None"
  by (simp add: checkCursor_def) (simp add: encodeCursor_def)

text \<open>
  C29. The API's boundary check reads the sequence number of a token as \<open>int64\<close>, and so
  refuses a token of the ClickHouse backend, whose sequence numbers are \<open>uint64\<close>, exactly
  when the number has its top bit set.
\<close>

theorem clickhouse_cursor_refused:
  "checkCursor (ch_encodeCursor d) = None \<longleftrightarrow> unat (ch_Seq d) < 2 ^ 63"
proof -
  let ?n = "unat (ch_Seq d)"
  have "set_int64 (JNum (dec_nat ?n)) 0 = (if ?n < 2 ^ 63 then Inr (int ?n) else Inl ''int64'')"
    using ParseInt_dec_nat [of ?n 64] ParseInt_too_large [of 64 ?n] by (simp add: set_int64_def)
  then show ?thesis
    using sint_bounds [of "ch_T d"]
    by (simp add: checkCursor_def ch_encodeCursor_def dec_int_uint unmarshal_marshal_pair)
qed

end
