(* ===== verification/Storage.thy ===== *)
theory Storage
  imports Flow Cursor "HOL-Library.Product_Lexorder"
begin

text \<open>
  What the three storage backends share: the conditions of a page query and what a
  \<open>SELECT\<close> with them, a descending order on \<open>(received_at, seq)\<close> and a limit returns, the
  loop that fills a page from one row more than it holds, and keyset paging as an interface:
  a client that follows the tokens gets every matching row once, newest first.
\<close>

section \<open>Conditions\<close>

text \<open>
  The columns a page query compares, and the comparisons. The type of an address column
  differs between the backends.
\<close>

record 'a row_view =
  v_received :: time
  v_seq :: int
  v_exporter :: i64
  v_src :: 'a
  v_dst :: 'a
  v_proto :: int

datatype 'a cond =
    ReceivedFrom time
  | ReceivedBefore time
  | ExporterIs i64
  | SrcIs 'a
  | DstIs 'a
  | ProtocolIs int
  | KeyBelow time int

definition row_key :: "'a row_view \<Rightarrow> time \<times> int" where
  "row_key v = (v_received v, v_seq v)"

fun holds_on :: "'a row_view \<Rightarrow> 'a cond \<Rightarrow> bool" where
  "holds_on v (ReceivedFrom t) = (t \<le> v_received v)"
| "holds_on v (ReceivedBefore t) = (v_received v < t)"
| "holds_on v (ExporterIs i) = (v_exporter v = i)"
| "holds_on v (SrcIs a) = (v_src v = a)"
| "holds_on v (DstIs a) = (v_dst v = a)"
| "holds_on v (ProtocolIs p) = (v_proto v = p)"
| "holds_on v (KeyBelow t s) = (row_key v < (t, s))"

definition matching :: "('row \<Rightarrow> 'a row_view) \<Rightarrow> 'a cond list \<Rightarrow> 'row list \<Rightarrow> 'row list" where
  "matching view cs t =
     rev (sort_key (row_key \<circ> view) (filter (\<lambda>r. list_all (holds_on (view r)) cs) t))"

definition select_rows :: "('row \<Rightarrow> 'a row_view) \<Rightarrow> 'a cond list \<Rightarrow> nat \<Rightarrow> 'row list \<Rightarrow> 'row list" where
  "select_rows view cs n t = take n (matching view cs t)"

section \<open>Pages\<close>

definition defaultLimit :: int where "defaultLimit = 100"
definition maxLimit :: int where "maxLimit = 1000"

definition clamp_limit :: "int \<Rightarrow> nat" where
  "clamp_limit n =
     (let l = (if n \<le> 0 then defaultLimit else n)
      in nat (if l > maxLimit then maxLimit else l))"

fun page_loop :: "nat \<Rightarrow> 'a list \<Rightarrow> 'a list \<Rightarrow> 'a list \<times> bool" where
  "page_loop limit page [] = (page, False)"
| "page_loop limit page (r # rows) =
     (if length page = limit then (page, True) else page_loop limit (page @ [r]) rows)"

lemma clamp_limit_range: "1 \<le> clamp_limit n \<and> clamp_limit n \<le> 1000"
  by (simp add: clamp_limit_def defaultLimit_def maxLimit_def Let_def) linarith

lemma page_loop_take:
  "length page \<le> limit \<Longrightarrow>
   page_loop limit page rows = (page @ take (limit - length page) rows, limit - length page < length rows)"
  by (induction limit page rows rule: page_loop.induct) (auto simp: Suc_diff_Suc take_Cons' Suc_diff_le)

lemma page_loop_limit:
  "page_loop limit [] (take (Suc limit) rows) = (take limit rows, limit < length rows)"
  by (simp add: page_loop_take min_def)

text \<open>
  The page a backend builds from the rows of its query: the loop, and the token of the last
  row of the page when there is one row more.
\<close>

definition page_of :: "('row \<Rightarrow> FlowRecord) \<Rightarrow> ('row \<Rightarrow> string) \<Rightarrow> nat \<Rightarrow> 'row list \<Rightarrow> FlowResultPage" where
  "page_of rec token limit rows =
     (case page_loop limit [] rows of
        (page, m) \<Rightarrow>
          \<lparr>Records = map rec page, NextCursor = (if m then token (last page) else []), HasMore = m\<rparr>)"

text \<open>The page at position \<open>i\<close> of a list of rows, and a client that follows the tokens.\<close>

definition page_at :: "('row \<Rightarrow> FlowRecord) \<Rightarrow> ('row \<Rightarrow> string) \<Rightarrow> nat \<Rightarrow> 'row list \<Rightarrow> nat \<Rightarrow> FlowResultPage" where
  "page_at rec token n rows i =
     (let m = i + n < length rows
      in \<lparr>Records = map rec (take n (drop i rows)),
          NextCursor = (if m then token (rows ! (i + n - 1)) else []),
          HasMore = m\<rparr>)"

fun follow :: "nat \<Rightarrow> (FlowQuery \<Rightarrow> string + FlowResultPage) \<Rightarrow> FlowQuery \<Rightarrow>
    (string + FlowRecord list) option" where
  "follow 0 query q = None"
| "follow (Suc fuel) query q =
     (case query q of
        Inl e \<Rightarrow> Some (Inl e)
      | Inr page \<Rightarrow>
          if HasMore page then
            (case follow fuel query (q\<lparr>q_Cursor := NextCursor page\<rparr>) of
               Some (Inr rest) \<Rightarrow> Some (Inr (Records page @ rest))
             | other \<Rightarrow> other)
          else Some (Inr (Records page)))"

section \<open>Keyset order\<close>

lemma matching_below:
  "matching view (cs @ [KeyBelow s n]) t = filter (\<lambda>r. row_key (view r) < (s, n)) (matching view cs t)"
proof -
  let ?f = "row_key \<circ> view" and ?xs = "filter (\<lambda>r. list_all (holds_on (view r)) cs) t"
  have "filter (\<lambda>r. list_all (holds_on (view r)) (cs @ [KeyBelow s n])) t
      = filter (\<lambda>r. row_key (view r) < (s, n)) ?xs"
    by (simp add: conj_commute)
  then have "matching view (cs @ [KeyBelow s n]) t
      = rev (filter (\<lambda>r. row_key (view r) < (s, n)) (sort_key ?f ?xs))"
    by (simp only: matching_def filter_sort)
  then show ?thesis by (simp only: matching_def rev_filter)
qed

lemma matching_set: "set (matching view cs t) = {r \<in> set t. list_all (holds_on (view r)) cs}"
  by (auto simp: matching_def)

lemma matching_length: "length (matching view cs t) \<le> length t"
  by (simp add: matching_def)

lemma matching_distinct: "distinct (map (row_key \<circ> view) t) \<Longrightarrow> distinct (matching view cs t)"
  by (simp add: matching_def distinct_map)

lemma matching_sorted:
  assumes "distinct (map (row_key \<circ> view) t)"
  shows "sorted_wrt (\<lambda>a b. row_key (view b) < row_key (view a)) (matching view cs t)"
proof -
  let ?f = "row_key \<circ> view" and ?xs = "filter (\<lambda>r. list_all (holds_on (view r)) cs) t"
  have "distinct (map ?f ?xs)" using assms by (rule distinct_map_filter)
  then have "distinct (map ?f (sort_key ?f ?xs))" by (simp add: distinct_map)
  moreover have "sorted (map ?f (sort_key ?f ?xs))" by simp
  ultimately have "sorted_wrt (<) (map ?f (sort_key ?f ?xs))" by (simp add: strict_sorted_iff)
  then have "sorted_wrt (\<lambda>a b. ?f a < ?f b) (sort_key ?f ?xs)" by (simp add: sorted_wrt_map)
  then show ?thesis by (simp add: matching_def sorted_wrt_rev)
qed

lemma below_nth:
  assumes "sorted_wrt (\<lambda>a b. k b < (k a :: 'k::linorder)) xs" and "i < length xs"
  shows "filter (\<lambda>r. k r < k (xs ! i)) xs = drop (Suc i) xs"
  using assms
proof (induction xs arbitrary: i)
  case (Cons x xs)
  show ?case
  proof (cases i)
    case 0
    have "filter (\<lambda>r. k r < k x) xs = xs" using Cons.prems(1) by (intro filter_True) simp
    then show ?thesis using 0 by simp
  next
    case (Suc j)
    then have "k (xs ! j) < k x" using Cons.prems by simp
    then have "\<not> k x < k (xs ! j)" by simp
    then show ?thesis using Suc Cons.IH [of j] Cons.prems by simp
  qed
qed simp

lemma page_of_take:
  assumes "0 < n"
  shows "page_of rec token n (take (Suc n) (drop i rows)) = page_at rec token n rows i"
proof (cases "i + n < length rows")
  case True
  then have "last (take n (drop i rows)) = rows ! (i + n - 1)"
    using assms by (simp add: last_conv_nth)
  moreover have "n < length rows - i" using True by linarith
  ultimately show ?thesis using True by (simp add: page_of_def page_at_def page_loop_limit Let_def)
next
  case False
  then have "page_loop n [] (drop i rows) = (drop i rows, False)"
    using page_loop_limit [of n "drop i rows"] by simp
  then show ?thesis using False by (simp add: page_of_def page_at_def Let_def)
qed

lemma page_of_select:
  "0 < n \<Longrightarrow> page_of rec token n (select_rows view cs (Suc n) t) =
     page_at rec token n (matching view cs t) 0"
  using page_of_take [of n rec token 0 "matching view cs t"] by (simp add: select_rows_def)

lemma page_of_below:
  assumes "0 < n" and "distinct (map (row_key \<circ> view) t)" and "i < length (matching view cs t)"
    and "(s, k) = row_key (view (matching view cs t ! i))"
  shows "page_of rec token n (select_rows view (cs @ [KeyBelow s k]) (Suc n) t) =
     page_at rec token n (matching view cs t) (Suc i)"
proof -
  have "matching view (cs @ [KeyBelow s k]) t = drop (Suc i) (matching view cs t)"
    unfolding matching_below assms(4)
    by (rule below_nth [OF matching_sorted [OF assms(2)] assms(3)])
  then show ?thesis using page_of_take [OF assms(1)] by (simp add: select_rows_def)
qed

section \<open>Keyset paging as an interface\<close>

text \<open>
  \<open>rows t q\<close> are the rows the query matches, newest first; \<open>token r\<close> is the page token that
  points behind \<open>r\<close>. A backend promises that the query without a token is the first page
  and that the query with the token of a matching row is the page behind that row.
\<close>

locale keyset_store =
  fixes ok :: "'t \<Rightarrow> bool"
    and rows :: "'t \<Rightarrow> FlowQuery \<Rightarrow> 'row list"
    and rec :: "'row \<Rightarrow> FlowRecord"
    and token :: "'row \<Rightarrow> string"
    and query :: "'t \<Rightarrow> FlowQuery \<Rightarrow> string + FlowResultPage"
    and size_of :: "FlowQuery \<Rightarrow> nat"
  assumes size_pos: "0 < size_of q"
    and size_cursor: "size_of (q\<lparr>q_Cursor := c\<rparr>) = size_of q"
    and rows_cursor: "rows t (q\<lparr>q_Cursor := c\<rparr>) = rows t q"
    and first_page: "ok t \<Longrightarrow> q_Cursor q = [] \<Longrightarrow>
      query t q = Inr (page_at rec token (size_of q) (rows t q) 0)"
    and next_page: "ok t \<Longrightarrow> i < length (rows t q) \<Longrightarrow> q_Cursor q = token (rows t q ! i) \<Longrightarrow>
      query t q = Inr (page_at rec token (size_of q) (rows t q) (Suc i))"
begin

lemma follow_from:
  assumes "ok t" and "query t q = Inr (page_at rec token (size_of q) (rows t q) i)"
    and "i \<le> length (rows t q)" and "length (rows t q) < fuel + i"
  shows "follow fuel (query t) q = Some (Inr (map rec (drop i (rows t q))))"
  using assms(2-)
proof (induction fuel arbitrary: q i)
  case 0
  then show ?case by simp
next
  case (Suc fuel)
  let ?n = "size_of q" and ?rs = "rows t q"
  show ?case
  proof (cases "i + ?n < length ?rs")
    case True
    let ?q = "q\<lparr>q_Cursor := token (?rs ! (i + ?n - 1))\<rparr>"
    have j: "Suc (i + ?n - 1) = i + ?n" using size_pos [of q] by simp
    have "query t ?q = Inr (page_at rec token (size_of ?q) (rows t ?q) (Suc (i + ?n - 1)))"
      using True size_pos [of q] by (intro next_page [OF assms(1)]) (simp_all add: rows_cursor)
    then have "follow fuel (query t) ?q = Some (Inr (map rec (drop (i + ?n) (rows t ?q))))"
      using True Suc.prems(3) size_pos [of q]
      by (intro Suc.IH) (simp_all add: j rows_cursor size_cursor)
    moreover have "map rec (take ?n (drop i ?rs)) @ map rec (drop (i + ?n) ?rs) = map rec (drop i ?rs)"
      by (metis add.commute append_take_drop_id drop_drop map_append)
    ultimately show ?thesis
      using True Suc.prems(1) by (simp add: page_at_def rows_cursor Let_def)
  next
    case False
    then show ?thesis using Suc.prems(1) by (simp add: page_at_def Let_def)
  qed
qed

text \<open>Following the tokens from the start collects every matching row once, newest first.\<close>

lemma follow_all:
  assumes "ok t" and "q_Cursor q = []" and "length (rows t q) < fuel"
  shows "follow fuel (query t) q = Some (Inr (map rec (rows t q)))"
  using follow_from [OF assms(1) first_page [OF assms(1,2)], of fuel] assms(3) by simp

end

section \<open>Writing with deduplication\<close>

text \<open>
  The abstract operation behind \<open>WriteBatch\<close> of the relational backends: append the rows that
  collide with no row that is already there.
\<close>

definition add_row :: "('r \<Rightarrow> 'r \<Rightarrow> bool) \<Rightarrow> 'r list \<Rightarrow> 'r \<Rightarrow> 'r list" where
  "add_row coll st v = (if list_ex (coll v) st then st else st @ [v])"

definition add_rows :: "('r \<Rightarrow> 'r \<Rightarrow> bool) \<Rightarrow> 'r list \<Rightarrow> 'r list \<Rightarrow> 'r list" where
  "add_rows coll st vs = foldl (add_row coll) st vs"

lemma add_rows_simps [simp]:
  "add_rows coll st [] = st" "add_rows coll st (v # vs) = add_rows coll (add_row coll st v) vs"
  "add_rows coll st (us @ vs) = add_rows coll (add_rows coll st us) vs"
  by (simp_all add: add_rows_def)

lemma add_rows_mono: "set st \<subseteq> set (add_rows coll st vs)"
proof (induction vs arbitrary: st)
  case (Cons v vs)
  have "set st \<subseteq> set (add_row coll st v)" by (auto simp: add_row_def)
  also have "\<dots> \<subseteq> set (add_rows coll (add_row coll st v) vs)" by (rule Cons.IH)
  finally show ?case by simp
qed simp

lemma add_rows_in:
  assumes "v \<in> set vs" and "coll v v"
  shows "list_ex (coll v) (add_rows coll st vs)"
  using assms(1)
proof (induction vs arbitrary: st)
  case (Cons x vs)
  show ?case
  proof (cases "v = x")
    case True
    have "list_ex (coll v) (add_row coll st v)" using assms(2) by (auto simp: add_row_def)
    then show ?thesis
      using add_rows_mono [of "add_row coll st v" coll vs] True by (auto simp: list_ex_iff)
  next
    case False
    then show ?thesis using Cons.IH [of "add_row coll st x"] Cons.prems by simp
  qed
qed simp

lemma add_rows_noop: "list_all (\<lambda>v. list_ex (coll v) st) vs \<Longrightarrow> add_rows coll st vs = st"
  by (induction vs) (simp_all add: add_row_def)

text \<open>
  The contract of a sink that deduplicates: a batch is written as \<open>add_rows\<close> or, when an
  error is returned, perhaps not at all; a record with a key collides with itself, whatever
  the state its row is made in.
\<close>

locale dedup_sink =
  fixes write_batch :: "'f \<Rightarrow> FlowRecord list \<Rightarrow> 'b \<Rightarrow> string option \<times> 'b"
    and stored :: "'b \<Rightarrow> 'r list"
    and ok :: "'b \<Rightarrow> bool"
    and fits :: "FlowRecord \<Rightarrow> bool"
    and row :: "'b \<Rightarrow> FlowRecord \<Rightarrow> 'r"
    and coll :: "'r \<Rightarrow> 'r \<Rightarrow> bool"
  assumes refines: "write_batch f rs b = (err, b') \<Longrightarrow> ok b \<Longrightarrow> list_all fits rs \<Longrightarrow>
      ok b' \<and> (stored b' = add_rows coll (stored b) (map (row b') rs) \<or> (err \<noteq> None \<and> stored b' = stored b))"
    and coll_self: "DedupKey r \<noteq> None \<Longrightarrow> coll (row b r) (row b r)"
    and coll_row: "coll (row b r) v = coll (row b' r) v"
begin

lemma redelivery:
  assumes "write_batch f rs b = (None, b1)" and "write_batch f' rs b1 = (err, b2)" and "ok b"
    and "list_all fits rs" and "list_all (\<lambda>r. DedupKey r \<noteq> None) rs"
  shows "stored b2 = stored b1"
proof -
  have ok: "ok b1" and st: "stored b1 = add_rows coll (stored b) (map (row b1) rs)"
    using refines [OF assms(1,3,4)] by simp_all
  have "list_ex (coll (row b2 r)) (stored b1)" if "r \<in> set rs" for r
  proof -
    have "list_ex (coll (row b1 r)) (stored b1)"
      unfolding st using assms(5) that coll_self by (intro add_rows_in) (auto simp: list_all_iff)
    then show ?thesis using coll_row [of b1 r _ b2] by (simp add: list_ex_iff)
  qed
  then have "add_rows coll (stored b1) (map (row b2) rs) = stored b1"
    by (intro add_rows_noop) (simp add: list_all_iff)
  then show ?thesis using refines [OF assms(2) ok assms(4)] by auto
qed

end

end
