(* ===== verification/Postgres_Rows.thy ===== *)
theory Postgres_Rows
  imports Storage
begin

text \<open>
  \<open>internal/sink/postgres/rows.go\<close>: a batch as the parallel column arrays of \<open>columns\<close>,
  the rows the COPY source and the unnested INSERT build from them, and the way back from a
  selected row to a record. Columns have the width of their SQL type: \<open>integer\<close> is 32 bits,
  \<open>smallint\<close> 16, \<open>bigint\<close> 64.
\<close>

section \<open>Rows and columns\<close>

record pg_row =
  received_at :: time
  exporter_id :: i64
  flow_type :: string
  first_switched :: time
  last_switched :: time
  src_addr :: Addr
  dst_addr :: Addr
  src_port :: i32
  dst_port :: i32
  protocol :: i16
  tcp_flags :: i16
  packets :: i64
  bytes :: i64
  sampling_rate :: i32
  input_iface :: i32
  output_iface :: i32
  src_as :: i32
  dst_as :: i32
  next_hop :: "Addr option"
  dedup_key :: "byte list option"

record columns =
  receivedAt :: "time list"
  firstSwitched :: "time list"
  lastSwitched :: "time list"
  exporterID :: "i64 list"
  flowType :: "string list"
  srcAddr :: "Addr list"
  dstAddr :: "Addr list"
  srcPort :: "i32 list"
  dstPort :: "i32 list"
  protocol_c :: "i16 list"
  tcpFlags :: "i16 list"
  packets_c :: "i64 list"
  bytes_c :: "i64 list"
  samplingRate :: "i32 list"
  inIface :: "i32 list"
  outIface :: "i32 list"
  srcAS :: "i32 list"
  dstAS :: "i32 list"
  nextHop :: "Addr option list"
  dedupKey :: "byte list option list"

definition newColumns :: columns where
  "newColumns = \<lparr>receivedAt = [], firstSwitched = [], lastSwitched = [], exporterID = [],
     flowType = [], srcAddr = [], dstAddr = [], srcPort = [], dstPort = [], protocol_c = [],
     tcpFlags = [], packets_c = [], bytes_c = [], samplingRate = [], inIface = [], outIface = [],
     srcAS = [], dstAS = [], nextHop = [], dedupKey = []\<rparr>"

text \<open>\<open>add\<close>: the integer conversions keep the bits, an invalid next hop becomes NULL.\<close>

definition add_columns :: "columns \<Rightarrow> FlowRecord \<Rightarrow> i64 \<Rightarrow> columns" where
  "add_columns c r i =
     c\<lparr>receivedAt := receivedAt c @ [micro (ReceivedAt r)],
       exporterID := exporterID c @ [i],
       flowType := flowType c @ [FlowType_of r],
       firstSwitched := firstSwitched c @ [micro (FirstSwitched r)],
       lastSwitched := lastSwitched c @ [micro (LastSwitched r)],
       srcAddr := srcAddr c @ [SrcAddr r],
       dstAddr := dstAddr c @ [DstAddr r],
       srcPort := srcPort c @ [ucast (SrcPort r)],
       dstPort := dstPort c @ [ucast (DstPort r)],
       protocol_c := protocol_c c @ [ucast (Protocol r)],
       tcpFlags := tcpFlags c @ [ucast (TCPFlags r)],
       packets_c := packets_c c @ [Packets r],
       bytes_c := bytes_c c @ [Bytes r],
       samplingRate := samplingRate c @ [SamplingRate r],
       inIface := inIface c @ [InputIface r],
       outIface := outIface c @ [OutputIface r],
       srcAS := srcAS c @ [SrcAS r],
       dstAS := dstAS c @ [DstAS r],
       nextHop := nextHop c @ [if is_valid (NextHop r) then Some (NextHop r) else None],
       dedupKey := dedupKey c @ [DedupKey r]\<rparr>"

text \<open>
  \<open>copySource\<close> indexes the arrays; the INSERT hands them over as \<open>args\<close>, in the order of
  the column list, and \<open>unnest\<close> walks them in step.
\<close>

definition row_at :: "columns \<Rightarrow> nat \<Rightarrow> pg_row" where
  "row_at c i = \<lparr>received_at = receivedAt c ! i, exporter_id = exporterID c ! i,
     flow_type = flowType c ! i, first_switched = firstSwitched c ! i,
     last_switched = lastSwitched c ! i, src_addr = srcAddr c ! i, dst_addr = dstAddr c ! i,
     src_port = srcPort c ! i, dst_port = dstPort c ! i, protocol = protocol_c c ! i,
     tcp_flags = tcpFlags c ! i, packets = packets_c c ! i, bytes = bytes_c c ! i,
     sampling_rate = samplingRate c ! i, input_iface = inIface c ! i, output_iface = outIface c ! i,
     src_as = srcAS c ! i, dst_as = dstAS c ! i, next_hop = nextHop c ! i, dedup_key = dedupKey c ! i\<rparr>"

definition copySource :: "columns \<Rightarrow> pg_row list" where
  "copySource c = map (row_at c) [0..<length (receivedAt c)]"

definition tl_columns :: "columns \<Rightarrow> columns" where
  "tl_columns c = \<lparr>receivedAt = tl (receivedAt c), firstSwitched = tl (firstSwitched c),
     lastSwitched = tl (lastSwitched c), exporterID = tl (exporterID c), flowType = tl (flowType c),
     srcAddr = tl (srcAddr c), dstAddr = tl (dstAddr c), srcPort = tl (srcPort c),
     dstPort = tl (dstPort c), protocol_c = tl (protocol_c c), tcpFlags = tl (tcpFlags c),
     packets_c = tl (packets_c c), bytes_c = tl (bytes_c c), samplingRate = tl (samplingRate c),
     inIface = tl (inIface c), outIface = tl (outIface c), srcAS = tl (srcAS c), dstAS = tl (dstAS c),
     nextHop = tl (nextHop c), dedupKey = tl (dedupKey c)\<rparr>"

fun unnest :: "nat \<Rightarrow> columns \<Rightarrow> pg_row list" where
  "unnest 0 c = []"
| "unnest (Suc n) c = row_at c 0 # unnest n (tl_columns c)"

definition args :: "columns \<Rightarrow> pg_row list" where
  "args c = unnest (length (receivedAt c)) c"

text \<open>The row of one record.\<close>

definition row_of :: "FlowRecord \<Rightarrow> i64 \<Rightarrow> pg_row" where
  "row_of r i = row_at (add_columns newColumns r i) 0"

definition columns_of :: "(FlowRecord \<Rightarrow> i64) \<Rightarrow> FlowRecord list \<Rightarrow> columns" where
  "columns_of ids rs = foldl (\<lambda>c r. add_columns c r (ids r)) newColumns rs"

definition lengths :: "columns \<Rightarrow> nat list" where
  "lengths c = [length (receivedAt c), length (firstSwitched c), length (lastSwitched c),
     length (exporterID c), length (flowType c), length (srcAddr c), length (dstAddr c),
     length (srcPort c), length (dstPort c), length (protocol_c c), length (tcpFlags c),
     length (packets_c c), length (bytes_c c), length (samplingRate c), length (inIface c),
     length (outIface c), length (srcAS c), length (dstAS c), length (nextHop c), length (dedupKey c)]"

definition even_columns :: "nat \<Rightarrow> columns \<Rightarrow> bool" where
  "even_columns n c \<longleftrightarrow> lengths c = replicate 20 n"

lemmas even_simps = even_columns_def lengths_def numeral_eq_Suc

lemma even_add: "even_columns n c \<Longrightarrow> even_columns (Suc n) (add_columns c r i)"
  by (simp add: even_simps add_columns_def)

lemma even_new: "even_columns 0 newColumns"
  by (simp add: even_simps newColumns_def)

lemma even_tl: "even_columns (Suc n) c \<Longrightarrow> even_columns n (tl_columns c)"
  by (simp add: even_simps tl_columns_def)

lemma row_at_tl: "even_columns (Suc n) c \<Longrightarrow> i < n \<Longrightarrow> row_at (tl_columns c) i = row_at c (Suc i)"
  by (simp add: even_simps tl_columns_def row_at_def nth_tl)

lemma row_at_add_old: "even_columns n c \<Longrightarrow> k < n \<Longrightarrow> row_at (add_columns c r i) k = row_at c k"
  by (simp add: even_simps add_columns_def row_at_def nth_append)

lemma row_at_add_new: "even_columns n c \<Longrightarrow> row_at (add_columns c r i) n = row_of r i"
  by (simp add: even_simps add_columns_def row_at_def row_of_def newColumns_def nth_append)

lemma even_length: "even_columns n c \<Longrightarrow> length (receivedAt c) = n"
  by (simp add: even_simps)

lemma copySource_add:
  assumes "even_columns n c"
  shows "copySource (add_columns c r i) = copySource c @ [row_of r i]"
proof -
  have "map (row_at (add_columns c r i)) [0..<n] = map (row_at c) [0..<n]"
    using row_at_add_old [OF assms] by simp
  then show ?thesis
    using row_at_add_new [OF assms] even_length [OF assms] even_length [OF even_add [OF assms]]
    by (simp add: copySource_def)
qed

lemma columns_of_rows:
  "even_columns (length rs) (columns_of ids rs) \<and>
   copySource (columns_of ids rs) = map (\<lambda>r. row_of r (ids r)) rs"
proof (induction rs rule: rev_induct)
  case Nil
  show ?case using even_new by (simp add: columns_of_def copySource_def newColumns_def)
next
  case (snoc r rs)
  have "columns_of ids (rs @ [r]) = add_columns (columns_of ids rs) r (ids r)"
    by (simp add: columns_of_def)
  with snoc copySource_add [of "length rs" "columns_of ids rs" r "ids r"] show ?case
    by (simp add: even_add)
qed

lemma unnest_rows: "even_columns n c \<Longrightarrow> unnest n c = map (row_at c) [0..<n]"
proof (induction n arbitrary: c)
  case (Suc n)
  have "unnest n (tl_columns c) = map (row_at c \<circ> Suc) [0..<n]"
    using Suc row_at_tl by (simp add: even_tl)
  also have "\<dots> = map (row_at c) [1..<Suc n]" by (simp add: map_Suc_upt flip: map_map)
  finally show ?case by (simp add: upt_conv_Cons del: upt_Suc)
qed simp

lemma args_columns_of: "args (columns_of ids rs) = copySource (columns_of ids rs)"
  using columns_of_rows [of rs ids] unnest_rows [of "length rs" "columns_of ids rs"]
    even_length [of "length rs" "columns_of ids rs"]
  by (simp add: args_def copySource_def)

section \<open>The driver\<close>

text \<open>
  pgx is outside the repository. What it does with an argument of a time or address column,
  and with an address column it reads, are parameters: \<open>enc_time\<close> at the column's
  precision, \<open>enc_inet\<close> with \<open>None\<close> for NULL, \<open>dec_inet\<close> the prefix it scans.
\<close>

record driver =
  enc_time :: "time \<Rightarrow> time"
  enc_inet :: "Addr \<Rightarrow> Addr option"
  dec_inet :: "Addr \<Rightarrow> Addr \<times> nat"

text \<open>The instants a \<open>timestamptz\<close> column holds: whole microseconds from 4713 BC to 294276 AD.\<close>

definition pg_time :: "time \<Rightarrow> bool" where
  "pg_time t \<longleftrightarrow> on_micro t \<and> - 210866803200 * Second \<le> t \<and> t < 9224318016000 * Second"

text \<open>
  The instants of the column and zone-free addresses survive, the invalid address is NULL,
  an \<open>inet\<close> column never holds a zone.
\<close>

definition faithful :: "driver \<Rightarrow> bool" where
  "faithful d \<longleftrightarrow> (\<forall>t. pg_time t \<longrightarrow> enc_time d t = t) \<and> enc_inet d AddrZero = None \<and>
     (\<forall>a x. enc_inet d a = Some x \<longrightarrow> is_valid x \<and> zone_free x) \<and>
     (\<forall>a. is_valid a \<longrightarrow> zone_free a \<longrightarrow> enc_inet d a = Some a \<and> fst (dec_inet d a) = a)"

lemma faithfulD:
  assumes "faithful d"
  shows "pg_time t \<Longrightarrow> enc_time d t = t" "enc_inet d AddrZero = None"
    "is_valid a \<Longrightarrow> zone_free a \<Longrightarrow> enc_inet d a = Some a"
    "is_valid a \<Longrightarrow> zone_free a \<Longrightarrow> fst (dec_inet d a) = a"
    "enc_inet d a = Some x \<Longrightarrow> is_valid x \<and> zone_free x"
  using assms unfolding faithful_def by blast+

text \<open>A row as the table holds it; a NULL in a NOT NULL column is \<open>None\<close>.\<close>

definition encode_row :: "driver \<Rightarrow> pg_row \<Rightarrow> pg_row option" where
  "encode_row d v =
     (case (enc_inet d (src_addr v), enc_inet d (dst_addr v)) of
        (Some s, Some t) \<Rightarrow>
          Some (v\<lparr>received_at := enc_time d (received_at v),
                  first_switched := enc_time d (first_switched v),
                  last_switched := enc_time d (last_switched v),
                  src_addr := s, dst_addr := t,
                  next_hop := Option.bind (next_hop v) (enc_inet d)\<rparr>)
      | _ \<Rightarrow> None)"

section \<open>Reading a row back\<close>

definition scanRecord :: "driver \<Rightarrow> Addr \<Rightarrow> pg_row \<Rightarrow> FlowRecord" where
  "scanRecord d exporter v =
     zero_record
       \<lparr>ReceivedAt := received_at v, ExporterID := exporter_id v,
        FirstSwitched := first_switched v, LastSwitched := last_switched v,
        DedupKey := dedup_key v,
        ExporterAddr := fst (dec_inet d exporter),
        FlowType_of := flow_type v,
        SrcAddr := fst (dec_inet d (src_addr v)), DstAddr := fst (dec_inet d (dst_addr v)),
        SrcPort := ucast (src_port v), DstPort := ucast (dst_port v),
        Protocol := ucast (protocol v), TCPFlags := ucast (tcp_flags v),
        Packets := packets v, Bytes := bytes v, SamplingRate := sampling_rate v,
        InputIface := input_iface v, OutputIface := output_iface v,
        SrcAS := src_as v, DstAS := dst_as v,
        NextHop := (case next_hop v of Some a \<Rightarrow> fst (dec_inet d a) | None \<Rightarrow> AddrZero)\<rparr>"

lemma ucast_back [simp]:
  "(ucast (ucast (p :: u16) :: i32) :: u16) = p" "(ucast (ucast (b :: u8) :: i16) :: u8) = b"
  by (rule bit_word_eqI, simp add: bit_simps)+

text \<open>What storing does to a record: times at microseconds, the id of the exporter's row.\<close>

definition as_stored :: "i64 \<Rightarrow> FlowRecord \<Rightarrow> FlowRecord" where
  "as_stored i r = r\<lparr>ReceivedAt := micro (ReceivedAt r), FirstSwitched := micro (FirstSwitched r),
     LastSwitched := micro (LastSwitched r), ExporterID := i\<rparr>"

definition storable :: "FlowRecord \<Rightarrow> bool" where
  "storable r \<longleftrightarrow> list_all (\<lambda>a. is_valid a \<and> zone_free a) [ExporterAddr r, SrcAddr r, DstAddr r] \<and>
     zone_free (NextHop r) \<and> Valid (FlowType_of r) \<and>
     list_all (pg_time \<circ> micro) [ReceivedAt r, FirstSwitched r, LastSwitched r]"

lemma encode_row_of:
  assumes "faithful d" and "storable r"
  shows "encode_row d (row_of r i) = Some (row_of r i)"
  using assms faithfulD(1-4) [OF assms(1)]
  by (cases "is_valid (NextHop r)")
     (simp_all add: encode_row_def row_of_def row_at_def add_columns_def newColumns_def storable_def)

lemma scan_encode_row:
  assumes "faithful d" and "storable r"
  shows "map_option (scanRecord d (ExporterAddr r)) (encode_row d (row_of r i)) = Some (as_stored i r)"
proof -
  have nh: "\<not> is_valid a \<longleftrightarrow> a = AddrZero" for a by (cases a) auto
  show ?thesis
    using assms faithfulD(1-4) [OF assms(1)] unfolding encode_row_of [OF assms]
    by (cases r, cases "is_valid (NextHop r)")
       (simp_all add: scanRecord_def row_of_def row_at_def add_columns_def newColumns_def storable_def
          as_stored_def zero_record_def nh)
qed

end
