(* ===== verification/Exporters.thy ===== *)
theory Exporters
  imports Flow "HOL-Library.Multiset"
begin

text \<open>
  Resolving the exporters of a batch, which the PostgreSQL and the MariaDB backend do the
  same way: the latest receive time per address, the bounded id cache, and the loop over the
  addresses that touches a cached exporter or upserts an unknown one. The cache and the
  exporters table are interfaces (locales); the loop is correct for every provider of them.
\<close>

section \<open>The latest receive time per exporter\<close>

fun put :: "'a \<Rightarrow> 'b \<Rightarrow> ('a \<times> 'b) list \<Rightarrow> ('a \<times> 'b) list" where
  "put k v [] = [(k, v)]"
| "put k v ((k', v') # m) = (if k = k' then (k, v) # m else (k', v') # put k v m)"

definition note_seen :: "(Addr \<times> time) list \<Rightarrow> FlowRecord \<Rightarrow> (Addr \<times> time) list" where
  "note_seen seen r =
     (case map_of seen (ExporterAddr r) of
        Some t \<Rightarrow> if t < ReceivedAt r then put (ExporterAddr r) (micro (ReceivedAt r)) seen else seen
      | None \<Rightarrow> put (ExporterAddr r) (micro (ReceivedAt r)) seen)"

definition seen_of :: "FlowRecord list \<Rightarrow> (Addr \<times> time) list" where
  "seen_of rs = foldl note_seen [] rs"

lemma map_of_put: "map_of (put k v m) = (map_of m)(k \<mapsto> v)"
  by (induction m) (auto simp: fun_eq_iff)

lemma keys_put: "fst ` set (put k v m) = insert k (fst ` set m)"
proof (induction m)
  case (Cons x m)
  then show ?case by (cases x) auto
qed simp

lemma distinct_put: "distinct (map fst m) \<Longrightarrow> distinct (map fst (put k v m))"
proof (induction m)
  case (Cons x m)
  then show ?case by (cases x) (auto simp: keys_put)
qed simp

definition latest :: "FlowRecord list \<Rightarrow> Addr \<Rightarrow> time option" where
  "latest rs a =
     (let ts = map (micro \<circ> ReceivedAt) (filter (\<lambda>r. ExporterAddr r = a) rs)
      in if ts = [] then None else Some (Max (set ts)))"

lemma latest_snoc:
  "latest (rs @ [r]) a =
     (if ExporterAddr r = a
      then Some (case latest rs a of None \<Rightarrow> micro (ReceivedAt r) | Some t \<Rightarrow> max t (micro (ReceivedAt r)))
      else latest rs a)"
proof (cases "filter (\<lambda>r. ExporterAddr r = a) rs = []")
  case True
  then show ?thesis by (simp add: latest_def Let_def)
next
  case False
  let ?T = "(micro \<circ> ReceivedAt) ` set (filter (\<lambda>r. ExporterAddr r = a) rs)"
  have "latest rs a = Some (Max ?T)" using False by (simp add: latest_def Let_def)
  moreover have ne: "?T \<noteq> {}" using False by (simp only: image_is_empty set_empty simp_thms)
  have "finite ?T" by simp
  then have "Max (insert (micro (ReceivedAt r)) ?T) = max (Max ?T) (micro (ReceivedAt r))"
    using ne by (subst Max_insert) (assumption, assumption, rule max.commute)
  ultimately show ?thesis using False by (simp add: latest_def Let_def)
qed

lemma latest_on_micro: "latest rs a = Some t \<Longrightarrow> on_micro t"
proof -
  assume l: "latest rs a = Some t"
  let ?T = "(micro \<circ> ReceivedAt) ` set (filter (\<lambda>r. ExporterAddr r = a) rs)"
  have t: "t = Max ?T" using l by (simp add: latest_def Let_def split: if_splits)
  have "filter (\<lambda>r. ExporterAddr r = a) rs \<noteq> []" using l by (auto simp: latest_def Let_def)
  then have "?T \<noteq> {}" by (simp only: image_is_empty set_empty simp_thms)
  then have "Max ?T \<in> ?T" by (intro Max_in) simp_all
  with t have "t \<in> ?T" by (simp only:)
  then show ?thesis by auto
qed

lemma micro_less: "on_micro t \<Longrightarrow> t < s \<Longrightarrow> t \<le> micro s"
  using micro_mono [of t s] by simp

lemma micro_not_less: "\<not> t < s \<Longrightarrow> micro s \<le> t"
  using micro_le [of s] by simp

lemma seen_of_latest: "map_of (seen_of rs) = latest rs \<and> distinct (map fst (seen_of rs))"
proof (induction rs rule: rev_induct)
  case Nil
  show ?case by (simp add: seen_of_def latest_def fun_eq_iff)
next
  case (snoc r rs)
  have step: "seen_of (rs @ [r]) = note_seen (seen_of rs) r" by (simp add: seen_of_def)
  have "map_of (note_seen (seen_of rs) r) a = latest (rs @ [r]) a" for a
    using snoc latest_on_micro [of rs "ExporterAddr r"]
    by (auto simp: note_seen_def map_of_put latest_snoc max_def split: option.splits
        dest: micro_less micro_not_less)
  then show ?case
    using snoc step by (auto simp: note_seen_def distinct_put fun_eq_iff split: option.splits)
qed

section \<open>Ranging over a map\<close>

text \<open>
  Go ranges over a map in an order of its own. The order is an argument, a list of picks from the entries
  that are left; every order is one of them.
\<close>

fun range_over :: "nat list \<Rightarrow> 'a list \<Rightarrow> 'a list" where
  "range_over [] xs = xs"
| "range_over (k # ks) xs =
     (if xs = [] then []
      else let i = k mod length xs in xs ! i # range_over ks (take i xs @ drop (Suc i) xs))"

lemma mset_range_over [simp]: "mset (range_over ks xs) = mset xs"
proof (induction ks xs rule: range_over.induct)
  case (2 k ks xs)
  show ?case
  proof (cases "xs = []")
    case False
    then have "k mod length xs < length xs" by simp
    then have "mset xs = mset (take (k mod length xs) xs @ xs ! (k mod length xs) # drop (Suc (k mod length xs)) xs)"
      by (simp only: id_take_nth_drop [symmetric])
    then show ?thesis using 2 False by (simp add: Let_def)
  qed simp
qed simp

lemma range_over_any: "mset ys = mset xs \<Longrightarrow> \<exists>ks. range_over ks xs = ys"
proof (induction ys arbitrary: xs)
  case (Cons y ys)
  then have "y \<in> set xs" by (metis list.set_intros(1) set_mset_mset)
  then obtain i where i: "i < length xs" "xs ! i = y" by (auto simp: in_set_conv_nth)
  have "mset xs = mset (take i xs @ xs ! i # drop (Suc i) xs)" using id_take_nth_drop [OF i(1)] by metis
  then have "mset ys = mset (take i xs @ drop (Suc i) xs)" using Cons.prems i by simp
  from Cons.IH [OF this] obtain ks where "range_over ks (take i xs @ drop (Suc i) xs) = ys" by blast
  then show ?case using i by (intro exI [of _ "i # ks"]) (auto simp: Let_def)
qed (auto intro!: exI [of _ "[]"])

lemma set_range_over [simp]: "set (range_over ks xs) = set xs"
  by (metis mset_range_over set_mset_mset)

lemma length_range_over [simp]: "length (range_over ks xs) = length xs"
  by (metis mset_range_over size_mset)

lemma distinct_range_over: "distinct (map f xs) \<Longrightarrow> distinct (map f (range_over ks xs))"
  by (metis mset_eq_imp_distinct_iff mset_map mset_range_over)

lemma map_of_range_over: "distinct (map fst m) \<Longrightarrow> map_of (range_over ks m) = map_of m"
  by (simp add: map_of_inject_set distinct_range_over)

section \<open>Faults\<close>

text \<open>
  What can happen to a statement on the way: nothing, the connection is lost before it takes
  effect, or after, so that the caller sees an error for a statement that was carried out.
\<close>

datatype fault = Fine | LostRequest | LostReply

section \<open>The id cache\<close>

text \<open>
  \<open>good\<close> are the addresses a table tells apart: it may refuse or identify others.
\<close>

locale id_cache =
  fixes cached :: "'c \<Rightarrow> Addr \<Rightarrow> i64 option"
    and remember :: "Addr \<Rightarrow> i64 \<Rightarrow> 'c \<Rightarrow> 'c"
    and size_of :: "'c \<Rightarrow> nat"
    and cap :: nat
    and good :: "Addr \<Rightarrow> bool"
  assumes cached_remember: "cached (remember a i c) a = Some i"
    and cached_other: "b \<noteq> a \<Longrightarrow> cached (remember a i c) b = Some j \<Longrightarrow> cached c b = Some j"
    and size_remember: "size_of c \<le> cap \<Longrightarrow> size_of (remember a i c) \<le> cap"
begin

definition sound :: "(Addr \<Rightarrow> i64 option) \<Rightarrow> 'c \<Rightarrow> bool" where
  "sound ids c \<longleftrightarrow> (\<forall>a i. good a \<longrightarrow> cached c a = Some i \<longrightarrow> ids a = Some i)"

lemma sound_remember: "sound ids c \<Longrightarrow> ids a = Some i \<Longrightarrow> sound ids (remember a i c)"
  unfolding sound_def using cached_remember cached_other by (metis option.inject)

lemma sound_mono:
  "sound ids c \<Longrightarrow> (\<And>a i. good a \<Longrightarrow> ids a = Some i \<Longrightarrow> ids' a = Some i) \<Longrightarrow> sound ids' c"
  by (auto simp: sound_def)

end

section \<open>The loop\<close>

text \<open>
  One statement per address; \<open>faults\<close> tells what happens to the statements (nothing, when the list runs
  out), and an upsert may still be refused by the table.
\<close>

fun resolve_loop :: "('c \<Rightarrow> Addr \<Rightarrow> i64 option) \<Rightarrow> (Addr \<Rightarrow> i64 \<Rightarrow> 'c \<Rightarrow> 'c) \<Rightarrow>
    (i64 \<Rightarrow> time \<Rightarrow> 'db \<Rightarrow> 'db) \<Rightarrow> (Addr \<Rightarrow> time \<Rightarrow> 'db \<Rightarrow> (i64 \<times> 'db) option) \<Rightarrow>
    (Addr \<times> time) list \<Rightarrow> fault list \<Rightarrow> 'c \<Rightarrow> 'db \<Rightarrow> (string + (Addr \<times> i64) list) \<times> 'c \<times> 'db" where
  "resolve_loop cached remember touch upsert [] faults c db = (Inr [], c, db)"
| "resolve_loop cached remember touch upsert ((a, t) # seen) faults c db =
     (let fault = (case faults of [] \<Rightarrow> Fine | f # _ \<Rightarrow> f)
      in case cached c a of
           Some i \<Rightarrow>
             (case fault of
                LostRequest \<Rightarrow> (Inl ''touch exporter'', c, db)
              | LostReply \<Rightarrow> (Inl ''touch exporter'', c, touch i t db)
              | Fine \<Rightarrow>
                  (case resolve_loop cached remember touch upsert seen (tl faults) c (touch i t db) of
                     (Inr ids, c', db') \<Rightarrow> (Inr ((a, i) # ids), c', db')
                   | failed \<Rightarrow> failed))
         | None \<Rightarrow>
             (case (if fault = LostRequest then None else upsert a t db) of
                None \<Rightarrow> (Inl ''upsert exporter'', c, db)
              | Some (i, db1) \<Rightarrow>
                  if fault = LostReply then (Inl ''upsert exporter'', c, db1)
                  else (case resolve_loop cached remember touch upsert seen (tl faults)
                               (remember a i c) db1 of
                          (Inr ids, c', db') \<Rightarrow> (Inr ((a, i) # ids), c', db')
                        | failed \<Rightarrow> failed)))"

lemma resolve_error:
  "resolve_loop cached remember touch upsert seen faults c db = (Inl e, c', db') \<Longrightarrow>
     e = ''touch exporter'' \<or> e = ''upsert exporter''"
proof (induction seen arbitrary: faults c db)
  case (Cons x seen)
  then show ?case
    by (cases x) (auto simp: Let_def split: option.splits prod.splits sum.splits fault.splits if_splits list.splits)
qed simp

definition later :: "time option \<Rightarrow> time \<Rightarrow> time option" where
  "later s t = Some (case s of Some u \<Rightarrow> max u t | None \<Rightarrow> t)"

text \<open>
  The exporters table: \<open>ids\<close> is the id of an address, \<open>seen_at\<close> its last receive time;
  \<open>exact\<close> are the times its columns keep as they are.
\<close>

locale exporter_table = id_cache +
  fixes ids :: "'db \<Rightarrow> Addr \<Rightarrow> i64 option"
    and seen_at :: "'db \<Rightarrow> Addr \<Rightarrow> time option"
    and touch :: "i64 \<Rightarrow> time \<Rightarrow> 'db \<Rightarrow> 'db"
    and upsert :: "Addr \<Rightarrow> time \<Rightarrow> 'db \<Rightarrow> (i64 \<times> 'db) option"
    and db_ok :: "'db \<Rightarrow> bool"
    and all_ids :: "'db \<Rightarrow> i64 set"
    and exact :: "time \<Rightarrow> bool"
  assumes ok_touch: "db_ok db \<Longrightarrow> db_ok (touch i t db)"
    and ok_upsert: "db_ok db \<Longrightarrow> upsert a t db = Some (i, db') \<Longrightarrow> db_ok db'"
    and touch_ids: "db_ok db \<Longrightarrow> ids (touch i t db) b = ids db b"
    and touch_seen: "db_ok db \<Longrightarrow> good a \<Longrightarrow> good b \<Longrightarrow> ids db a = Some i \<Longrightarrow> exact t \<Longrightarrow>
      seen_at (touch i t db) b = (if b = a then later (seen_at db a) t else seen_at db b)"
    and upsert_ids: "db_ok db \<Longrightarrow> good a \<Longrightarrow> good b \<Longrightarrow> upsert a t db = Some (i, db') \<Longrightarrow>
      ids db' b = (if b = a then Some i else ids db b)"
    and upsert_known: "db_ok db \<Longrightarrow> good a \<Longrightarrow> upsert a t db = Some (i, db') \<Longrightarrow>
      ids db a = Some j \<Longrightarrow> i = j"
    and upsert_seen: "db_ok db \<Longrightarrow> good a \<Longrightarrow> good b \<Longrightarrow> exact t \<Longrightarrow>
      upsert a t db = Some (i, db') \<Longrightarrow>
      seen_at db' b = (if b = a then later (seen_at db a) t else seen_at db b)"
    and touch_all: "all_ids (touch i t db) = all_ids db"
    and upsert_all: "upsert a t db = Some (i, db') \<Longrightarrow> all_ids db \<subseteq> all_ids db'"
begin

abbreviation resolve :: "(Addr \<times> time) list \<Rightarrow> fault list \<Rightarrow> 'a \<Rightarrow> 'db \<Rightarrow>
    (string + (Addr \<times> i64) list) \<times> 'a \<times> 'db" where
  "resolve \<equiv> resolve_loop cached remember touch upsert"

definition bump :: "(Addr \<times> time) list \<Rightarrow> (Addr \<Rightarrow> time option) \<Rightarrow> Addr \<Rightarrow> time option" where
  "bump seen f a = (case map_of seen a of None \<Rightarrow> f a | Some t \<Rightarrow> later (f a) t)"

lemma bump_Cons:
  assumes "a \<notin> fst ` set seen" and "f' b = (if b = a then later (f a) t else f b)"
  shows "bump seen f' b = bump ((a, t) # seen) f b"
proof -
  have "map_of seen a = None" using assms(1) by (simp add: map_of_eq_None_iff)
  then show ?thesis using assms(2) by (auto simp: bump_def split: option.splits)
qed

text \<open>One turn of the loop: the table and the cache before the rest of the addresses.\<close>

definition turn :: "Addr \<Rightarrow> time \<Rightarrow> 'a \<Rightarrow> 'db \<Rightarrow> i64 \<Rightarrow> 'a \<Rightarrow> 'db \<Rightarrow> bool" where
  "turn a t c db i c1 db1 \<longleftrightarrow>
     (case cached c a of
        Some j \<Rightarrow> i = j \<and> c1 = c \<and> db1 = touch i t db
      | None \<Rightarrow> upsert a t db = Some (i, db1) \<and> c1 = remember a i c)"

lemma resolve_ConsE:
  assumes "resolve ((a, t) # seen) oks c db = (res, c', db')"
  obtains e where "res = Inl e" "c' = c" "db' = db"
  | e i c1 where "res = Inl e" "c' = c" "turn a t c db i c1 db'"
  | i c1 db1 res' where "turn a t c db i c1 db1" "resolve seen (tl oks) c1 db1 = (res', c', db')"
      "res = (case res' of Inl e \<Rightarrow> Inl e | Inr is \<Rightarrow> Inr ((a, i) # is))"
  using assms by (auto simp: turn_def Let_def split: if_splits prod.splits sum.splits option.splits fault.splits)

definition kept :: "'a \<Rightarrow> 'db \<Rightarrow> bool" where
  "kept c db \<longleftrightarrow> db_ok db \<and> sound (ids db) c \<and> size_of c \<le> cap"

definition extends :: "'db \<Rightarrow> 'db \<Rightarrow> bool" where
  "extends db db' \<longleftrightarrow> (\<forall>a i. good a \<longrightarrow> ids db a = Some i \<longrightarrow> ids db' a = Some i)"

lemma turn_ok:
  assumes "turn a t c db i c1 db1" and "kept c db" and g: "good a" "exact t"
  shows "kept c1 db1" and "extends db db1" and "ids db1 a = Some i"
    and "\<And>b. good b \<Longrightarrow> seen_at db1 b = (if b = a then later (seen_at db a) t else seen_at db b)"
proof -
  have ok: "db_ok db" and s: "sound (ids db) c" and z: "size_of c \<le> cap"
    using assms(2) by (simp_all add: kept_def)
  have "kept c1 db1 \<and> extends db db1 \<and> ids db1 a = Some i \<and>
    (\<forall>b. good b \<longrightarrow> seen_at db1 b = (if b = a then later (seen_at db a) t else seen_at db b))"
  proof (cases "cached c a")
    case (Some j)
    then have i: "ids db a = Some i" and u: "c1 = c" "db1 = touch i t db"
      using assms(1) s g by (auto simp: sound_def turn_def)
    then show ?thesis
      using touch_ids [OF ok] touch_seen [OF ok g(1) _ i g(2)] ok_touch [OF ok] s z
      by (simp add: kept_def extends_def sound_def)
  next
    case None
    then have u: "upsert a t db = Some (i, db1)" and c1: "c1 = remember a i c"
      using assms(1) by (auto simp: turn_def)
    have ids1: "ids db1 b = (if b = a then Some i else ids db b)" if "good b" for b
      using upsert_ids [OF ok g(1) that u] .
    have old: "ids db1 b = Some j" if "good b" "ids db b = Some j" for b j
      using upsert_known [OF ok g(1) u, of j] that ids1 by (cases "b = a") auto
    have "sound (ids db1) (remember a i c)"
      using sound_mono [OF s, of "ids db1"] old ids1 [OF g(1)]
      by (intro sound_remember) (blast, simp)
    then show ?thesis
      using upsert_seen [OF ok g(1) _ g(2) u] ok_upsert [OF ok u] size_remember [OF z] ids1 [OF g(1)] old c1
      by (simp add: kept_def extends_def)
  qed
  then show "kept c1 db1" and "extends db db1" and "ids db1 a = Some i"
    and "\<And>b. good b \<Longrightarrow> seen_at db1 b = (if b = a then later (seen_at db a) t else seen_at db b)"
    by blast+
qed

definition resolved :: "(Addr \<times> time) list \<Rightarrow> (Addr \<times> i64) list \<Rightarrow> 'db \<Rightarrow> 'db \<Rightarrow> bool" where
  "resolved seen is db db' \<longleftrightarrow>
     map fst is = map fst seen \<and>
     (\<forall>a i. (a, i) \<in> set is \<longrightarrow> ids db' a = Some i) \<and>
     (\<forall>a. good a \<longrightarrow> seen_at db' a = bump seen (seen_at db) a)"

lemma resolve_ok:
  assumes "resolve seen oks c db = (res, c', db')" and "kept c db" and "distinct (map fst seen)"
    and "\<And>a t. (a, t) \<in> set seen \<Longrightarrow> good a \<and> exact t"
  shows "kept c' db' \<and> extends db db' \<and> (\<forall>is. res = Inr is \<longrightarrow> resolved seen is db db')"
  using assms
proof (induction seen arbitrary: oks c db res)
  case Nil
  then show ?case by (auto simp: bump_def resolved_def extends_def)
next
  case (Cons at seen)
  obtain a t where at: "at = (a, t)" by (cases at)
  have nin: "a \<notin> fst ` set seen" and d: "distinct (map fst seen)" using Cons.prems(3) at by auto
  have g: "good a" "exact t" and gs: "\<And>a t. (a, t) \<in> set seen \<Longrightarrow> good a \<and> exact t"
    using Cons.prems(4) at by auto
  from Cons.prems(1) [unfolded at] show ?case
  proof (cases rule: resolve_ConsE)
    case (1 e)
    then show ?thesis using Cons.prems(2) by (simp add: extends_def)
  next
    case (2 e i c1)
    note turn = turn_ok [OF 2(3) Cons.prems(2) g]
    have "sound (ids db') c"
      using turn(2) Cons.prems(2) by (auto simp: kept_def extends_def intro: sound_mono)
    then show ?thesis using 2 turn(1,2) Cons.prems(2) by (simp add: kept_def)
  next
    case (3 i c1 db1 res')
    note turn = turn_ok [OF 3(1) Cons.prems(2) g]
    note IH = Cons.IH [OF 3(2) turn(1) d gs]
    have "extends db db'" using IH turn(2) by (simp add: extends_def)
    moreover have "resolved ((a, t) # seen) ((a, i) # is) db db'" if "res' = Inr is" for "is"
    proof -
      have r: "resolved seen is db1 db'" using IH that by simp
      have "bump seen (seen_at db1) b = bump ((a, t) # seen) (seen_at db) b" if "good b" for b
        using turn(4) [OF that] by (rule bump_Cons [OF nin])
      moreover have "ids db' a = Some i" using IH turn(3) g(1) by (simp add: extends_def)
      ultimately show ?thesis using r by (auto simp: resolved_def)
    qed
    ultimately show ?thesis using IH 3(3) by (auto simp: at split: sum.splits)
  qed
qed

lemma turn_all: "turn a t c db i c1 db1 \<Longrightarrow> all_ids db \<subseteq> all_ids db1"
  unfolding turn_def by (cases "cached c a") (use touch_all upsert_all [of a t db i db1] in simp_all)

lemma resolve_all: "resolve seen oks c db = (res, c', db') \<Longrightarrow> all_ids db \<subseteq> all_ids db'"
proof (induction seen arbitrary: oks c db res)
  case (Cons at seen)
  obtain a t where at: "at = (a, t)" by (cases at)
  from Cons.prems show ?case unfolding at
  proof (cases rule: resolve_ConsE)
    case (2 e i c1)
    then show ?thesis using turn_all by blast
  next
    case (3 i c1 db1 res')
    then show ?thesis using turn_all [OF 3(1)] Cons.IH [OF 3(2)] by simp
  qed simp
qed simp

end

section \<open>The exporters of a batch\<close>

definition seen_in :: "nat list \<Rightarrow> FlowRecord list \<Rightarrow> (Addr \<times> time) list" where
  "seen_in order rs = range_over order (seen_of rs)"

lemma seen_in_latest: "map_of (seen_in order rs) = latest rs" "distinct (map fst (seen_in order rs))"
  using seen_of_latest [of rs] by (simp_all add: seen_in_def map_of_range_over distinct_range_over)

lemma set_seen_in [simp]: "set (seen_in order rs) = set (seen_of rs)"
  by (simp add: seen_in_def)

lemma seen_ofD:
  assumes "(a, t) \<in> set (seen_of rs)"
  shows "on_micro t" and "a \<in> ExporterAddr ` set rs" and "latest rs a = Some t"
    and "\<exists>r\<in>set rs. ExporterAddr r = a \<and> t = micro (ReceivedAt r)"
proof -
  have "map_of (seen_of rs) a = Some t"
    using assms seen_of_latest [of rs] by (intro map_of_is_SomeI) simp_all
  then have l: "latest rs a = Some t" using seen_of_latest [of rs] by simp
  then show "latest rs a = Some t" and "on_micro t" using latest_on_micro by simp_all
  show "a \<in> ExporterAddr ` set rs"
    using l by (auto simp: latest_def Let_def filter_empty_conv split: if_splits)
  let ?T = "(micro \<circ> ReceivedAt) ` set (filter (\<lambda>x. ExporterAddr x = a) rs)"
  have "t = Max ?T" "set (filter (\<lambda>x. ExporterAddr x = a) rs) \<noteq> {}"
    using l unfolding latest_def Let_def set_map set_empty by (simp_all split: if_splits)
  moreover from this(2) have "Max ?T \<in> ?T" by (intro Max_in) (simp_all only: finite_imageI finite_set image_is_empty simp_thms)
  ultimately have "t \<in> ?T" by (simp only:)
  then show "\<exists>r\<in>set rs. ExporterAddr r = a \<and> t = micro (ReceivedAt r)" by auto
qed

lemma latest_ge:
  assumes "r \<in> set rs"
  obtains t where "latest rs (ExporterAddr r) = Some t" and "micro (ReceivedAt r) \<le> t"
proof -
  let ?T = "(micro \<circ> ReceivedAt) ` set (filter (\<lambda>x. ExporterAddr x = ExporterAddr r) rs)"
  have "micro (ReceivedAt r) \<in> ?T" using assms by auto
  then have "micro (ReceivedAt r) \<le> Max ?T" by (intro Max_ge) simp_all
  moreover have "latest rs (ExporterAddr r) = Some (Max ?T)"
    using assms by (auto simp: latest_def Let_def filter_empty_conv)
  ultimately show ?thesis using that by blast
qed

lemma seen_of_keys: "fst ` set (seen_of rs) = ExporterAddr ` set rs"
proof
  show "fst ` set (seen_of rs) \<subseteq> ExporterAddr ` set rs" using seen_ofD(2) by auto
  show "ExporterAddr ` set rs \<subseteq> fst ` set (seen_of rs)"
  proof
    fix a assume "a \<in> ExporterAddr ` set rs"
    then obtain t where "latest rs a = Some t" using latest_ge by blast
    then have "map_of (seen_of rs) a = Some t" using seen_of_latest [of rs] by simp
    then show "a \<in> fst ` set (seen_of rs)" by (force dest: map_of_SomeD)
  qed
qed

end
