(* ===== verification/Exporters_Table.thy ===== *)
theory Exporters_Table
  imports Exporters
begin

text \<open>
  The exporters table of the two relational backends: an identity column, a unique address
  column, the statement that touches a known exporter and the statement that upserts one,
  and the bounded id cache in front of it. The type of the address column differs (an
  \<open>inet\<close> value, a byte string), and so does the way an address becomes a column value,
  which is a parameter. Together they provide the interface of \<open>Exporters\<close>.
\<close>

section \<open>The table\<close>

record 'ip exporter_row =
  x_id :: i64
  x_ip :: 'ip
  x_label :: "string option"
  x_first :: time
  x_last :: time

record 'ip exporter_tab =
  x_rows :: "'ip exporter_row list"
  x_next :: int

definition max_int64 :: int where "max_int64 = 2 ^ 63 - 1"

definition empty_tab :: "'ip exporter_tab" where
  "empty_tab = \<lparr>x_rows = [], x_next = 1\<rparr>"

definition touch_exporter :: "i64 \<Rightarrow> time \<Rightarrow> 'ip exporter_tab \<Rightarrow> 'ip exporter_tab" where
  "touch_exporter i t T =
     T\<lparr>x_rows := map (\<lambda>e. if x_id e = i \<and> x_last e < t then e\<lparr>x_last := t\<rparr> else e) (x_rows T)\<rparr>"

text \<open>
  The upsert takes a value of the identity column whether or not the address is new; a NULL
  address or an exhausted column refuses the statement.
\<close>

definition upsert_exporter :: "'ip option \<Rightarrow> time \<Rightarrow> 'ip exporter_tab \<Rightarrow> (i64 \<times> 'ip exporter_tab) option" where
  "upsert_exporter k t T =
     (case k of
        None \<Rightarrow> None
      | Some ip \<Rightarrow>
          if x_next T > max_int64 then None
          else
            (case find (\<lambda>e. x_ip e = ip) (x_rows T) of
               Some e \<Rightarrow>
                 Some (x_id e,
                   \<lparr>x_rows = map (\<lambda>x. if x_ip x = ip then x\<lparr>x_last := max (x_last x) t\<rparr> else x) (x_rows T),
                    x_next = x_next T + 1\<rparr>)
             | None \<Rightarrow>
                 (let i = word_of_int (x_next T)
                  in Some (i, \<lparr>x_rows = x_rows T @
                       [\<lparr>x_id = i, x_ip = ip, x_label = None, x_first = t, x_last = t\<rparr>],
                       x_next = x_next T + 1\<rparr>))))"

definition tab_ids :: "'ip exporter_tab \<Rightarrow> i64 list" where
  "tab_ids T = map x_id (x_rows T)"

section \<open>The cache\<close>

text \<open>The cache is cleared when it is full, rather than grown.\<close>

definition cacheCap :: nat where "cacheCap = 4096"

definition cached :: "(Addr \<times> i64) list \<Rightarrow> Addr \<Rightarrow> i64 option" where
  "cached c a = map_of c a"

definition remember :: "Addr \<Rightarrow> i64 \<Rightarrow> (Addr \<times> i64) list \<Rightarrow> (Addr \<times> i64) list" where
  "remember a i c = put a i (if length c \<ge> cacheCap then [] else c)"

lemma length_put_le: "length (put k v m) \<le> Suc (length m)"
  by (induction k v m rule: put.induct) auto

lemma cache_laws:
  "cached (remember a i c) a = Some i"
  "b \<noteq> a \<Longrightarrow> cached (remember a i c) b = Some j \<Longrightarrow> cached c b = Some j"
  "length c \<le> cacheCap \<Longrightarrow> length (remember a i c) \<le> cacheCap"
  using length_put_le [of a i c] length_put_le [of a i "[]"]
  by (auto simp: cached_def remember_def map_of_put cacheCap_def split: if_splits)

section \<open>Invariant and effects\<close>

text \<open>
  \<open>key\<close> is the column value of an address, \<open>ts\<close> that of a time, \<open>col\<close> the values the column
  can hold: addresses that are told apart have different column values, \<open>exact\<close> times
  survive.
\<close>

definition tells_apart :: "Addr \<Rightarrow> bool" where
  "tells_apart a \<longleftrightarrow> is_valid a \<and> zone_free a"

definition lawful :: "(Addr \<Rightarrow> 'ip option) \<Rightarrow> (time \<Rightarrow> time) \<Rightarrow> ('ip \<Rightarrow> bool) \<Rightarrow>
    (time \<Rightarrow> bool) \<Rightarrow> bool" where
  "lawful key ts col exact \<longleftrightarrow> (\<forall>a. tells_apart a \<longrightarrow> key a \<noteq> None) \<and>
     (\<forall>a b. tells_apart a \<longrightarrow> tells_apart b \<longrightarrow> key a = key b \<longrightarrow> a = b) \<and>
     (\<forall>a k. key a = Some k \<longrightarrow> col k) \<and> (\<forall>t. exact t \<longrightarrow> ts t = t)"

definition tab_ok :: "('ip \<Rightarrow> bool) \<Rightarrow> 'ip exporter_tab \<Rightarrow> bool" where
  "tab_ok col T \<longleftrightarrow> distinct (map x_ip (x_rows T)) \<and> distinct (map x_id (x_rows T)) \<and>
     (\<forall>e\<in>set (x_rows T). 1 \<le> sint (x_id e) \<and> sint (x_id e) < x_next T \<and> col (x_ip e)) \<and>
     1 \<le> x_next T \<and> x_next T \<le> max_int64 + 1"

definition row_at_ip :: "'ip exporter_tab \<Rightarrow> 'ip \<Rightarrow> 'ip exporter_row option" where
  "row_at_ip T ip = find (\<lambda>e. x_ip e = ip) (x_rows T)"

definition id_at :: "(Addr \<Rightarrow> 'ip option) \<Rightarrow> 'ip exporter_tab \<Rightarrow> Addr \<Rightarrow> i64 option" where
  "id_at key T a = Option.bind (key a) (\<lambda>k. map_option x_id (row_at_ip T k))"

definition last_at :: "(Addr \<Rightarrow> 'ip option) \<Rightarrow> 'ip exporter_tab \<Rightarrow> Addr \<Rightarrow> time option" where
  "last_at key T a = Option.bind (key a) (\<lambda>k. map_option x_last (row_at_ip T k))"

lemma empty_tab_ok: "tab_ok col empty_tab"
  by (simp add: tab_ok_def empty_tab_def max_int64_def)

lemma find_map_ip:
  assumes "\<And>e. x_ip (f e) = x_ip e"
  shows "find (\<lambda>e. x_ip e = a) (map f es) = map_option f (find (\<lambda>e. x_ip e = a) es)"
  by (induction es) (simp_all add: assms)

lemma find_append: "find P (xs @ ys) = (case find P xs of None \<Rightarrow> find P ys | Some x \<Rightarrow> Some x)"
  by (induction xs) simp_all

lemma row_at_ipD: "row_at_ip T ip = Some e \<Longrightarrow> e \<in> set (x_rows T) \<and> x_ip e = ip"
  by (auto simp: row_at_ip_def find_Some_iff)

lemma row_at_ip_None: "row_at_ip T ip = None \<longleftrightarrow> ip \<notin> x_ip ` set (x_rows T)"
  by (auto simp: row_at_ip_def find_None_iff)

lemma same_id: "tab_ok col T \<Longrightarrow> e \<in> set (x_rows T) \<Longrightarrow> x \<in> set (x_rows T) \<Longrightarrow> x_id e = x_id x \<Longrightarrow> e = x"
  by (auto simp: tab_ok_def distinct_map dest: inj_onD)

text \<open>An update of the table that keeps ids and addresses keeps its invariant.\<close>

lemma tab_ok_map:
  assumes "tab_ok col T" and "x_rows T' = map f (x_rows T)"
    and "\<And>e. x_ip (f e) = x_ip e" and "\<And>e. x_id (f e) = x_id e"
    and "x_next T \<le> x_next T'" and "x_next T' \<le> max_int64 + 1"
  shows "tab_ok col T'"
proof -
  have f: "x_ip \<circ> f = x_ip" "x_id \<circ> f = x_id" by (simp_all add: fun_eq_iff assms(3,4))
  have "1 \<le> sint (x_id e) \<and> sint (x_id e) < x_next T' \<and> col (x_ip e)" if "e \<in> set (x_rows T')" for e
    using that assms(1,2,5) by (auto simp: tab_ok_def assms(3,4))
  then show ?thesis using assms(1,2,5,6) by (simp add: tab_ok_def f)
qed

lemma row_at_touch:
  "row_at_ip (touch_exporter i t T) ip =
     map_option (\<lambda>e. if x_id e = i \<and> x_last e < t then e\<lparr>x_last := t\<rparr> else e) (row_at_ip T ip)"
  unfolding row_at_ip_def touch_exporter_def by (subst find_map_ip [symmetric]) simp_all

lemma touch_ok: "tab_ok col T \<Longrightarrow> tab_ok col (touch_exporter i t T)"
  by (rule tab_ok_map [where f = "\<lambda>e. if x_id e = i \<and> x_last e < t then e\<lparr>x_last := t\<rparr> else e"])
     (auto simp: touch_exporter_def tab_ok_def)

lemma touch_id: "id_at key (touch_exporter i t T) a = id_at key T a"
  by (cases "key a"; cases "row_at_ip T (the (key a))") (simp_all add: id_at_def row_at_touch)

lemma lawful_inj: "lawful key ts col exact \<Longrightarrow> tells_apart a \<Longrightarrow> tells_apart b \<Longrightarrow> key a = key b \<Longrightarrow> a = b"
  unfolding lawful_def by blast

lemma touch_last:
  assumes ok: "tab_ok col T" and "id_at key T a = Some i"
    and good: "tells_apart a" "tells_apart b" and law: "lawful key ts col exact"
  shows "last_at key (touch_exporter i t T) b = (if b = a then later (last_at key T a) t else last_at key T b)"
proof -
  obtain k e where k: "key a = Some k" and e: "row_at_ip T k = Some e" "x_id e = i"
    using assms(2) by (auto simp: id_at_def split: bind_splits)
  have other: "x_id x \<noteq> i" if x: "row_at_ip T j = Some x" and "j \<noteq> k" for j x
    using same_id [OF ok] row_at_ipD [OF e(1)] row_at_ipD [OF x] e(2) that(2) by metis
  have "key b \<noteq> Some k" if "b \<noteq> a" using lawful_inj [OF law good] k that by auto
  then show ?thesis
    using k e other
    by (cases "key b"; cases "row_at_ip T (the (key b))")
       (auto simp: last_at_def row_at_touch later_def max_def)
qed

text \<open>The two outcomes of an upsert.\<close>

lemma upsert_cases:
  assumes "upsert_exporter k t T = Some (i, T')"
  obtains (known) ip e where "k = Some ip" and "row_at_ip T ip = Some e" and "i = x_id e"
      and "x_rows T' = map (\<lambda>x. if x_ip x = ip then x\<lparr>x_last := max (x_last x) t\<rparr> else x) (x_rows T)"
      and "x_next T' = x_next T + 1" and "x_next T \<le> max_int64"
  | (new) ip where "k = Some ip" and "row_at_ip T ip = None" and "i = word_of_int (x_next T)"
      and "x_rows T' = x_rows T @ [\<lparr>x_id = i, x_ip = ip, x_label = None, x_first = t, x_last = t\<rparr>]"
      and "x_next T' = x_next T + 1" and "x_next T \<le> max_int64"
  using assms by (auto simp: upsert_exporter_def row_at_ip_def Let_def split: option.splits if_splits)

lemma sint_new_id: "1 \<le> n \<Longrightarrow> n \<le> max_int64 \<Longrightarrow> sint (word_of_int n :: i64) = n"
  using wrap64_id [of n] by (simp add: wrap64_def max_int64_def)

lemma upsert_ok:
  assumes "tab_ok col T" and "upsert_exporter k t T = Some (i, T')" and "\<And>ip. k = Some ip \<Longrightarrow> col ip"
  shows "tab_ok col T'"
  using assms(2)
proof (cases rule: upsert_cases)
  case (known ip e)
  then show ?thesis
    by (intro tab_ok_map [OF assms(1) known(4)]) (use assms(1) in \<open>auto simp: tab_ok_def\<close>)
next
  case (new ip)
  have s: "sint i = x_next T"
    using sint_new_id [of "x_next T"] new(3,6) assms(1) by (simp add: tab_ok_def)
  then have "i \<notin> x_id ` set (x_rows T)" using assms(1) by (force simp: tab_ok_def)
  moreover have "ip \<notin> x_ip ` set (x_rows T)" using new(2) by (simp add: row_at_ip_None)
  ultimately show ?thesis using assms(1) new s assms(3) [OF new(1)] by (auto simp: tab_ok_def)
qed

lemma upsert_row:
  assumes "upsert_exporter (Some k) t T = Some (i, T')"
  shows "\<exists>e. row_at_ip T' k = Some e \<and> x_id e = i \<and>
      Some (x_last e) = later (map_option x_last (row_at_ip T k)) t \<and>
      (row_at_ip T k = None \<or> map_option x_id (row_at_ip T k) = Some i)"
    and "j \<noteq> k \<Longrightarrow> row_at_ip T' j = row_at_ip T j"
proof -
  have "(\<exists>e. row_at_ip T' k = Some e \<and> x_id e = i \<and>
      Some (x_last e) = later (map_option x_last (row_at_ip T k)) t \<and>
      (row_at_ip T k = None \<or> map_option x_id (row_at_ip T k) = Some i)) \<and>
      (j \<noteq> k \<longrightarrow> row_at_ip T' j = row_at_ip T j)"
    using assms
  proof (cases rule: upsert_cases)
    case (known ip e)
    have "row_at_ip T' j = map_option (\<lambda>x. if x_ip x = k then x\<lparr>x_last := max (x_last x) t\<rparr> else x)
        (row_at_ip T j)" for j
      unfolding row_at_ip_def known(4) using known(1) by (subst find_map_ip) simp_all
    then show ?thesis
      using known(1,2,3) row_at_ipD [of T j] row_at_ipD [of T k]
      by (cases "row_at_ip T j") (auto simp: later_def)
  next
    case (new ip)
    have "row_at_ip T' j = (case row_at_ip T j of Some e \<Rightarrow> Some e | None \<Rightarrow>
        if j = k then Some \<lparr>x_id = i, x_ip = k, x_label = None, x_first = t, x_last = t\<rparr> else None)" for j
      unfolding row_at_ip_def new(4) find_append using new(1) by (auto split: option.splits)
    then show ?thesis using new(1,2,3) by (auto simp: later_def split: option.splits)
  qed
  then show "\<exists>e. row_at_ip T' k = Some e \<and> x_id e = i \<and>
      Some (x_last e) = later (map_option x_last (row_at_ip T k)) t \<and>
      (row_at_ip T k = None \<or> map_option x_id (row_at_ip T k) = Some i)"
    and "j \<noteq> k \<Longrightarrow> row_at_ip T' j = row_at_ip T j" by blast+
qed

lemma upsert_here:
  assumes "lawful key ts col exact" and "tells_apart a" and "tells_apart b"
    and "upsert_exporter (key a) t T = Some (i, T')"
  shows "id_at key T' b = (if b = a then Some i else id_at key T b) \<and>
    last_at key T' b = (if b = a then later (last_at key T a) t else last_at key T b) \<and>
    (id_at key T a = None \<or> id_at key T a = Some i)"
proof -
  obtain k where k: "key a = Some k" using assms(1,2) by (auto simp: lawful_def)
  note u = upsert_row [OF assms(4) [unfolded k]]
  have "key b \<noteq> Some k" if "b \<noteq> a" using lawful_inj [OF assms(1,2,3)] k that by auto
  then show ?thesis
    using k u(1) u(2) by (cases "key b"; cases "b = a") (auto simp: id_at_def last_at_def)
qed

section \<open>The interface\<close>

interpretation xt: exporter_table cached remember length cacheCap tells_apart
  "id_at key" "last_at key" "\<lambda>i t. touch_exporter i (ts t)" "\<lambda>a t. upsert_exporter (key a) (ts t)"
  "\<lambda>T. lawful key ts col exact \<and> tab_ok col T" "\<lambda>T. set (tab_ids T)" exact for key ts col exact
proof (unfold_locales, goal_cases)
  case 1 show ?case by (rule cache_laws)
next
  case 2 then show ?case by (rule cache_laws)
next
  case 3 then show ?case by (rule cache_laws)
next
  case 4 then show ?case by (simp add: touch_ok)
next
  case 5 then show ?case using upsert_ok unfolding lawful_def by blast
next
  case 6 show ?case by (rule touch_id)
next
  case (7 T a b i t)
  then have "ts t = t" by (simp add: lawful_def)
  then show ?case using 7 touch_last by metis
next
  case 8 then show ?case using upsert_here by blast
next
  case 9 then show ?case using upsert_here by fastforce
next
  case (10 T a b t i T')
  then have "ts t = t" by (simp add: lawful_def)
  then show ?case using 10 upsert_here by metis
next
  case 11 show ?case by (auto simp: touch_exporter_def tab_ids_def)
next
  case 12 then show ?case by (rule upsert_cases) (auto simp: tab_ids_def)
qed

end
