(* ===== verification/Relational.thy ===== *)
theory Relational
  imports Storage Exporters_Table
begin

text \<open>
  What the PostgreSQL and the MariaDB backend share beyond the exporters table: flow rows with
  an identity column that reference an exporter, their invariant, the join of the page query,
  the token as a point in the keyset order, and the exporters of a batch.
\<close>

section \<open>Flow rows\<close>

record 'r seq_row =
  f_seq :: int
  f_row :: 'r

text \<open>
  \<open>xid\<close> reads the foreign key of a row, \<open>coll\<close> is the collision on the unique key. The
  identity values are positive, below the next one and used once.
\<close>

definition flows_ok :: "('r \<Rightarrow> i64) \<Rightarrow> ('r \<Rightarrow> 'r \<Rightarrow> bool) \<Rightarrow> i64 list \<Rightarrow> 'r seq_row list \<Rightarrow> int \<Rightarrow> bool" where
  "flows_ok xid coll ids fs n \<longleftrightarrow> distinct (map f_seq fs) \<and>
     (\<forall>f\<in>set fs. 1 \<le> f_seq f \<and> f_seq f < n \<and> xid (f_row f) \<in> set ids) \<and>
     sorted_wrt (\<lambda>f g. \<not> coll (f_row g) (f_row f)) fs \<and> 1 \<le> n \<and> n \<le> max_int64 + 1"

lemma flows_ok_snoc:
  assumes "flows_ok xid coll ids fs n" and "n \<le> max_int64" and "xid w \<in> set ids"
    and "\<not> list_ex (\<lambda>f. coll w (f_row f)) fs"
  shows "flows_ok xid coll ids (fs @ [\<lparr>f_seq = n, f_row = w\<rparr>]) (n + 1)"
  using assms by (force simp: flows_ok_def sorted_wrt_append list_ex_iff)

lemma flows_ok_next: "flows_ok xid coll ids fs n \<Longrightarrow> n \<le> max_int64 \<Longrightarrow> flows_ok xid coll ids fs (n + 1)"
  by (auto simp: flows_ok_def)

lemma flows_ok_mono: "flows_ok xid coll ids fs n \<Longrightarrow> set ids \<subseteq> set ids' \<Longrightarrow> flows_ok xid coll ids' fs n"
  by (auto simp: flows_ok_def)

lemma flows_ok_later: "flows_ok xid coll ids fs n \<Longrightarrow> flows_ok xid coll ids fs' n' \<Longrightarrow> n \<le> n' \<Longrightarrow>
    flows_ok xid coll ids fs n'"
  by (auto simp: flows_ok_def)

lemma flows_ok_filter: "flows_ok xid coll ids fs n \<Longrightarrow> flows_ok xid coll ids (filter P fs) n"
  by (simp add: flows_ok_def distinct_map_filter sorted_wrt_filter)

lemma add_row_seq:
  "list_ex (\<lambda>f. coll w (f_row f)) fs \<Longrightarrow> add_row coll (map f_row fs) w = map f_row fs"
  "\<not> list_ex (\<lambda>f. coll w (f_row f)) fs \<Longrightarrow>
     add_row coll (map f_row fs) w = map f_row (fs @ [\<lparr>f_seq = n, f_row = w\<rparr>])"
  by (auto simp: add_row_def list_ex_iff)

section \<open>The join with the exporters\<close>

definition joined :: "('r \<Rightarrow> i64) \<Rightarrow> 'ip exporter_tab \<Rightarrow> 'r seq_row list \<Rightarrow>
    ('r seq_row \<times> 'ip exporter_row) list" where
  "joined xid T fs = concat (map (\<lambda>f. map (\<lambda>e. (f, e)) (filter (\<lambda>e. x_id e = xid (f_row f)) (x_rows T))) fs)"

lemma filter_key:
  assumes "distinct (map g xs)" and "k \<in> g ` set xs"
  obtains x where "filter (\<lambda>x. g x = k) xs = [x]"
  using assms
proof (induction xs arbitrary: thesis)
  case (Cons y ys)
  show ?case
  proof (cases "g y = k")
    case True
    then have "filter (\<lambda>x. g x = k) ys = []" using Cons.prems(2)
      unfolding filter_empty_conv by (metis distinct.simps(2) image_eqI list.simps(9) list.set_map)
    then show ?thesis using Cons.prems(1) [of y] True by simp
  next
    case False
    then show ?thesis using Cons by auto
  qed
qed simp

lemma map_fst_joined:
  assumes "tab_ok col T" and "flows_ok xid coll (tab_ids T) fs n"
  shows "map fst (joined xid T fs) = fs"
proof -
  have "map fst (joined xid T gs) = gs" if "set gs \<subseteq> set fs" for gs
    using that
  proof (induction gs)
    case (Cons f gs)
    have "xid (f_row f) \<in> x_id ` set (x_rows T)"
      using Cons.prems assms(2) by (auto simp: flows_ok_def tab_ids_def)
    then obtain e where "filter (\<lambda>e. x_id e = xid (f_row f)) (x_rows T) = [e]"
      using assms(1) filter_key [of x_id "x_rows T"] by (auto simp: tab_ok_def)
    then show ?case using Cons by (simp add: joined_def)
  qed (simp add: joined_def)
  then show ?thesis by simp
qed

lemma joined_length:
  assumes "tab_ok col T" and "flows_ok xid coll (tab_ids T) fs n"
  shows "length (joined xid T fs) = length fs"
  using arg_cong [OF map_fst_joined [OF assms], of length] by simp

lemma joinedD:
  assumes "r \<in> set (joined xid T fs)"
  shows "fst r \<in> set fs" and "snd r \<in> set (x_rows T)" and "x_id (snd r) = xid (f_row (fst r))"
  using assms by (auto simp: joined_def)

lemma joined_keys:
  assumes "tab_ok col T" and "flows_ok xid coll (tab_ids T) fs n"
    and "\<And>r. row_key (view r) = (received (f_row (fst r)), f_seq (fst r))"
  shows "distinct (map (row_key \<circ> view) (joined xid T fs))"
proof -
  have "map snd (map (row_key \<circ> view) (joined xid T fs)) = map f_seq (map fst (joined xid T fs))"
    by (simp add: assms(3))
  then have "distinct (map snd (map (row_key \<circ> view) (joined xid T fs)))"
    using assms(2) by (simp only: map_fst_joined [OF assms(1,2)]) (simp add: flows_ok_def)
  then show ?thesis by (rule distinct_map [THEN iffD1, THEN conjunct1])
qed

section \<open>The token as a point of the order\<close>

definition at :: "cursor \<Rightarrow> time" where
  "at c = time_Unix 0 (sint (c_T c))"

lemma at_nano: "nano_fits t \<Longrightarrow> at \<lparr>c_T = word_of_int (unix_nano t), c_Seq = s\<rparr> = t"
proof -
  assume t: "nano_fits t"
  have "wrap64 (wrap64 t) = wrap64 t" using t by (simp add: wrap64_id nano_fits_def)
  then show ?thesis using time_Unix_nano [OF t] by (simp add: at_def unix_nano_def wrap64_def)
qed

section \<open>The exporters of a batch\<close>

definition id_in :: "(Addr \<times> i64) list \<Rightarrow> FlowRecord \<Rightarrow> i64" where
  "id_in ids r = (case map_of ids (ExporterAddr r) of Some i \<Rightarrow> i | None \<Rightarrow> 0)"

definition cache_ok :: "(Addr \<Rightarrow> 'ip option) \<Rightarrow> 'ip exporter_tab \<Rightarrow> (Addr \<times> i64) list \<Rightarrow> bool" where
  "cache_ok key T c \<longleftrightarrow> length c \<le> cacheCap \<and>
     (\<forall>a i. tells_apart a \<longrightarrow> cached c a = Some i \<longrightarrow> id_at key T a = Some i)"

lemma cache_ok_Nil: "cache_ok key T []"
  by (simp add: cache_ok_def cached_def)

lemma resolve_records:
  assumes "resolve_loop cached remember (\<lambda>i t. touch_exporter i (ts t)) (\<lambda>a t. upsert_exporter (key a) (ts t))
      (seen_in order rs) oks c T = (res, c', T')"
    and "lawful key ts col exact" and "tab_ok col T" and "cache_ok key T c"
    and "\<forall>r\<in>set rs. tells_apart (ExporterAddr r) \<and> exact (micro (ReceivedAt r))"
  shows "tab_ok col T'" and "cache_ok key T' c'" and "set (tab_ids T) \<subseteq> set (tab_ids T')"
    and "\<And>ids r. res = Inr ids \<Longrightarrow> r \<in> set rs \<Longrightarrow> id_at key T' (ExporterAddr r) = Some (id_in ids r) \<and>
      (\<exists>u. last_at key T' (ExporterAddr r) = Some u \<and> micro (ReceivedAt r) \<le> u)"
    and "\<And>a i. tells_apart a \<Longrightarrow> id_at key T a = Some i \<Longrightarrow> id_at key T' a = Some i"
proof -
  have kept: "xt.kept key ts col exact c T"
    using assms(2-4) unfolding xt.kept_def xt.sound_def cache_ok_def by blast
  have good: "tells_apart a \<and> exact t" if "(a, t) \<in> set (seen_in order rs)" for a t
    using seen_ofD(4) [of a t rs] that assms(5) by auto
  have d: "distinct (map fst (seen_in order rs))" by (rule seen_in_latest)
  note ok = xt.resolve_ok [OF assms(1) kept d good]
  then show "tab_ok col T'" and "cache_ok key T' c'"
    unfolding xt.kept_def xt.sound_def cache_ok_def by blast+
  show "set (tab_ids T) \<subseteq> set (tab_ids T')" by (rule xt.resolve_all [OF assms(1)])
  show "id_at key T' a = Some i" if "tells_apart a" "id_at key T a = Some i" for a i
    using ok that by (simp add: xt.extends_def)
  fix ids r assume res: "res = Inr ids" and r: "r \<in> set rs"
  then have rd: "xt.resolved key (seen_in order rs) ids T T'" using ok by blast
  have "ExporterAddr r \<in> fst ` set ids"
    using rd r seen_of_keys [of rs] set_seen_in [of order rs] unfolding xt.resolved_def by (metis image_eqI set_map)
  then obtain i where i: "map_of ids (ExporterAddr r) = Some i"
    by (cases "map_of ids (ExporterAddr r)") (auto simp: map_of_eq_None_iff)
  then have "id_at key T' (ExporterAddr r) = Some (id_in ids r)"
    using rd map_of_SomeD [OF i] by (simp add: id_in_def xt.resolved_def)
  moreover have "last_at key T' (ExporterAddr r) = xt.bump (seen_in order rs) (last_at key T) (ExporterAddr r)"
    using rd assms(5) r by (simp add: xt.resolved_def)
  moreover obtain t where "latest rs (ExporterAddr r) = Some t" "micro (ReceivedAt r) \<le> t"
    using latest_ge [OF r] .
  ultimately show "id_at key T' (ExporterAddr r) = Some (id_in ids r) \<and>
      (\<exists>u. last_at key T' (ExporterAddr r) = Some u \<and> micro (ReceivedAt r) \<le> u)"
    using seen_in_latest(1) [of order rs] by (auto simp: xt.bump_def later_def split: option.splits)
qed

section \<open>Room in the identity columns\<close>

text \<open>
  A resolution that meets no fault takes at most one identity value per address and succeeds
  when there are enough of them.
\<close>

lemma upsert_room:
  "x_next T \<le> max_int64 \<Longrightarrow> \<exists>i T'. upsert_exporter (Some k) t T = Some (i, T') \<and> x_next T' = x_next T + 1"
  by (auto simp: upsert_exporter_def Let_def split: option.split)

lemma resolve_room:
  assumes "\<And>a t. (a, t) \<in> set seen \<Longrightarrow> key a \<noteq> None" and "x_next T + int (length seen) \<le> max_int64 + 1"
  shows "\<exists>ids c' T'. resolve_loop cached remember (\<lambda>i t. touch_exporter i (ts t))
      (\<lambda>a t. upsert_exporter (key a) (ts t)) seen [] c T = (Inr ids, c', T') \<and>
    x_next T' \<le> x_next T + int (length seen)"
  using assms
proof (induction seen arbitrary: c T)
  case (Cons x seen)
  obtain a t where x: "x = (a, t)" by fastforce
  obtain k where k: "key a = Some k" using Cons.prems(1) [of a t] x by auto
  have keys: "key a \<noteq> None" if "(a, t) \<in> set seen" for a t by (rule Cons.prems(1) [of a t]) (simp add: that)
  show ?case
  proof (cases "cached c a")
    case (Some i)
    have "x_next (touch_exporter i (ts t) T) = x_next T" by (simp add: touch_exporter_def)
    then show ?thesis using Cons.IH [where T = "touch_exporter i (ts t) T" and c = c, OF keys] Cons.prems(2) Some x by fastforce
  next
    case None
    obtain i T1 where u: "upsert_exporter (Some k) (ts t) T = Some (i, T1)" "x_next T1 = x_next T + 1"
      using upsert_room [of T k "ts t"] Cons.prems(2) by auto
    then show ?thesis using Cons.IH [where T = T1 and c = "remember a i c", OF keys] Cons.prems(2) None x k by fastforce
  qed
qed simp

lemma length_seen_of: "length (seen_of rs) \<le> length rs"
proof (induction rs rule: rev_induct)
  case (snoc r rs)
  have "length (note_seen s r) \<le> Suc (length s)" for s
    by (simp add: note_seen_def length_put_le le_SucI split: option.split)
  from le_trans [OF this] show ?case using snoc by (simp add: seen_of_def)
qed (simp add: seen_of_def)

lemma length_seen_in: "length (seen_in order rs) \<le> length rs"
  using length_seen_of [of rs] by (simp add: seen_in_def)

section \<open>The address behind an exporter id\<close>

definition ip_at :: "'ip exporter_tab \<Rightarrow> i64 \<Rightarrow> 'ip" where
  "ip_at T i = x_ip (the (find (\<lambda>e. x_id e = i) (x_rows T)))"

lemma ip_at_row: "tab_ok col T \<Longrightarrow> e \<in> set (x_rows T) \<Longrightarrow> ip_at T (x_id e) = x_ip e"
proof -
  assume ok: "tab_ok col T" and e: "e \<in> set (x_rows T)"
  have "find (\<lambda>x. x_id x = x_id e) (x_rows T) \<noteq> None" using e by (auto simp: find_None_iff)
  then obtain x where "find (\<lambda>x. x_id x = x_id e) (x_rows T) = Some x" by blast
  moreover from this have "x \<in> set (x_rows T)" "x_id x = x_id e" by (auto simp: find_Some_iff)
  ultimately have "find (\<lambda>x. x_id x = x_id e) (x_rows T) = Some e"
    using same_id [OF ok _ e, of x] by metis
  then show ?thesis by (simp only: ip_at_def option.sel)
qed

lemma ip_at_id: "tab_ok col T \<Longrightarrow> id_at key T a = Some i \<Longrightarrow> key a = Some (ip_at T i)"
  by (auto simp: id_at_def ip_at_row split: bind_splits dest!: row_at_ipD)

lemma id_at_known: "id_at key T a = Some i \<Longrightarrow> i \<in> set (tab_ids T)"
  by (auto simp: id_at_def tab_ids_def dest: row_at_ipD split: bind_splits)

lemma map_joined:
  assumes "tab_ok col T" and "flows_ok xid coll (tab_ids T) fs n"
  shows "map (\<lambda>r. g (x_ip (snd r)) (f_row (fst r))) (joined xid T fs) = map (\<lambda>f. g (ip_at T (xid (f_row f))) (f_row f)) fs"
proof -
  have "x_ip (snd r) = ip_at T (xid (f_row (fst r)))" if "r \<in> set (joined xid T fs)" for r
    using joinedD [OF that] ip_at_row [OF assms(1)] by metis
  then have "map (\<lambda>r. g (x_ip (snd r)) (f_row (fst r))) (joined xid T fs) =
      map (\<lambda>f. g (ip_at T (xid (f_row f))) (f_row f)) (map fst (joined xid T fs))" by simp
  then show ?thesis by (simp only: map_fst_joined [OF assms])
qed

end
