(* ===== verification/Postgres.thy ===== *)
theory Postgres
  imports Postgres_Rows Relational
begin

text \<open>
  \<open>internal/sink/postgres/postgres.go\<close> over the tables of
  \<open>migrations/postgres\<close>: the SQL statements of the backend as functions on the two tables
  with their constraints (identity columns, NOT NULL, CHECK, the foreign key, the unique
  indexes), the exporter id cache, \<open>resolveExporters\<close>, \<open>WriteBatch\<close> with its COPY and its
  fallback, \<open>ListExporters\<close> and \<open>Query\<close>.
\<close>

section \<open>The tables\<close>

record pg_db =
  exporters :: "Addr exporter_tab"
  flows :: "pg_row seq_row list"
  next_seq :: int

text \<open>The SQLSTATE of a refused statement, as far as the backend tells them apart.\<close>

datatype pg_error = UniqueViolation | OtherViolation | ConnectionLost

definition isUniqueViolation :: "pg_error \<Rightarrow> bool" where
  "isUniqueViolation e = (e = UniqueViolation)"

text \<open>The unique index on \<open>(received_at, dedup_key)\<close>: rows without a key never collide.\<close>

definition collides :: "pg_row \<Rightarrow> pg_row \<Rightarrow> bool" where
  "collides v w \<longleftrightarrow> dedup_key v \<noteq> None \<and> dedup_key v = dedup_key w \<and> received_at v = received_at w"

text \<open>
  Inserting rows in order. Each takes the next value of the identity column, which a refused
  statement does not give back; a row that breaks a constraint refuses the statement, except
  that a collision is skipped under \<open>ON CONFLICT DO NOTHING\<close>.
\<close>

fun insert_loop :: "driver \<Rightarrow> i64 list \<Rightarrow> bool \<Rightarrow> pg_row list \<Rightarrow> pg_row seq_row list \<Rightarrow> int \<Rightarrow>
    (pg_error + pg_row seq_row list) \<times> int" where
  "insert_loop d ids nothing [] fs n = (Inr fs, n)"
| "insert_loop d ids nothing (v # vs) fs n =
     (if n > max_int64 then (Inl OtherViolation, n)
      else case encode_row d v of
        None \<Rightarrow> (Inl OtherViolation, n + 1)
      | Some w \<Rightarrow>
          if \<not> Valid (flow_type w) \<or> exporter_id w \<notin> set ids then (Inl OtherViolation, n + 1)
          else if list_ex (\<lambda>f. collides w (f_row f)) fs then
            (if nothing then insert_loop d ids nothing vs fs (n + 1) else (Inl UniqueViolation, n + 1))
          else insert_loop d ids nothing vs (fs @ [\<lparr>f_seq = n, f_row = w\<rparr>]) (n + 1))"

definition insert_flows :: "driver \<Rightarrow> bool \<Rightarrow> pg_row list \<Rightarrow> pg_db \<Rightarrow> (pg_error + unit) \<times> pg_db" where
  "insert_flows d nothing vs db =
     (case insert_loop d (tab_ids (exporters db)) nothing vs (flows db) (next_seq db) of
        (Inl e, n) \<Rightarrow> (Inl e, db\<lparr>next_seq := n\<rparr>)
      | (Inr fs, n) \<Rightarrow> (Inr (), db\<lparr>flows := fs, next_seq := n\<rparr>))"

definition CopyFrom :: "driver \<Rightarrow> pg_row list \<Rightarrow> pg_db \<Rightarrow> (pg_error + unit) \<times> pg_db" where
  "CopyFrom d vs = insert_flows d False vs"

definition insertSQL :: "driver \<Rightarrow> pg_row list \<Rightarrow> pg_db \<Rightarrow> (pg_error + unit) \<times> pg_db" where
  "insertSQL d vs = insert_flows d True vs"

definition exec :: "fault \<Rightarrow> (pg_db \<Rightarrow> (pg_error + unit) \<times> pg_db) \<Rightarrow> pg_db \<Rightarrow>
    (pg_error + unit) \<times> pg_db" where
  "exec f stmt db =
     (case f of
        Fine \<Rightarrow> stmt db
      | LostRequest \<Rightarrow> (Inl ConnectionLost, db)
      | LostReply \<Rightarrow> (Inl ConnectionLost, snd (stmt db)))"

section \<open>Exporters\<close>

text \<open>The backend: the id cache and the database.\<close>

record pg_backend =
  cache :: "(Addr \<times> i64) list"
  db_of :: pg_db

definition resolveExporters :: "driver \<Rightarrow> nat list \<times> fault list \<Rightarrow> FlowRecord list \<Rightarrow> pg_backend \<Rightarrow>
    (string + (Addr \<times> i64) list) \<times> pg_backend" where
  "resolveExporters d env records b =
     (case resolve_loop cached remember (\<lambda>i t. touch_exporter i (enc_time d t))
             (\<lambda>a t. upsert_exporter (enc_inet d a) (enc_time d t))
             (seen_in (fst env) records) (snd env) (cache b) (exporters (db_of b)) of
        (res, c, T) \<Rightarrow> (res, \<lparr>cache = c, db_of = (db_of b)\<lparr>exporters := T\<rparr>\<rparr>))"

definition ListExporters :: "driver \<Rightarrow> pg_db \<Rightarrow> Exporter list" where
  "ListExporters d db =
     map (\<lambda>e. \<lparr>ex_ID = x_id e, ex_IPAddress = fst (dec_inet d (x_ip e)), ex_Label = x_label e,
                 ex_FirstSeenAt = x_first e, ex_LastSeenAt = x_last e\<rparr>)
       (sort_key (sint \<circ> x_id) (x_rows (exporters db)))"

section \<open>Writing a batch\<close>

text \<open>What a write meets: the order of the range over the exporters with the faults of their statements, and
  the faults of the two statements for the rows.\<close>

record pg_faults =
  f_exporters :: "nat list \<times> fault list"
  f_copy :: fault
  f_insert :: fault

definition WriteBatch :: "driver \<Rightarrow> pg_faults \<Rightarrow> FlowRecord list \<Rightarrow> pg_backend \<Rightarrow>
    string option \<times> pg_backend" where
  "WriteBatch d fs records b =
     (if records = [] then (None, b)
      else case resolveExporters d (f_exporters fs) records b of
        (Inl e, b1) \<Rightarrow> (Some e, b1)
      | (Inr ids, b1) \<Rightarrow>
          (let cols = columns_of (id_in ids) records
           in case exec (f_copy fs) (CopyFrom d (copySource cols)) (db_of b1) of
                (Inr _, db) \<Rightarrow> (None, b1\<lparr>db_of := db\<rparr>)
              | (Inl e, db) \<Rightarrow>
                  if \<not> isUniqueViolation e then (Some ''copy records'', b1\<lparr>db_of := db\<rparr>)
                  else case exec (f_insert fs) (insertSQL d (args cols)) db of
                    (Inr _, db') \<Rightarrow> (None, b1\<lparr>db_of := db'\<rparr>)
                  | (Inl _, db') \<Rightarrow> (Some ''insert records'', b1\<lparr>db_of := db'\<rparr>)))"

section \<open>Querying\<close>

text \<open>A selected row is a flow joined with its exporter.\<close>

definition view_of :: "pg_row seq_row \<times> Addr exporter_row \<Rightarrow> Addr row_view" where
  "view_of r = (case r of (f, e) \<Rightarrow>
     \<lparr>v_received = received_at (f_row f), v_seq = f_seq f, v_exporter = exporter_id (f_row f),
      v_src = src_addr (f_row f), v_dst = dst_addr (f_row f), v_proto = sint (protocol (f_row f))\<rparr>)"

definition scanned :: "driver \<Rightarrow> pg_row seq_row \<times> Addr exporter_row \<Rightarrow> FlowRecord" where
  "scanned d r = scanRecord d (x_ip (snd r)) (f_row (fst r))"

text \<open>
  The conditions without the token. An address the driver turns into NULL matches nothing.
\<close>

definition addr_cond :: "(Addr \<Rightarrow> Addr cond) \<Rightarrow> driver \<Rightarrow> Addr \<Rightarrow> Addr cond list" where
  "addr_cond column d a =
     (if is_valid a then (case enc_inet d a of Some x \<Rightarrow> [column x] | None \<Rightarrow> [column AddrZero]) else [])"

definition where_of :: "driver \<Rightarrow> FlowQuery \<Rightarrow> Addr cond list" where
  "where_of d q =
     [ReceivedFrom (enc_time d (q_Start q)), ReceivedBefore (enc_time d (q_End q))] @
     (if q_ExporterID q \<noteq> 0 then [ExporterIs (q_ExporterID q)] else []) @
     addr_cond SrcIs d (q_SrcAddr q) @
     addr_cond DstIs d (q_DstAddr q) @
     (case q_Protocol q of Some p \<Rightarrow> [ProtocolIs (sint (ucast p :: i16))] | None \<Rightarrow> [])"

definition token_of :: "driver \<Rightarrow> pg_row seq_row \<times> Addr exporter_row \<Rightarrow> string" where
  "token_of d r = encodeCursor \<lparr>c_T = word_of_int (unix_nano (ReceivedAt (scanned d r))),
     c_Seq = word_of_int (f_seq (fst r))\<rparr>"

definition Query :: "driver \<Rightarrow> bool \<Rightarrow> pg_db \<Rightarrow> FlowQuery \<Rightarrow> string + FlowResultPage" where
  "Query d reached db q =
     (let limit = clamp_limit (q_Limit q);
          run = (\<lambda>conds. if \<not> reached then Inl ''query''
                 else Inr (page_of (scanned d) (token_of d) limit
                        (select_rows view_of conds (limit + 1) (joined exporter_id (exporters db) (flows db)))))
      in if q_Cursor q = [] then run (where_of d q)
         else case decodeCursor (q_Cursor q) of
           Inl e \<Rightarrow> Inl e
         | Inr c \<Rightarrow> run (where_of d q @ [KeyBelow (enc_time d (at c)) (sint (c_Seq c))]))"

end
