(* ===== verification/Postgres_Props.thy ===== *)
theory Postgres_Props
  imports Postgres
begin

text \<open>
  What the PostgreSQL backend promises. The exporters table and the id cache satisfy the
  interface of \<open>Exporters\<close>; a batch is written as the abstract operation \<open>add_rows\<close>, which
  appends the rows whose \<open>(received_at, dedup_key)\<close> is new, whichever path the batch takes;
  pages are those of the interface of \<open>Storage\<close>.
\<close>

section \<open>Writing\<close>

definition stored :: "pg_backend \<Rightarrow> pg_row list" where
  "stored b = map f_row (flows (db_of b))"

abbreviation pg_flows_ok :: "i64 list \<Rightarrow> pg_row seq_row list \<Rightarrow> int \<Rightarrow> bool" where
  "pg_flows_ok \<equiv> flows_ok exporter_id collides"

lemma insert_loop_ok:
  "insert_loop d ids nothing vs fs n = (res, n') \<Longrightarrow> pg_flows_ok ids fs n \<Longrightarrow>
   pg_flows_ok ids fs n' \<and>
   (\<forall>fs'. res = Inr fs' \<longrightarrow> pg_flows_ok ids fs' n' \<and>
      map f_row fs' = add_rows collides (map f_row fs) (map (the \<circ> encode_row d) vs))"
proof (induction d ids nothing vs fs n rule: insert_loop.induct)
  case (1 d ids nothing fs n)
  then show ?case by auto
next
  case (2 d ids nothing v vs fs n)
  have next_ok: "pg_flows_ok ids fs (n + 1)" if "n \<le> max_int64" using flows_ok_next [OF 2(4) that] .
  show ?case
  proof (cases "n > max_int64 \<or> encode_row d v = None")
    case True
    then show ?thesis using "2.prems" next_ok by (auto split: if_splits)
  next
    case False
    then obtain w where w: "encode_row d v = Some w" and n: "\<not> n > max_int64" by auto
    show ?thesis
    proof (cases "\<not> Valid (flow_type w) \<or> exporter_id w \<notin> set ids")
      case True
      then show ?thesis using "2.prems" w n next_ok by (auto split: if_splits)
    next
      case valid: False
      show ?thesis
      proof (cases "list_ex (\<lambda>f. collides w (f_row f)) fs")
        case True
        then have "add_row collides (map f_row fs) w = map f_row fs"
          by (rule add_row_seq)
        then show ?thesis
          using True valid n "2.prems"(1) next_ok "2.IH"(1) [OF n w valid True]
          by (cases nothing) (auto simp: w)
      next
        case False
        let ?fs = "fs @ [\<lparr>f_seq = n, f_row = w\<rparr>]"
        have row: "add_row collides (map f_row fs) w = map f_row ?fs"
          using False by (rule add_row_seq)
        have ok: "pg_flows_ok ids ?fs (n + 1)"
          using False n valid by (intro flows_ok_snoc [OF "2.prems"(2)]) auto
        have "insert_loop d ids nothing vs ?fs (n + 1) = (res, n')"
          using "2.prems"(1) n w valid False by simp
        note IH = "2.IH"(2) [OF n w valid False this ok]
        moreover from IH have "pg_flows_ok ids fs n'" using "2.prems"(2)
          by (auto simp: flows_ok_def)
        ultimately show ?thesis using row by (simp add: w)
      qed
    qed
  qed
qed

text \<open>The invariant of the database and of the backend.\<close>

definition pg_ok :: "pg_db \<Rightarrow> bool" where
  "pg_ok db \<longleftrightarrow> tab_ok tells_apart (exporters db) \<and> pg_flows_ok (tab_ids (exporters db)) (flows db) (next_seq db)"

definition backend_ok :: "driver \<Rightarrow> pg_backend \<Rightarrow> bool" where
  "backend_ok d b \<longleftrightarrow> pg_ok (db_of b) \<and> cache_ok (enc_inet d) (exporters (db_of b)) (cache b)"

lemma insert_flows_ok:
  assumes "insert_flows d nothing vs db = (res, db')" and "pg_ok db"
  shows "pg_ok db' \<and> exporters db' = exporters db \<and>
    map f_row (flows db') = (case res of Inl _ \<Rightarrow> map f_row (flows db)
      | Inr _ \<Rightarrow> add_rows collides (map f_row (flows db)) (map (the \<circ> encode_row d) vs))"
proof -
  obtain r n where r: "insert_loop d (tab_ids (exporters db)) nothing vs (flows db) (next_seq db) = (r, n)"
    by fastforce
  show ?thesis
    using assms insert_loop_ok [OF r] r
    by (cases r) (auto simp: insert_flows_def pg_ok_def)
qed

text \<open>Resolving the exporters of a batch keeps the rows and finds an id for every record.\<close>

lemma storable_addr: "storable r \<Longrightarrow> tells_apart (ExporterAddr r)" "storable r \<Longrightarrow> pg_time (micro (ReceivedAt r))"
  by (simp_all add: storable_def tells_apart_def)

text \<open>A faithful driver writes the address column lawfully.\<close>

lemma faithful_lawful: "faithful d \<Longrightarrow> lawful (enc_inet d) (enc_time d) tells_apart pg_time"
proof -
  assume f: "faithful d"
  have e: "enc_inet d a = Some a" if "tells_apart a" for a
    using faithfulD(3) [OF f] that by (simp add: tells_apart_def)
  then have "a = b" if "tells_apart a" "tells_apart b" "enc_inet d a = enc_inet d b" for a b
    using that by simp
  then show ?thesis
    using e faithfulD(1,5) [OF f] unfolding lawful_def tells_apart_def by blast
qed

abbreviation pg_id :: "driver \<Rightarrow> pg_backend \<Rightarrow> Addr \<Rightarrow> i64 option" where
  "pg_id d b \<equiv> id_at (enc_inet d) (exporters (db_of b))"

abbreviation pg_last :: "driver \<Rightarrow> pg_backend \<Rightarrow> Addr \<Rightarrow> time option" where
  "pg_last d b \<equiv> last_at (enc_inet d) (exporters (db_of b))"

lemma resolve_batch:
  assumes "resolveExporters d oks rs b = (res, b1)" and "faithful d" and "backend_ok d b"
    and "list_all storable rs"
  shows "backend_ok d b1" and "stored b1 = stored b"
    and "\<And>ids r. res = Inr ids \<Longrightarrow> r \<in> set rs \<Longrightarrow> pg_id d b1 (ExporterAddr r) = Some (id_in ids r) \<and>
      (\<exists>u. pg_last d b1 (ExporterAddr r) = Some u \<and> micro (ReceivedAt r) \<le> u)"
    and "\<And>a i. tells_apart a \<Longrightarrow> pg_id d b a = Some i \<Longrightarrow> pg_id d b1 a = Some i"
proof -
  let ?T = "exporters (db_of b)" and ?T1 = "exporters (db_of b1)"
  have run: "xt.resolve (enc_time d) (enc_inet d) (seen_in (fst oks) rs) (snd oks) (cache b) ?T = (res, cache b1, ?T1)"
    and same: "flows (db_of b1) = flows (db_of b)" "next_seq (db_of b1) = next_seq (db_of b)"
    using assms(1) by (auto simp: resolveExporters_def split: prod.splits)
  have ok: "tab_ok tells_apart ?T" "cache_ok (enc_inet d) ?T (cache b)"
    using assms(3) by (simp_all add: backend_ok_def pg_ok_def)
  have good: "\<forall>r\<in>set rs. tells_apart (ExporterAddr r) \<and> pg_time (micro (ReceivedAt r))"
    using assms(4) storable_addr by (auto simp: list_all_iff)
  note rr = resolve_records [OF run faithful_lawful [OF assms(2)] ok good]
  show "stored b1 = stored b" using same by (simp add: stored_def)
  show "backend_ok d b1"
    using rr(1,2) flows_ok_mono [OF _ rr(3)] assms(3) unfolding backend_ok_def pg_ok_def same by blast
  show "pg_id d b1 (ExporterAddr r) = Some (id_in ids r) \<and>
      (\<exists>u. pg_last d b1 (ExporterAddr r) = Some u \<and> micro (ReceivedAt r) \<le> u)"
    if "res = Inr ids" "r \<in> set rs" for ids r using rr(4) [OF that] .
  show "pg_id d b1 a = Some i" if "tells_apart a" "pg_id d b a = Some i" for a i using rr(5) [OF that] .
qed

text \<open>The rows of a batch once its exporters have ids.\<close>

definition row_in :: "driver \<Rightarrow> pg_backend \<Rightarrow> FlowRecord \<Rightarrow> pg_row" where
  "row_in d b r = row_of r (the (pg_id d b (ExporterAddr r)))"

lemma exec_insert:
  assumes "exec f (insert_flows d nothing (copySource (columns_of ids rs))) db = (res, db')"
    and "pg_ok db" and "faithful d" and "list_all storable rs"
  shows "pg_ok db' \<and> exporters db' = exporters db \<and>
    (let new = add_rows collides (map f_row (flows db)) (map (\<lambda>r. row_of r (ids r)) rs)
     in map f_row (flows db') = new \<or> map f_row (flows db') = map f_row (flows db) \<and> is_ok res = False)"
proof -
  let ?vs = "copySource (columns_of ids rs)"
  have rows: "map (the \<circ> encode_row d) ?vs = map (\<lambda>r. row_of r (ids r)) rs"
    using encode_row_of [OF assms(3)] assms(4) columns_of_rows [of rs ids] by (simp add: list_all_iff)
  obtain r db1 where st: "insert_flows d nothing ?vs db = (r, db1)" by fastforce
  note ok = insert_flows_ok [OF st assms(2), unfolded rows]
  show ?thesis
  proof (cases f)
    case LostRequest
    then show ?thesis using assms(1,2) by (auto simp: exec_def Let_def)
  qed (use assms(1) st ok in \<open>auto simp: exec_def Let_def split: sum.splits\<close>)
qed

lemma backend_ok_db:
  "backend_ok d b \<Longrightarrow> pg_ok db \<Longrightarrow> exporters db = exporters (db_of b) \<Longrightarrow> backend_ok d (b\<lparr>db_of := db\<rparr>)"
  by (simp add: backend_ok_def)

lemma write_refines:
  assumes "WriteBatch d fs rs b = (err, b')" and "faithful d" and "backend_ok d b"
    and "list_all storable rs"
  shows "backend_ok d b' \<and>
    (stored b' = add_rows collides (stored b) (map (row_in d b') rs) \<or> (err \<noteq> None \<and> stored b' = stored b))"
proof (cases "rs = []")
  case True
  then show ?thesis using assms by (simp add: WriteBatch_def)
next
  case False
  obtain res b1 where r: "resolveExporters d (f_exporters fs) rs b = (res, b1)" by fastforce
  note rb = resolve_batch [OF r assms(2-4)]
  show ?thesis
  proof (cases res)
    case (Inl e)
    then show ?thesis using assms(1) False r rb(1,2) by (auto simp: WriteBatch_def)
  next
    case (Inr ids)
    let ?cols = "columns_of (id_in ids) rs"
    let ?new = "add_rows collides (stored b) (map (\<lambda>r. row_of r (id_in ids r)) rs)"
    have rows: "row_in d (b1\<lparr>db_of := db\<rparr>) r = row_of r (id_in ids r)"
      if "exporters db = exporters (db_of b1)" "r \<in> set rs" for db r
      using rb(3) [OF Inr] that by (simp add: row_in_def)
    have ok1: "pg_ok (db_of b1)" using rb(1) by (simp add: backend_ok_def)
    obtain c db where c: "exec (f_copy fs) (CopyFrom d (copySource ?cols)) (db_of b1) = (c, db)" by fastforce
    note copy = exec_insert [OF c [unfolded CopyFrom_def] ok1 assms(2,4), folded stored_def, unfolded rb(2)]
    obtain i db' where i: "exec (f_insert fs) (insertSQL d (args ?cols)) db = (i, db')" by fastforce
    have okdb: "pg_ok db" using copy by simp
    note ins = exec_insert [OF i [unfolded insertSQL_def args_columns_of] okdb assms(2,4)]
    have unchanged: "map f_row (flows db) = stored b" if "c = Inl e" "isUniqueViolation e" for e
    proof -
      have "f_copy fs = Fine" using c that by (cases "f_copy fs") (auto simp: exec_def isUniqueViolation_def)
      then have "insert_flows d False (copySource ?cols) (db_of b1) = (c, db)"
        using c by (simp add: exec_def CopyFrom_def)
      then show ?thesis using insert_flows_ok [OF _ ok1] that rb(2) by (fastforce simp: stored_def)
    qed
    have "backend_ok d (b1\<lparr>db_of := db\<rparr>)" "backend_ok d (b1\<lparr>db_of := db'\<rparr>)"
      using backend_ok_db [OF rb(1)] copy ins by simp_all
    then show ?thesis
      using assms(1) False r Inr c i copy ins rows unchanged
      by (auto simp: WriteBatch_def Let_def stored_def is_ok_iff cong: map_cong split: sum.splits if_splits)
  qed
qed

end
