(* ===== verification/Postgres_Sink.thy ===== *)
theory Postgres_Sink
  imports Postgres_Props
begin

text \<open>
  The properties of the PostgreSQL backend as a whole: redelivered batches, the exporters a
  batch leaves behind, what a stored row reads back as, and pages.
\<close>

section \<open>A concrete driver and record\<close>

definition pg_driver :: driver where
  "pg_driver = \<lparr>enc_time = micro,
     enc_inet = (\<lambda>a. case a of AddrZero \<Rightarrow> None | Addr4 w \<Rightarrow> Some (Addr4 w) | Addr6 w z \<Rightarrow> Some (Addr6 w [])),
     dec_inet = (\<lambda>a. (a, case a of Addr4 _ \<Rightarrow> 32 | _ \<Rightarrow> 128))\<rparr>"

lemma faithful_pg_driver: "faithful pg_driver"
proof -
  have "enc_inet pg_driver a = Some x \<longrightarrow> is_valid x \<and> zone_free x" for a x
    by (cases a) (auto simp: pg_driver_def)
  moreover have "is_valid a \<longrightarrow> zone_free a \<longrightarrow> enc_inet pg_driver a = Some a \<and> fst (dec_inet pg_driver a) = a" for a
    by (cases a) (auto simp: pg_driver_def)
  moreover have "\<forall>t. pg_time t \<longrightarrow> enc_time pg_driver t = t" "enc_inet pg_driver AddrZero = None"
    by (simp_all add: pg_driver_def pg_time_def)
  ultimately show ?thesis unfolding faithful_def by blast
qed

definition empty_backend :: pg_backend where
  "empty_backend = \<lparr>cache = [], db_of = \<lparr>exporters = empty_tab, flows = [], next_seq = 1\<rparr>\<rparr>"

lemma empty_backend_ok: "backend_ok d empty_backend"
  by (simp add: backend_ok_def pg_ok_def empty_tab_ok flows_ok_def empty_backend_def max_int64_def cache_ok_Nil)

definition demo_flow :: FlowRecord where
  "demo_flow = zero_record
     \<lparr>ReceivedAt := 1758288000000123456, FlowType_of := FlowTypeNetFlow9,
      ExporterAddr := Addr4 0xC0000201, SrcAddr := Addr4 0x0A000001, DstAddr := Addr4 0x0A000002,
      Packets := 7, DedupKey := Some [1, 2, 3]\<rparr>"

lemma demo_flow_storable: "storable demo_flow"
  by (simp add: storable_def demo_flow_def zero_record_def pg_time_def micro_eq on_micro_def time_units
      zero_time_def unix_to_internal_def)

definition no_faults :: "nat list \<Rightarrow> pg_faults" where
  "no_faults order = \<lparr>f_exporters = (order, []), f_copy = Fine, f_insert = Fine\<rparr>"

lemmas demo_write = WriteBatch_def resolveExporters_def seen_in_def seen_of_def note_seen_def empty_backend_def
  no_faults_def pg_driver_def demo_flow_def zero_record_def cached_def remember_def cacheCap_def
  upsert_exporter_def max_int64_def id_in_def columns_of_def copySource_def exec_def CopyFrom_def
  insert_flows_def add_columns_def newColumns_def row_at_def encode_row_def tab_ids_def empty_tab_def collides_def
  isUniqueViolation_def insertSQL_def args_def tl_columns_def

lemma demo_write_none: "fst (WriteBatch pg_driver (no_faults []) [demo_flow] empty_backend) = None"
  by (simp add: demo_write Let_def)

lemma demo_twice_none: "fst (WriteBatch pg_driver (no_faults []) [demo_flow]
    (snd (WriteBatch pg_driver (no_faults []) [demo_flow] empty_backend))) = None"
  by (simp add: demo_write touch_exporter_def Let_def)

section \<open>Writing\<close>

text \<open>
  C4. Writing a batch refines the abstract append-if-new. When \<open>WriteBatch\<close> returns no error
  the table holds the old rows followed by the batch's rows whose \<open>(received_at, dedup_key)\<close>
  was not there yet, in order, whether the batch went in by COPY or by the fallback insert;
  when it returns an error the table is unchanged or, if only the reply was lost, holds just
  that. The invariant of the tables and of the id cache is kept in every case.
\<close>

theorem pg_write_refines:
  assumes "WriteBatch d fs rs b = (err, b')" and "faithful d" and "backend_ok d b"
    and "list_all storable rs"
  shows "backend_ok d b' \<and>
    (stored b' = add_rows collides (stored b) (map (row_in d b') rs) \<or> (err \<noteq> None \<and> stored b' = stored b))"
  by (rule write_refines [OF assms])

theorem pg_write_refines_witness:
  "stored (snd (WriteBatch pg_driver (no_faults []) [demo_flow] empty_backend)) =
     add_rows collides [] (map (row_in pg_driver (snd (WriteBatch pg_driver (no_faults []) [demo_flow] empty_backend)))
       [demo_flow])"
  using pg_write_refines [of pg_driver "no_faults []" "[demo_flow]" empty_backend None
      "snd (WriteBatch pg_driver (no_faults []) [demo_flow] empty_backend)"]
    demo_write_none faithful_pg_driver empty_backend_ok demo_flow_storable
  by (simp add: prod_eq_iff) (simp add: stored_def empty_backend_def)

section \<open>Redelivery\<close>

lemma collides_id: "collides (row_of r i) v = collides (row_of r j) v"
  by (simp add: collides_def row_of_def row_at_def add_columns_def newColumns_def)

lemma collides_self: "DedupKey r \<noteq> None \<Longrightarrow> collides (row_of r i) (row_of r i)"
  by (simp add: collides_def row_of_def row_at_def add_columns_def newColumns_def)

interpretation pg_sink: dedup_sink "\<lambda>f rs b. WriteBatch d f rs b" stored
  "\<lambda>b. faithful d \<and> backend_ok d b" storable "row_in d" collides for d
  by unfold_locales (use write_refines in blast, simp_all add: row_in_def collides_self collides_id)

text \<open>
  A redelivered batch changes nothing: after a batch of records with dedup keys has been
  written, writing it again leaves the stored rows as they are, whichever path it takes and
  whatever faults it meets.
\<close>

theorem pg_redelivery_noop:
  assumes "WriteBatch d fs rs b = (None, b1)" and "WriteBatch d fs' rs b1 = (err, b2)"
    and "faithful d" and "backend_ok d b" and "list_all storable rs"
    and "list_all (\<lambda>r. DedupKey r \<noteq> None) rs"
  shows "stored b2 = stored b1"
  using pg_sink.redelivery [OF assms(1,2)] assms(3-) by blast

theorem pg_redelivery_noop_witness:
  "stored (snd (WriteBatch pg_driver (no_faults []) [demo_flow]
     (snd (WriteBatch pg_driver (no_faults []) [demo_flow] empty_backend)))) =
   stored (snd (WriteBatch pg_driver (no_faults []) [demo_flow] empty_backend))"
proof (rule pg_redelivery_noop [of pg_driver "no_faults []" "[demo_flow]" empty_backend _ "no_faults []" None])
  show "WriteBatch pg_driver (no_faults []) [demo_flow] empty_backend =
      (None, snd (WriteBatch pg_driver (no_faults []) [demo_flow] empty_backend))"
    using demo_write_none by (simp add: prod_eq_iff)
  show "WriteBatch pg_driver (no_faults []) [demo_flow]
      (snd (WriteBatch pg_driver (no_faults []) [demo_flow] empty_backend)) =
      (None, snd (WriteBatch pg_driver (no_faults []) [demo_flow]
        (snd (WriteBatch pg_driver (no_faults []) [demo_flow] empty_backend))))"
    using demo_twice_none by (simp add: prod_eq_iff)
  show "list_all storable [demo_flow]" using demo_flow_storable by simp
  show "list_all (\<lambda>r. DedupKey r \<noteq> None) [demo_flow]" by (simp add: demo_flow_def)
qed (simp_all add: faithful_pg_driver empty_backend_ok)

section \<open>Exporters\<close>

lemma write_exporters:
  assumes "WriteBatch d fs rs b = (None, b')" and "rs \<noteq> []"
  obtains ids b1 where "resolveExporters d (f_exporters fs) rs b = (Inr ids, b1)"
    and "exporters (db_of b') = exporters (db_of b1)"
proof -
  have keep: "exporters (snd (insert_flows d n vs db)) = exporters db" for n vs db
    by (simp add: insert_flows_def split: prod.splits sum.splits)
  have kexec: "exporters db' = exporters db" if "exec f (insert_flows d n vs) db = (res, db')" for f n vs db res db'
    using that keep [of n vs db] by (auto simp: exec_def split: fault.splits)
  show ?thesis
    using assms that kexec
    by (auto simp: WriteBatch_def Let_def CopyFrom_def insertSQL_def split: prod.splits sum.splits if_splits)
qed

lemma exporters_listed:
  assumes "WriteBatch d fs rs b = (None, b')" and "faithful d" and "backend_ok d b"
    and "list_all storable rs" and "r \<in> set rs"
  shows "\<exists>e\<in>set (ListExporters d (db_of b')). ex_IPAddress e = ExporterAddr r \<and>
      micro (ReceivedAt r) \<le> ex_LastSeenAt e \<and> 0 < sint (ex_ID e)"
    and "distinct (map ex_IPAddress (ListExporters d (db_of b')))"
    and "sorted (map (sint \<circ> ex_ID) (ListExporters d (db_of b')))"
proof -
  let ?T = "exporters (db_of b')"
  have ok: "tab_ok tells_apart ?T" using write_refines [OF assms(1-4)] by (simp add: backend_ok_def pg_ok_def)
  obtain ids b1 where res: "resolveExporters d (f_exporters fs) rs b = (Inr ids, b1)"
      and ex: "?T = exporters (db_of b1)"
    using write_exporters [OF assms(1)] assms(5) by (metis list.set_cases list.simps(3))
  have a: "is_valid (ExporterAddr r) \<and> zone_free (ExporterAddr r)"
    using assms(4,5) by (auto simp: list_all_iff storable_def)
  obtain u where "pg_last d b1 (ExporterAddr r) = Some u" "micro (ReceivedAt r) \<le> u"
    using resolve_batch(3) [OF res assms(2-4) refl assms(5)] by blast
  then obtain e where e: "row_at_ip ?T (ExporterAddr r) = Some e" "micro (ReceivedAt r) \<le> x_last e"
    using ex faithfulD(3) [OF assms(2)] a by (auto simp: last_at_def)
  have ip: "fst (dec_inet d (x_ip x)) = x_ip x" if "x \<in> set (x_rows ?T)" for x
    using ok that faithfulD(4) [OF assms(2)] by (simp add: tab_ok_def tells_apart_def)
  have "e \<in> set (x_rows ?T)" "x_ip e = ExporterAddr r" using row_at_ipD [OF e(1)] by simp_all
  then show "\<exists>e\<in>set (ListExporters d (db_of b')). ex_IPAddress e = ExporterAddr r \<and>
      micro (ReceivedAt r) \<le> ex_LastSeenAt e \<and> 0 < sint (ex_ID e)"
    using ok ip e(2) by (force simp: ListExporters_def tab_ok_def)
  have "map ex_IPAddress (ListExporters d (db_of b')) = map x_ip (sort_key (sint \<circ> x_id) (x_rows ?T))"
    using ip by (simp add: ListExporters_def)
  then show "distinct (map ex_IPAddress (ListExporters d (db_of b')))"
    using ok by (simp add: tab_ok_def distinct_map)
  have "map (sint \<circ> ex_ID) (ListExporters d (db_of b'))
      = map (sint \<circ> x_id) (sort_key (sint \<circ> x_id) (x_rows ?T))"
    by (simp add: ListExporters_def)
  then show "sorted (map (sint \<circ> ex_ID) (ListExporters d (db_of b')))" by (simp only: sorted_sort_key)
qed

text \<open>
  After a batch is written, the exporter list has each exporter of the batch once, with a
  positive id and a last-seen time not before any of its records; the list is in ascending
  order of ids and no address occurs twice.
\<close>

theorem pg_exporters_listed:
  assumes "WriteBatch d fs rs b = (None, b')" and "faithful d" and "backend_ok d b"
    and "list_all storable rs" and "r \<in> set rs"
  shows "(\<exists>e\<in>set (ListExporters d (db_of b')). ex_IPAddress e = ExporterAddr r \<and>
      micro (ReceivedAt r) \<le> ex_LastSeenAt e \<and> 0 < sint (ex_ID e)) \<and>
    distinct (map ex_IPAddress (ListExporters d (db_of b'))) \<and>
    sorted (map (sint \<circ> ex_ID) (ListExporters d (db_of b')))"
  using exporters_listed [OF assms] by simp

theorem pg_exporters_listed_witness:
  "\<exists>e. e \<in> set (ListExporters pg_driver (db_of (snd (WriteBatch pg_driver (no_faults []) [demo_flow] empty_backend)))) \<and>
     ex_IPAddress e = Addr4 0xC0000201 \<and> 1758288000000123000 \<le> ex_LastSeenAt e"
proof -
  have "WriteBatch pg_driver (no_faults []) [demo_flow] empty_backend =
      (None, snd (WriteBatch pg_driver (no_faults []) [demo_flow] empty_backend))"
    using demo_write_none by (simp add: prod_eq_iff)
  from pg_exporters_listed [OF this faithful_pg_driver empty_backend_ok, of demo_flow] demo_flow_storable
  show ?thesis by (auto simp: demo_flow_def zero_record_def micro_eq time_units)
qed

end
