(* ===== verification/Postgres_Pages.thy ===== *)
theory Postgres_Pages
  imports Postgres_Sink
begin

text \<open>
  Reading from PostgreSQL: the backend provides the keyset paging interface of \<open>Storage\<close>, and
  what a page shows of a written record.
\<close>

section \<open>The paging interface\<close>

definition pages_ok :: "driver \<Rightarrow> pg_db \<Rightarrow> bool" where
  "pages_ok d db \<longleftrightarrow> faithful d \<and> pg_ok db \<and>
     (\<forall>f\<in>set (flows db). on_micro (received_at (f_row f)) \<and> nano_fits (received_at (f_row f)))"

lemma nano_pg_time: "on_micro t \<Longrightarrow> nano_fits t \<Longrightarrow> pg_time t"
  by (simp add: pg_time_def nano_fits_def time_units)

lemma received_scanned [simp]: "ReceivedAt (scanned d r) = received_at (f_row (fst r))"
  by (simp add: scanned_def scanRecord_def)

lemma row_key_view: "row_key (view_of r) = (received_at (f_row (fst r)), f_seq (fst r))"
  by (simp add: row_key_def view_of_def split: prod.splits)

abbreviation pg_joined :: "pg_db \<Rightarrow> (pg_row seq_row \<times> Addr exporter_row) list" where
  "pg_joined db \<equiv> joined exporter_id (exporters db) (flows db)"

lemma pg_joined_keys: "pg_ok db \<Longrightarrow> distinct (map (row_key \<circ> view_of) (pg_joined db))"
  by (rule joined_keys [where received = received_at]) (auto simp: pg_ok_def row_key_view)

lemma token_key:
  assumes "pages_ok d db" and "r \<in> set (pg_joined db)"
  shows "(enc_time d (at \<lparr>c_T = word_of_int (unix_nano (received_at (f_row (fst r)))), c_Seq = s\<rparr>),
      sint (word_of_int (f_seq (fst r)) :: i64)) = row_key (view_of r)"
proof -
  have "fst r \<in> set (flows db)" by (rule joinedD(1) [OF assms(2)])
  then have "pg_time (received_at (f_row (fst r)))" "nano_fits (received_at (f_row (fst r)))" "faithful d"
      "1 \<le> f_seq (fst r)" "f_seq (fst r) \<le> max_int64"
    using assms(1) by (auto simp: pages_ok_def pg_ok_def flows_ok_def nano_pg_time)
  then show ?thesis by (simp add: row_key_view at_nano faithfulD(1) sint_new_id)
qed

interpretation pg_pages: keyset_store "pages_ok d" "\<lambda>db q. matching view_of (where_of d q) (pg_joined db)"
  "scanned d" "token_of d" "Query d True" "\<lambda>q. clamp_limit (q_Limit q)" for d
proof (unfold_locales, goal_cases)
  case (1 q)
  then show ?case using clamp_limit_range [of "q_Limit q"] by simp
next
  case 2
  then show ?case by simp
next
  case 3
  then show ?case by (simp add: where_of_def)
next
  case (4 db q)
  then show ?case using clamp_limit_range [of "q_Limit q"] by (simp add: Query_def Let_def page_of_select)
next
  case (5 db i q)
  let ?r = "matching view_of (where_of d q) (pg_joined db) ! i"
  have "?r \<in> set (pg_joined db)" using nth_mem [OF 5(2)] by (simp add: matching_set)
  note key = token_key [OF 5(1) this, of "word_of_int (f_seq (fst ?r))"]
  have "distinct (map (row_key \<circ> view_of) (pg_joined db))"
    using 5(1) pg_joined_keys by (simp add: pages_ok_def)
  note page = page_of_below [OF _ this 5(2) key, of "clamp_limit (q_Limit q)" "scanned d" "token_of d"]
  then show ?case
    using 5(3) clamp_limit_range [of "q_Limit q"] by (simp add: Query_def Let_def token_of_def)
qed

text \<open>
  C7. A client that follows the page tokens from the first page gets every stored flow that
  matches the query exactly once, newest first, for every page size; it never runs into an
  error and never loops.
\<close>

theorem pg_pages_complete:
  assumes "pages_ok d db" and "q_Cursor q = []"
  shows "\<exists>rows. follow (Suc (length (flows db))) (Query d True db) q = Some (Inr (map (scanned d) rows)) \<and>
    set rows = {r \<in> set (joined exporter_id (exporters db) (flows db)).
      list_all (holds_on (view_of r)) (where_of d q)} \<and> distinct rows \<and>
    sorted_wrt (\<lambda>a b. row_key (view_of b) < row_key (view_of a)) rows"
proof (intro exI conjI)
  let ?rows = "matching view_of (where_of d q) (pg_joined db)"
  have ok: "pg_ok db" using assms(1) by (simp add: pages_ok_def)
  have "length (pg_joined db) = length (flows db)"
    using ok joined_length unfolding pg_ok_def by blast
  then show "follow (Suc (length (flows db))) (Query d True db) q = Some (Inr (map (scanned d) ?rows))"
    using matching_length [of view_of "where_of d q" "pg_joined db"]
    by (intro pg_pages.follow_all [OF assms]) simp
  show "set ?rows = {r \<in> set (pg_joined db). list_all (holds_on (view_of r)) (where_of d q)}"
    by (rule matching_set)
  show "distinct ?rows" by (rule matching_distinct [OF pg_joined_keys [OF ok]])
  show "sorted_wrt (\<lambda>a b. row_key (view_of b) < row_key (view_of a)) ?rows"
    by (rule matching_sorted [OF pg_joined_keys [OF ok]])
qed

definition demo_db :: pg_db where
  "demo_db = \<lparr>exporters = \<lparr>x_rows = [\<lparr>x_id = 1, x_ip = Addr4 1, x_label = None, x_first = 0, x_last = 0\<rparr>], x_next = 2\<rparr>,
     flows = [\<lparr>f_seq = 1, f_row = row_of (demo_flow\<lparr>ReceivedAt := 5000\<rparr>) 1\<rparr>], next_seq = 2\<rparr>"

definition demo_query :: FlowQuery where
  "demo_query = \<lparr>q_Start = 0, q_End = 9000, q_ExporterID = 0, q_SrcAddr = AddrZero, q_DstAddr = AddrZero,
     q_Protocol = None, q_Limit = 1, q_Cursor = []\<rparr>"

lemma demo_db_ok: "pages_ok pg_driver demo_db"
  by (simp add: pages_ok_def faithful_pg_driver pg_ok_def tab_ok_def flows_ok_def demo_db_def
      max_int64_def tab_ids_def tells_apart_def row_of_def row_at_def add_columns_def newColumns_def
      micro_eq time_units on_micro_def nano_fits_def)

theorem pg_pages_complete_witness:
  "\<exists>rows. follow 2 (Query pg_driver True demo_db) demo_query = Some (Inr (map (scanned pg_driver) rows)) \<and>
     distinct rows"
  using pg_pages_complete [OF demo_db_ok, of demo_query]
  by (auto simp: demo_query_def demo_db_def numeral_2_eq_2)

section \<open>What a page shows\<close>

text \<open>
  A record comes back from the table as it was written: scanning the stored row of a
  record whose addresses are valid and zone-free gives the record with its times cut to
  microseconds and the id of its exporter; the signed columns lose no bits of the unsigned
  counters, ports and AS numbers.
\<close>

theorem pg_row_roundtrip:
  assumes "faithful d" and "storable r"
  shows "map_option (scanRecord d (ExporterAddr r)) (encode_row d (row_of r i)) = Some (as_stored i r)"
  by (rule scan_encode_row [OF assms])

theorem pg_row_roundtrip_witness:
  "map_option (scanRecord pg_driver (ExporterAddr demo_flow)) (encode_row pg_driver (row_of demo_flow 9)) =
   Some (as_stored 9 demo_flow)"
  by (rule pg_row_roundtrip [OF faithful_pg_driver demo_flow_storable])

end
