(* ===== verification/Mariadb.thy ===== *)
theory Mariadb
  imports Relational
begin

text \<open>
  \<open>internal/sink/mariadb\<close> over the tables of \<open>migrations/mariadb\<close>: the multi-row
  \<open>INSERT IGNORE\<close> with its text and its flat argument list, \<open>WriteBatch\<close> in chunks inside one
  transaction, the exporters, \<open>Query\<close>, the retention loop and the life cycle of its goroutine.
  How the driver turns a time argument into a \<open>DATETIME(6)\<close> value is a parameter \<open>ts\<close>.
\<close>

section \<open>Statements\<close>

datatype sql_value = VTime time | VInt int | VText string | VBytes "byte list option"

definition insertPrefix :: string where
  "insertPrefix = ''INSERT IGNORE INTO flow_records (received_at, exporter_id, flow_type, first_switched, last_switched, src_addr, dst_addr, src_port, dst_port, protocol, tcp_flags, packets, bytes, sampling_rate, input_iface, output_iface, src_as, dst_as, next_hop, dedup_key) VALUES ''"

definition insertRow :: string where
  "insertRow = ''(?,?,?,?,?,?,?,?,?,?,?,?,?,?,?,?,?,?,?,?)''"

definition addrBytes :: "Addr \<Rightarrow> byte list option" where
  "addrBytes a = (if \<not> is_valid a then None else Some (as_slice a))"

text \<open>\<open>AsSlice\<close> of the zero address is nil, like \<open>addrBytes\<close>.\<close>

definition row_args :: "(Addr \<times> i64) list \<Rightarrow> FlowRecord \<Rightarrow> sql_value list" where
  "row_args ids r =
     [VTime (micro (ReceivedAt r)), VInt (sint (id_in ids r)), VText (FlowType_of r),
      VTime (micro (FirstSwitched r)), VTime (micro (LastSwitched r)),
      VBytes (addrBytes (SrcAddr r)), VBytes (addrBytes (DstAddr r)), VInt (uint (SrcPort r)),
      VInt (uint (DstPort r)), VInt (uint (Protocol r)), VInt (uint (TCPFlags r)),
      VInt (uint (Packets r)), VInt (uint (Bytes r)), VInt (uint (SamplingRate r)),
      VInt (uint (InputIface r)), VInt (uint (OutputIface r)), VInt (uint (SrcAS r)),
      VInt (uint (DstAS r)), VBytes (addrBytes (NextHop r)), VBytes (DedupKey r)]"

fun insert_rows_text :: "nat \<Rightarrow> FlowRecord list \<Rightarrow> string" where
  "insert_rows_text i [] = []"
| "insert_rows_text i (r # rs) = (if i > 0 then '','' else []) @ insertRow @ insert_rows_text (Suc i) rs"

definition insertStatement :: "FlowRecord list \<Rightarrow> (Addr \<times> i64) list \<Rightarrow> string \<times> sql_value list" where
  "insertStatement records ids =
     (insertPrefix @ insert_rows_text 0 records, concat (map (row_args ids) records))"

section \<open>The tables\<close>

record mdb_row =
  m_received :: time
  m_exporter :: i64
  m_type :: string
  m_first :: time
  m_last :: time
  m_src :: "byte list"
  m_dst :: "byte list"
  m_sport :: u16
  m_dport :: u16
  m_proto :: u8
  m_flags :: u8
  m_packets :: u64
  m_bytes :: u64
  m_sampling :: u32
  m_in :: u32
  m_out :: u32
  m_srcas :: u32
  m_dstas :: u32
  m_nexthop :: "byte list option"
  m_key :: "byte list option"

record mdb_db =
  m_exporters :: "byte list exporter_tab"
  m_flows :: "mdb_row seq_row list"
  m_next :: int

text \<open>
  Placeholders take the arguments in order. Under \<open>IGNORE\<close> a NULL in a NOT NULL column becomes
  the column's implicit default, the empty string, and text beyond a column's width is cut.
\<close>

fun time_arg :: "sql_value \<Rightarrow> time" where
  "time_arg (VTime t) = t"
| "time_arg _ = 0"

fun int_arg :: "sql_value \<Rightarrow> int" where
  "int_arg (VInt i) = i"
| "int_arg _ = 0"

fun text_arg :: "sql_value \<Rightarrow> string" where
  "text_arg (VText s) = s"
| "text_arg _ = []"

fun bytes_arg :: "sql_value \<Rightarrow> byte list option" where
  "bytes_arg (VBytes b) = b"
| "bytes_arg _ = None"

definition not_null :: "byte list option \<Rightarrow> byte list" where
  "not_null b = (case b of Some x \<Rightarrow> x | None \<Rightarrow> [])"

definition row_of_args :: "(time \<Rightarrow> time) \<Rightarrow> sql_value list \<Rightarrow> mdb_row" where
  "row_of_args ts v =
     \<lparr>m_received = ts (time_arg (v ! 0)), m_exporter = word_of_int (int_arg (v ! 1)),
      m_type = take 16 (text_arg (v ! 2)), m_first = ts (time_arg (v ! 3)), m_last = ts (time_arg (v ! 4)),
      m_src = take 16 (not_null (bytes_arg (v ! 5))), m_dst = take 16 (not_null (bytes_arg (v ! 6))),
      m_sport = word_of_int (int_arg (v ! 7)), m_dport = word_of_int (int_arg (v ! 8)),
      m_proto = word_of_int (int_arg (v ! 9)), m_flags = word_of_int (int_arg (v ! 10)),
      m_packets = word_of_int (int_arg (v ! 11)), m_bytes = word_of_int (int_arg (v ! 12)),
      m_sampling = word_of_int (int_arg (v ! 13)), m_in = word_of_int (int_arg (v ! 14)),
      m_out = word_of_int (int_arg (v ! 15)), m_srcas = word_of_int (int_arg (v ! 16)),
      m_dstas = word_of_int (int_arg (v ! 17)), m_nexthop = map_option (take 16) (bytes_arg (v ! 18)),
      m_key = map_option (take 16) (bytes_arg (v ! 19))\<rparr>"

fun rows_of_args :: "(time \<Rightarrow> time) \<Rightarrow> nat \<Rightarrow> sql_value list \<Rightarrow> mdb_row list" where
  "rows_of_args ts 0 v = []"
| "rows_of_args ts (Suc n) v = row_of_args ts (take 20 v) # rows_of_args ts n (drop 20 v)"

text \<open>
  The number of rows of a statement is the number of its parenthesised groups after
  \<open>VALUES\<close>, one per 20 placeholders.
\<close>

definition placeholders :: "string \<Rightarrow> nat" where
  "placeholders text = length (filter (\<lambda>c. c = CHR ''?'') text)"

text \<open>The unique key on \<open>(received_at, dedup_key)\<close>: rows without a key never collide.\<close>

definition m_collides :: "mdb_row \<Rightarrow> mdb_row \<Rightarrow> bool" where
  "m_collides v w \<longleftrightarrow> m_key v \<noteq> None \<and> m_key v = m_key w \<and> m_received v = m_received w"

text \<open>\<open>INSERT IGNORE\<close>: a row that collides or names no exporter is left out.\<close>

fun insert_ignore :: "i64 list \<Rightarrow> mdb_row list \<Rightarrow> mdb_row seq_row list \<Rightarrow> int \<Rightarrow>
    (mdb_row seq_row list) option \<times> int" where
  "insert_ignore ids [] fs n = (Some fs, n)"
| "insert_ignore ids (w # ws) fs n =
     (if n > max_int64 then (None, n)
      else if m_exporter w \<notin> set ids \<or> list_ex (\<lambda>f. m_collides w (f_row f)) fs
      then insert_ignore ids ws fs (n + 1)
      else insert_ignore ids ws (fs @ [\<lparr>f_seq = n, f_row = w\<rparr>]) (n + 1))"

definition exec_insert :: "(time \<Rightarrow> time) \<Rightarrow> string \<times> sql_value list \<Rightarrow> mdb_db \<Rightarrow> bool \<times> mdb_db" where
  "exec_insert ts stmt db =
     (case insert_ignore (tab_ids (m_exporters db))
             (rows_of_args ts (placeholders (fst stmt) div 20) (snd stmt)) (m_flows db) (m_next db) of
        (None, n) \<Rightarrow> (False, db\<lparr>m_next := n\<rparr>)
      | (Some fs, n) \<Rightarrow> (True, db\<lparr>m_flows := fs, m_next := n\<rparr>))"

section \<open>Exporters\<close>

record mdb_backend =
  m_cache :: "(Addr \<times> i64) list"
  m_db :: mdb_db

definition resolveExporters :: "(time \<Rightarrow> time) \<Rightarrow> nat list \<times> fault list \<Rightarrow> FlowRecord list \<Rightarrow> mdb_backend \<Rightarrow>
    (string + (Addr \<times> i64) list) \<times> mdb_backend" where
  "resolveExporters ts env records b =
     (case resolve_loop cached remember (\<lambda>i t. touch_exporter i (ts t))
             (\<lambda>a t. upsert_exporter (addrBytes a) (ts t))
             (seen_in (fst env) records) (snd env) (m_cache b) (m_exporters (m_db b)) of
        (res, c, T) \<Rightarrow> (res, \<lparr>m_cache = c, m_db = (m_db b)\<lparr>m_exporters := T\<rparr>\<rparr>))"

definition ListExporters :: "mdb_db \<Rightarrow> Exporter list" where
  "ListExporters db =
     map (\<lambda>e. \<lparr>ex_ID = x_id e, ex_IPAddress = fst (addr_from_slice (x_ip e)), ex_Label = x_label e,
                 ex_FirstSeenAt = x_first e, ex_LastSeenAt = x_last e\<rparr>)
       (sort_key (sint \<circ> x_id) (x_rows (m_exporters db)))"

section \<open>Writing a batch\<close>

definition insertRows :: nat where "insertRows = 1000"

function insert_chunks :: "(time \<Rightarrow> time) \<Rightarrow> (Addr \<times> i64) list \<Rightarrow> bool list \<Rightarrow> FlowRecord list \<Rightarrow> mdb_db \<Rightarrow>
    bool \<times> mdb_db" where
  "insert_chunks ts ids oks records db =
     (if records = [] then (True, db)
      else if (case oks of [] \<Rightarrow> False | ok # _ \<Rightarrow> \<not> ok) then (False, db)
      else case exec_insert ts (insertStatement (take insertRows records) ids) db of
             (False, db') \<Rightarrow> (False, db')
           | (True, db') \<Rightarrow> insert_chunks ts ids (tl oks) (drop insertRows records) db')"
  by pat_completeness auto

termination
  by (relation "measure (\<lambda>(ts, ids, oks, records, db). length records)") (auto simp: insertRows_def)

text \<open>
  What a write meets: the order of the range over the exporters with the faults of their statements, and the
  faults inside the transaction, where it makes no difference whether a failed statement took effect.
\<close>

record mdb_faults =
  mf_exporters :: "nat list \<times> fault list"
  mf_begin :: bool
  mf_inserts :: "bool list"
  mf_commit :: fault

text \<open>
  Rolling back restores the rows; the values the identity column has given out are gone.
\<close>

definition rollback :: "mdb_db \<Rightarrow> mdb_db \<Rightarrow> mdb_db" where
  "rollback db tx = db\<lparr>m_next := m_next tx\<rparr>"

definition WriteBatch :: "(time \<Rightarrow> time) \<Rightarrow> mdb_faults \<Rightarrow> FlowRecord list \<Rightarrow> mdb_backend \<Rightarrow>
    string option \<times> mdb_backend" where
  "WriteBatch ts fs records b =
     (if records = [] then (None, b)
      else case resolveExporters ts (mf_exporters fs) records b of
        (Inl e, b1) \<Rightarrow> (Some e, b1)
      | (Inr ids, b1) \<Rightarrow>
          if \<not> mf_begin fs then (Some ''begin'', b1)
          else (case insert_chunks ts ids (mf_inserts fs) records (m_db b1) of
                  (False, tx) \<Rightarrow> (Some ''insert records'', b1\<lparr>m_db := rollback (m_db b1) tx\<rparr>)
                | (True, tx) \<Rightarrow>
                    (case mf_commit fs of
                       Fine \<Rightarrow> (None, b1\<lparr>m_db := tx\<rparr>)
                     | LostRequest \<Rightarrow> (Some ''commit'', b1\<lparr>m_db := rollback (m_db b1) tx\<rparr>)
                     | LostReply \<Rightarrow> (Some ''commit'', b1\<lparr>m_db := tx\<rparr>))))"

section \<open>Querying\<close>

definition scanRecord :: "byte list \<Rightarrow> mdb_row \<Rightarrow> FlowRecord" where
  "scanRecord exporter v =
     zero_record
       \<lparr>ReceivedAt := m_received v, ExporterID := m_exporter v, FirstSwitched := m_first v,
        LastSwitched := m_last v, SrcPort := m_sport v, DstPort := m_dport v, Protocol := m_proto v,
        TCPFlags := m_flags v, Packets := m_packets v, Bytes := m_bytes v, SamplingRate := m_sampling v,
        InputIface := m_in v, OutputIface := m_out v, SrcAS := m_srcas v, DstAS := m_dstas v,
        FlowType_of := m_type v,
        ExporterAddr := fst (addr_from_slice exporter), SrcAddr := fst (addr_from_slice (m_src v)),
        DstAddr := fst (addr_from_slice (m_dst v)),
        NextHop := (case m_nexthop v of Some b \<Rightarrow> fst (addr_from_slice b) | None \<Rightarrow> AddrZero),
        DedupKey := (case m_key v of Some [] \<Rightarrow> None | k \<Rightarrow> k)\<rparr>"

definition view_of :: "mdb_row seq_row \<times> byte list exporter_row \<Rightarrow> byte list row_view" where
  "view_of r = (case r of (f, e) \<Rightarrow>
     \<lparr>v_received = m_received (f_row f), v_seq = f_seq f, v_exporter = m_exporter (f_row f),
      v_src = m_src (f_row f), v_dst = m_dst (f_row f), v_proto = uint (m_proto (f_row f))\<rparr>)"

definition scanned :: "mdb_row seq_row \<times> byte list exporter_row \<Rightarrow> FlowRecord" where
  "scanned r = scanRecord (x_ip (snd r)) (f_row (fst r))"

definition where_of :: "(time \<Rightarrow> time) \<Rightarrow> FlowQuery \<Rightarrow> byte list cond list" where
  "where_of ts q =
     [ReceivedFrom (ts (q_Start q)), ReceivedBefore (ts (q_End q))] @
     (if q_ExporterID q \<noteq> 0 then [ExporterIs (q_ExporterID q)] else []) @
     (if is_valid (q_SrcAddr q) then [SrcIs (as_slice (q_SrcAddr q))] else []) @
     (if is_valid (q_DstAddr q) then [DstIs (as_slice (q_DstAddr q))] else []) @
     (case q_Protocol q of Some p \<Rightarrow> [ProtocolIs (uint p)] | None \<Rightarrow> [])"

definition token_of :: "mdb_row seq_row \<times> byte list exporter_row \<Rightarrow> string" where
  "token_of r = encodeCursor \<lparr>c_T = word_of_int (unix_nano (ReceivedAt (scanned r))),
     c_Seq = word_of_int (f_seq (fst r))\<rparr>"

definition Query :: "(time \<Rightarrow> time) \<Rightarrow> bool \<Rightarrow> mdb_db \<Rightarrow> FlowQuery \<Rightarrow> string + FlowResultPage" where
  "Query ts reached db q =
     (let limit = clamp_limit (q_Limit q);
          run = (\<lambda>conds. if \<not> reached then Inl ''query''
                 else Inr (page_of scanned token_of limit
                        (select_rows view_of conds (limit + 1)
                          (joined m_exporter (m_exporters db) (m_flows db)))))
      in if q_Cursor q = [] then run (where_of ts q)
         else case decodeCursor (q_Cursor q) of
           Inl e \<Rightarrow> Inl e
         | Inr c \<Rightarrow> run (where_of ts q @ [KeyBelow (ts (at c)) (sint (c_Seq c))]))"

section \<open>Retention\<close>

definition retentionChunk :: nat where "retentionChunk = 10000"

definition Hour :: duration where "Hour = 3600 * Second"

text \<open>\<open>-time.Duration(days) * 24 * time.Hour\<close>, each product reduced to an \<open>int64\<close>.\<close>

definition retention_cutoff :: "time \<Rightarrow> int \<Rightarrow> time" where
  "retention_cutoff now days = now + wrap64 (wrap64 (- days * 24) * Hour)"

text \<open>\<open>DELETE ... WHERE received_at < cutoff ORDER BY received_at LIMIT n\<close> and its row count.\<close>

definition delete_expired :: "time \<Rightarrow> nat \<Rightarrow> mdb_row seq_row list \<Rightarrow> mdb_row seq_row list \<times> nat" where
  "delete_expired cutoff n fs =
     (let doomed = take n (sort_key (m_received \<circ> f_row) (filter (\<lambda>f. m_received (f_row f) < cutoff) fs))
      in (filter (\<lambda>f. f_seq f \<notin> f_seq ` set doomed) fs, length doomed))"

lemma delete_shrinks:
  assumes "delete_expired cutoff n fs = (fs', m)" and "0 < m"
  shows "length fs' < length fs"
proof -
  let ?doomed = "take n (sort_key (m_received \<circ> f_row) (filter (\<lambda>f. m_received (f_row f) < cutoff) fs))"
  have "length ?doomed = m" using assms(1) unfolding delete_expired_def Let_def by blast
  then have "?doomed \<noteq> []" using assms(2) by (cases ?doomed) simp_all
  then have "hd ?doomed \<in> set ?doomed" by (rule hd_in_set)
  then obtain f where f: "f \<in> set ?doomed" by blast
  moreover from f have "f \<in> set fs" by (auto dest: in_set_takeD)
  ultimately have "length (filter (\<lambda>f. f_seq f \<notin> f_seq ` set ?doomed) fs) < length fs"
    by (intro length_filter_less [of f]) auto
  then show ?thesis using assms(1) by (auto simp: delete_expired_def Let_def)
qed

text \<open>
  The loop of deletes, with what happens to them (nothing, when the list runs out): a failed delete ends the run,
  whether or not it took effect.
\<close>

function delete_loop :: "time \<Rightarrow> fault list \<Rightarrow> mdb_row seq_row list \<Rightarrow> mdb_row seq_row list" where
  "delete_loop cutoff faults fs =
     (case (case faults of [] \<Rightarrow> Fine | f # _ \<Rightarrow> f) of
        LostRequest \<Rightarrow> fs
      | LostReply \<Rightarrow> fst (delete_expired cutoff retentionChunk fs)
      | Fine \<Rightarrow>
          (case delete_expired cutoff retentionChunk fs of
             (fs', n) \<Rightarrow> if n < retentionChunk then fs' else delete_loop cutoff (tl faults) fs'))"
  by pat_completeness auto

termination
  by (relation "measure (\<lambda>(cutoff, faults, fs). length fs)")
     (auto simp: retentionChunk_def intro!: delete_shrinks [OF sym])

definition applyRetention :: "(time \<Rightarrow> time) \<Rightarrow> time \<Rightarrow> int \<Rightarrow> fault list \<Rightarrow>
    mdb_row seq_row list \<Rightarrow> mdb_row seq_row list" where
  "applyRetention ts now days faults fs = delete_loop (ts (retention_cutoff now days)) faults fs"

declare delete_loop.simps [simp del] insert_chunks.simps [simp del]

section \<open>The retention goroutine\<close>

text \<open>
  The life cycle: \<open>Migrate\<close> starts the loop once, \<open>Close\<close> closes its stop channel and waits
  until the loop has closed its done channel. Closing a closed channel panics (\<open>None\<close>).
\<close>

record retention =
  retentionStarted :: bool
  stopRetention_closed :: bool
  retentionDone_closed :: bool
  loops :: nat

definition new_retention :: retention where
  "new_retention = \<lparr>retentionStarted = False, stopRetention_closed = False, retentionDone_closed = False, loops = 0\<rparr>"

definition Migrate :: "bool \<Rightarrow> retention \<Rightarrow> string option \<times> retention" where
  "Migrate migrated s =
     (if \<not> migrated then (Some ''migrate'', s)
      else if \<not> retentionStarted s then (None, s\<lparr>retentionStarted := True, loops := loops s + 1\<rparr>)
      else (None, s))"

definition close_chan :: "bool \<Rightarrow> bool option" where
  "close_chan closed = (if closed then None else Some True)"

text \<open>The loop sees the closed stop channel after its current round and returns.\<close>

definition retentionLoop_exit :: "retention \<Rightarrow> retention option" where
  "retentionLoop_exit s =
     (if loops s = 0 \<or> \<not> stopRetention_closed s then Some s
      else map_option (\<lambda>c. s\<lparr>retentionDone_closed := c, loops := loops s - 1\<rparr>) (close_chan (retentionDone_closed s)))"

definition Close :: "retention \<Rightarrow> retention option" where
  "Close s =
     (if retentionStarted s then
        Option.bind (close_chan (stopRetention_closed s))
          (\<lambda>c. retentionLoop_exit (s\<lparr>retentionStarted := False, stopRetention_closed := c\<rparr>))
      else Some s)"

end
