(* ===== verification/Mariadb_Props.thy ===== *)
theory Mariadb_Props
  imports Mariadb
begin

text \<open>
  What the MariaDB backend promises: the multi-row statement and its arguments carry the
  records of a chunk, a batch is written as the abstract \<open>add_rows\<close> of \<open>Storage\<close> whatever
  the chunks, rows read back, pages, exporters, retention.
\<close>

section \<open>The statement\<close>

lemma placeholders_append [simp]: "placeholders (a @ b) = placeholders a + placeholders b"
  by (simp add: placeholders_def)

lemma placeholders_row: "placeholders insertRow = 20" "placeholders insertPrefix = 0" "placeholders '','' = 0"
    "placeholders [] = 0"
  by (simp_all add: placeholders_def insertRow_def insertPrefix_def)

lemma placeholders_rows: "placeholders (insert_rows_text i rs) = 20 * length rs"
  by (induction rs arbitrary: i) (simp_all add: placeholders_row)

lemma length_row_args [simp]: "length (row_args ids r) = 20"
  by (simp add: row_args_def)

lemma length_args: "length (concat (map (row_args ids) rs)) = 20 * length rs"
  by (induction rs) simp_all

definition row_of :: "(time \<Rightarrow> time) \<Rightarrow> (FlowRecord \<Rightarrow> i64) \<Rightarrow> FlowRecord \<Rightarrow> mdb_row" where
  "row_of ts ids r = row_of_args ts (row_args [(ExporterAddr r, ids r)] r)"

lemma row_args_id: "row_args [(ExporterAddr r, id_in ids r)] r = row_args ids r"
  by (simp add: row_args_def id_in_def)

lemma rows_of_statement:
  "rows_of_args ts (placeholders (fst (insertStatement rs ids)) div 20) (snd (insertStatement rs ids)) =
     map (row_of ts (id_in ids)) rs"
proof -
  have "rows_of_args ts (length rs) (concat (map (row_args ids) rs)) = map (row_of ts (id_in ids)) rs"
    by (induction rs) (simp_all add: row_of_def row_args_id)
  then show ?thesis by (simp add: insertStatement_def placeholders_row placeholders_rows)
qed

section \<open>Inserting\<close>

abbreviation mdb_flows_ok :: "i64 list \<Rightarrow> mdb_row seq_row list \<Rightarrow> int \<Rightarrow> bool" where
  "mdb_flows_ok \<equiv> flows_ok m_exporter m_collides"

lemma insert_ignore_ok:
  "insert_ignore ids ws fs n = (res, n') \<Longrightarrow> mdb_flows_ok ids fs n \<Longrightarrow>
   list_all (\<lambda>w. m_exporter w \<in> set ids) ws \<Longrightarrow>
   n \<le> n' \<and> mdb_flows_ok ids fs n' \<and>
   (\<forall>fs'. res = Some fs' \<longrightarrow> mdb_flows_ok ids fs' n' \<and> map f_row fs' = add_rows m_collides (map f_row fs) ws)"
proof (induction ids ws fs n rule: insert_ignore.induct)
  case (1 ids fs n)
  then show ?case by auto
next
  case (2 ids w ws fs n)
  show ?case
  proof (cases "n > max_int64")
    case True
    then show ?thesis using "2.prems" by auto
  next
    case n: False
    show ?thesis
    proof (cases "list_ex (\<lambda>f. m_collides w (f_row f)) fs")
      case True
      have "insert_ignore ids ws fs (n + 1) = (res, n')" using "2.prems"(1) n True by simp
      then show ?thesis
        using "2.IH"(1) [OF n] True "2.prems"(2,3) n flows_ok_next [OF "2.prems"(2)] add_row_seq(1) [of m_collides w fs]
        by simp
    next
      case False
      have w: "m_exporter w \<in> set ids" using "2.prems"(3) by simp
      have run: "insert_ignore ids ws (fs @ [\<lparr>f_seq = n, f_row = w\<rparr>]) (n + 1) = (res, n')"
        using "2.prems"(1) n False w by simp
      have "mdb_flows_ok ids (fs @ [\<lparr>f_seq = n, f_row = w\<rparr>]) (n + 1)"
        using False n w by (intro flows_ok_snoc [OF "2.prems"(2)]) auto
      note IH = "2.IH"(2) [OF n _ run this]
      have "n + 1 \<le> n' \<and> n' \<le> max_int64 + 1"
        using IH False w "2.prems"(3) by (auto simp: flows_ok_def)
      then have "mdb_flows_ok ids fs n'" using "2.prems"(2) by (auto simp: flows_ok_def)
      then show ?thesis using IH False w "2.prems"(3) add_row_seq(2) [of m_collides w fs n] by auto
    qed
  qed
qed

definition mdb_ok :: "mdb_db \<Rightarrow> bool" where
  "mdb_ok db \<longleftrightarrow> tab_ok (\<lambda>b. length b = 4 \<or> length b = 16) (m_exporters db) \<and>
     mdb_flows_ok (tab_ids (m_exporters db)) (m_flows db) (m_next db)"

definition known_exporters :: "(Addr \<times> i64) list \<Rightarrow> mdb_db \<Rightarrow> FlowRecord list \<Rightarrow> bool" where
  "known_exporters ids db rs \<longleftrightarrow> (\<forall>r\<in>set rs. id_in ids r \<in> set (tab_ids (m_exporters db)))"

lemma m_exporter_row_of [simp]: "m_exporter (row_of ts ids r) = ids r"
  by (simp add: row_of_def row_of_args_def row_args_def id_in_def)

lemma exec_insert_ok:
  assumes "exec_insert ts (insertStatement rs ids) db = (ok, db')" and "mdb_ok db"
    and "known_exporters ids db rs"
  shows "m_next db \<le> m_next db' \<and> mdb_ok (rollback db db') \<and> mdb_ok db' \<and> m_exporters db' = m_exporters db \<and>
    (ok \<longrightarrow> map f_row (m_flows db') = add_rows m_collides (map f_row (m_flows db)) (map (row_of ts (id_in ids)) rs))"
proof -
  let ?ids = "tab_ids (m_exporters db)"
  obtain r n where r: "insert_ignore ?ids (map (row_of ts (id_in ids)) rs) (m_flows db) (m_next db) = (r, n)"
    by fastforce
  have k: "list_all (\<lambda>w. m_exporter w \<in> set ?ids) (map (row_of ts (id_in ids)) rs)"
    using assms(3) by (simp add: known_exporters_def list_all_iff)
  have f: "mdb_flows_ok ?ids (m_flows db) (m_next db)" using assms(2) by (simp add: mdb_ok_def)
  show ?thesis
    using assms(1,2) insert_ignore_ok [OF r f k]
    unfolding exec_insert_def rows_of_statement r
    by (cases r) (auto simp: mdb_ok_def rollback_def)
qed

lemma insert_chunks_ok:
  "insert_chunks ts ids oks rs db = (ok, db') \<Longrightarrow> mdb_ok db \<Longrightarrow> known_exporters ids db rs \<Longrightarrow>
   m_next db \<le> m_next db' \<and> mdb_ok db' \<and> m_exporters db' = m_exporters db \<and>
   (ok \<longrightarrow> map f_row (m_flows db') = add_rows m_collides (map f_row (m_flows db)) (map (row_of ts (id_in ids)) rs))"
proof (induction ts ids oks rs db rule: insert_chunks.induct)
  case (1 ts ids oks rs db)
  consider (none) "rs = []" | (fault) "rs \<noteq> []" "case oks of [] \<Rightarrow> False | ok # _ \<Rightarrow> \<not> ok"
    | (run) "rs \<noteq> []" "\<not> (case oks of [] \<Rightarrow> False | ok # _ \<Rightarrow> \<not> ok)" by blast
  then show ?case
  proof cases
    case none
    then show ?thesis using "1.prems" by (simp add: insert_chunks.simps)
  next
    case fault
    then have "insert_chunks ts ids oks rs db = (False, db)" by (simp add: insert_chunks.simps)
    then show ?thesis using "1.prems" by simp
  next
    case run
    let ?stmt = "insertStatement (take insertRows rs) ids"
    obtain ok1 db1 where e: "exec_insert ts ?stmt db = (ok1, db1)" by fastforce
    have k: "known_exporters ids db (take insertRows rs)"
      using "1.prems"(3) by (auto simp: known_exporters_def dest: in_set_takeD)
    note x = exec_insert_ok [OF e "1.prems"(2) k]
    show ?thesis
    proof (cases ok1)
      case False
      then have "insert_chunks ts ids oks rs db = (False, db1)" using run e by (simp add: insert_chunks.simps)
      then show ?thesis using "1.prems"(1) x by simp
    next
      case True
      then have r: "insert_chunks ts ids (tl oks) (drop insertRows rs) db1 = (ok, db')"
        using "1.prems"(1) run e by (simp add: insert_chunks.simps [of ts ids oks rs])
      have "known_exporters ids db1 (drop insertRows rs)"
        using "1.prems"(3) x by (auto simp: known_exporters_def dest: in_set_dropD)
      note IH = "1.IH" [OF run e [symmetric] _ r _ this]
      have "map (row_of ts (id_in ids)) rs = map (row_of ts (id_in ids)) (take insertRows rs) @
          map (row_of ts (id_in ids)) (drop insertRows rs)"
        by (simp flip: map_append)
      then show ?thesis using IH x True by auto
    qed
  qed
qed

end
