(* ===== verification/Mariadb_Sink.thy ===== *)
theory Mariadb_Sink
  imports Mariadb_Props
begin

text \<open>
  The properties of the MariaDB backend as a whole, for a driver that keeps the instants of a
  \<open>DATETIME(6)\<close> column.
\<close>

section \<open>The driver and the records\<close>

text \<open>Whole microseconds of the years 1000 to 9999.\<close>

definition mdb_time :: "time \<Rightarrow> bool" where
  "mdb_time t \<longleftrightarrow> on_micro t \<and> - 30610224000 * Second \<le> t \<and> t < 253402300800 * Second"

definition keeps_datetime :: "(time \<Rightarrow> time) \<Rightarrow> bool" where
  "keeps_datetime ts \<longleftrightarrow> (\<forall>t. mdb_time t \<longrightarrow> ts t = t)"

definition fits_columns :: "FlowRecord \<Rightarrow> bool" where
  "fits_columns r \<longleftrightarrow> tells_apart (ExporterAddr r) \<and>
     list_all zone_free [SrcAddr r, DstAddr r, NextHop r] \<and>
     list_all (mdb_time \<circ> micro) [ReceivedAt r, FirstSwitched r, LastSwitched r] \<and>
     length (FlowType_of r) \<le> 16 \<and>
     (case DedupKey r of None \<Rightarrow> True | Some k \<Rightarrow> k \<noteq> [] \<and> length k \<le> 16)"

definition ip_bytes :: "byte list \<Rightarrow> bool" where
  "ip_bytes b \<longleftrightarrow> length b = 4 \<or> length b = 16"

lemma length_as_slice: "is_valid a \<Longrightarrow> ip_bytes (as_slice a)"
  by (cases a) (simp_all add: ip_bytes_def)

lemma lawful_bytes: "keeps_datetime ts \<Longrightarrow> lawful addrBytes ts ip_bytes mdb_time"
  unfolding lawful_def keeps_datetime_def tells_apart_def addrBytes_def
  using length_as_slice addr_from_slice_as_slice
  by (auto split: if_splits) (metis prod.inject)

definition backend_ok :: "mdb_backend \<Rightarrow> bool" where
  "backend_ok b \<longleftrightarrow> mdb_ok (m_db b) \<and> cache_ok addrBytes (m_exporters (m_db b)) (m_cache b)"

definition stored :: "mdb_backend \<Rightarrow> mdb_row list" where
  "stored b = map f_row (m_flows (m_db b))"

definition row_in :: "(time \<Rightarrow> time) \<Rightarrow> mdb_backend \<Rightarrow> FlowRecord \<Rightarrow> mdb_row" where
  "row_in ts b r = row_of ts (\<lambda>r. the (id_at addrBytes (m_exporters (m_db b)) (ExporterAddr r))) r"

section \<open>Writing\<close>

lemma mariadb_resolve_batch:
  assumes "resolveExporters ts oks rs b = (res, b1)" and "keeps_datetime ts" and "backend_ok b"
    and "list_all fits_columns rs"
  shows "backend_ok b1" and "stored b1 = stored b"
    and "\<And>ids r. res = Inr ids \<Longrightarrow> r \<in> set rs \<Longrightarrow>
      id_at addrBytes (m_exporters (m_db b1)) (ExporterAddr r) = Some (id_in ids r) \<and>
      (\<exists>u. last_at addrBytes (m_exporters (m_db b1)) (ExporterAddr r) = Some u \<and> micro (ReceivedAt r) \<le> u)"
    and "\<And>a i. tells_apart a \<Longrightarrow> id_at addrBytes (m_exporters (m_db b)) a = Some i \<Longrightarrow>
      id_at addrBytes (m_exporters (m_db b1)) a = Some i"
proof -
  let ?T = "m_exporters (m_db b)" and ?T1 = "m_exporters (m_db b1)"
  have run: "xt.resolve ts addrBytes (seen_in (fst oks) rs) (snd oks) (m_cache b) ?T = (res, m_cache b1, ?T1)"
    and same: "m_flows (m_db b1) = m_flows (m_db b)" "m_next (m_db b1) = m_next (m_db b)"
    using assms(1) by (auto simp: resolveExporters_def split: prod.splits)
  have ok: "tab_ok ip_bytes ?T" "cache_ok addrBytes ?T (m_cache b)"
    using assms(3) by (simp_all add: backend_ok_def mdb_ok_def ip_bytes_def [abs_def])
  have good: "\<forall>r\<in>set rs. tells_apart (ExporterAddr r) \<and> mdb_time (micro (ReceivedAt r))"
    using assms(4) by (auto simp: list_all_iff fits_columns_def)
  note rr = resolve_records [OF run lawful_bytes [OF assms(2)] ok good]
  show "stored b1 = stored b" using same by (simp add: stored_def)
  show "backend_ok b1"
    using rr(1,2) flows_ok_mono [OF _ rr(3)] assms(3)
    unfolding backend_ok_def mdb_ok_def same ip_bytes_def [abs_def] by blast
  show "id_at addrBytes ?T1 (ExporterAddr r) = Some (id_in ids r) \<and>
      (\<exists>u. last_at addrBytes ?T1 (ExporterAddr r) = Some u \<and> micro (ReceivedAt r) \<le> u)"
    if "res = Inr ids" "r \<in> set rs" for ids r using rr(4) [OF that] .
  show "id_at addrBytes ?T1 a = Some i" if "tells_apart a" "id_at addrBytes ?T a = Some i" for a i using rr(5) [OF that] .
qed

lemma rollback_ok: "mdb_ok db \<Longrightarrow> mdb_ok tx \<Longrightarrow> m_exporters tx = m_exporters db \<Longrightarrow> m_next db \<le> m_next tx \<Longrightarrow>
    mdb_ok (rollback db tx)"
  by (auto simp: mdb_ok_def rollback_def intro: flows_ok_later)

lemma mariadb_write_outcome:
  assumes "WriteBatch ts fs rs b = (err, b')" and "keeps_datetime ts" and "backend_ok b"
    and "list_all fits_columns rs"
  shows "backend_ok b' \<and>
    (if err = None \<or> err = Some ''commit'' \<and> mf_commit fs = LostReply
     then stored b' = add_rows m_collides (stored b) (map (row_in ts b') rs) else stored b' = stored b)"
proof (cases "rs = []")
  case True
  then show ?thesis using assms by (simp add: WriteBatch_def)
next
  case False
  obtain res b1 where r: "resolveExporters ts (mf_exporters fs) rs b = (res, b1)" by fastforce
  note rb = mariadb_resolve_batch [OF r assms(2-4)]
  show ?thesis
  proof (cases res)
    case (Inl e)
    have "e \<noteq> ''commit''"
      using r Inl by (auto simp: resolveExporters_def split: prod.splits dest!: resolve_error)
    then show ?thesis using assms(1) False r rb(1,2) Inl by (auto simp: WriteBatch_def)
  next
    case (Inr ids)
    have ok1: "mdb_ok (m_db b1)" using rb(1) by (simp add: backend_ok_def)
    have k: "known_exporters ids (m_db b1) rs"
      using rb(3) [OF Inr] id_at_known by (fastforce simp: known_exporters_def)
    obtain ok tx where c: "insert_chunks ts ids (mf_inserts fs) rs (m_db b1) = (ok, tx)" by fastforce
    note x = insert_chunks_ok [OF c ok1 k, folded stored_def, unfolded rb(2)]
    have rows: "row_in ts (b1\<lparr>m_db := tx\<rparr>) r = row_of ts (id_in ids) r" if "r \<in> set rs" for r
      using rb(3) [OF Inr that] x by (simp add: row_in_def row_of_def)
    have "backend_ok (b1\<lparr>m_db := tx\<rparr>)" "backend_ok (b1\<lparr>m_db := rollback (m_db b1) tx\<rparr>)"
      using rb(1) x rollback_ok [OF ok1] by (simp_all add: backend_ok_def rollback_def)
    moreover have "stored (b1\<lparr>m_db := rollback (m_db b1) tx\<rparr>) = stored b"
      using rb(2) by (simp add: stored_def rollback_def)
    ultimately show ?thesis
      using assms(1) False r Inr c x rows rb(1,2)
      by (auto simp: WriteBatch_def stored_def cong: map_cong split: bool.splits fault.splits if_splits)
  qed
qed

lemma mariadb_write_refines:
  assumes "WriteBatch ts fs rs b = (err, b')" and "keeps_datetime ts" and "backend_ok b"
    and "list_all fits_columns rs"
  shows "backend_ok b' \<and> (stored b' = add_rows m_collides (stored b) (map (row_in ts b') rs) \<or>
    (err \<noteq> None \<and> stored b' = stored b))"
  using mariadb_write_outcome [OF assms] by (auto split: if_splits)

lemma m_key_row: "m_key (row_of ts ids r) = map_option (take 16) (DedupKey r)"
    "m_received (row_of ts ids r) = ts (micro (ReceivedAt r))"
  by (simp_all add: row_of_def row_of_args_def row_args_def)

interpretation mdb_sink: dedup_sink "\<lambda>f rs b. WriteBatch ts f rs b" stored
  "\<lambda>b. keeps_datetime ts \<and> backend_ok b" fits_columns "row_in ts" m_collides for ts
  by unfold_locales (use mariadb_write_refines in blast, simp_all add: row_in_def m_collides_def m_key_row)

section \<open>A concrete instance\<close>

definition empty_mdb :: mdb_backend where
  "empty_mdb = \<lparr>m_cache = [], m_db = \<lparr>m_exporters = empty_tab, m_flows = [], m_next = 1\<rparr>\<rparr>"

definition quiet :: "nat list \<Rightarrow> mdb_faults" where
  "quiet order = \<lparr>mf_exporters = (order, []), mf_begin = True, mf_inserts = [], mf_commit = Fine\<rparr>"

definition demo_flow :: FlowRecord where
  "demo_flow = zero_record
     \<lparr>ReceivedAt := 1758288000000123456, FlowType_of := FlowTypeIPFIX,
      FirstSwitched := 1758287990000000000, LastSwitched := 1758287999000000000,
      ExporterAddr := Addr4 0xC0000201, SrcAddr := Addr4 0x0A000001, DstAddr := Addr6 5 [],
      Packets := 0xFFFFFFFFFFFFFFFF, DedupKey := Some [1, 2, 3]\<rparr>"

lemma keeps_micro: "keeps_datetime micro"
  by (simp add: keeps_datetime_def mdb_time_def)

lemma empty_mdb_ok: "backend_ok empty_mdb"
  by (simp add: backend_ok_def mdb_ok_def empty_mdb_def empty_tab_ok cache_ok_Nil flows_ok_def max_int64_def)

lemma demo_fits: "list_all fits_columns [demo_flow]"
  by (simp add: fits_columns_def demo_flow_def zero_record_def tells_apart_def mdb_time_def micro_eq
      on_micro_def time_units FlowTypeIPFIX_def)

lemmas demo_eval = WriteBatch_def resolveExporters_def seen_in_def seen_of_def note_seen_def cached_def remember_def
  cacheCap_def upsert_exporter_def touch_exporter_def empty_tab_def max_int64_def addrBytes_def empty_mdb_def
  quiet_def demo_flow_def zero_record_def exec_insert_def rows_of_statement insertRows_def row_of_def
  row_of_args_def row_args_def id_in_def tab_ids_def m_collides_def Let_def

lemma mariadb_demo_written: "WriteBatch micro (quiet []) [demo_flow] empty_mdb =
    (None, snd (WriteBatch micro (quiet []) [demo_flow] empty_mdb))"
  by (simp add: demo_eval insert_chunks.simps)

lemma mariadb_demo_rewritten: "WriteBatch micro (quiet []) [demo_flow] (snd (WriteBatch micro (quiet []) [demo_flow] empty_mdb)) =
    (None, snd (WriteBatch micro (quiet []) [demo_flow] (snd (WriteBatch micro (quiet []) [demo_flow] empty_mdb))))"
  by (simp add: demo_eval insert_chunks.simps)

text \<open>
  C11. Writing a batch refines the abstract append-if-new: without an error the table holds
  the old rows followed by the batch's new rows in order, however the batch is cut into
  statements; with an error it is rolled back to the old rows, except when the commit was carried out and only
  its reply was lost, where it holds the whole batch. Tables and id cache keep their invariant.
\<close>

theorem mdb_write_refines:
  assumes "WriteBatch ts fs rs b = (err, b')" and "keeps_datetime ts" and "backend_ok b"
    and "list_all fits_columns rs"
  shows "backend_ok b' \<and>
    (if err = None \<or> err = Some ''commit'' \<and> mf_commit fs = LostReply
     then stored b' = add_rows m_collides (stored b) (map (row_in ts b') rs) else stored b' = stored b)"
  by (rule mariadb_write_outcome [OF assms])

theorem mdb_write_refines_witness:
  "length (stored (snd (WriteBatch micro (quiet []) [demo_flow] empty_mdb))) = 1"
  using mdb_write_refines [OF mariadb_demo_written keeps_micro empty_mdb_ok demo_fits]
  by (simp add: add_row_def stored_def empty_mdb_def)

text \<open>
  A redelivered batch of records with dedup keys leaves the MariaDB table as it is,
  whatever faults the second write meets.
\<close>

theorem mdb_redelivery_noop:
  assumes "WriteBatch ts fs rs b = (None, b1)" and "WriteBatch ts fs' rs b1 = (err, b2)"
    and "keeps_datetime ts" and "backend_ok b" and "list_all fits_columns rs"
    and "list_all (\<lambda>r. DedupKey r \<noteq> None) rs"
  shows "stored b2 = stored b1"
  using mdb_sink.redelivery [OF assms(1,2)] assms(3-) by blast

theorem mdb_redelivery_noop_witness:
  "stored (snd (WriteBatch micro (quiet []) [demo_flow] (snd (WriteBatch micro (quiet []) [demo_flow] empty_mdb)))) =
   stored (snd (WriteBatch micro (quiet []) [demo_flow] empty_mdb))"
  by (rule mdb_redelivery_noop [OF mariadb_demo_written mariadb_demo_rewritten keeps_micro empty_mdb_ok demo_fits])
     (simp add: demo_flow_def)

end
