(* ===== verification/Mariadb_Pages.thy ===== *)
theory Mariadb_Pages
  imports Mariadb_Sink
begin

text \<open>
  Reading from MariaDB, the bounds of its statements, and retention: pages behind the
  interface of \<open>Storage\<close>, rows that scan back to their records, the deletion of exactly the
  expired rows and the cutoff it uses.
\<close>

section \<open>Statements and rows\<close>

text \<open>
  A multi-row insert has one placeholder per argument, 20 per record, and no statement
  of \<open>WriteBatch\<close>, which inserts at most 1000 records at a time, exceeds the server's limit
  of 65535 placeholders.
\<close>

theorem mdb_statement_bounds:
  "placeholders (fst (insertStatement rs ids)) = length (snd (insertStatement rs ids)) \<and>
   placeholders (fst (insertStatement (take insertRows rs) ids)) \<le> 20000"
  by (simp add: insertStatement_def placeholders_row placeholders_rows length_args insertRows_def)

definition as_stored :: "i64 \<Rightarrow> FlowRecord \<Rightarrow> FlowRecord" where
  "as_stored i r = r\<lparr>ReceivedAt := micro (ReceivedAt r), FirstSwitched := micro (FirstSwitched r),
     LastSwitched := micro (LastSwitched r), ExporterID := i\<rparr>"

lemma slice_back: "zone_free a \<Longrightarrow> fst (addr_from_slice (take 16 (not_null (addrBytes a)))) = a"
  by (cases a) (simp_all add: addrBytes_def not_null_def addr_from_slice_def)

lemma slice_back_opt: "zone_free a \<Longrightarrow>
    (case map_option (take 16) (addrBytes a) of Some b \<Rightarrow> fst (addr_from_slice b) | None \<Rightarrow> AddrZero) = a"
  by (cases a) (simp_all add: addrBytes_def addr_from_slice_def)

text \<open>
  A row of the MariaDB table scans back to the record it was written from, with times cut
  to microseconds and the id of its exporter: every counter at its full unsigned width, an
  absent address as the zero address, an absent dedup key as none.
\<close>

theorem mdb_row_roundtrip:
  assumes "keeps_datetime ts" and "fits_columns r"
  shows "scanRecord (as_slice (ExporterAddr r)) (row_of ts (\<lambda>_. i) r) = as_stored i r"
proof -
  have e: "fst (addr_from_slice (as_slice (ExporterAddr r))) = ExporterAddr r"
    using assms(2) by (simp add: fits_columns_def tells_apart_def addr_from_slice_as_slice)
  have z: "zone_free (SrcAddr r)" "zone_free (DstAddr r)" "zone_free (NextHop r)"
    and t: "ts (micro (ReceivedAt r)) = micro (ReceivedAt r)"
      "ts (micro (FirstSwitched r)) = micro (FirstSwitched r)"
      "ts (micro (LastSwitched r)) = micro (LastSwitched r)"
    using assms by (simp_all add: fits_columns_def keeps_datetime_def)
  have k: "(case map_option (take 16) (DedupKey r) of Some [] \<Rightarrow> None | k \<Rightarrow> k) = DedupKey r"
    using assms(2) by (cases "DedupKey r") (auto simp: fits_columns_def neq_Nil_conv)
  have y: "take 16 (FlowType_of r) = FlowType_of r" using assms(2) by (simp add: fits_columns_def)
  show ?thesis
    using slice_back [OF z(1)] slice_back [OF z(2)] slice_back_opt [OF z(3)]
    by (cases r) (use e t k y in \<open>simp add: scanRecord_def row_of_def row_of_args_def row_args_def
      as_stored_def zero_record_def id_in_def\<close>)
qed

theorem mdb_row_roundtrip_witness:
  "Packets (scanRecord (as_slice (ExporterAddr demo_flow)) (row_of micro (\<lambda>_. 7) demo_flow)) = 0xFFFFFFFFFFFFFFFF"
  using mdb_row_roundtrip [of micro demo_flow 7] keeps_micro demo_fits
  by (simp add: as_stored_def) (simp add: demo_flow_def)

section \<open>Pages\<close>

definition pages_ok :: "(time \<Rightarrow> time) \<Rightarrow> mdb_db \<Rightarrow> bool" where
  "pages_ok ts db \<longleftrightarrow> keeps_datetime ts \<and> mdb_ok db \<and>
     (\<forall>f\<in>set (m_flows db). on_micro (m_received (f_row f)) \<and> nano_fits (m_received (f_row f)))"

lemma nano_mdb_time: "on_micro t \<Longrightarrow> nano_fits t \<Longrightarrow> mdb_time t"
  by (simp add: mdb_time_def nano_fits_def time_units)

lemma mariadb_received_scanned [simp]: "ReceivedAt (scanned r) = m_received (f_row (fst r))"
  by (simp add: scanned_def scanRecord_def)

lemma mariadb_row_key_view: "row_key (view_of r) = (m_received (f_row (fst r)), f_seq (fst r))"
  by (simp add: row_key_def view_of_def split: prod.splits)

abbreviation mdb_joined :: "mdb_db \<Rightarrow> (mdb_row seq_row \<times> byte list exporter_row) list" where
  "mdb_joined db \<equiv> joined m_exporter (m_exporters db) (m_flows db)"

lemma mdb_joined_keys: "mdb_ok db \<Longrightarrow> distinct (map (row_key \<circ> view_of) (mdb_joined db))"
  by (rule joined_keys [where received = m_received]) (auto simp: mdb_ok_def mariadb_row_key_view)

lemma mariadb_token_key:
  assumes "pages_ok ts db" and "r \<in> set (mdb_joined db)"
  shows "(ts (at \<lparr>c_T = word_of_int (unix_nano (m_received (f_row (fst r)))), c_Seq = s\<rparr>),
      sint (word_of_int (f_seq (fst r)) :: i64)) = row_key (view_of r)"
proof -
  have "fst r \<in> set (m_flows db)" by (rule joinedD(1) [OF assms(2)])
  then have "mdb_time (m_received (f_row (fst r)))" "nano_fits (m_received (f_row (fst r)))"
      "1 \<le> f_seq (fst r)" "f_seq (fst r) \<le> max_int64" "keeps_datetime ts"
    using assms(1) by (auto simp: pages_ok_def mdb_ok_def flows_ok_def nano_mdb_time)
  then show ?thesis by (simp add: mariadb_row_key_view at_nano keeps_datetime_def sint_new_id)
qed

interpretation mdb_pages: keyset_store "pages_ok ts" "\<lambda>db q. matching view_of (where_of ts q) (mdb_joined db)"
  scanned token_of "Query ts True" "\<lambda>q. clamp_limit (q_Limit q)" for ts
proof (unfold_locales, goal_cases)
  case (1 q)
  then show ?case using clamp_limit_range [of "q_Limit q"] by simp
next
  case 2
  then show ?case by simp
next
  case 3
  then show ?case by (simp add: where_of_def)
next
  case (4 db q)
  then show ?case using clamp_limit_range [of "q_Limit q"] by (simp add: Query_def Let_def page_of_select)
next
  case (5 db i q)
  let ?r = "matching view_of (where_of ts q) (mdb_joined db) ! i"
  have "?r \<in> set (mdb_joined db)" using nth_mem [OF 5(2)] by (simp add: matching_set)
  note key = mariadb_token_key [OF 5(1) this, of "word_of_int (f_seq (fst ?r))"]
  have "distinct (map (row_key \<circ> view_of) (mdb_joined db))"
    using 5(1) mdb_joined_keys by (simp add: pages_ok_def)
  note page = page_of_below [OF _ this 5(2) key, of "clamp_limit (q_Limit q)" scanned token_of]
  then show ?case
    using 5(3) clamp_limit_range [of "q_Limit q"] by (simp add: Query_def Let_def token_of_def)
qed

text \<open>
  Following the page tokens of the MariaDB backend from the first page returns every
  matching flow exactly once, newest first.
\<close>

theorem mdb_pages_complete:
  assumes "pages_ok ts db" and "q_Cursor q = []"
  shows "\<exists>rows. follow (Suc (length (m_flows db))) (Query ts True db) q = Some (Inr (map scanned rows)) \<and>
    set rows = {r \<in> set (joined m_exporter (m_exporters db) (m_flows db)).
      list_all (holds_on (view_of r)) (where_of ts q)} \<and> distinct rows \<and>
    sorted_wrt (\<lambda>a b. row_key (view_of b) < row_key (view_of a)) rows"
proof (intro exI conjI)
  let ?rows = "matching view_of (where_of ts q) (mdb_joined db)"
  have ok: "mdb_ok db" using assms(1) by (simp add: pages_ok_def)
  have "length (mdb_joined db) = length (m_flows db)"
    using ok joined_length unfolding mdb_ok_def by blast
  then show "follow (Suc (length (m_flows db))) (Query ts True db) q = Some (Inr (map scanned ?rows))"
    using matching_length [of view_of "where_of ts q" "mdb_joined db"]
    by (intro mdb_pages.follow_all [OF assms]) simp
  show "set ?rows = {r \<in> set (mdb_joined db). list_all (holds_on (view_of r)) (where_of ts q)}"
    by (rule matching_set)
  show "distinct ?rows" by (rule matching_distinct [OF mdb_joined_keys [OF ok]])
  show "sorted_wrt (\<lambda>a b. row_key (view_of b) < row_key (view_of a)) ?rows"
    by (rule matching_sorted [OF mdb_joined_keys [OF ok]])
qed

definition demo_query :: FlowQuery where
  "demo_query = \<lparr>q_Start = 0, q_End = 9000, q_ExporterID = 0, q_SrcAddr = AddrZero, q_DstAddr = AddrZero,
     q_Protocol = None, q_Limit = 1, q_Cursor = []\<rparr>"

definition demo_db :: mdb_db where
  "demo_db = \<lparr>m_exporters = \<lparr>x_rows = [\<lparr>x_id = 1, x_ip = [1, 2, 3, 4], x_label = None, x_first = 0, x_last = 0\<rparr>],
       x_next = 2\<rparr>,
     m_flows = [\<lparr>f_seq = 1, f_row = row_of micro (\<lambda>_. 1) (demo_flow\<lparr>ReceivedAt := 5000\<rparr>)\<rparr>], m_next = 2\<rparr>"

lemma mariadb_demo_db_ok: "pages_ok micro demo_db"
  by (simp add: pages_ok_def keeps_micro mdb_ok_def tab_ok_def flows_ok_def demo_db_def max_int64_def tab_ids_def
      m_key_row micro_eq time_units on_micro_def nano_fits_def)

theorem mdb_pages_complete_witness:
  "\<exists>rows. follow 2 (Query micro True demo_db) demo_query = Some (Inr (map scanned rows)) \<and> distinct rows"
  using mdb_pages_complete [OF mariadb_demo_db_ok, of demo_query]
  by (auto simp: demo_query_def demo_db_def numeral_2_eq_2)

section \<open>Retention\<close>

lemma delete_unexpired:
  assumes "distinct (map f_seq fs)"
  shows "filter (\<lambda>f. \<not> m_received (f_row f) < cutoff) (fst (delete_expired cutoff n fs)) =
    filter (\<lambda>f. \<not> m_received (f_row f) < cutoff) fs"
proof -
  let ?doomed = "take n (sort_key (m_received \<circ> f_row) (filter (\<lambda>f. m_received (f_row f) < cutoff) fs))"
  have "f_seq f \<notin> f_seq ` set ?doomed" if "f \<in> set fs" "\<not> m_received (f_row f) < cutoff" for f
  proof
    assume "f_seq f \<in> f_seq ` set ?doomed"
    then obtain g where g: "g \<in> set ?doomed" "f_seq f = f_seq g" by blast
    from g(1) have "g \<in> set fs" "m_received (f_row g) < cutoff" by (auto dest: in_set_takeD)
    with g(2) that assms show False by (auto simp: distinct_map dest: inj_onD)
  qed
  then show ?thesis
    by (auto simp: delete_expired_def Let_def conj_commute intro!: filter_cong)
qed

lemma delete_all_expired:
  assumes "delete_expired cutoff n fs = (fs', m)" and "m < n"
  shows "filter (\<lambda>f. m_received (f_row f) < cutoff) fs' = []"
proof -
  let ?exp = "filter (\<lambda>f. m_received (f_row f) < cutoff) fs"
  have "m = min (length ?exp) n" using assms(1) by (auto simp: delete_expired_def Let_def)
  then have "take n (sort_key (m_received \<circ> f_row) ?exp) = sort_key (m_received \<circ> f_row) ?exp"
    using assms(2) by simp
  then show ?thesis using assms(1) by (auto simp: delete_expired_def Let_def filter_empty_conv)
qed

lemma delete_distinct: "distinct (map f_seq fs) \<Longrightarrow> distinct (map f_seq (fst (delete_expired cutoff n fs)))"
  by (simp add: delete_expired_def Let_def distinct_map_filter)

lemma retention_keeps:
  "distinct (map f_seq fs) \<Longrightarrow>
   filter (\<lambda>f. \<not> m_received (f_row f) < cutoff) (delete_loop cutoff faults fs) =
   filter (\<lambda>f. \<not> m_received (f_row f) < cutoff) fs"
proof (induction cutoff faults fs rule: delete_loop.induct)
  case (1 cutoff faults fs)
  obtain fs' n where d: "delete_expired cutoff retentionChunk fs = (fs', n)" by fastforce
  have "distinct (map f_seq fs')" using delete_distinct [OF 1(2), of cutoff retentionChunk] d by simp
  then show ?case
    using 1 d delete_unexpired [OF 1(2), of cutoff retentionChunk]
    by (simp add: delete_loop.simps [of cutoff faults fs] split: fault.splits list.splits)
qed

lemma retention_deletes:
  "filter (\<lambda>f. m_received (f_row f) < cutoff) (delete_loop cutoff [] fs) = []"
proof (induction cutoff "[] :: fault list" fs rule: delete_loop.induct)
  case (1 cutoff fs)
  obtain fs' n where d: "delete_expired cutoff retentionChunk fs = (fs', n)" by fastforce
  show ?case
  proof (cases "n < retentionChunk")
    case True
    then show ?thesis using delete_all_expired [OF d] d by (simp add: delete_loop.simps [of cutoff "[]" fs])
  next
    case False
    then show ?thesis using 1 d by (simp add: delete_loop.simps [of cutoff "[]" fs])
  qed
qed

lemma retention_exact:
  assumes "distinct (map f_seq fs)"
  shows "filter (\<lambda>f. cutoff \<le> m_received (f_row f)) (delete_loop cutoff faults fs) =
      filter (\<lambda>f. cutoff \<le> m_received (f_row f)) fs"
    and "delete_loop cutoff [] fs = filter (\<lambda>f. cutoff \<le> m_received (f_row f)) fs"
proof -
  show keeps: "filter (\<lambda>f. cutoff \<le> m_received (f_row f)) (delete_loop cutoff faults fs) =
      filter (\<lambda>f. cutoff \<le> m_received (f_row f)) fs" for faults
    using retention_keeps [OF assms, of cutoff faults] by (simp add: not_less)
  have "delete_loop cutoff [] fs = filter (\<lambda>f. cutoff \<le> m_received (f_row f)) (delete_loop cutoff [] fs)"
    using retention_deletes [of cutoff fs] by (simp add: filter_empty_conv not_less filter_id_conv)
  then show "delete_loop cutoff [] fs = filter (\<lambda>f. cutoff \<le> m_received (f_row f)) fs" by (simp only: keeps)
qed

text \<open>
  C31. A retention run ends after finitely many deletes of at most 10000 rows, never removes a
  row that is not older than the cutoff as the driver passes it, whatever deletes fail, before or after they
  took effect, and when none fails leaves exactly the rows that are not older, in their order.
\<close>

theorem mdb_retention_exact:
  assumes "distinct (map f_seq fs)"
  shows "filter (\<lambda>f. ts (retention_cutoff now days) \<le> m_received (f_row f)) (applyRetention ts now days faults fs) =
      filter (\<lambda>f. ts (retention_cutoff now days) \<le> m_received (f_row f)) fs \<and>
    applyRetention ts now days [] fs =
      filter (\<lambda>f. ts (retention_cutoff now days) \<le> m_received (f_row f)) fs"
  unfolding applyRetention_def using retention_exact [OF assms] by blast

lemma demo_cutoffs: "retention_cutoff (6000 + 24 * Hour) 1 = 6000" "retention_cutoff (5000 + 24 * Hour) 1 = 5000"
  by (simp_all add: retention_cutoff_def Hour_def time_units wrap64_def)

theorem mdb_retention_exact_witness:
  "applyRetention micro (6000 + 24 * Hour) 1 [] (m_flows demo_db) = [] \<and>
   applyRetention micro (5000 + 24 * Hour) 1 [] (m_flows demo_db) = m_flows demo_db"
  using mdb_retention_exact [of "m_flows demo_db" micro "6000 + 24 * Hour" 1 "[]"]
    mdb_retention_exact [of "m_flows demo_db" micro "5000 + 24 * Hour" 1 "[]"]
  by (simp add: demo_cutoffs demo_db_def m_key_row micro_eq time_units)

text \<open>The wrapped product, on the three ranges of days up to the second turn.\<close>

lemma retention_cutoff_exact:
  assumes "1 \<le> days" and "days \<le> 106751"
  shows "retention_cutoff now days = now - days * 24 * Hour"
proof -
  have "wrap64 (- days * 24) = - days * 24" using assms by (simp add: wrap64_id)
  moreover have "wrap64 (- days * 24 * Hour) = - days * 24 * Hour"
    using assms by (simp add: wrap64_id Hour_def time_units)
  ultimately show ?thesis by (simp add: retention_cutoff_def)
qed

lemma wrap64_turn: "wrap64 (x + 2 ^ 64) = wrap64 x"
proof -
  have "(word_of_int (x + 2 ^ 64) :: i64) = word_of_int x"
    by (rule word_of_int_eq_iff [THEN iffD2]) (simp add: take_bit_eq_mod)
  then show ?thesis by (simp only: wrap64_def)
qed

lemma retention_cutoff_wraps:
  assumes "106752 \<le> days" and "days \<le> 213503"
  shows "retention_cutoff now days = now + (2 ^ 64 - days * 24 * Hour)" and "now + 84873 * Second < retention_cutoff now days"
proof -
  have "wrap64 (- days * 24) = - days * 24" using assms by (simp add: wrap64_id)
  moreover have "wrap64 (- days * 24 * Hour) = wrap64 (- days * 24 * Hour + 2 ^ 64)" by (rule wrap64_turn [symmetric])
  moreover have "wrap64 (- days * 24 * Hour + 2 ^ 64) = - days * 24 * Hour + 2 ^ 64"
    using assms by (intro wrap64_id) (simp_all add: Hour_def time_units)
  ultimately show c: "retention_cutoff now days = now + (2 ^ 64 - days * 24 * Hour)" by (simp add: retention_cutoff_def)
  show "now + 84873 * Second < retention_cutoff now days"
    using assms unfolding c by (simp add: Hour_def time_units)
qed

text \<open>
  C32. The cutoff is that many days before now for up to 106751 days. For 106752 to 213503 days,
  which the configuration accepts, the product of the duration wraps, the cutoff lies in the
  future and, through a driver that keeps the order of instants, the retention run deletes every row received
  up to now. For 213504 days it has wrapped again and keeps only the last 1526 seconds.
\<close>

theorem mdb_retention_cutoff:
  "(1 \<le> days \<and> days \<le> 106751 \<longrightarrow> retention_cutoff now days = now - days * 24 * Hour) \<and>
   (106752 \<le> days \<and> days \<le> 213503 \<longrightarrow> now < retention_cutoff now days) \<and>
   (106752 \<le> days \<and> days \<le> 213503 \<and> keeps_datetime ts \<and> mono ts \<and> mdb_time (micro (retention_cutoff now days)) \<and>
    distinct (map f_seq fs) \<and> list_all (\<lambda>f. m_received (f_row f) \<le> now) fs \<longrightarrow>
      applyRetention ts now days [] fs = []) \<and>
   retention_cutoff now 213504 = now - 1526290448384"
proof (intro conjI impI)
  assume "1 \<le> days \<and> days \<le> 106751"
  then show "retention_cutoff now days = now - days * 24 * Hour" by (simp add: retention_cutoff_exact)
next
  assume "106752 \<le> days \<and> days \<le> 213503"
  then show "now < retention_cutoff now days" using retention_cutoff_wraps(2) [of days now] by (simp add: time_units)
next
  assume a: "106752 \<le> days \<and> days \<le> 213503 \<and> keeps_datetime ts \<and> mono ts \<and> mdb_time (micro (retention_cutoff now days)) \<and>
    distinct (map f_seq fs) \<and> list_all (\<lambda>f. m_received (f_row f) \<le> now) fs"
  let ?c = "retention_cutoff now days"
  have "now < micro ?c"
    using retention_cutoff_wraps(2) [of days now] micro_gt [of ?c] a by (simp add: time_units)
  also have "micro ?c = ts (micro ?c)" using a by (simp add: keeps_datetime_def)
  also have "\<dots> \<le> ts ?c" using a by (auto intro: monoD micro_le)
  finally have "filter (\<lambda>f. ts ?c \<le> m_received (f_row f)) fs = []"
    using a by (auto simp: filter_empty_conv list_all_iff)
  then show "applyRetention ts now days [] fs = []"
    unfolding applyRetention_def using a by (simp add: retention_exact(2))
next
  show "retention_cutoff now 213504 = now - 1526290448384"
    by (simp add: retention_cutoff_def Hour_def time_units wrap64_def)
qed

lemma mono_micro: "mono micro"
  by (rule monoI) (rule micro_mono)

theorem mdb_retention_cutoff_witness:
  "retention_cutoff 0 30 = - (30 * 24 * Hour) \<and> applyRetention micro 5000 106752 [] (m_flows demo_db) = []"
proof -
  have "mdb_time (micro (retention_cutoff 5000 106752))"
    by (simp add: mdb_time_def retention_cutoff_def Hour_def time_units wrap64_def micro_eq on_micro_def)
  then show ?thesis
    using mdb_retention_cutoff [of 30 0 micro "[]"]
      mdb_retention_cutoff [of 106752 5000 micro "m_flows demo_db"] keeps_micro mono_micro
    by (simp add: demo_db_def m_key_row micro_eq time_units)
qed

section \<open>The retention goroutine\<close>

fun migrates :: "bool list \<Rightarrow> retention \<Rightarrow> retention" where
  "migrates [] s = s"
| "migrates (m # ms) s = migrates ms (snd (Migrate m s))"

fun closes :: "nat \<Rightarrow> retention \<Rightarrow> retention option" where
  "closes 0 s = Some s"
| "closes (Suc n) s = Option.bind (Close s) (closes n)"

lemma migrates_state:
  "migrates ms new_retention = (if list_ex (\<lambda>m. m) ms then new_retention\<lparr>retentionStarted := True, loops := 1\<rparr>
     else new_retention)"
proof -
  have started: "migrates ms s = s" if "retentionStarted s" for ms s
    using that by (induction ms) (simp_all add: Migrate_def)
  show ?thesis by (induction ms) (auto simp: Migrate_def new_retention_def started)
qed

text \<open>
  However often \<open>Migrate\<close> and then \<open>Close\<close> are called, and whichever migrations fail, at
  most one retention goroutine runs, no channel is closed twice, and after a \<open>Close\<close> none
  runs any more.
\<close>

theorem mdb_lifecycle:
  "loops (migrates ms new_retention) \<le> 1 \<and>
   (\<exists>s. closes (Suc n) (migrates ms new_retention) = Some s \<and> loops s = 0)"
proof -
  have idle: "closes n s = Some s" if "\<not> retentionStarted s" for n s
    using that by (induction n) (simp_all add: Close_def)
  show ?thesis
    unfolding migrates_state
    by (simp add: Close_def close_chan_def retentionLoop_exit_def new_retention_def idle)
qed

end
