(* ===== verification/Clickhouse.thy ===== *)
theory Clickhouse
  imports Storage Exporters
begin

text \<open>
  \<open>internal/sink/clickhouse\<close> over the tables of \<open>migrations/clickhouse\<close>. A table is the list
  of the rows ever inserted, oldest first; \<open>FINAL\<close> is what a merge would leave:
  \<open>ReplacingMergeTree\<close> keeps the last row per \<open>(received_at, seq)\<close>, \<open>AggregatingMergeTree\<close>
  one row per address with the earliest and the latest time. \<open>rand64()\<close> is an input, and the
  driver's conversions are parameters.
\<close>

unbundle bit_operations_syntax

section \<open>The exporter id\<close>

text \<open>\<open>hash/fnv\<close>: the 64-bit FNV-1a hash.\<close>

definition fnv64a :: "byte list \<Rightarrow> u64" where
  "fnv64a bs = foldl (\<lambda>h b. (h XOR ucast b) * 1099511628211) 14695981039346656037 bs"

definition exporterID :: "Addr \<Rightarrow> u64" where
  "exporterID a =
     (let i = fnv64a (as16 a) AND (2 ^ 63 - 1)
      in if i = 0 then 1 else i)"

section \<open>Rows\<close>

record ch_driver =
  ch_time :: "time \<Rightarrow> time"
  ch_ip :: "Addr \<Rightarrow> byte list"
  ch_addr :: "byte list \<Rightarrow> Addr"
  ch_text :: "Addr \<Rightarrow> byte list"

text \<open>The values of \<open>insertRow\<close>, in the column order of \<open>insertSQL\<close>; a nil key is the empty string.\<close>

record ch_values =
  a_received :: time
  a_key :: "byte list"
  a_exporter :: u64
  a_exporter_addr :: Addr
  a_type :: string
  a_first :: time
  a_last :: time
  a_src :: Addr
  a_dst :: Addr
  a_sport :: u16
  a_dport :: u16
  a_proto :: u8
  a_flags :: u8
  a_packets :: u64
  a_bytes :: u64
  a_sampling :: u32
  a_in :: u32
  a_out :: u32
  a_srcas :: u32
  a_dstas :: u32
  a_nexthop :: "Addr option"

definition insertRow :: "FlowRecord \<Rightarrow> ch_values" where
  "insertRow r =
     \<lparr>a_received = micro (ReceivedAt r), a_key = (case DedupKey r of Some k \<Rightarrow> k | None \<Rightarrow> []),
      a_exporter = exporterID (ExporterAddr r), a_exporter_addr = ExporterAddr r,
      a_type = FlowType_of r, a_first = micro (FirstSwitched r), a_last = micro (LastSwitched r),
      a_src = SrcAddr r, a_dst = DstAddr r, a_sport = SrcPort r, a_dport = DstPort r,
      a_proto = Protocol r, a_flags = TCPFlags r, a_packets = Packets r, a_bytes = Bytes r,
      a_sampling = SamplingRate r, a_in = InputIface r, a_out = OutputIface r,
      a_srcas = SrcAS r, a_dstas = DstAS r,
      a_nexthop = (if is_valid (NextHop r) then Some (NextHop r) else None)\<rparr>"

record ch_row =
  h_received :: time
  h_key :: "byte list"
  h_seq :: u64
  h_exporter :: u64
  h_exporter_addr :: "byte list"
  h_type :: string
  h_first :: time
  h_last :: time
  h_src :: "byte list"
  h_dst :: "byte list"
  h_sport :: u16
  h_dport :: u16
  h_proto :: u8
  h_flags :: u8
  h_packets :: u64
  h_bytes :: u64
  h_sampling :: u32
  h_in :: u32
  h_out :: u32
  h_srcas :: u32
  h_dstas :: u32
  h_nexthop :: "byte list option"

text \<open>
  The materialized column: the first eight bytes of the key, lowest byte first and missing
  bytes zero, or \<open>rand64()\<close> for a row without a key.
\<close>

definition reinterpretAsUInt64 :: "byte list \<Rightarrow> u64" where
  "reinterpretAsUInt64 bs = of_nat (be_nat (rev (take 8 bs)))"

definition seq_of :: "byte list \<Rightarrow> u64 \<Rightarrow> u64" where
  "seq_of k rand64 = (if k = [] then rand64 else reinterpretAsUInt64 (take 8 k))"

definition store_row :: "ch_driver \<Rightarrow> u64 \<Rightarrow> ch_values \<Rightarrow> ch_row" where
  "store_row d rand64 v =
     \<lparr>h_received = ch_time d (a_received v), h_key = a_key v, h_seq = seq_of (a_key v) rand64,
      h_exporter = a_exporter v, h_exporter_addr = ch_ip d (a_exporter_addr v), h_type = a_type v,
      h_first = ch_time d (a_first v), h_last = ch_time d (a_last v), h_src = ch_ip d (a_src v),
      h_dst = ch_ip d (a_dst v), h_sport = a_sport v, h_dport = a_dport v, h_proto = a_proto v,
      h_flags = a_flags v, h_packets = a_packets v, h_bytes = a_bytes v, h_sampling = a_sampling v,
      h_in = a_in v, h_out = a_out v, h_srcas = a_srcas v, h_dstas = a_dstas v,
      h_nexthop = map_option (ch_ip d) (a_nexthop v)\<rparr>"

definition scanRecord :: "ch_driver \<Rightarrow> ch_row \<Rightarrow> FlowRecord" where
  "scanRecord d v =
     zero_record
       \<lparr>ReceivedAt := h_received v, FirstSwitched := h_first v, LastSwitched := h_last v,
        SrcPort := h_sport v, DstPort := h_dport v, Protocol := h_proto v, TCPFlags := h_flags v,
        Packets := h_packets v, Bytes := h_bytes v, SamplingRate := h_sampling v,
        InputIface := h_in v, OutputIface := h_out v, SrcAS := h_srcas v, DstAS := h_dstas v,
        ExporterID := h_exporter v, ExporterAddr := unmap (ch_addr d (h_exporter_addr v)),
        FlowType_of := h_type v, SrcAddr := unmap (ch_addr d (h_src v)),
        DstAddr := unmap (ch_addr d (h_dst v)),
        NextHop := (case h_nexthop v of Some a \<Rightarrow> unmap (ch_addr d a) | None \<Rightarrow> AddrZero),
        DedupKey := (if h_key v \<noteq> [] then Some (h_key v) else None)\<rparr>"

section \<open>The tables\<close>

record ch_exporter =
  he_id :: u64
  he_ip :: "byte list"
  he_label :: "string option"
  he_first :: time
  he_last :: time

record ch_db =
  h_exporters :: "ch_exporter list"
  h_flows :: "ch_row list"

definition key_of :: "ch_row \<Rightarrow> time \<times> u64" where
  "key_of r = (h_received r, h_seq r)"

fun final_flows :: "ch_row list \<Rightarrow> ch_row list" where
  "final_flows [] = []"
| "final_flows (r # rs) = (if key_of r \<in> key_of ` set rs then final_flows rs else r # final_flows rs)"

definition merge_exporters :: "ch_exporter \<Rightarrow> ch_exporter \<Rightarrow> ch_exporter" where
  "merge_exporters e x =
     e\<lparr>he_label := (case he_label x of Some l \<Rightarrow> Some l | None \<Rightarrow> he_label e),
       he_first := min (he_first e) (he_first x), he_last := max (he_last e) (he_last x)\<rparr>"

fun aggregate :: "ch_exporter list \<Rightarrow> ch_exporter \<Rightarrow> ch_exporter list" where
  "aggregate [] x = [x]"
| "aggregate (e # es) x = (if he_ip e = he_ip x then merge_exporters e x # es else e # aggregate es x)"

definition final_exporters :: "ch_exporter list \<Rightarrow> ch_exporter list" where
  "final_exporters es = foldl aggregate [] es"

section \<open>Writing a batch\<close>

text \<open>
  Each step can fail: preparing a batch, appending to it (both before anything is sent), and
  sending it, where the request or only the reply may be lost. \<open>hf_order\<close> is the order of the range over the
  exporters.
\<close>

datatype send_fault = SendFine | SendLost | SendReplyLost

record ch_faults =
  hf_order :: "nat list"
  hf_prepare_exporters :: bool
  hf_append_exporters :: bool
  hf_send_exporters :: send_fault
  hf_prepare :: bool
  hf_append :: bool
  hf_send :: send_fault

definition send :: "send_fault \<Rightarrow> 'a list \<Rightarrow> 'a list \<Rightarrow> bool \<times> 'a list" where
  "send f new old =
     (case f of
        SendFine \<Rightarrow> (True, old @ new)
      | SendLost \<Rightarrow> (False, old)
      | SendReplyLost \<Rightarrow> (False, old @ new))"

definition touchExporters :: "ch_driver \<Rightarrow> ch_faults \<Rightarrow> FlowRecord list \<Rightarrow> ch_db \<Rightarrow> string option \<times> ch_db" where
  "touchExporters d f records db =
     (if \<not> hf_prepare_exporters f then (Some ''prepare exporters'', db)
      else if \<not> hf_append_exporters f then (Some ''append exporter'', db)
      else case send (hf_send_exporters f)
                  (map (\<lambda>(a, t). \<lparr>he_id = exporterID a, he_ip = ch_ip d a, he_label = None,
                     he_first = ch_time d t, he_last = ch_time d t\<rparr>) (seen_in (hf_order f) records))
                  (h_exporters db) of
             (True, es) \<Rightarrow> (None, db\<lparr>h_exporters := es\<rparr>)
           | (False, es) \<Rightarrow> (Some ''touch exporters'', db\<lparr>h_exporters := es\<rparr>))"

definition WriteBatch :: "ch_driver \<Rightarrow> ch_faults \<times> (nat \<Rightarrow> u64) \<Rightarrow> FlowRecord list \<Rightarrow> ch_db \<Rightarrow>
    string option \<times> ch_db" where
  "WriteBatch d fr records db =
     (case fr of (f, rand64) \<Rightarrow>
        if records = [] then (None, db)
        else case touchExporters d f records db of
          (Some e, db1) \<Rightarrow> (Some e, db1)
        | (None, db1) \<Rightarrow>
            if \<not> hf_prepare f then (Some ''prepare insert'', db1)
            else if \<not> hf_append f then (Some ''append record'', db1)
            else (case send (hf_send f)
                        (map (\<lambda>i. store_row d (rand64 i) (insertRow (records ! i))) [0..<length records])
                        (h_flows db1) of
                    (True, fs) \<Rightarrow> (None, db1\<lparr>h_flows := fs\<rparr>)
                  | (False, fs) \<Rightarrow> (Some ''insert records'', db1\<lparr>h_flows := fs\<rparr>)))"

definition ListExporters :: "ch_driver \<Rightarrow> ch_db \<Rightarrow> Exporter list" where
  "ListExporters d db =
     map (\<lambda>e. \<lparr>ex_ID = he_id e, ex_IPAddress = unmap (ch_addr d (he_ip e)), ex_Label = he_label e,
                 ex_FirstSeenAt = he_first e, ex_LastSeenAt = he_last e\<rparr>)
       (sort_key (uint \<circ> he_id) (final_exporters (h_exporters db)))"

section \<open>Querying\<close>

definition fromUnixTimestamp64Micro :: "int \<Rightarrow> time" where
  "fromUnixTimestamp64Micro n = n * Microsecond"

definition view_of :: "ch_row \<Rightarrow> byte list row_view" where
  "view_of v =
     \<lparr>v_received = h_received v, v_seq = uint (h_seq v), v_exporter = h_exporter v, v_src = h_src v,
      v_dst = h_dst v, v_proto = uint (h_proto v)\<rparr>"

definition where_of :: "ch_driver \<Rightarrow> FlowQuery \<Rightarrow> byte list cond list" where
  "where_of d q =
     [ReceivedFrom (fromUnixTimestamp64Micro (unix_micro (q_Start q))),
      ReceivedBefore (fromUnixTimestamp64Micro (unix_micro (q_End q)))] @
     (if q_ExporterID q \<noteq> 0 then [ExporterIs (q_ExporterID q)] else []) @
     (if is_valid (q_SrcAddr q) then [SrcIs (ch_text d (q_SrcAddr q))] else []) @
     (if is_valid (q_DstAddr q) then [DstIs (ch_text d (q_DstAddr q))] else []) @
     (case q_Protocol q of Some p \<Rightarrow> [ProtocolIs (uint p)] | None \<Rightarrow> [])"

definition token_of :: "ch_driver \<Rightarrow> ch_row \<Rightarrow> string" where
  "token_of d r = ch_encodeCursor \<lparr>ch_T = word_of_int (unix_micro (ReceivedAt (scanRecord d r))), ch_Seq = h_seq r\<rparr>"

definition Query :: "ch_driver \<Rightarrow> bool \<Rightarrow> ch_db \<Rightarrow> FlowQuery \<Rightarrow> string + FlowResultPage" where
  "Query d reached db q =
     (let limit = clamp_limit (q_Limit q);
          run = (\<lambda>conds. if \<not> reached then Inl ''query''
                 else Inr (page_of (scanRecord d) (token_of d) limit
                        (select_rows view_of conds (limit + 1) (final_flows (h_flows db)))))
      in if q_Cursor q = [] then run (where_of d q)
         else case ch_decodeCursor (q_Cursor q) of
           Inl e \<Rightarrow> Inl e
         | Inr c \<Rightarrow> run (where_of d q @
             [KeyBelow (fromUnixTimestamp64Micro (sint (ch_T c))) (uint (ch_Seq c))]))"

end
