(* ===== verification/Clickhouse_Props.thy ===== *)
theory Clickhouse_Props
  imports Clickhouse
begin

text \<open>
  What the ClickHouse backend promises: ids that fit \<open>int64\<close> and depend on the address alone,
  rows that read back, redelivery that stays invisible behind \<open>FINAL\<close>, exporters, pages.
\<close>

section \<open>Exporter ids\<close>

text \<open>
  The exporter id is positive and fits \<open>int64\<close>, so it survives the way through the API's
  signed ids and is never the "no filter" value 0; an IPv4 address and its IPv4-mapped form
  have the same id.
\<close>

theorem ch_exporterID_range:
  "0 < exporterID a \<and> uint (exporterID a) < 2 ^ 63 \<and> sint (exporterID a) = uint (exporterID a) \<and>
   exporterID (unmap a) = exporterID a"
proof -
  let ?i = "fnv64a (as16 a) AND (2 ^ 63 - 1)"
  have m: "(2 ^ 63 - 1 :: u64) = mask 63" by (simp add: mask_eq_exp_minus_1)
  have "uint ?i < 2 ^ 63"
    unfolding m using take_bit_int_less_exp [of 63 "uint (fnv64a (as16 a))"]
    by (simp add: unsigned_take_bit_eq flip: take_bit_eq_mask)
  then have u: "uint (exporterID a) < 2 ^ 63" by (simp add: exporterID_def Let_def)
  moreover have "0 < exporterID a"
    by (simp add: exporterID_def Let_def word_gt_0)
  moreover have "sint (exporterID a) = uint (exporterID a)"
    using u wrap64_id [of "uint (exporterID a)"] uint_ge_0 [of "exporterID a"]
    by (auto simp: wrap64_def intro: order_trans)
  ultimately show ?thesis by (simp add: exporterID_def)
qed

section \<open>The driver\<close>

text \<open>Whole microseconds of the years 1900 to 2299, the range of \<open>DateTime64\<close>.\<close>

definition ch_range :: "time \<Rightarrow> bool" where
  "ch_range t \<longleftrightarrow> on_micro t \<and> - 2208988800 * Second \<le> t \<and> t < 10413792000 * Second"

definition faithful_ch :: "ch_driver \<Rightarrow> bool" where
  "faithful_ch d \<longleftrightarrow> (\<forall>t. ch_range t \<longrightarrow> ch_time d t = t) \<and>
     (\<forall>a. is_valid a \<longrightarrow> zone_free a \<longrightarrow> ch_ip d a = as16 a \<and> ch_text d a = as16 a) \<and>
     (\<forall>b. length b = 16 \<longrightarrow> ch_addr d b = fst (addr_from_slice b))"

definition ch_storable :: "FlowRecord \<Rightarrow> bool" where
  "ch_storable r \<longleftrightarrow> list_all plain_addr [ExporterAddr r, SrcAddr r, DstAddr r] \<and>
     (NextHop r = AddrZero \<or> plain_addr (NextHop r)) \<and>
     list_all (ch_range \<circ> micro) [ReceivedAt r, FirstSwitched r, LastSwitched r] \<and> DedupKey r \<noteq> Some []"

lemma plainD: "plain_addr a \<Longrightarrow> is_valid a \<and> zone_free a"
  by (cases a) auto

lemma addr_back: "faithful_ch d \<Longrightarrow> plain_addr a \<Longrightarrow> unmap (ch_addr d (ch_ip d a)) = a"
  using plainD [of a] by (simp add: faithful_ch_def unmap_addr_from_slice_as16)

text \<open>
  A row of the ClickHouse table scans back to the record it was written from, with times
  cut to microseconds and the derived exporter id: the mapped IPv6 columns give IPv4
  addresses back as IPv4, the empty key string gives no key.
\<close>

theorem ch_row_roundtrip:
  assumes "faithful_ch d" and "ch_storable r"
  shows "scanRecord d (store_row d n (insertRow r)) =
    r\<lparr>ReceivedAt := micro (ReceivedAt r), FirstSwitched := micro (FirstSwitched r),
      LastSwitched := micro (LastSwitched r), ExporterID := exporterID (ExporterAddr r)\<rparr>"
proof -
  have a: "unmap (ch_addr d (ch_ip d (ExporterAddr r))) = ExporterAddr r"
      "unmap (ch_addr d (ch_ip d (SrcAddr r))) = SrcAddr r" "unmap (ch_addr d (ch_ip d (DstAddr r))) = DstAddr r"
    and n: "NextHop r = AddrZero \<or> is_valid (NextHop r) \<and> unmap (ch_addr d (ch_ip d (NextHop r))) = NextHop r"
    and t: "ch_time d (micro (ReceivedAt r)) = micro (ReceivedAt r)"
      "ch_time d (micro (FirstSwitched r)) = micro (FirstSwitched r)"
      "ch_time d (micro (LastSwitched r)) = micro (LastSwitched r)"
    using assms addr_back [OF assms(1)] plainD by (auto simp: ch_storable_def faithful_ch_def)
  have k: "DedupKey r = None \<or> (\<exists>x xs. DedupKey r = Some (x # xs))"
    using assms(2) by (cases "DedupKey r") (auto simp: ch_storable_def neq_Nil_conv)
  show ?thesis
    using a n t k
    by (cases r) (auto simp: scanRecord_def store_row_def insertRow_def zero_record_def)
qed

definition ch_plain :: ch_driver where
  "ch_plain = \<lparr>ch_time = micro, ch_ip = as16, ch_addr = (\<lambda>b. fst (addr_from_slice b)), ch_text = as16\<rparr>"

lemma faithful_ch_plain: "faithful_ch ch_plain"
  by (simp add: faithful_ch_def ch_plain_def ch_range_def)

definition demo_flow :: FlowRecord where
  "demo_flow = zero_record
     \<lparr>ReceivedAt := 1758288000000123456, FlowType_of := FlowTypeIPFIX,
      FirstSwitched := 1758287990000000000, LastSwitched := 1758287999000000000,
      ExporterAddr := Addr4 0xC0000201, SrcAddr := Addr4 0x0A000001, DstAddr := Addr4 5,
      Packets := 9, DedupKey := Some [1, 2, 3, 4, 5, 6, 7, 8]\<rparr>"

lemma demo_storable: "ch_storable demo_flow"
  by (simp add: ch_storable_def demo_flow_def zero_record_def ch_range_def micro_eq on_micro_def time_units)

theorem ch_row_roundtrip_witness:
  "SrcAddr (scanRecord ch_plain (store_row ch_plain 3 (insertRow demo_flow))) = Addr4 0x0A000001"
  using ch_row_roundtrip [OF faithful_ch_plain demo_storable, of 3] by (simp add: demo_flow_def)

section \<open>Rows behind FINAL\<close>

lemma final_subset: "set (final_flows rs) \<subseteq> set rs"
  by (induction rs) auto

lemma final_keys: "key_of ` set (final_flows rs) = key_of ` set rs"
  by (induction rs) auto

lemma final_distinct: "distinct (map key_of (final_flows rs))"
proof (induction rs)
  case (Cons r rs)
  then show ?case using final_keys [of rs] by (auto simp flip: set_map)
qed simp

lemma final_append:
  "set (final_flows (rs @ ts)) = {r \<in> set (final_flows rs). key_of r \<notin> key_of ` set ts} \<union> set (final_flows ts)"
  by (induction rs) auto

lemma final_again:
  assumes "key_of ` set ts = key_of ` set us" and "set (final_flows us) = set (final_flows ts)"
  shows "set (final_flows (rs @ ts @ us)) = set (final_flows (rs @ ts))"
  using assms by (auto simp: final_append)

text \<open>What a write does to the rows.\<close>

definition rows_of :: "ch_driver \<Rightarrow> (nat \<Rightarrow> u64) \<Rightarrow> FlowRecord list \<Rightarrow> ch_row list" where
  "rows_of d rand64 rs = map (\<lambda>i. store_row d (rand64 i) (insertRow (rs ! i))) [0..<length rs]"

lemma write_rows:
  assumes "WriteBatch d (f, rand64) rs db = (err, db')"
  shows "h_flows db' = h_flows db @ rows_of d rand64 rs \<or> (err \<noteq> None \<and> h_flows db' = h_flows db)"
proof -
  have t: "h_flows db1 = h_flows db" if "touchExporters d f rs db = (e, db1)" for e db1
    using that by (auto simp: touchExporters_def split: if_splits prod.splits bool.splits)
  obtain e db1 where e: "touchExporters d f rs db = (e, db1)" by fastforce
  show ?thesis
    using assms t [OF e] e
    by (auto simp: WriteBatch_def rows_of_def send_def split: if_splits option.splits send_fault.splits)
qed

lemma keyed_rows:
  assumes "list_all (\<lambda>r. \<exists>k ks. DedupKey r = Some (k # ks)) rs"
  shows "rows_of d rand64 rs = rows_of d rand64' rs"
proof -
  have "store_row d m (insertRow (rs ! i)) = store_row d n (insertRow (rs ! i))" if "i < length rs" for i m n
  proof -
    have "rs ! i \<in> set rs" using that by simp
    then obtain k ks where "DedupKey (rs ! i) = Some (k # ks)" using assms unfolding list_all_iff by blast
    then show ?thesis by (simp add: store_row_def insertRow_def seq_of_def)
  qed
  then show ?thesis by (simp add: rows_of_def)
qed

text \<open>
  C30. Redelivery is invisible: writing a batch of records with dedup keys again, whatever the
  faults and whatever \<open>rand64()\<close> returns, leaves the rows that a query sees unchanged.
\<close>

theorem ch_redelivery_invisible:
  assumes "WriteBatch d fr rs db = (None, db1)" and "WriteBatch d fr' rs db1 = (err, db2)"
    and "list_all (\<lambda>r. \<exists>k ks. DedupKey r = Some (k # ks)) rs"
  shows "set (final_flows (h_flows db2)) = set (final_flows (h_flows db1))"
proof -
  obtain f rand64 f' rand64' where fr: "fr = (f, rand64)" "fr' = (f', rand64')" by fastforce
  have "h_flows db1 = h_flows db @ rows_of d rand64 rs"
    using write_rows [OF assms(1) [unfolded fr]] by simp
  moreover have "h_flows db2 = h_flows db1 @ rows_of d rand64 rs \<or> h_flows db2 = h_flows db1"
    using write_rows [OF assms(2) [unfolded fr]] keyed_rows [OF assms(3), of d rand64' rand64] by auto
  ultimately show ?thesis using final_again by auto
qed

definition ch_quiet :: "nat list \<Rightarrow> ch_faults" where
  "ch_quiet order = \<lparr>hf_order = order, hf_prepare_exporters = True, hf_append_exporters = True, hf_send_exporters = SendFine, hf_prepare = True,
     hf_append = True, hf_send = SendFine\<rparr>"

definition ch_empty :: ch_db where
  "ch_empty = \<lparr>h_exporters = [], h_flows = []\<rparr>"

lemma clickhouse_demo_written: "WriteBatch d (ch_quiet [], n) [demo_flow] db =
    (None, snd (WriteBatch d (ch_quiet [], n) [demo_flow] db))"
  by (simp add: WriteBatch_def touchExporters_def ch_quiet_def send_def)

theorem ch_redelivery_invisible_witness:
  "set (final_flows (h_flows (snd (WriteBatch ch_plain (ch_quiet [], \<lambda>_. 4) [demo_flow]
     (snd (WriteBatch ch_plain (ch_quiet [], \<lambda>_. 3) [demo_flow] ch_empty)))))) =
   set (final_flows (h_flows (snd (WriteBatch ch_plain (ch_quiet [], \<lambda>_. 3) [demo_flow] ch_empty))))"
  by (rule ch_redelivery_invisible [OF clickhouse_demo_written clickhouse_demo_written]) (simp add: demo_flow_def)

section \<open>Pages\<close>

definition pages_ok :: "ch_db \<Rightarrow> bool" where
  "pages_ok db \<longleftrightarrow> (\<forall>r\<in>set (h_flows db). on_micro (h_received r) \<and> micro_fits (h_received r))"

lemma clickhouse_row_key_view: "row_key (view_of r) = (h_received r, uint (h_seq r))"
  by (simp add: row_key_def view_of_def)

lemma final_row_keys: "distinct (map (row_key \<circ> view_of) (final_flows rs))"
proof -
  have "map (\<lambda>(t, s). (t, uint s)) (map key_of (final_flows rs)) = map (row_key \<circ> view_of) (final_flows rs)"
    by (simp add: clickhouse_row_key_view key_of_def)
  moreover have "inj (\<lambda>(t :: time, s :: u64). (t, uint s))" by (auto simp: inj_def word_uint_eq_iff)
  ultimately show ?thesis using final_distinct [of rs] by (metis distinct_map inj_on_subset subset_UNIV)
qed

lemma clickhouse_token_key:
  assumes "pages_ok db" and "r \<in> set (final_flows (h_flows db))"
  shows "(fromUnixTimestamp64Micro (sint (word_of_int (unix_micro (h_received r)) :: i64)), uint (h_seq r)) =
    row_key (view_of r)"
proof -
  have "on_micro (h_received r)" "micro_fits (h_received r)"
    using assms final_subset by (auto simp: pages_ok_def)
  moreover from this have "sint (word_of_int (unix_micro (h_received r)) :: i64) = h_received r div Microsecond"
    by (simp add: unix_micro_def wrap64_id micro_fits_def flip: wrap64_def)
  ultimately show ?thesis
    by (simp add: clickhouse_row_key_view fromUnixTimestamp64Micro_def on_micro_def mult_div_mod_eq
        flip: minus_mod_eq_div_mult)
qed

interpretation ch_pages: keyset_store pages_ok "\<lambda>db q. matching view_of (where_of d q) (final_flows (h_flows db))"
  "scanRecord d" "token_of d" "Query d True" "\<lambda>q. clamp_limit (q_Limit q)" for d
proof (unfold_locales, goal_cases)
  case (1 q)
  then show ?case using clamp_limit_range [of "q_Limit q"] by simp
next
  case 2
  then show ?case by simp
next
  case 3
  then show ?case by (simp add: where_of_def)
next
  case (4 db q)
  then show ?case using clamp_limit_range [of "q_Limit q"] by (simp add: Query_def Let_def page_of_select)
next
  case (5 db i q)
  let ?r = "matching view_of (where_of d q) (final_flows (h_flows db)) ! i"
  have "?r \<in> set (final_flows (h_flows db))" using nth_mem [OF 5(2)] by (simp add: matching_set)
  note key = clickhouse_token_key [OF 5(1) this]
  note page = page_of_below [OF _ final_row_keys 5(2) key, of "clamp_limit (q_Limit q)" "scanRecord d" "token_of d"]
  have "ReceivedAt (scanRecord d ?r) = h_received ?r" by (simp add: scanRecord_def)
  with page show ?case
    using 5(3) clamp_limit_range [of "q_Limit q"] by (simp add: Query_def Let_def token_of_def)
qed

text \<open>
  Following the page tokens of the ClickHouse backend from the first page returns every
  matching row that \<open>FINAL\<close> leaves exactly once, newest first, for the whole range of
  64-bit sequence numbers.
\<close>

theorem ch_pages_complete:
  assumes "pages_ok db" and "q_Cursor q = []"
  shows "\<exists>rows. follow (Suc (length (h_flows db))) (Query d True db) q = Some (Inr (map (scanRecord d) rows)) \<and>
    set rows = {r \<in> set (final_flows (h_flows db)). list_all (holds_on (view_of r)) (where_of d q)} \<and>
    distinct rows \<and> sorted_wrt (\<lambda>a b. row_key (view_of b) < row_key (view_of a)) rows"
proof (intro exI conjI)
  let ?rows = "matching view_of (where_of d q) (final_flows (h_flows db))"
  have "length (final_flows rs) \<le> length rs" for rs by (induction rs) auto
  then show "follow (Suc (length (h_flows db))) (Query d True db) q = Some (Inr (map (scanRecord d) ?rows))"
    using matching_length [of view_of "where_of d q" "final_flows (h_flows db)"]
    by (intro ch_pages.follow_all [OF assms]) (meson le_imp_less_Suc le_trans)
  show "set ?rows = {r \<in> set (final_flows (h_flows db)). list_all (holds_on (view_of r)) (where_of d q)}"
    by (rule matching_set)
  show "distinct ?rows" by (rule matching_distinct [OF final_row_keys])
  show "sorted_wrt (\<lambda>a b. row_key (view_of b) < row_key (view_of a)) ?rows"
    by (rule matching_sorted [OF final_row_keys])
qed

definition demo_query :: FlowQuery where
  "demo_query = \<lparr>q_Start = 0, q_End = 9000, q_ExporterID = 0, q_SrcAddr = AddrZero, q_DstAddr = AddrZero,
     q_Protocol = None, q_Limit = 1, q_Cursor = []\<rparr>"

definition demo_db :: ch_db where
  "demo_db = \<lparr>h_exporters = [], h_flows = [store_row ch_plain 3 (insertRow (demo_flow\<lparr>ReceivedAt := 5000\<rparr>)),
     store_row ch_plain 3 (insertRow (demo_flow\<lparr>ReceivedAt := 7000\<rparr>))]\<rparr>"

lemma clickhouse_demo_db_ok: "pages_ok demo_db"
  by (simp add: pages_ok_def demo_db_def store_row_def insertRow_def ch_plain_def micro_eq on_micro_def
      micro_fits_def time_units)

theorem ch_pages_complete_witness:
  "\<exists>rows. follow 3 (Query ch_plain True demo_db) demo_query = Some (Inr (map (scanRecord ch_plain) rows)) \<and>
     distinct rows"
  using ch_pages_complete [OF clickhouse_demo_db_ok, of demo_query ch_plain]
  by (auto simp: demo_query_def demo_db_def numeral_3_eq_3)

end
