(* ===== verification/Contract.thy ===== *)
theory Contract
  imports Storage "HOL-Library.Multiset"
begin

text \<open>
  The contract of a storage backend at the level of records: what the fields of \<open>FlowQuery\<close>
  select, what writing a batch adds to the stored records, and a locale that ties a sink and a
  querier together. Its clients are the helpers of \<open>internal/sink/sinktest/conformance.go\<close>,
  which write batches and follow page tokens; what they observe is proved once for every
  backend.
\<close>

section \<open>Records and queries\<close>

text \<open>The field of a record that only the storage knows is stripped before comparing.\<close>

definition comparable :: "FlowRecord \<Rightarrow> FlowRecord" where
  "comparable r = r\<lparr>ExporterID := 0\<rparr>"

definition at_micro :: "FlowRecord \<Rightarrow> FlowRecord" where
  "at_micro r = r\<lparr>ReceivedAt := micro (ReceivedAt r), FirstSwitched := micro (FirstSwitched r),
     LastSwitched := micro (LastSwitched r)\<rparr>"

text \<open>Two records are one delivery when both carry the same key at the same instant.\<close>

definition same_key :: "FlowRecord \<Rightarrow> FlowRecord \<Rightarrow> bool" where
  "same_key r s \<longleftrightarrow> DedupKey r \<noteq> None \<and> DedupKey r = DedupKey s \<and> ReceivedAt r = ReceivedAt s"

text \<open>
  The filters of a query: the half-open range, and each other field only when it is set.
\<close>

definition selects :: "FlowQuery \<Rightarrow> FlowRecord \<Rightarrow> bool" where
  "selects q r \<longleftrightarrow> q_Start q \<le> ReceivedAt r \<and> ReceivedAt r < q_End q \<and>
     (q_ExporterID q = 0 \<or> ExporterID r = q_ExporterID q) \<and>
     (\<not> is_valid (q_SrcAddr q) \<or> SrcAddr r = q_SrcAddr q) \<and>
     (\<not> is_valid (q_DstAddr q) \<or> DstAddr r = q_DstAddr q) \<and>
     (case q_Protocol q of None \<Rightarrow> True | Some p \<Rightarrow> Protocol r = p)"

text \<open>
  Instants every engine keeps exactly (whole microseconds of 1970 to 2199), and the queries
  and records made of them: addresses as the ingest path hands them on, keys of 16 bytes.
\<close>

definition plain_time :: "time \<Rightarrow> bool" where
  "plain_time t \<longleftrightarrow> on_micro t \<and> 0 \<le> t \<and> t < 7258118400 * Second"

definition plain_query :: "FlowQuery \<Rightarrow> bool" where
  "plain_query q \<longleftrightarrow> plain_time (q_Start q) \<and> plain_time (q_End q) \<and>
     list_all (\<lambda>a. a = AddrZero \<or> plain_addr a) [q_SrcAddr q, q_DstAddr q]"

definition plain_record :: "FlowRecord \<Rightarrow> bool" where
  "plain_record r \<longleftrightarrow> list_all plain_addr [ExporterAddr r, SrcAddr r, DstAddr r] \<and>
     (NextHop r = AddrZero \<or> plain_addr (NextHop r)) \<and> Valid (FlowType_of r) \<and>
     list_all plain_time [ReceivedAt r, FirstSwitched r, LastSwitched r] \<and>
     (case DedupKey r of None \<Rightarrow> True | Some k \<Rightarrow> length k = 16)"

lemma comparable_simps [simp]:
  "ReceivedAt (comparable r) = ReceivedAt r" "DedupKey (comparable r) = DedupKey r"
  "SrcPort (comparable r) = SrcPort r" "ExporterAddr (comparable r) = ExporterAddr r"
  "SrcAddr (comparable r) = SrcAddr r" "DstAddr (comparable r) = DstAddr r"
  "Protocol (comparable r) = Protocol r" "ExporterID (comparable r) = 0"
  "comparable (comparable r) = comparable r"
  by (simp_all add: comparable_def)

lemma same_key_comparable [simp]: "same_key (comparable r) (comparable s) = same_key r s"
  by (simp add: same_key_def)

lemma at_micro_plain: "plain_record r \<Longrightarrow> at_micro r = r"
  by (simp add: at_micro_def plain_record_def plain_time_def)

lemma selects_comparable: "q_ExporterID q = 0 \<Longrightarrow> selects q (comparable r) = selects q r"
  by (cases "q_Protocol q") (simp_all add: selects_def)

section \<open>Appending what is new\<close>

lemma mset_add_row: "mset st = mset st' \<Longrightarrow> mset (add_row coll st v) = mset (add_row coll st' v)"
proof -
  assume m: "mset st = mset st'"
  have "list_ex (coll v) st = list_ex (coll v) st'" using mset_eq_setD [OF m] by (simp add: list_ex_iff)
  then show ?thesis using m by (simp add: add_row_def)
qed

lemma mset_add_rows: "mset st = mset st' \<Longrightarrow> mset (add_rows coll st vs) = mset (add_rows coll st' vs)"
proof (induction vs arbitrary: st st')
  case (Cons v vs)
  show ?case using Cons.IH [OF mset_add_row [OF Cons.prems]] by (simp only: add_rows_simps)
qed simp

lemma add_rows_new:
  "sorted_wrt (\<lambda>v w. \<not> coll w v) vs \<Longrightarrow> \<forall>v\<in>set vs. \<not> list_ex (coll v) st \<Longrightarrow> add_rows coll st vs = st @ vs"
  by (induction vs arbitrary: st) (auto simp: add_row_def list_ex_iff)

text \<open>A map under which collisions are the same commutes with appending.\<close>

lemma map_add_rows:
  assumes "\<And>v w. v \<in> set vs \<Longrightarrow> w \<in> set st \<union> set vs \<Longrightarrow> coll' (h v) (h w) = coll v w"
  shows "map h (add_rows coll st vs) = add_rows coll' (map h st) (map h vs)"
  using assms
proof (induction vs arbitrary: st)
  case (Cons v vs)
  have "map h (add_row coll st v) = add_row coll' (map h st) (h v)"
    using Cons.prems by (auto simp: add_row_def list_ex_iff)
  moreover have "set (add_row coll st v) \<subseteq> insert v (set st)" by (auto simp: add_row_def)
  then have "map h (add_rows coll (add_row coll st v) vs) =
      add_rows coll' (map h (add_row coll st v)) (map h vs)"
    using Cons.prems by (intro Cons.IH) auto
  ultimately show ?case by simp
qed simp

lemma add_rows_subset: "set (add_rows coll st vs) \<subseteq> set st \<union> set vs"
proof (induction vs arbitrary: st)
  case (Cons v vs)
  have "set (add_row coll st v) \<subseteq> insert v (set st)" by (auto simp: add_row_def)
  then show ?case using Cons.IH [of "add_row coll st v"] by auto
qed simp

section \<open>Writing batches and following tokens\<close>

text \<open>
  A requirement of a test that fails ends it: \<open>None\<close>. \<open>write_all\<close> requires every write to
  succeed. \<open>all_records\<close> follows the tokens and requires one on every page but the last; it
  runs for at most the given number of pages.
\<close>

fun write_all :: "(FlowRecord list \<Rightarrow> 'b \<Rightarrow> string option \<times> 'b) \<Rightarrow> FlowRecord list list \<Rightarrow> 'b \<Rightarrow> 'b option" where
  "write_all write [] b = Some b"
| "write_all write (rs # rss) b =
     (case write rs b of (Some e, _) \<Rightarrow> None | (None, b') \<Rightarrow> write_all write rss b')"

fun all_records :: "nat \<Rightarrow> (FlowQuery \<Rightarrow> string + FlowResultPage) \<Rightarrow> FlowQuery \<Rightarrow> FlowRecord list option" where
  "all_records 0 query q = None"
| "all_records (Suc fuel) query q =
     (case query q of
        Inl e \<Rightarrow> None
      | Inr page \<Rightarrow>
          if \<not> HasMore page then (if NextCursor page = [] then Some (Records page) else None)
          else if NextCursor page = [] then None
          else map_option (\<lambda>rest. Records page @ rest)
                 (all_records fuel query (q\<lparr>q_Cursor := NextCursor page\<rparr>)))"

lemma all_records_follow:
  assumes "\<And>q p. query q = Inr p \<Longrightarrow> NextCursor p = [] \<longleftrightarrow> \<not> HasMore p"
    and "follow fuel query q = Some (Inr rs)"
  shows "all_records fuel query q = Some rs"
  using assms(2)
proof (induction fuel arbitrary: q rs)
  case (Suc fuel)
  then show ?case
    by (auto split: sum.splits if_splits option.splits dest: assms(1))
qed simp

fun page_list :: "nat \<Rightarrow> (FlowQuery \<Rightarrow> string + FlowResultPage) \<Rightarrow> FlowQuery \<Rightarrow> FlowResultPage list option" where
  "page_list 0 query q = None"
| "page_list (Suc fuel) query q =
     (case query q of
        Inl e \<Rightarrow> None
      | Inr page \<Rightarrow>
          if \<not> HasMore page then Some [page]
          else map_option (Cons page) (page_list fuel query (q\<lparr>q_Cursor := NextCursor page\<rparr>)))"

section \<open>Pages of selected records\<close>

lemma page_of_token:
  "(\<And>r. token r \<noteq> []) \<Longrightarrow> NextCursor (page_of rec token n rows) = [] \<longleftrightarrow> \<not> HasMore (page_of rec token n rows)"
  by (simp add: page_of_def split: prod.split)

lemma mset_matching:
  assumes "\<And>r. r \<in> set t \<Longrightarrow> list_all (holds_on (view r)) cs \<longleftrightarrow> selects q (rec r)"
  shows "mset (map rec (matching view cs t)) = mset (filter (selects q) (map rec t))"
proof -
  have "filter (\<lambda>r. list_all (holds_on (view r)) cs) t = filter (selects q \<circ> rec) t"
    using assms by (intro filter_cong) simp_all
  then show ?thesis by (simp add: matching_def filter_map)
qed

lemma matching_newest:
  assumes "\<And>r. ReceivedAt (rec r) = v_received (view r)"
  shows "sorted_wrt (\<lambda>r s. ReceivedAt s \<le> ReceivedAt r) (map rec (matching view cs t))"
proof -
  let ?xs = "sort_key (row_key \<circ> view) (filter (\<lambda>r. list_all (holds_on (view r)) cs) t)"
  have "sorted_wrt (\<lambda>a b. row_key (view a) \<le> row_key (view b)) ?xs"
    using sorted_sort_key [of "row_key \<circ> view" "filter (\<lambda>r. list_all (holds_on (view r)) cs) t"]
    by (simp add: sorted_map)
  then have "sorted_wrt (\<lambda>a b. ReceivedAt (rec a) \<le> ReceivedAt (rec b)) ?xs"
    by (rule sorted_wrt_mono_rel [rotated]) (auto simp: row_key_def assms less_eq_prod_def)
  then show ?thesis by (simp add: matching_def sorted_wrt_map sorted_wrt_rev)
qed

section \<open>The contract\<close>

text \<open>
  \<open>contents b\<close> are the records a backend holds, as it would return them. \<open>spared b plan\<close> says
  that the writes of the plan, one batch after the other from \<open>b\<close> on, meet no accident of the
  environment: no fault, no exhausted identity column, no collision of random numbers. Such a
  write succeeds and adds the records that were not delivered before; a query returns the
  records its fields select, newest first; the ids of exporters are positive and tell the
  addresses apart.
\<close>

locale storage_contract = keyset_store ok rows rec token query size_of
  for ok :: "'b \<Rightarrow> bool" and rows :: "'b \<Rightarrow> FlowQuery \<Rightarrow> 'row list" and rec :: "'row \<Rightarrow> FlowRecord"
    and token :: "'row \<Rightarrow> string" and query :: "'b \<Rightarrow> FlowQuery \<Rightarrow> string + FlowResultPage"
    and size_of :: "FlowQuery \<Rightarrow> nat" +
  fixes write_batch :: "FlowRecord list \<Rightarrow> 'b \<Rightarrow> string option \<times> 'b"
    and contents :: "'b \<Rightarrow> FlowRecord list"
    and spared :: "'b \<Rightarrow> FlowRecord list list \<Rightarrow> bool"
  assumes page_size: "size_of q = clamp_limit (q_Limit q)"
    and page_token: "query b q = Inr p \<Longrightarrow> NextCursor p = [] \<longleftrightarrow> \<not> HasMore p"
    and rows_selected: "ok b \<Longrightarrow> plain_query q \<Longrightarrow>
      mset (map rec (rows b q)) = mset (filter (selects q) (contents b))"
    and rows_newest: "ok b \<Longrightarrow> sorted_wrt (\<lambda>r s. ReceivedAt s \<le> ReceivedAt r) (map rec (rows b q))"
    and write_adds: "ok b \<Longrightarrow> spared b (rs # plan) \<Longrightarrow>
      \<exists>b'. write_batch rs b = (None, b') \<and> ok b' \<and> spared b' plan \<and>
        mset (map comparable (contents b')) =
        mset (add_rows same_key (map comparable (contents b)) (map (comparable \<circ> at_micro) rs))"
    and ids_positive: "ok b \<Longrightarrow> r \<in> set (contents b) \<Longrightarrow> 0 < sint (ExporterID r)"
    and ids_apart: "ok b \<Longrightarrow> r \<in> set (contents b) \<Longrightarrow> s \<in> set (contents b) \<Longrightarrow>
      ExporterID r = ExporterID s \<longleftrightarrow> ExporterAddr r = ExporterAddr s"
begin

lemma rows_length: "ok b \<Longrightarrow> plain_query q \<Longrightarrow> length (rows b q) \<le> length (contents b)"
  using mset_eq_length [OF rows_selected, of b q] length_filter_le [of "selects q" "contents b"] by simp

lemma follow_selected:
  assumes "ok b" and "plain_query q" and "q_Cursor q = []"
  shows "\<exists>got. follow (Suc (length (contents b))) (query b) q = Some (Inr got) \<and>
    mset got = mset (filter (selects q) (contents b)) \<and> sorted_wrt (\<lambda>r s. ReceivedAt s \<le> ReceivedAt r) got"
proof (intro exI conjI)
  show "follow (Suc (length (contents b))) (query b) q = Some (Inr (map rec (rows b q)))"
    using rows_length [OF assms(1,2)] by (intro follow_all [OF assms(1,3)]) simp
qed (rule rows_selected [OF assms(1,2)], rule rows_newest [OF assms(1)])

lemma all_selected:
  assumes "ok b" and "plain_query q" and "q_Cursor q = []" and "length (contents b) < fuel"
  shows "\<exists>got. all_records fuel (query b) q = Some got \<and> mset got = mset (filter (selects q) (contents b)) \<and>
    sorted_wrt (\<lambda>r s. ReceivedAt s \<le> ReceivedAt r) got"
proof (intro exI conjI)
  show "all_records fuel (query b) q = Some (map rec (rows b q))"
    using rows_length [OF assms(1,2)] assms(4)
    by (intro all_records_follow [OF page_token] follow_all [OF assms(1,3)]) simp_all
qed (rule rows_selected [OF assms(1,2)], rule rows_newest [OF assms(1)])

lemma all_comparable:
  assumes "ok b" and "plain_query q" and "q_Cursor q = []" and "length (contents b) < fuel"
    and "q_ExporterID q = 0" and "mset (map comparable (contents b)) = mset (map comparable rs)"
  shows "\<exists>got. all_records fuel (query b) q = Some got \<and>
    mset (map comparable got) = mset (map comparable (filter (selects q) rs)) \<and>
    (\<forall>r\<in>set got. r \<in> set (contents b)) \<and> sorted_wrt (\<lambda>r s. ReceivedAt s \<le> ReceivedAt r) got"
proof -
  obtain got where got: "all_records fuel (query b) q = Some got"
      "mset got = mset (filter (selects q) (contents b))"
      "sorted_wrt (\<lambda>r s. ReceivedAt s \<le> ReceivedAt r) got"
    using all_selected [OF assms(1-4)] by blast
  have sel: "mset (map comparable (filter (selects q) xs)) = filter_mset (selects q) (mset (map comparable xs))" for xs
    by (induction xs) (simp_all add: selects_comparable [OF assms(5)])
  have "mset (map comparable got) = mset (map comparable (filter (selects q) rs))"
    using got(2) sel [of "contents b"] sel [of rs] assms(6) by (simp add: mset_map)
  moreover have "set got \<subseteq> set (contents b)" using mset_eq_setD [OF got(2)] by auto
  ultimately show ?thesis using got by blast
qed

text \<open>A plan of writes leaves what its batches in sequence add.\<close>

lemma plan_adds:
  assumes "ok b" and "spared b plan"
  shows "\<exists>b'. write_all write_batch plan b = Some b' \<and> ok b' \<and>
    mset (map comparable (contents b')) =
    mset (add_rows same_key (map comparable (contents b)) (map (comparable \<circ> at_micro) (concat plan)))"
  using assms
proof (induction plan arbitrary: b)
  case (Cons rs plan)
  obtain b1 where b1: "write_batch rs b = (None, b1)" "ok b1" "spared b1 plan"
      "mset (map comparable (contents b1)) =
       mset (add_rows same_key (map comparable (contents b)) (map (comparable \<circ> at_micro) rs))"
    using write_adds [OF Cons.prems] by blast
  from Cons.IH [OF b1(2,3)] show ?case
    using b1(1) mset_add_rows [OF b1(4), of same_key "map (comparable \<circ> at_micro) (concat plan)"]
    by (auto simp: comp_def)
qed simp

end

end
