(* ===== verification/Contract_Rows.thy ===== *)
theory Contract_Rows
  imports Contract Relational
begin

text \<open>
  The contract of \<open>Contract\<close> over relational tables. A locale states what PostgreSQL and
  MariaDB have in common: how a record becomes a row, how a row scans back once it is joined
  with its exporter, and when two rows collide. From it follow what the stored records are
  after a write and the laws of the exporter ids.
\<close>

locale record_rows =
  fixes fits :: "FlowRecord \<Rightarrow> bool"
    and mk :: "FlowRecord \<Rightarrow> i64 \<Rightarrow> 'r"
    and scan :: "'ip \<Rightarrow> 'r \<Rightarrow> FlowRecord"
    and xid :: "'r \<Rightarrow> i64"
    and coll :: "'r \<Rightarrow> 'r \<Rightarrow> bool"
    and key :: "Addr \<Rightarrow> 'ip option"
    and col :: "'ip \<Rightarrow> bool"
  assumes fits_addr: "fits r \<Longrightarrow> tells_apart (ExporterAddr r)"
    and key_inj: "fits r \<Longrightarrow> fits s \<Longrightarrow> key (ExporterAddr r) = key (ExporterAddr s) \<Longrightarrow> ExporterAddr r = ExporterAddr s"
    and xid_mk: "xid (mk r i) = i"
    and scan_mk: "fits r \<Longrightarrow> key (ExporterAddr r) = Some k \<Longrightarrow> scan k (mk r i) = (at_micro r)\<lparr>ExporterID := i\<rparr>"
    and coll_mk: "fits r \<Longrightarrow> fits s \<Longrightarrow> coll (mk r i) (mk s j) = same_key (at_micro r) (at_micro s)"
begin

text \<open>Every stored row was made from a record that fits, under the id of its exporter.\<close>

definition origin :: "'ip exporter_tab \<Rightarrow> 'r \<Rightarrow> bool" where
  "origin T v \<longleftrightarrow> (\<exists>r. fits r \<and> v = mk r (xid v) \<and> id_at key T (ExporterAddr r) = Some (xid v))"

definition contents_of :: "'ip exporter_tab \<Rightarrow> 'r seq_row list \<Rightarrow> FlowRecord list" where
  "contents_of T fs = map (\<lambda>r. scan (x_ip (snd r)) (f_row (fst r))) (joined xid T fs)"

definition read_row :: "'ip exporter_tab \<Rightarrow> 'r \<Rightarrow> FlowRecord" where
  "read_row T v = scan (ip_at T (xid v)) v"

lemma contents_read:
  "tab_ok col T \<Longrightarrow> flows_ok xid coll (tab_ids T) fs n \<Longrightarrow> contents_of T fs = map (read_row T) (map f_row fs)"
  unfolding contents_of_def read_row_def using map_joined [where g = scan] by fastforce

lemma read_origin:
  assumes "tab_ok col T" and "origin T v"
  obtains r where "fits r" and "v = mk r (xid v)" and "id_at key T (ExporterAddr r) = Some (xid v)"
    and "read_row T v = (at_micro r)\<lparr>ExporterID := xid v\<rparr>"
proof -
  obtain r where r: "fits r" "v = mk r (xid v)" "id_at key T (ExporterAddr r) = Some (xid v)"
    using assms(2) by (auto simp: origin_def)
  have "scan (ip_at T (xid v)) (mk r (xid v)) = (at_micro r)\<lparr>ExporterID := xid v\<rparr>"
    by (rule scan_mk [OF r(1) ip_at_id [OF assms(1) r(3)]])
  then have "read_row T v = (at_micro r)\<lparr>ExporterID := xid v\<rparr>" using r(2) by (simp add: read_row_def)
  with r show ?thesis using that by blast
qed

lemma origin_mono:
  "origin T v \<Longrightarrow> (\<And>a i. tells_apart a \<Longrightarrow> id_at key T a = Some i \<Longrightarrow> id_at key T' a = Some i) \<Longrightarrow> origin T' v"
  unfolding origin_def using fits_addr by blast

lemma origin_mk: "fits r \<Longrightarrow> id_at key T (ExporterAddr r) = Some i \<Longrightarrow> origin T (mk r i)"
  by (auto simp: origin_def xid_mk)

lemma comparable_id: "comparable (r\<lparr>ExporterID := i\<rparr>) = comparable r"
  by (simp add: comparable_def)

lemma read_coll:
  assumes "tab_ok col T" and "origin T v" and "origin T w"
  shows "same_key (comparable (read_row T v)) (comparable (read_row T w)) = coll v w"
proof -
  obtain r where r: "fits r" "v = mk r (xid v)" "read_row T v = (at_micro r)\<lparr>ExporterID := xid v\<rparr>"
    using read_origin [OF assms(1,2)] by metis
  obtain s where s: "fits s" "w = mk s (xid w)" "read_row T w = (at_micro s)\<lparr>ExporterID := xid w\<rparr>"
    using read_origin [OF assms(1,3)] by metis
  have "coll v w = same_key (at_micro r) (at_micro s)" using coll_mk [OF r(1) s(1)] r(2) s(2) by metis
  then show ?thesis unfolding r(3) s(3) comparable_id by simp
qed

text \<open>Appending the rows of a batch appends its records, in the order of the batch.\<close>

lemma write_records:
  assumes "tab_ok col T" and "tab_ok col T'" and "\<forall>v\<in>set st. origin T v"
    and "\<And>a i. tells_apart a \<Longrightarrow> id_at key T a = Some i \<Longrightarrow> id_at key T' a = Some i"
    and "\<And>r. r \<in> set rs \<Longrightarrow> fits r \<and> id_at key T' (ExporterAddr r) = Some (i r)"
  shows "map (comparable \<circ> read_row T') (add_rows coll st (map (\<lambda>r. mk r (i r)) rs)) =
      add_rows same_key (map (comparable \<circ> read_row T) st) (map (comparable \<circ> at_micro) rs)"
    and "\<forall>v\<in>set (add_rows coll st (map (\<lambda>r. mk r (i r)) rs)). origin T' v"
proof -
  have old: "origin T' v" "comparable (read_row T' v) = comparable (read_row T v)" if v: "v \<in> set st" for v
  proof -
    obtain r where r: "fits r" "v = mk r (xid v)" "id_at key T (ExporterAddr r) = Some (xid v)"
        "read_row T v = (at_micro r)\<lparr>ExporterID := xid v\<rparr>"
      using read_origin [OF assms(1)] assms(3) v by metis
    then have "id_at key T' (ExporterAddr r) = Some (xid v)" using assms(4) fits_addr by blast
    from scan_mk [OF r(1) ip_at_id [OF assms(2) this], of "xid v"] r(2,4)
    show "comparable (read_row T' v) = comparable (read_row T v)" by (simp add: read_row_def)
    show "origin T' v" using origin_mono [OF _ assms(4)] assms(3) v by blast
  qed
  have new: "origin T' (mk r (i r))" "comparable (read_row T' (mk r (i r))) = comparable (at_micro r)"
    if r: "r \<in> set rs" for r
  proof -
    show "origin T' (mk r (i r))" using origin_mk assms(5) [OF r] by blast
    have "scan (ip_at T' (i r)) (mk r (i r)) = (at_micro r)\<lparr>ExporterID := i r\<rparr>"
      using assms(5) [OF r] by (blast intro: scan_mk ip_at_id [OF assms(2)])
    then show "comparable (read_row T' (mk r (i r))) = comparable (at_micro r)"
      by (simp add: read_row_def xid_mk comparable_id)
  qed
  show "\<forall>v\<in>set (add_rows coll st (map (\<lambda>r. mk r (i r)) rs)). origin T' v"
    using add_rows_subset [of coll st "map (\<lambda>r. mk r (i r)) rs"] old(1) new(1) by fastforce
  have "map (comparable \<circ> read_row T') (add_rows coll st (map (\<lambda>r. mk r (i r)) rs)) =
      add_rows same_key (map (comparable \<circ> read_row T') st) (map (comparable \<circ> read_row T') (map (\<lambda>r. mk r (i r)) rs))"
    by (rule map_add_rows) (use old(1) new(1) read_coll [OF assms(2)] in auto)
  moreover have "map (comparable \<circ> read_row T') st = map (comparable \<circ> read_row T) st" using old(2) by simp
  moreover have "map (comparable \<circ> read_row T') (map (\<lambda>r. mk r (i r)) rs) = map (comparable \<circ> at_micro) rs"
    using new(2) by simp
  ultimately show "map (comparable \<circ> read_row T') (add_rows coll st (map (\<lambda>r. mk r (i r)) rs)) =
      add_rows same_key (map (comparable \<circ> read_row T) st) (map (comparable \<circ> at_micro) rs)" by (simp only:)
qed

text \<open>The ids of the records read: positive, and equal exactly for equal exporters.\<close>

lemma read_ids:
  assumes "tab_ok col T" and "origin T v" and "origin T w"
  shows "0 < sint (ExporterID (read_row T v))"
    and "ExporterID (read_row T v) = ExporterID (read_row T w) \<longleftrightarrow> ExporterAddr (read_row T v) = ExporterAddr (read_row T w)"
proof -
  obtain r where r: "fits r" "id_at key T (ExporterAddr r) = Some (xid v)" "read_row T v = (at_micro r)\<lparr>ExporterID := xid v\<rparr>"
    using read_origin [OF assms(1,2)] by metis
  obtain s where s: "fits s" "id_at key T (ExporterAddr s) = Some (xid w)" "read_row T w = (at_micro s)\<lparr>ExporterID := xid w\<rparr>"
    using read_origin [OF assms(1,3)] by metis
  have "\<exists>e\<in>set (x_rows T). x_id e = xid v"
    using r(2) by (auto simp: id_at_def split: bind_splits dest!: row_at_ipD)
  then show "0 < sint (ExporterID (read_row T v))" using assms(1) by (auto simp: r(3) tab_ok_def)
  have "ExporterAddr r = ExporterAddr s" if "xid v = xid w"
    using key_inj [OF r(1) s(1)] ip_at_id [OF assms(1) r(2)] ip_at_id [OF assms(1) s(2)] that
    by simp
  then show "ExporterID (read_row T v) = ExporterID (read_row T w) \<longleftrightarrow>
      ExporterAddr (read_row T v) = ExporterAddr (read_row T w)"
    using r(2) s(2) by (auto simp: r(3) s(3) at_micro_def)
qed

end

end
