(* ===== verification/Gotime_Text.thy ===== *)
theory Gotime_Text
  imports Gotime Gotext "HOL-Library.Monad_Syntax"
begin

text \<open>
  The text form of instants the API uses: \<open>time.Parse\<close> for the layout \<open>RFC3339Nano\<close> and \<open>Time.Format\<close>
  for a layout with six fractional digits and the zone \<open>Z07:00\<close>, on the proleptic Gregorian
  calendar. A parse error is \<open>None\<close>. The last lemma is the round trip.
\<close>

section \<open>Calendar\<close>

definition is_leap :: "int \<Rightarrow> bool" where
  "is_leap y \<longleftrightarrow> y mod 4 = 0 \<and> (y mod 100 \<noteq> 0 \<or> y mod 400 = 0)"

definition days_in :: "int \<Rightarrow> nat \<Rightarrow> int" where
  "days_in y m =
     (if m = 2 then (if is_leap y then 29 else 28)
      else if m = 4 \<or> m = 6 \<or> m = 9 \<or> m = 11 then 30 else 31)"

text \<open>Days from January 1 of the year 1 to January 1 of a year, and within a year to a month.\<close>

definition days_before_year :: "int \<Rightarrow> int" where
  "days_before_year y = 365 * (y - 1) + (y - 1) div 4 - (y - 1) div 100 + (y - 1) div 400"

definition days_before_month :: "int \<Rightarrow> nat \<Rightarrow> int" where
  "days_before_month y m = sum_list (map (days_in y) [1..<m])"

definition unix_epoch_days :: int where "unix_epoch_days = 719162"

definition date_days :: "int \<Rightarrow> nat \<Rightarrow> int \<Rightarrow> int" where
  "date_days y m d = days_before_year y + days_before_month y m + (d - 1) - unix_epoch_days"

text \<open>
  The year of a day number: cycles of 400, 100, 4 and single years, the last century and the
  last year of a cycle being one day longer than the others.
\<close>

definition year_split :: "int \<Rightarrow> int \<times> int" where
  "year_split n =
     (let a = n div 146097; r = n mod 146097;
          b = min 3 (r div 36524); r1 = r - 36524 * b;
          c = r1 div 1461; r2 = r1 mod 1461;
          e = min 3 (r2 div 365)
      in (1 + 400 * a + 100 * b + 4 * c + e, r2 - 365 * e))"

fun month_split :: "int \<Rightarrow> nat \<Rightarrow> nat \<Rightarrow> int \<Rightarrow> nat \<times> int" where
  "month_split y 0 m d = (m, d)"
| "month_split y (Suc k) m d =
     (if d < days_in y m then (m, d) else month_split y k (m + 1) (d - days_in y m))"

definition date_of_days :: "int \<Rightarrow> int \<times> nat \<times> int" where
  "date_of_days n =
     (let (y, yday) = year_split (n + unix_epoch_days); (m, d) = month_split y 11 1 yday
      in (y, m, d + 1))"

section \<open>Format\<close>

definition pad_nat :: "nat \<Rightarrow> nat \<Rightarrow> string" where
  "pad_nat w n = replicate (w - length (dec_nat n)) (CHR ''0'') @ dec_nat n"

definition day_seconds :: int where "day_seconds = 86400"

definition format_micro :: "time \<Rightarrow> string" where
  "format_micro t =
     (let secs = t div Second; us = t mod Second div Microsecond;
          (y, m, d) = date_of_days (secs div day_seconds); s = nat (secs mod day_seconds)
      in (if y < 0 then ''-'' @ pad_nat 4 (nat (- y)) else pad_nat 4 (nat y)) @ ''-'' @
         pad_nat 2 m @ ''-'' @ pad_nat 2 (nat d) @ ''T'' @
         pad_nat 2 (s div 3600) @ '':'' @ pad_nat 2 (s div 60 mod 60) @ '':'' @ pad_nat 2 (s mod 60) @
         ''.'' @ pad_nat 6 (nat us) @ ''Z'')"

section \<open>Parse\<close>

text \<open>Exactly \<open>w\<close> digits, and the rest of the text.\<close>

definition digits :: "nat \<Rightarrow> string \<Rightarrow> (nat \<times> string) option" where
  "digits w s =
     (if length s < w \<or> \<not> list_all is_digit (take w s) then None
      else Some (dec_val (take w s), drop w s))"

definition expect :: "char \<Rightarrow> string \<Rightarrow> string option" where
  "expect c s = (case s of x # xs \<Rightarrow> if x = c then Some xs else None | [] \<Rightarrow> None)"

text \<open>The hour may have a single digit.\<close>

definition hour_digits :: "string \<Rightarrow> (nat \<times> string) option" where
  "hour_digits s = (case digits 2 s of Some r \<Rightarrow> Some r | None \<Rightarrow> digits 1 s)"

text \<open>
  The fraction: a period or a comma and at least one digit, of which nine count; none at all is
  a fraction of zero.
\<close>

definition fraction :: "string \<Rightarrow> nat \<times> string" where
  "fraction s =
     (case s of
        c # d # rest \<Rightarrow>
          if (c = CHR ''.'' \<or> c = CHR '','') \<and> is_digit d
          then let ds = takeWhile is_digit (d # rest); ns = take 9 ds
               in (dec_val ns * 10 ^ (9 - length ns), dropWhile is_digit (d # rest))
          else (0, s)
      | _ \<Rightarrow> (0, s))"

definition zone :: "string \<Rightarrow> (int \<times> string) option" where
  "zone s =
     (case s of
        [] \<Rightarrow> None
      | c # rest \<Rightarrow>
          if c = CHR ''Z'' then Some (0, rest)
          else if c \<noteq> CHR ''+'' \<and> c \<noteq> CHR ''-'' then None
          else do {
            (hh, r1) \<leftarrow> digits 2 rest;
            r2 \<leftarrow> expect (CHR '':'') r1;
            (mm, r3) \<leftarrow> digits 2 r2;
            if hh > 24 \<or> mm > 60 then None
            else Some ((if c = CHR ''-'' then -1 else 1) * int (hh * 3600 + mm * 60), r3) })"

definition ParseRFC3339 :: "string \<Rightarrow> time option" where
  "ParseRFC3339 s = do {
     (y, s1) \<leftarrow> digits 4 s; s2 \<leftarrow> expect (CHR ''-'') s1;
     (m, s3) \<leftarrow> digits 2 s2; s4 \<leftarrow> expect (CHR ''-'') s3;
     (d, s5) \<leftarrow> digits 2 s4; s6 \<leftarrow> expect (CHR ''T'') s5;
     (hh, s7) \<leftarrow> hour_digits s6; s8 \<leftarrow> expect (CHR '':'') s7;
     (mi, s9) \<leftarrow> digits 2 s8; s10 \<leftarrow> expect (CHR '':'') s9;
     (ss, s11) \<leftarrow> digits 2 s10;
     (let (ns, s12) = fraction s11 in do {
       (off, s13) \<leftarrow> zone s12;
       if s13 \<noteq> [] \<or> m < 1 \<or> 12 < m \<or> d < 1 \<or> days_in (int y) m < int d \<or> 24 \<le> hh \<or> 60 \<le> mi \<or> 60 \<le> ss
       then None
       else Some ((date_days (int y) m (int d) * day_seconds +
                   int (hh * 3600 + mi * 60 + ss) - off) * Second + int ns) }) }"

section \<open>The calendar round trip\<close>

lemma days_before_year_cycles:
  assumes "0 \<le> b" "b \<le> 3" "0 \<le> c" "c \<le> 24" "0 \<le> e" "e \<le> 3"
  shows "days_before_year (1 + 400 * a + 100 * b + 4 * c + e) = 146097 * a + 36524 * b + 1461 * c + 365 * e"
proof -
  have "(400 * a + 100 * b + 4 * c + e) div 4 = 100 * a + 25 * b + c"
    "(400 * a + 100 * b + 4 * c + e) div 100 = 4 * a + b"
    "(400 * a + 100 * b + 4 * c + e) div 400 = a"
    using assms
    by (intro int_div_pos_eq [where r = e] int_div_pos_eq [where r = "4 * c + e"]
        int_div_pos_eq [where r = "100 * b + 4 * c + e"]; simp)+
  then show ?thesis by (simp add: days_before_year_def algebra_simps)
qed

lemma clipped_div:
  fixes r k :: int
  assumes "0 < k" and "0 \<le> r" and "r \<le> 4 * k"
  defines "b \<equiv> min 3 (r div k)"
  shows "0 \<le> b \<and> b \<le> 3 \<and> 0 \<le> r - k * b \<and> r - k * b \<le> k \<and> (b < 3 \<longrightarrow> r - k * b < k)"
proof -
  have r: "r = k * (r div k) + r mod k" "0 \<le> r mod k" "r mod k < k" using assms(1) by simp_all
  have d: "0 \<le> r div k" using assms(1,2) by (simp add: pos_imp_zdiv_nonneg_iff)
  show ?thesis
  proof (cases "r div k \<le> 3")
    case True
    then have b: "b = r div k" "r - k * b = r mod k" by (simp_all add: b_def min_def minus_mult_div_eq_mod)
    show ?thesis using True d r(2,3) unfolding b(2) by (simp add: b(1))
  next
    case False
    then have "k * 4 \<le> k * (r div k)" and b: "b = 3"
      using assms(1) by (auto simp: b_def)
    have "k * 4 \<le> r" using r(1,2) \<open>k * 4 \<le> k * (r div k)\<close> by linarith
    then show ?thesis using assms(1,3) unfolding b by simp
  qed
qed

lemma year_split_ok:
  assumes "year_split n = (y, yday)"
  shows "days_before_year y + yday = n" and "0 \<le> yday" and "yday < (if is_leap y then 366 else 365)"
proof -
  define a r where "a = n div 146097" and "r = n mod 146097"
  define b where "b = min 3 (r div 36524)"
  define r1 where "r1 = r - 36524 * b"
  define c r2 where "c = r1 div 1461" and "r2 = r1 mod 1461"
  define e where "e = min 3 (r2 div 365)"
  have n: "n = 146097 * a + r" by (simp add: a_def r_def)
  have r: "0 \<le> r" "r < 146097" by (simp_all add: r_def)
  have b: "0 \<le> b" "b \<le> 3" "0 \<le> r1" "r1 \<le> 36524" "b < 3 \<Longrightarrow> r1 < 36524"
    using clipped_div [of 36524 r] r by (simp_all add: b_def r1_def)
  have r1: "r1 = 1461 * c + r2" "0 \<le> r2" "r2 < 1461" by (simp_all add: c_def r2_def)
  have c: "0 \<le> c" "c \<le> 24" using b r1 by auto
  have e: "0 \<le> e" "e \<le> 3" "0 \<le> r2 - 365 * e" "r2 - 365 * e \<le> 365"
      "e < 3 \<Longrightarrow> r2 - 365 * e < 365"
    using clipped_div [of 365 r2] r1 by (simp_all add: e_def)
  have "year_split n = (1 + 400 * a + 100 * b + 4 * c + e, r2 - 365 * e)"
    unfolding year_split_def Let_def a_def r_def b_def r1_def c_def r2_def e_def by (rule refl)
  then have y: "y = 1 + 400 * a + 100 * b + 4 * c + e" and d: "yday = r2 - 365 * e"
    using assms by simp_all
  show "days_before_year y + yday = n"
    using days_before_year_cycles [OF b(1,2) c e(1,2), of a] y d n r1 by (simp add: r1_def)
  show "0 \<le> yday" using e d by simp
  show "yday < (if is_leap y then 366 else 365)"
  proof (cases "yday = 365")
    case True
    then have "\<not> e < 3" using e(5) d by auto
    then have e3: "e = 3" using e(2) by simp
    then have "r2 = 1460" using True d by simp
    have "c < 24 \<or> b = 3" using b r1 c \<open>r2 = 1460\<close> by auto
    moreover have y4: "y = 4 * (100 * a + 25 * b + c + 1)" using y e3 by simp
    moreover have "y mod 100 = 4 * (c + 1)" if "c < 24"
      using y4 c that by (intro int_mod_pos_eq [where q = "4 * a + b"]) auto
    moreover have "y mod 400 = 0" if "c = 24" "b = 3" using y4 that by simp
    moreover have "y mod 4 = 0" using y4 by simp
    ultimately have "is_leap y" using c unfolding is_leap_def by (cases "c < 24") auto
    then show ?thesis using True by simp
  qed (use e d in auto)
qed

lemma days_in_pos: "28 \<le> days_in y m" "days_in y m \<le> 31"
  by (simp_all add: days_in_def)

lemma days_before_month_Suc: "1 \<le> m \<Longrightarrow> days_before_month y (Suc m) = days_before_month y m + days_in y m"
  by (simp add: days_before_month_def)

lemma month_split_ok:
  assumes "month_split y k m d = (m', d')" and "1 \<le> m" and "0 \<le> d"
    and "d < sum_list (map (days_in y) [m..<Suc (m + k)])"
  shows "days_before_month y m' + d' = days_before_month y m + d \<and> 0 \<le> d' \<and> d' < days_in y m' \<and>
    m \<le> m' \<and> m' \<le> m + k"
  using assms
proof (induction k arbitrary: m d)
  case (Suc k)
  show ?case
  proof (cases "d < days_in y m")
    case False
    have "[m..<Suc (m + Suc k)] = m # [Suc m..<Suc (Suc m + k)]" by (simp add: upt_rec)
    then have "d - days_in y m < sum_list (map (days_in y) [Suc m..<Suc (Suc m + k)])"
      using Suc.prems(4) by simp
    then show ?thesis
      using Suc.IH [of "Suc m" "d - days_in y m"] Suc.prems False days_before_month_Suc [of m y] by auto
  qed (use Suc.prems in auto)
qed auto

lemma year_length: "sum_list (map (days_in y) [1..<Suc (1 + 11)]) = (if is_leap y then 366 else 365)"
proof -
  have "[1..<Suc (1 + 11)] = [1, 2, 3, 4, 5, 6, 7, 8, 9, 10, 11, 12]" by (simp add: upt_rec)
  then show ?thesis by (simp add: days_in_def)
qed

lemma date_of_days_ok:
  assumes "date_of_days n = (y, m, d)"
  shows "date_days y m d = n" and "1 \<le> m" and "m \<le> 12" and "1 \<le> d" and "d \<le> days_in y m"
proof -
  obtain yday where y: "year_split (n + unix_epoch_days) = (y, yday)"
      and "month_split y 11 1 yday = (m, d - 1)"
    using assms by (auto simp: date_of_days_def Let_def split: prod.splits)
  moreover note ys = year_split_ok [OF y]
  ultimately have ms: "days_before_month y m + (d - 1) = days_before_month y 1 + yday \<and> 0 \<le> d - 1 \<and>
      d - 1 < days_in y m \<and> 1 \<le> m \<and> m \<le> 1 + 11"
    using month_split_ok [of y 11 1 yday m "d - 1"] year_length [of y] by simp
  show "date_days y m d = n" using ms ys(1) by (simp add: date_days_def days_before_month_def)
  show "1 \<le> m" "m \<le> 12" "1 \<le> d" "d \<le> days_in y m" using ms by auto
qed

section \<open>Digits\<close>

lemma dec_nat_length: "n < 10 ^ w \<Longrightarrow> 0 < w \<Longrightarrow> length (dec_nat n) \<le> w"
proof (induction w arbitrary: n)
  case (Suc w)
  show ?case
  proof (cases "n < 10")
    case False
    then have "0 < w" using Suc.prems by (cases w) auto
    moreover have "n div 10 < 10 ^ w" using Suc.prems by (simp add: less_mult_imp_div_less mult.commute)
    ultimately show ?thesis using Suc.IH False by (simp add: dec_nat.simps [of n])
  qed (simp add: dec_nat.simps [of n])
qed simp

lemma dec_val_zeros: "dec_val (replicate k (CHR ''0'') @ cs) = dec_val cs"
  by (induction k) (simp_all add: dec_val_def digit_val_def)

lemma length_pad_nat: "n < 10 ^ w \<Longrightarrow> 0 < w \<Longrightarrow> length (pad_nat w n) = w"
  using dec_nat_length [of n w] by (simp add: pad_nat_def)

lemma pad_nat_digits: "list_all is_digit (pad_nat w n)"
  using dec_nat_digits [of n] by (auto simp: pad_nat_def list_all_iff is_digit_def)

lemma dec_val_pad_nat: "dec_val (pad_nat w n) = n"
  by (simp add: pad_nat_def dec_val_zeros)

lemma digits_pad: "n < 10 ^ w \<Longrightarrow> 0 < w \<Longrightarrow> digits w (pad_nat w n @ rest) = Some (n, rest)"
  using length_pad_nat [of n w] pad_nat_digits [of w n] dec_val_pad_nat [of w n] by (simp add: digits_def)

lemma hour_digits_pad: "n < 100 \<Longrightarrow> hour_digits (pad_nat 2 n @ rest) = Some (n, rest)"
  using digits_pad [of n 2 rest] by (simp add: hour_digits_def)

lemma expect_Cons [simp]: "expect c (c # s) = Some s"
  by (simp add: expect_def)

lemma fraction_pad:
  assumes "n < 10 ^ 6"
  shows "fraction (CHR ''.'' # pad_nat 6 n @ CHR ''Z'' # []) = (n * 1000, ''Z'')"
proof -
  have len: "length (pad_nat 6 n) = 6" using assms by (simp add: length_pad_nat)
  then obtain d ds where p: "pad_nat 6 n = d # ds" by (cases "pad_nat 6 n") auto
  have all: "\<forall>x\<in>set (pad_nat 6 n). is_digit x" using pad_nat_digits [of 6 n] by (simp add: list_all_iff)
  have z: "\<not> is_digit (CHR ''Z'')" by (simp add: is_digit_def)
  have "takeWhile is_digit (pad_nat 6 n @ ''Z'') = pad_nat 6 n"
    "dropWhile is_digit (pad_nat 6 n @ ''Z'') = ''Z''"
    using all z by (simp_all add: takeWhile_append2 dropWhile_append2)
  moreover have "is_digit d" using all p by simp
  ultimately show ?thesis
    using p len dec_val_pad_nat [of 6 n] by (simp add: fraction_def Let_def)
qed

section \<open>Instants round trip\<close>

text \<open>The instants of the years 0 to 9999, which the layout's four digits can carry.\<close>

definition four_digit_year :: "time \<Rightarrow> bool" where
  "four_digit_year t \<longleftrightarrow> (case date_of_days (t div Second div day_seconds) of (y, _, _) \<Rightarrow> 0 \<le> y \<and> y \<le> 9999)"

lemma micro_part:
  assumes "on_micro t"
  shows "0 \<le> t mod Second div Microsecond" "t mod Second div Microsecond < 10 ^ 6"
    "t mod Second div Microsecond * 1000 = t mod Second"
proof -
  define x where "x = t mod Second"
  have x: "0 \<le> x" "x < 1000000000" by (simp_all add: x_def time_units)
  have "x mod 1000 = t mod 1000" unfolding x_def Second_def by (rule mod_mod_cancel) simp
  also have "\<dots> = 0" using assms by (simp add: on_micro_def Microsecond_def)
  finally have "x div 1000 * 1000 = x" by (simp add: minus_mod_eq_div_mult [symmetric])
  then show "0 \<le> t mod Second div Microsecond" "t mod Second div Microsecond < 10 ^ 6"
    "t mod Second div Microsecond * 1000 = t mod Second"
    using x by (simp_all add: x_def [symmetric] time_units(3))
qed

lemma ParseRFC3339_format:
  assumes "on_micro t" and "four_digit_year t"
  shows "ParseRFC3339 (format_micro t) = Some t"
proof -
  define secs us where "secs = t div Second" and "us = t mod Second div Microsecond"
  obtain y m d where date: "date_of_days (secs div day_seconds) = (y, m, d)" by (metis prod_cases3)
  define s where "s = nat (secs mod day_seconds)"
  note ok = date_of_days_ok [OF date]
  have y: "0 \<le> y" "y \<le> 9999" using assms(2) date by (simp_all add: four_digit_year_def secs_def)
  have d: "1 \<le> d" "d \<le> 31" using ok(4,5) days_in_pos(2) [of y m] by auto
  have s: "s < 86400" "int s = secs mod day_seconds" by (simp_all add: s_def day_seconds_def)
  have us: "0 \<le> us" "us < 10 ^ 6" "us * 1000 = t mod Second"
    using micro_part [OF assms(1)] by (simp_all add: us_def)
  have f: "format_micro t = pad_nat 4 (nat y) @ CHR ''-'' # pad_nat 2 m @ CHR ''-'' # pad_nat 2 (nat d) @
      CHR ''T'' # pad_nat 2 (s div 3600) @ CHR '':'' # pad_nat 2 (s div 60 mod 60) @ CHR '':'' #
      pad_nat 2 (s mod 60) @ CHR ''.'' # pad_nat 6 (nat us) @ CHR ''Z'' # []"
    using date y by (simp add: format_micro_def secs_def us_def s_def Let_def)
  have bounds: "nat y < 10 ^ 4" "m < 10 ^ 2" "nat d < 10 ^ 2" "s div 3600 < 24" "s div 60 mod 60 < 10 ^ 2"
      "s mod 60 < 10 ^ 2" "nat us < 10 ^ 6"
    using y ok d s us by auto
  have hms: "s div 3600 * 3600 + s div 60 mod 60 * 60 + s mod 60 = s"
  proof -
    have h: "s div 3600 = s div 60 div 60" by (simp add: div_mult2_eq [symmetric])
    have "s div 60 div 60 * 60 + s div 60 mod 60 = s div 60" "s div 60 * 60 + s mod 60 = s"
      by simp_all
    then show ?thesis unfolding h by linarith
  qed
  have "(date_days y m d * day_seconds + int s) * Second + us * 1000 = t"
    using ok(1) s us by (simp add: secs_def)
  moreover have "zone ''Z'' = Some (0, [])" by (simp add: zone_def)
  moreover have "int (nat us * 1000) = us * 1000" using us by simp
  moreover have "\<not> 60 \<le> s div 60 mod 60" "\<not> 60 \<le> s mod 60" by (simp_all add: not_le)
  ultimately show ?thesis
    unfolding f ParseRFC3339_def
    using bounds y d ok(2,3,5) hms
    by (simp add: digits_pad hour_digits_pad fraction_pad)
qed

end
