(* ===== verification/Netip_Text.thy ===== *)
theory Netip_Text
  imports Netip Gotext
begin

text \<open>
  The text form of \<open>net/netip\<close> addresses: \<open>Addr.String\<close> and \<open>ParseAddr\<close>. The collector uses
  it in store keys of templates, in keys of produced messages and in query parameters. A parse
  error is \<open>None\<close>: its text is only ever reported. The last lemma is the round trip.
\<close>

unbundle bit_operations_syntax

section \<open>Printing\<close>

definition hex_digits :: string where "hex_digits = ''0123456789abcdef''"

fun hex_nat :: "nat \<Rightarrow> string" where
  "hex_nat n = (if n < 16 then [hex_digits ! n] else hex_nat (n div 16) @ [hex_digits ! (n mod 16)])"

declare hex_nat.simps [simp del]

fun join_with :: "string \<Rightarrow> string list \<Rightarrow> string" where
  "join_with sep [] = []"
| "join_with sep [x] = x"
| "join_with sep (x # xs) = x @ sep @ join_with sep xs"

definition string4 :: "u32 \<Rightarrow> string" where
  "string4 w = join_with ''.'' (map (\<lambda>b. dec_nat (unat b)) (be32 w))"

definition v6_groups :: "u128 \<Rightarrow> nat list" where
  "v6_groups w = map (\<lambda>i. unat w div 65536 ^ (7 - i) mod 65536) [0..<8]"

definition zeros_from :: "nat list \<Rightarrow> nat \<Rightarrow> nat" where
  "zeros_from gs i = length (takeWhile (\<lambda>g. g = 0) (drop i gs))"

text \<open>The first longest run of at least two zero groups, as start and end.\<close>

definition zero_run :: "nat list \<Rightarrow> (nat \<times> nat) option" where
  "zero_run gs = fold (\<lambda>i best.
     let l = zeros_from gs i
     in if 2 \<le> l \<and> (case best of None \<Rightarrow> True | Some (s, e) \<Rightarrow> e - s < l) then Some (i, i + l) else best)
     [0..<length gs] None"

definition colons :: "nat list \<Rightarrow> string" where
  "colons gs = join_with '':'' (map hex_nat gs)"

definition groups_text :: "nat list \<Rightarrow> string" where
  "groups_text gs =
     (case zero_run gs of
        None \<Rightarrow> colons gs
      | Some (s, e) \<Rightarrow> colons (take s gs) @ ''::'' @ colons (drop e gs))"

fun zone_text :: "string \<Rightarrow> string" where
  "zone_text [] = []"
| "zone_text z = CHR ''%'' # z"

fun addr_String :: "Addr \<Rightarrow> string" where
  "addr_String AddrZero = ''invalid IP''"
| "addr_String (Addr4 w) = string4 w"
| "addr_String (Addr6 w z) =
     (if is4in6 (Addr6 w z) then ''::ffff:'' @ string4 (ucast w) @ zone_text z
      else groups_text (v6_groups w) @ zone_text z)"

section \<open>Parsing\<close>

definition parse_octet :: "string \<Rightarrow> nat option" where
  "parse_octet s =
     (if s = [] \<or> \<not> list_all is_digit s \<or> (hd s = CHR ''0'' \<and> length s \<noteq> 1) \<or> 255 < dec_val s
      then None else Some (dec_val s))"

text \<open>Four decimal fields between dots, none empty, none with a leading zero, none above 255.\<close>

definition parse_ipv4_fields :: "string \<Rightarrow> (byte list) option" where
  "parse_ipv4_fields s =
     (let parts = split_at_char (CHR ''.'') s
      in if length parts \<noteq> 4 \<or> \<not> list_all (\<lambda>p. parse_octet p \<noteq> None) parts then None
         else Some (map (\<lambda>p. of_nat (the (parse_octet p))) parts))"

definition parse_ipv4 :: "string \<Rightarrow> Addr option" where
  "parse_ipv4 s = map_option (\<lambda>bs. Addr4 (of_nat (be_nat bs))) (parse_ipv4_fields s)"

definition hex_digit_val :: "char \<Rightarrow> nat option" where
  "hex_digit_val c =
     (let n = (of_char c :: nat)
      in if 48 \<le> n \<and> n \<le> 57 then Some (n - 48)
         else if 97 \<le> n \<and> n \<le> 102 then Some (n - 87)
         else if 65 \<le> n \<and> n \<le> 70 then Some (n - 55) else None)"

definition is_hex :: "char \<Rightarrow> bool" where
  "is_hex c \<longleftrightarrow> hex_digit_val c \<noteq> None"

definition hex_text_val :: "string \<Rightarrow> nat" where
  "hex_text_val cs = foldl (\<lambda>n c. n * 16 + the (hex_digit_val c)) 0 cs"

text \<open>
  The loop over the fields: the groups read so far, the place of the ellipsis if one was seen,
  and the rest of the text. It ends after eight groups, at the end of the text, or with an
  embedded IPv4 address.
\<close>

function parse_groups ::
    "nat list \<Rightarrow> nat option \<Rightarrow> string \<Rightarrow> (nat list \<times> nat option \<times> string) option" where
  "parse_groups gs ell s =
     (if 8 \<le> length gs then Some (gs, ell, s)
      else
        let h = takeWhile is_hex s; rest = dropWhile is_hex s
        in if h = [] \<or> 4 < length h then None
           else case rest of
              [] \<Rightarrow> Some (gs @ [hex_text_val h], ell, [])
            | c # t \<Rightarrow>
                if c = CHR ''.'' then
                  (if ell = None \<and> length gs \<noteq> 6 \<or> 6 < length gs then None
                   else case parse_ipv4_fields s of
                          None \<Rightarrow> None
                        | Some bs \<Rightarrow>
                            Some (gs @ [be_nat (take 2 bs), be_nat (drop 2 bs)], ell, []))
                else if c \<noteq> CHR '':'' then None
                else case t of
                   [] \<Rightarrow> None
                 | c2 # t2 \<Rightarrow>
                     if c2 = CHR '':'' then
                       (if ell \<noteq> None then None
                        else if t2 = [] then Some (gs @ [hex_text_val h], Some (length gs + 1), [])
                        else parse_groups (gs @ [hex_text_val h]) (Some (length gs + 1)) t2)
                     else parse_groups (gs @ [hex_text_val h]) ell t)"
  by pat_completeness auto
termination
  by (relation "measure (\<lambda>(gs, ell, s). 8 - length gs)") auto

declare parse_groups.simps [simp del]

definition expand_groups :: "nat list \<Rightarrow> nat option \<Rightarrow> nat list option" where
  "expand_groups gs ell =
     (case ell of
        None \<Rightarrow> if length gs = 8 then Some gs else None
      | Some k \<Rightarrow>
          if length gs < 8 then Some (take k gs @ replicate (8 - length gs) 0 @ drop k gs) else None)"

definition groups_val :: "nat list \<Rightarrow> nat" where
  "groups_val gs = foldl (\<lambda>n g. n * 65536 + g) 0 gs"

definition addr_of_groups :: "string \<Rightarrow> nat list \<Rightarrow> nat option \<Rightarrow> Addr option" where
  "addr_of_groups zone gs ell =
     map_option (\<lambda>g. Addr6 (of_nat (groups_val g)) zone) (expand_groups gs ell)"

definition parse_ipv6 :: "string \<Rightarrow> Addr option" where
  "parse_ipv6 text =
     (case cut_at (CHR ''%'') text of
        (s, zone, found) \<Rightarrow>
          if found \<and> zone = [] then None
          else if s = ''::'' then Some (Addr6 0 zone)
          else case parse_groups [] (if take 2 s = ''::'' then Some 0 else None)
                      (if take 2 s = ''::'' then drop 2 s else s) of
                 None \<Rightarrow> None
               | Some (gs, ell, rest) \<Rightarrow> if rest \<noteq> [] then None else addr_of_groups zone gs ell)"

fun ParseAddr_at :: "string \<Rightarrow> string \<Rightarrow> Addr option" where
  "ParseAddr_at s [] = None"
| "ParseAddr_at s (c # cs) =
     (if c = CHR ''.'' then parse_ipv4 s
      else if c = CHR '':'' then parse_ipv6 s
      else if c = CHR ''%'' then None
      else ParseAddr_at s cs)"

definition ParseAddr :: "string \<Rightarrow> Addr option" where
  "ParseAddr s = ParseAddr_at s s"

section \<open>Round trip\<close>

subsection \<open>IPv4\<close>

lemma hd_dec_nat_nonzero: "0 < n \<Longrightarrow> hd (dec_nat n) \<noteq> CHR ''0''"
proof (induction n rule: dec_nat_induct)
  case (small n)
  have "(of_char (digit_char n) :: nat) = 48 + n" using small by (simp add: of_char_digit)
  then have "digit_char n \<noteq> CHR ''0''" using small by auto
  then show ?case using small by (simp add: dec_nat.simps [of n])
next
  case (large n)
  then show ?case using dec_nat_nonempty [of "n div 10"] by (simp add: dec_nat.simps [of n])
qed

lemma parse_octet_dec_nat: "n < 256 \<Longrightarrow> parse_octet (dec_nat n) = Some n"
proof -
  assume "n < 256"
  moreover have "length (dec_nat 0) = 1" by (simp add: dec_nat.simps [of 0])
  ultimately show ?thesis
    using hd_dec_nat_nonzero [of n] by (cases "n = 0") (simp_all add: parse_octet_def)
qed

lemma dot_not_in_dec_nat [simp]: "CHR ''.'' \<notin> set (dec_nat n)"
  by (rule dec_nat_no_char) (simp add: is_digit_def)

lemma split_join4:
  assumes "c \<notin> set w" and "c \<notin> set x" and "c \<notin> set y" and "c \<notin> set z"
  shows "split_at_char c (join_with [c] [w, x, y, z]) = [w, x, y, z]"
  using assms by (simp add: split_at_char_join split_at_char_none)

lemma four_bytes: "\<exists>a b c d. be32 w = [a, b, c, d]"
proof -
  have "length (be32 w) = Suc (Suc (Suc (Suc 0)))" by simp
  then show ?thesis unfolding length_Suc_conv by auto
qed

lemma byte_bound: "unat (b :: byte) < 256"
  using unat_bound [of b] by simp

lemma parse_ipv4_fields_string4: "parse_ipv4_fields (string4 w) = Some (be32 w)"
proof -
  obtain a b c d where w: "be32 w = [a, b, c, d]" using four_bytes by blast
  show ?thesis
    using split_join4 [of "CHR ''.''" "dec_nat (unat a)" "dec_nat (unat b)" "dec_nat (unat c)"
        "dec_nat (unat d)"]
    by (simp add: parse_ipv4_fields_def string4_def w parse_octet_dec_nat byte_bound Let_def)
qed

definition no_sep :: "string \<Rightarrow> bool" where
  "no_sep s \<longleftrightarrow> list_all (\<lambda>x. x \<notin> {CHR ''.'', CHR '':'', CHR ''%''}) s"

lemma ParseAddr_at_skip:
  assumes "no_sep p"
  shows "ParseAddr_at s (p @ q) = ParseAddr_at s q"
  using assms by (induction p) (auto simp: no_sep_def)

lemma digit_no_sep: "no_sep (dec_nat n)"
  using dec_nat_digits [of n] by (auto simp: list_all_iff is_digit_def no_sep_def)

lemma ParseAddr_string4: "ParseAddr (string4 w) = Some (Addr4 w)"
proof -
  obtain a b c d where w: "be32 w = [a, b, c, d]" using four_bytes by blast
  have "ParseAddr (string4 w) = parse_ipv4 (string4 w)"
    unfolding ParseAddr_def
    by (subst (2) string4_def) (simp add: w ParseAddr_at_skip digit_no_sep)
  then show ?thesis
    by (simp add: parse_ipv4_def parse_ipv4_fields_string4)
qed

subsection \<open>Hexadecimal groups\<close>

lemma hex_digit: "d < 16 \<Longrightarrow> hex_digit_val (hex_digits ! d) = Some d"
proof -
  assume "d < 16"
  then have "d \<in> set [0..<16]" by simp
  then show ?thesis
    by (simp add: upt_rec [of _ 16]) (auto simp: hex_digits_def hex_digit_val_def)
qed

lemma hex_text_val_snoc [simp]: "hex_text_val (cs @ [c]) = hex_text_val cs * 16 + the (hex_digit_val c)"
  by (simp add: hex_text_val_def)

lemma hex_nat_induct [case_names small large]:
  assumes "\<And>n :: nat. n < 16 \<Longrightarrow> P n" and "\<And>n. \<not> n < 16 \<Longrightarrow> P (n div 16) \<Longrightarrow> P n"
  shows "P n"
  by (induction n rule: hex_nat.induct) (use assms in blast)

lemma hex_text_val_hex_nat [simp]: "hex_text_val (hex_nat n) = n"
proof (induction n rule: hex_nat_induct)
  case (small n)
  then show ?case by (simp add: hex_nat.simps [of n] hex_text_val_def hex_digit)
next
  case (large n)
  then show ?case by (simp add: hex_nat.simps [of n] hex_digit)
qed

lemma hex_nat_hex: "x \<in> set (hex_nat n) \<Longrightarrow> is_hex x"
proof (induction n rule: hex_nat_induct)
  case (small n)
  then show ?case by (simp add: hex_nat.simps [of n] is_hex_def hex_digit)
next
  case (large n)
  then show ?case by (auto simp: hex_nat.simps [of n] is_hex_def hex_digit)
qed

lemma hex_nat_nonempty [simp]: "hex_nat n \<noteq> []"
  by (simp add: hex_nat.simps [of n])

lemma hex_nat_length: "n < 16 ^ k \<Longrightarrow> 0 < k \<Longrightarrow> length (hex_nat n) \<le> k"
proof (induction k arbitrary: n)
  case (Suc k)
  show ?case
  proof (cases "n < 16")
    case False
    then have "0 < k" using Suc.prems by (cases k) auto
    moreover have "n div 16 < 16 ^ k" using Suc.prems by (simp add: less_mult_imp_div_less mult.commute)
    ultimately show ?thesis using Suc.IH False by (simp add: hex_nat.simps [of n])
  qed (simp add: hex_nat.simps [of n])
qed simp

lemma hex_not_sep [simp]: "\<not> is_hex (CHR '':'')" "\<not> is_hex (CHR ''.'')" "\<not> is_hex (CHR ''%'')"
  by (simp_all add: is_hex_def hex_digit_val_def)

lemma hex_span:
  assumes "rest = [] \<or> \<not> is_hex (hd rest)"
  shows "takeWhile is_hex (hex_nat n @ rest) = hex_nat n"
    and "dropWhile is_hex (hex_nat n @ rest) = rest"
  using assms hex_nat_hex [of _ n]
  by (cases rest; simp add: takeWhile_append2 dropWhile_append2)+

definition small_groups :: "nat list \<Rightarrow> bool" where
  "small_groups gs \<longleftrightarrow> list_all (\<lambda>g. g < 65536) gs"

lemma small_groups_simps [simp]:
  "small_groups []" "small_groups (g # gs) \<longleftrightarrow> g < 65536 \<and> small_groups gs"
  by (simp_all add: small_groups_def)

lemma group_length: "g < 65536 \<Longrightarrow> length (hex_nat g) \<le> 4"
  using hex_nat_length [of g 4] by simp

lemma hd_hex_nat: "hd (hex_nat n) \<noteq> CHR '':''" "hd (hex_nat n) \<noteq> CHR ''.''"
  using hex_nat_hex [of "hd (hex_nat n)" n] by (auto dest!: sym [of _ "hd (hex_nat n)"])

lemma colons_Cons:
  "gs \<noteq> [] \<Longrightarrow> colons (g # gs) = hex_nat g @ CHR '':'' # colons gs"
  by (cases gs) (simp_all add: colons_def)

lemma colons_simps [simp]: "colons [] = []" "colons [g] = hex_nat g"
  by (simp_all add: colons_def)

lemma colons_start: "gs \<noteq> [] \<Longrightarrow> \<exists>c t. colons gs = c # t \<and> is_hex c \<and> c \<noteq> CHR '':''"
proof -
  assume "gs \<noteq> []"
  then obtain g hs where gs: "gs = g # hs" by (cases gs) auto
  obtain c t where c: "hex_nat g = c # t" using hex_nat_nonempty [of g] by (cases "hex_nat g") auto
  have "is_hex c" using hex_nat_hex [of c g] c by simp
  moreover have "c \<noteq> CHR '':''" using calculation by auto
  ultimately show ?thesis using gs c by (cases hs) (auto simp: colons_Cons)
qed

lemma parse_groups_last:
  assumes "g < 65536" and "length acc < 8"
  shows "parse_groups acc ell (hex_nat g) = Some (acc @ [g], ell, [])"
proof -
  have span: "takeWhile is_hex (hex_nat g) = hex_nat g" "dropWhile is_hex (hex_nat g) = []"
    using hex_span [of "[]" g] by simp_all
  show ?thesis
    using group_length [OF assms(1)] assms(2) by (subst parse_groups.simps) (simp add: Let_def span)
qed

lemma parse_groups_colon:
  assumes "g < 65536" and "length acc < 8" and "t = c # t'" and "c \<noteq> CHR '':''"
  shows "parse_groups acc ell (hex_nat g @ CHR '':'' # t) = parse_groups (acc @ [g]) ell t"
  using hex_span [of "CHR '':'' # t" g] group_length [OF assms(1)] assms(2-)
  by (subst parse_groups.simps) (simp add: Let_def)

lemma parse_groups_ellipsis:
  assumes "g < 65536" and "length acc < 8"
  shows "parse_groups acc None (hex_nat g @ ''::'' @ t) =
    (if t = [] then Some (acc @ [g], Some (length acc + 1), [])
     else parse_groups (acc @ [g]) (Some (length acc + 1)) t)"
  using hex_span [of "''::'' @ t" g] group_length [OF assms(1)] assms(2-)
  by (subst parse_groups.simps) (simp add: Let_def)

lemma parse_groups_colons:
  assumes "gs \<noteq> []" and "small_groups gs" and "length acc + length gs \<le> 8"
  shows "parse_groups acc ell (colons gs) = Some (acc @ gs, ell, [])"
  using assms
proof (induction gs arbitrary: acc)
  case (Cons g gs)
  show ?case
  proof (cases "gs = []")
    case True
    then show ?thesis using Cons.prems by (simp add: parse_groups_last)
  next
    case False
    obtain c t where "colons gs = c # t" "c \<noteq> CHR '':''" using colons_start [OF False] by blast
    then show ?thesis
      using Cons False by (simp add: colons_Cons parse_groups_colon)
  qed
qed simp

lemma parse_groups_two:
  assumes "gs \<noteq> []" and "small_groups gs" and "length acc + length gs + length hs < 8"
    and "small_groups hs"
  shows "parse_groups acc None (colons gs @ ''::'' @ colons hs) =
    Some (acc @ gs @ hs, Some (length acc + length gs), [])"
  using assms
proof (induction gs arbitrary: acc)
  case (Cons g gs)
  show ?case
  proof (cases "gs = []")
    case True
    show ?thesis
    proof (cases "hs = []")
      case hs: False
      obtain c t where "colons hs = c # t" using colons_start [OF hs] by blast
      then show ?thesis
        using True Cons.prems hs parse_groups_ellipsis [of g acc "colons hs"]
          parse_groups_colons [of hs "acc @ [g]" "Some (Suc (length acc))"] by simp
    qed (use True Cons.prems parse_groups_ellipsis [of g acc "[]"] in simp)
  next
    case False
    obtain c t where c: "colons gs = c # t" "c \<noteq> CHR '':''" using colons_start [OF False] by blast
    have "parse_groups acc None (hex_nat g @ CHR '':'' # (colons gs @ ''::'' @ colons hs)) =
        parse_groups (acc @ [g]) None (colons gs @ ''::'' @ colons hs)"
      using Cons.prems c by (intro parse_groups_colon) auto
    then show ?thesis using Cons False by (simp add: colons_Cons)
  qed
qed simp

subsection \<open>The run of zeros\<close>

definition run_ok :: "nat list \<Rightarrow> (nat \<times> nat) option \<Rightarrow> bool" where
  "run_ok gs r \<longleftrightarrow>
     (case r of None \<Rightarrow> True
      | Some (s, e) \<Rightarrow> s + 2 \<le> e \<and> e \<le> length gs \<and>
          gs = take s gs @ replicate (e - s) 0 @ drop e gs)"

lemma zeros_split:
  assumes "i \<le> length gs"
  shows "gs = take i gs @ replicate (zeros_from gs i) 0 @ drop (i + zeros_from gs i) gs"
    and "i + zeros_from gs i \<le> length gs"
proof -
  have z: "takeWhile (\<lambda>g. g = 0) (drop i gs) = replicate (zeros_from gs i) 0"
    unfolding zeros_from_def
    by (rule replicate_eqI) (auto dest: set_takeWhileD)
  have "drop i gs = takeWhile (\<lambda>g. g = 0) (drop i gs) @ dropWhile (\<lambda>g. g = 0) (drop i gs)" by simp
  moreover have "dropWhile (\<lambda>g. g = 0) (drop i gs) = drop (zeros_from gs i) (drop i gs)"
    by (simp add: dropWhile_eq_drop zeros_from_def)
  ultimately have "drop i gs = replicate (zeros_from gs i) 0 @ drop (i + zeros_from gs i) gs"
    using z by (simp add: add.commute)
  then show "gs = take i gs @ replicate (zeros_from gs i) 0 @ drop (i + zeros_from gs i) gs"
    by (metis append_take_drop_id)
  show "i + zeros_from gs i \<le> length gs"
    using assms length_takeWhile_le [of "\<lambda>g. g = 0" "drop i gs"] by (simp add: zeros_from_def)
qed

lemma zero_run_ok: "run_ok gs (zero_run gs)"
proof -
  have "run_ok gs (fold (\<lambda>i best.
     let l = zeros_from gs i
     in if 2 \<le> l \<and> (case best of None \<Rightarrow> True | Some (s, e) \<Rightarrow> e - s < l) then Some (i, i + l) else best)
     is best)" if "run_ok gs best" and "list_all (\<lambda>i. i \<le> length gs) is" for best "is"
    using that
  proof (induction "is" arbitrary: best)
    case (Cons i "is")
    then show ?case
      using zeros_split [of i gs] by (auto simp: run_ok_def Let_def split: option.splits)
  qed simp
  then show ?thesis
    unfolding zero_run_def by (auto simp: run_ok_def list_all_iff)
qed

subsection \<open>IPv6\<close>

lemma length_v6_groups [simp]: "length (v6_groups w) = 8"
  by (simp add: v6_groups_def)

lemma v6_groups_small: "small_groups (v6_groups w)"
  by (simp add: v6_groups_def small_groups_def list_all_iff)

lemma groups_val_snoc [simp]: "groups_val (gs @ [g]) = groups_val gs * 65536 + g"
  by (simp add: groups_val_def)

lemma groups_val_zeros [simp]: "groups_val (replicate k 0 @ gs) = groups_val gs"
  by (induction k) (simp_all add: groups_val_def)

lemma groups_val_digits:
  "groups_val (map (\<lambda>i. n div 65536 ^ (k - Suc i) mod 65536) [0..<k]) = n mod 65536 ^ k"
proof (induction k arbitrary: n)
  case 0
  show ?case by (simp add: groups_val_def)
next
  case (Suc k)
  have shift: "map (\<lambda>i. n div 65536 ^ (Suc k - Suc i) mod 65536) [0..<k] =
      map (\<lambda>i. (n div 65536) div 65536 ^ (k - Suc i) mod 65536) [0..<k]"
  proof (rule map_cong [OF refl])
    fix i assume "i \<in> set [0..<k]"
    then have "Suc k - Suc i = Suc (k - Suc i)" by auto
    then show "n div 65536 ^ (Suc k - Suc i) mod 65536 = (n div 65536) div 65536 ^ (k - Suc i) mod 65536"
      by (simp add: div_mult2_eq)
  qed
  have "groups_val (map (\<lambda>i. n div 65536 ^ (Suc k - Suc i) mod 65536) [0..<Suc k]) =
      groups_val (map (\<lambda>i. n div 65536 ^ (Suc k - Suc i) mod 65536) [0..<k]) * 65536 + n mod 65536"
    by simp
  also have "\<dots> = n div 65536 mod 65536 ^ k * 65536 + n mod 65536"
    unfolding shift Suc.IH ..
  finally show ?case by (simp only: mod_mult2_eq power_Suc mult.commute)
qed

lemma groups_val_v6: "(of_nat (groups_val (v6_groups w)) :: u128) = w"
proof -
  have "groups_val (v6_groups w) = unat w mod 65536 ^ 8"
    using groups_val_digits [of "unat w" 8] by (simp add: v6_groups_def)
  also have "\<dots> = unat w" using unat_bound [of w] by simp
  finally show ?thesis by simp
qed

lemma zone_cut: "CHR ''%'' \<notin> set s \<Longrightarrow> cut_at (CHR ''%'') (s @ zone_text z) = (s, z, z \<noteq> [])"
  by (induction s; cases z) (auto split: prod.splits)

lemma colons_chars: "x \<in> set (colons gs) \<Longrightarrow> is_hex x \<or> x = CHR '':''"
proof (induction gs)
  case (Cons g gs)
  then show ?case by (cases "gs = []") (auto simp: colons_Cons dest: hex_nat_hex)
qed simp

text \<open>A text with a colon among its first hexadecimal digits goes to the IPv6 parser.\<close>

lemma ParseAddr_v6:
  assumes "\<forall>x\<in>set p. is_hex x"
  shows "ParseAddr (p @ CHR '':'' # q) = parse_ipv6 (p @ CHR '':'' # q)"
proof -
  have "no_sep p" using assms by (auto simp: no_sep_def list_all_iff)
  then show ?thesis by (simp add: ParseAddr_def ParseAddr_at_skip)
qed

lemma colons_two_start:
  assumes "gs = g # h # hs"
  shows "take 2 (colons gs @ t) \<noteq> ''::''" "\<exists>q. colons gs @ t = hex_nat g @ CHR '':'' # q"
proof -
  obtain c u where "colons gs = c # u" "c \<noteq> CHR '':''" using colons_start [of gs] assms by blast
  then show "take 2 (colons gs @ t) \<noteq> ''::''" by simp
  show "\<exists>q. colons gs @ t = hex_nat g @ CHR '':'' # q" using assms by (simp add: colons_Cons)
qed

lemma parse_ipv6_zone:
  assumes "CHR ''%'' \<notin> set s"
  shows "parse_ipv6 (s @ zone_text z) =
    (if s = ''::'' then Some (Addr6 0 z)
     else case parse_groups [] (if take 2 s = ''::'' then Some 0 else None)
                      (if take 2 s = ''::'' then drop 2 s else s) of
            None \<Rightarrow> None
          | Some (gs, ell, rest) \<Rightarrow> if rest \<noteq> [] then None else addr_of_groups z gs ell)"
  by (simp only: parse_ipv6_def zone_cut [OF assms]) auto

lemma groups_text_roundtrip:
  assumes len: "length gs = 8" and small: "small_groups gs"
  shows "parse_ipv6 (groups_text gs @ zone_text z) = Some (Addr6 (of_nat (groups_val gs)) z)"
proof (cases "zero_run gs")
  case None
  have "gs \<noteq> []" using len by auto
  then obtain c u where "colons gs = c # u" "c \<noteq> CHR '':''" using colons_start by blast
  then have "colons gs \<noteq> ''::''" "take 2 (colons gs) \<noteq> ''::''" by simp_all
  moreover have pct: "CHR ''%'' \<notin> set (colons gs)" using colons_chars by fastforce
  moreover have "parse_groups [] None (colons gs) = Some (gs, None, [])"
    using parse_groups_colons [of gs "[]" None] len small \<open>gs \<noteq> []\<close> by simp
  moreover have "groups_text gs = colons gs" using None by (simp add: groups_text_def)
  ultimately show ?thesis
    by (simp only: parse_ipv6_zone [OF pct]) (simp add: len addr_of_groups_def expand_groups_def)
next
  case (Some r)
  obtain s e where r: "r = (s, e)" by fastforce
  have ok: "s + 2 \<le> e" "e \<le> 8" and gs: "gs = take s gs @ replicate (e - s) 0 @ drop e gs"
    using zero_run_ok [of gs] Some r len by (simp_all add: run_ok_def)
  define a b where "a = take s gs" and "b = drop e gs"
  have ab: "length a = s" "length b = 8 - e" "small_groups a" "small_groups b"
      "gs = a @ replicate (e - s) 0 @ b"
    using ok len small gs unfolding a_def b_def
    by (auto simp: small_groups_def list_all_iff dest: in_set_takeD in_set_dropD)
  have shape: "groups_text gs = colons a @ ''::'' @ colons b"
    using Some r by (simp add: groups_text_def a_def b_def)
  have pct: "CHR ''%'' \<notin> set (colons a @ ''::'' @ colons b)" using colons_chars by fastforce
  have zs: "8 - (s + (8 - e)) = e - s" using ok by simp
  show ?thesis
  proof (cases "a = []")
    case True
    show ?thesis
    proof (cases "b = []")
      case b: True
      then have "gs = replicate 8 0" using True ab ok by simp
      then have "groups_val gs = 0"
        using groups_val_zeros [of 8 "[]"] by (simp add: groups_val_def)
      then show ?thesis using True b parse_ipv6_zone [of "''::''" z] by (simp add: shape)
    next
      case b: False
      then obtain c u where c: "colons b = c # u" using colons_start by blast
      show ?thesis
        using True b c pct ab ok zs parse_groups_colons [of b "[]" "Some 0"]
          parse_ipv6_zone [of "''::'' @ colons b" z]
        unfolding shape by (simp add: addr_of_groups_def expand_groups_def)
    qed
  next
    case False
    then obtain c u where c: "colons a = c # u" "c \<noteq> CHR '':''" using colons_start by blast
    have "take 2 (colons a @ ''::'' @ colons b) \<noteq> ''::''" using c by simp
    moreover have "colons a @ ''::'' @ colons b \<noteq> ''::''" using c by simp
    moreover have "parse_groups [] None (colons a @ ''::'' @ colons b) = Some (a @ b, Some s, [])"
      using False ab ok parse_groups_two [of a "[]" b] by simp
    moreover have "addr_of_groups z (a @ b) (Some s) = Some (Addr6 (of_nat (groups_val gs)) z)"
      using ab ok zs by (simp add: addr_of_groups_def expand_groups_def)
    ultimately show ?thesis unfolding shape parse_ipv6_zone [OF pct] by simp
  qed
qed

lemma colons_hex_start:
  "\<exists>p q. colons xs @ CHR '':'' # t = p @ CHR '':'' # q \<and> (\<forall>x\<in>set p. is_hex x)"
proof (cases xs)
  case (Cons g ys)
  have "\<exists>q. colons xs @ CHR '':'' # t = hex_nat g @ CHR '':'' # q"
    using Cons by (cases "ys = []") (simp_all add: colons_Cons)
  then show ?thesis using hex_nat_hex by blast
qed (auto intro: exI [of _ "[]"])

lemma groups_text_start:
  assumes "length gs = 8"
  shows "\<exists>p q. groups_text gs = p @ CHR '':'' # q \<and> (\<forall>x\<in>set p. is_hex x)"
proof (cases "zero_run gs")
  case None
  obtain g h hs where gs: "gs = g # h # hs"
    using assms by (cases gs; cases "tl gs") auto
  then have "groups_text gs = hex_nat g @ CHR '':'' # colons (h # hs)"
    using None by (simp add: groups_text_def colons_Cons)
  then show ?thesis using hex_nat_hex by blast
next
  case (Some r)
  then show ?thesis
    using colons_hex_start by (cases r) (simp add: groups_text_def)
qed

lemma mapped_groups: "is4in6 (Addr6 w z) \<Longrightarrow> w = map4 (ucast w)"
proof -
  assume "is4in6 (Addr6 w z)"
  then have "as16 (Addr6 w z) = as16 (Addr4 (ucast w))"
    using as16_unmap [of "Addr6 w z"] by simp
  then show ?thesis by simp
qed

lemma map4_eq: "map4 v = of_nat (65535 * 65536 * 65536 + unat v)"
proof -
  have "map4 v = push_bit 32 0xffff + ucast v"
    unfolding map4_def
  proof (rule disjunctive_add_eq_or [symmetric])
    show "push_bit 32 0xffff AND (ucast v :: u128) = 0"
      by (rule bit_word_eqI)
        (auto simp: bit_simps simp del: push_bit_numeral dest: bit_imp_le_length)
  qed
  then show ?thesis by (simp add: push_bit_eq_mult)
qed

lemma be32_halves: "groups_val [65535, be_nat (take 2 (be32 v)), be_nat (drop 2 (be32 v))] =
    65535 * 65536 * 65536 + unat v"
proof -
  obtain a b c d where v: "be32 v = [a, b, c, d]" using four_bytes by blast
  have "unat v = be_nat [a, b, c, d]" using be_nat_words(2) [of v] by (simp add: v)
  then show ?thesis by (simp add: v groups_val_def be_nat_def)
qed

lemma digit_is_hex: "is_digit c \<Longrightarrow> is_hex c"
  by (simp add: is_digit_def is_hex_def hex_digit_val_def)

lemma dec_octet_length: "n < 256 \<Longrightarrow> length (dec_nat n) \<le> 3"
  by (simp add: dec_nat.simps [of n] dec_nat.simps [of "n div 10"] dec_nat.simps [of "n div 10 div 10"])

lemma parse_groups_mapped:
  "parse_groups [65535] (Some 0) (string4 v) =
     Some ([65535, be_nat (take 2 (be32 v)), be_nat (drop 2 (be32 v))], Some 0, [])"
proof -
  obtain a b c d where v: "be32 v = [a, b, c, d]" using four_bytes by blast
  define t where "t = dec_nat (unat b) @ CHR ''.'' # dec_nat (unat c) @ CHR ''.'' # dec_nat (unat d)"
  have s: "string4 v = dec_nat (unat a) @ CHR ''.'' # t"
    by (simp add: string4_def v t_def)
  have hex: "\<forall>x\<in>set (dec_nat (unat a)). is_hex x"
    using dec_nat_digits [of "unat a"] digit_is_hex by (auto simp: list_all_iff)
  have span: "takeWhile is_hex (string4 v) = dec_nat (unat a)"
      "dropWhile is_hex (string4 v) = CHR ''.'' # t"
    using hex by (simp_all add: s takeWhile_append2 dropWhile_append2)
  show ?thesis
    using dec_octet_length [OF byte_bound, of a] parse_ipv4_fields_string4 [of v]
    by (subst parse_groups.simps) (simp add: Let_def span)
qed

lemma parse_groups_ffff:
  "parse_groups [] (Some 0) (''ffff:'' @ string4 v) = parse_groups [65535] (Some 0) (string4 v)"
proof -
  have f: "hex_nat 65535 = ''ffff''" by (simp add: hex_nat.simps [of 65535] hex_nat.simps [of 4095] hex_nat.simps [of 255]
        hex_nat.simps [of 15] hex_digits_def)
  obtain a b c d where v: "be32 v = [a, b, c, d]" using four_bytes by blast
  obtain x xs where x: "dec_nat (unat a) = x # xs"
    using dec_nat_nonempty [of "unat a"] by (cases "dec_nat (unat a)") auto
  have "x \<noteq> CHR '':''" using digit_no_sep [of "unat a"] x by (auto simp: no_sep_def)
  moreover have "\<exists>ys. string4 v = x # ys" by (simp add: string4_def v x)
  ultimately show ?thesis using parse_groups_colon [of 65535 "[]" "string4 v"] f by auto
qed

lemma no_percent_string4: "CHR ''%'' \<notin> set (string4 v)"
proof -
  obtain a b c d where v: "be32 v = [a, b, c, d]" using four_bytes by blast
  show ?thesis by (simp add: string4_def v dec_nat_no_char is_digit_def)
qed

lemma parse_mapped: "parse_ipv6 (''::ffff:'' @ string4 v @ zone_text z) = Some (Addr6 (map4 v) z)"
proof -
  have pct: "CHR ''%'' \<notin> set (''::ffff:'' @ string4 v)" using no_percent_string4 by simp
  have "addr_of_groups z [65535, be_nat (take 2 (be32 v)), be_nat (drop 2 (be32 v))] (Some 0) =
      Some (Addr6 (map4 v) z)"
    unfolding map4_eq be32_halves [symmetric] by (simp add: addr_of_groups_def expand_groups_def)
  then show ?thesis
    using parse_ipv6_zone [OF pct, of z] parse_groups_ffff [of v] parse_groups_mapped [of v] by simp
qed

lemma ParseAddr_String: "is_valid a \<Longrightarrow> ParseAddr (addr_String a) = Some a"
proof (cases a)
  case (Addr4 w)
  then show ?thesis by (simp add: ParseAddr_string4)
next
  case (Addr6 w z)
  show ?thesis
  proof (cases "is4in6 (Addr6 w z)")
    case True
    then show ?thesis
      using Addr6 ParseAddr_v6 [of "[]" "'':ffff:'' @ string4 (ucast w) @ zone_text z"]
        parse_mapped [of "ucast w" z] mapped_groups [OF True] by simp
  next
    case False
    obtain p q where t: "groups_text (v6_groups w) = p @ CHR '':'' # q" "\<forall>x\<in>set p. is_hex x"
      using groups_text_start [of "v6_groups w"] by auto
    have "ParseAddr (addr_String a) = parse_ipv6 (groups_text (v6_groups w) @ zone_text z)"
      using Addr6 False t ParseAddr_v6 [OF t(2), of "q @ zone_text z"] by simp
    then show ?thesis
      using Addr6 groups_text_roundtrip [of "v6_groups w" z] v6_groups_small groups_val_v6 by simp
  qed
qed simp

lemma ParseAddr_invalid: "ParseAddr (addr_String AddrZero) = None"
  by (simp add: ParseAddr_def)

end
