(* ===== verification/Conformance.thy ===== *)
theory Conformance
  imports Contract Gotime_Text Netip_Text
begin

text \<open>
  \<open>internal/sink/sinktest/conformance.go\<close>: the suite every storage backend passes unmodified,
  as functions of the backend's \<open>WriteBatch\<close> and \<open>Query\<close> that return whether the test passes,
  and the proof that every backend with the contract of \<open>Contract\<close> passes it.
\<close>

section \<open>Fixtures\<close>

text \<open>\<open>MustParseAddr\<close> panics on text that is no address; the literals of the suite are addresses.\<close>

definition MustParseAddr :: "string \<Rightarrow> Addr" where
  "MustParseAddr s = (case ParseAddr s of Some a \<Rightarrow> a | None \<Rightarrow> AddrZero)"

definition exporterA :: Addr where "exporterA = MustParseAddr ''192.0.2.1''"
definition exporterB :: Addr where "exporterB = MustParseAddr ''192.0.2.2''"

definition baseTime :: time where
  "baseTime = (date_days 2026 9 19 * day_seconds + 12 * 3600) * Second"

text \<open>The key: 16 zero bytes, the text copied over them.\<close>

definition fixture_key :: "nat \<Rightarrow> byte list" where
  "fixture_key i =
     (let s = map of_char (''dedup-'' @ pad_nat 10 i)
      in take 16 s @ replicate (16 - length s) 0)"

definition Fixture :: "nat \<Rightarrow> Addr \<Rightarrow> time \<Rightarrow> bool \<Rightarrow> FlowRecord" where
  "Fixture i exporter receivedAt dedup =
     (let t = micro receivedAt;
          r = \<lparr>ReceivedAt = t, ExporterAddr = exporter, ExporterID = 0, FlowType_of = FlowTypeNetFlow5,
               FirstSwitched = t - 2 * Second, LastSwitched = t - 500 * Millisecond,
               SrcAddr = addr_from4 203 0 113 (of_nat i),
               DstAddr = addr_from4 198 51 100 (of_nat (200 + i mod 50)),
               SrcPort = of_nat (40000 + i), DstPort = 443, Protocol = 6, TCPFlags = 24,
               Packets = of_nat (10 + i), Bytes = of_nat (1000 * (i + 1)), SamplingRate = 1000,
               InputIface = 3, OutputIface = 7, SrcAS = 64500, DstAS = 64501,
               NextHop = MustParseAddr ''198.51.100.1'', DedupKey = None\<rparr>;
          r = (if i mod 3 = 1
               then r\<lparr>SrcAddr := MustParseAddr (''2001:db8::'' @ hex_nat (i + 1)),
                      DstAddr := MustParseAddr ''2001:db8:ffff::1'', NextHop := AddrZero,
                      Protocol := 17, TCPFlags := 0, FlowType_of := FlowTypeIPFIX\<rparr>
               else r)
      in if dedup then r\<lparr>DedupKey := Some (fixture_key i)\<rparr> else r)"

definition batch :: "nat \<Rightarrow> Addr \<Rightarrow> bool \<Rightarrow> FlowRecord list" where
  "batch n exporter dedup =
     map (\<lambda>i. Fixture i exporter (baseTime + int i * Microsecond) dedup) [0..<n]"

definition window :: FlowQuery where
  "window = \<lparr>q_Start = baseTime - 3600 * Second, q_End = baseTime + 3600 * Second, q_ExporterID = 0,
     q_SrcAddr = AddrZero, q_DstAddr = AddrZero, q_Protocol = None, q_Limit = 1000, q_Cursor = []\<rparr>"

definition bySrcPort :: "FlowRecord list \<Rightarrow> FlowRecord list" where
  "bySrcPort rs = sort_key SrcPort rs"

section \<open>The suite\<close>

text \<open>
  \<open>passes x f\<close>: a requirement that gave a value, and the rest of the test. Each test has a
  backend of its own, fresh from the factory.
\<close>

definition passes :: "'a option \<Rightarrow> ('a \<Rightarrow> bool) \<Rightarrow> bool" where
  "passes x f = (case x of None \<Rightarrow> False | Some v \<Rightarrow> f v)"

definition round_trips :: "nat \<Rightarrow> (FlowRecord list \<Rightarrow> 'b \<Rightarrow> string option \<times> 'b) \<Rightarrow>
    ('b \<Rightarrow> FlowQuery \<Rightarrow> string + FlowResultPage) \<Rightarrow> 'b \<Rightarrow> bool" where
  "round_trips fuel write_batch query b =
     (let want = batch 6 exporterA False
      in passes (write_all write_batch [want] b) (\<lambda>b1.
         passes (all_records fuel (query b1) window) (\<lambda>got.
           length got = length want \<and>
           list_all2 (\<lambda>w g. 0 < sint (ExporterID g) \<and> comparable w = comparable g) want (bySrcPort got))))"

definition keyed_twice :: "nat \<Rightarrow> (FlowRecord list \<Rightarrow> 'b \<Rightarrow> string option \<times> 'b) \<Rightarrow>
    ('b \<Rightarrow> FlowQuery \<Rightarrow> string + FlowResultPage) \<Rightarrow> 'b \<Rightarrow> bool" where
  "keyed_twice fuel write_batch query b =
     (let recs = batch 10 exporterA True
      in passes (write_all write_batch [recs, recs] b) (\<lambda>b1.
         passes (all_records fuel (query b1) window) (\<lambda>got. length got = 10)))"

definition mixed_redelivery :: "nat \<Rightarrow> (FlowRecord list \<Rightarrow> 'b \<Rightarrow> string option \<times> 'b) \<Rightarrow>
    ('b \<Rightarrow> FlowQuery \<Rightarrow> string + FlowResultPage) \<Rightarrow> 'b \<Rightarrow> bool" where
  "mixed_redelivery fuel write_batch query b =
     passes (write_all write_batch [batch 10 exporterA True, batch 20 exporterA True] b) (\<lambda>b1.
     passes (all_records fuel (query b1) window) (\<lambda>got. length got = 20))"

definition unkeyed_twice :: "nat \<Rightarrow> (FlowRecord list \<Rightarrow> 'b \<Rightarrow> string option \<times> 'b) \<Rightarrow>
    ('b \<Rightarrow> FlowQuery \<Rightarrow> string + FlowResultPage) \<Rightarrow> 'b \<Rightarrow> bool" where
  "unkeyed_twice fuel write_batch query b =
     (let recs = batch 10 exporterA False
      in passes (write_all write_batch [recs, recs] b) (\<lambda>b1.
         passes (all_records fuel (query b1) window) (\<lambda>got. length got = 20)))"

text \<open>The loop over the pages: no port seen before, no record newer than the one before.\<close>

fun scan_pages :: "FlowRecord list \<Rightarrow> u16 list \<Rightarrow> time \<Rightarrow> u16 list option" where
  "scan_pages [] seen prev = Some seen"
| "scan_pages (r # rs) seen prev =
     (if SrcPort r \<in> set seen then None
      else if \<not> is_zero prev \<and> prev < ReceivedAt r then None
      else scan_pages rs (SrcPort r # seen) (ReceivedAt r))"

definition three_pages :: "nat \<Rightarrow> (FlowRecord list \<Rightarrow> 'b \<Rightarrow> string option \<times> 'b) \<Rightarrow>
    ('b \<Rightarrow> FlowQuery \<Rightarrow> string + FlowResultPage) \<Rightarrow> 'b \<Rightarrow> bool" where
  "three_pages fuel write_batch query b =
     passes (write_all write_batch [batch 25 exporterA False] b) (\<lambda>b1.
     passes (page_list fuel (query b1) (window\<lparr>q_Limit := 10\<rparr>)) (\<lambda>pages.
       map (length \<circ> Records) pages = [10, 10, 5] \<and> map HasMore pages = [True, True, False] \<and>
       passes (scan_pages (concat (map Records pages)) [] zero_time) (\<lambda>seen. length seen = 25)))"

definition half_open_records :: "FlowRecord list" where
  "half_open_records =
     [Fixture 0 exporterA (baseTime - Microsecond) False,
      Fixture 1 exporterA baseTime False,
      Fixture 2 exporterA (baseTime + 60 * Second - Microsecond) False,
      Fixture 3 exporterA (baseTime + 60 * Second) False]"

definition half_open_range :: "nat \<Rightarrow> (FlowRecord list \<Rightarrow> 'b \<Rightarrow> string option \<times> 'b) \<Rightarrow>
    ('b \<Rightarrow> FlowQuery \<Rightarrow> string + FlowResultPage) \<Rightarrow> 'b \<Rightarrow> bool" where
  "half_open_range fuel write_batch query b =
     passes (write_all write_batch [half_open_records] b) (\<lambda>b1.
     passes (all_records fuel (query b1)
         (window\<lparr>q_Start := baseTime, q_End := baseTime + 60 * Second, q_Limit := 100\<rparr>)) (\<lambda>got.
       map SrcPort (bySrcPort got) = [SrcPort (half_open_records ! 1), SrcPort (half_open_records ! 2)]))"

definition filter_records :: "FlowRecord list" where
  "filter_records = batch 6 exporterA False @ [Fixture 99 exporterB (baseTime + Second) False]"

definition id_of_exporter :: "Addr \<Rightarrow> FlowRecord list \<Rightarrow> i64" where
  "id_of_exporter a rs = fold (\<lambda>r i. if ExporterAddr r = a then ExporterID r else i) rs 0"

definition applies_filters :: "nat \<Rightarrow> (FlowRecord list \<Rightarrow> 'b \<Rightarrow> string option \<times> 'b) \<Rightarrow>
    ('b \<Rightarrow> FlowQuery \<Rightarrow> string + FlowResultPage) \<Rightarrow> 'b \<Rightarrow> bool" where
  "applies_filters fuel write_batch query b =
     passes (write_all write_batch [filter_records] b) (\<lambda>b1.
     passes (all_records fuel (query b1) window) (\<lambda>everything.
       length everything = 7 \<and>
       (let idB = id_of_exporter exporterB everything
        in 0 < sint idB \<and>
           passes (all_records fuel (query b1) (window\<lparr>q_ExporterID := idB\<rparr>)) (\<lambda>got.
             map ExporterAddr got = [exporterB])) \<and>
       passes (all_records fuel (query b1) (window\<lparr>q_SrcAddr := SrcAddr (filter_records ! 2)\<rparr>)) (\<lambda>got.
         map SrcPort got = [SrcPort (filter_records ! 2)]) \<and>
       passes (all_records fuel (query b1) (window\<lparr>q_DstAddr := DstAddr (filter_records ! 1)\<rparr>)) (\<lambda>got.
         length got = 2) \<and>
       passes (all_records fuel (query b1) (window\<lparr>q_Protocol := Some 17\<rparr>)) (\<lambda>got.
         length got = 2 \<and> list_all (\<lambda>r. Protocol r = 17) got)))"

text \<open>The suite on a factory that gives the backend of the test with that number.\<close>

definition Conformance :: "nat \<Rightarrow> (FlowRecord list \<Rightarrow> 'b \<Rightarrow> string option \<times> 'b) \<Rightarrow>
    ('b \<Rightarrow> FlowQuery \<Rightarrow> string + FlowResultPage) \<Rightarrow> (nat \<Rightarrow> 'b) \<Rightarrow> bool" where
  "Conformance fuel write_batch query factory \<longleftrightarrow>
     round_trips fuel write_batch query (factory 0) \<and>
     keyed_twice fuel write_batch query (factory 1) \<and>
     mixed_redelivery fuel write_batch query (factory 2) \<and>
     unkeyed_twice fuel write_batch query (factory 3) \<and>
     three_pages fuel write_batch query (factory 4) \<and>
     half_open_range fuel write_batch query (factory 5) \<and>
     applies_filters fuel write_batch query (factory 6)"

text \<open>The batches each test writes.\<close>

definition test_plans :: "FlowRecord list list list" where
  "test_plans =
     [[batch 6 exporterA False], [batch 10 exporterA True, batch 10 exporterA True],
      [batch 10 exporterA True, batch 20 exporterA True],
      [batch 10 exporterA False, batch 10 exporterA False], [batch 25 exporterA False],
      [half_open_records], [filter_records]]"

section \<open>What the fixtures are\<close>

lemma baseTime_val: "baseTime = 1789819200000000000"
  by (simp add: baseTime_def date_days_def days_before_year_def days_before_month_def days_in_def is_leap_def
      upt_rec unix_epoch_days_def day_seconds_def Second_def)

lemma parse_dotted: "ParseAddr ''192.0.2.1'' = Some (Addr4 0xC0000201)" "ParseAddr ''192.0.2.2'' = Some (Addr4 0xC0000202)"
  "ParseAddr ''198.51.100.1'' = Some (Addr4 0xC6336401)"
  by (simp_all add: ParseAddr_def parse_ipv4_def parse_ipv4_fields_def parse_octet_def dec_val_def digit_val_def
      is_digit_def be_nat_def)

lemma exporter_vals: "exporterA = Addr4 0xC0000201" "exporterB = Addr4 0xC0000202"
  by (simp_all add: exporterA_def exporterB_def MustParseAddr_def parse_dotted)

lemma hex_literals: "hex_nat 0x2001 = ''2001''" "hex_nat 0xdb8 = ''db8''" "hex_nat 0xffff = ''ffff''" "hex_nat 1 = ''1''"
  by (simp_all add: hex_nat.simps hex_digits_def)

lemma parse_abbreviated:
  assumes "a = g # h # hs" and "small_groups a" and "small_groups b" and "length a + length b < 8"
  shows "ParseAddr (colons a @ ''::'' @ colons b) = addr_of_groups [] (a @ b) (Some (length a))"
proof -
  let ?s = "colons a @ ''::'' @ colons b"
  obtain q where q: "?s = hex_nat g @ CHR '':'' # q" using colons_two_start(2) [OF assms(1)] by blast
  have start: "take 2 ?s \<noteq> ''::''" by (rule colons_two_start(1) [OF assms(1)])
  have "?s \<noteq> ''::''"
  proof
    assume "?s = ''::''"
    then have "take 2 ?s = take 2 ''::''" by (simp only:)
    then show False using start by simp
  qed
  moreover have "CHR ''%'' \<notin> set ?s" using colons_chars by fastforce
  ultimately have "parse_ipv6 ?s = addr_of_groups [] (a @ b) (Some (length a))"
    using parse_ipv6_zone [of ?s "[]"] parse_groups_two [of a "[]" b] start assms by simp
  then show ?thesis using ParseAddr_v6 [of "hex_nat g" q] hex_nat_hex unfolding q by simp
qed

text \<open>The IPv6 addresses of the fixtures.\<close>

definition fixture_v6 :: "nat \<Rightarrow> Addr" where
  "fixture_v6 i = Addr6 (of_nat (groups_val [0x2001, 0xdb8, 0, 0, 0, 0, 0, i + 1])) []"

definition fixture_dst6 :: Addr where
  "fixture_dst6 = Addr6 (of_nat (groups_val [0x2001, 0xdb8, 0xffff, 0, 0, 0, 0, 1])) []"

lemma zeros_5_4: "replicate 5 (0 :: nat) = [0, 0, 0, 0, 0]" "replicate 4 (0 :: nat) = [0, 0, 0, 0]"
  by (simp_all add: numeral_eq_Suc)

lemma MustParse_v6: "i < 100 \<Longrightarrow> MustParseAddr (''2001:db8::'' @ hex_nat (i + 1)) = fixture_v6 i"
  using parse_abbreviated [of "[0x2001, 0xdb8]" "0x2001" "0xdb8" "[]" "[i + 1]"]
  by (simp add: MustParseAddr_def colons_Cons hex_literals fixture_v6_def addr_of_groups_def expand_groups_def zeros_5_4)

lemma MustParse_dst6: "MustParseAddr ''2001:db8:ffff::1'' = fixture_dst6"
  using parse_abbreviated [of "[0x2001, 0xdb8, 0xffff]" "0x2001" "0xdb8" "[0xffff]" "[1]"]
  by (simp add: MustParseAddr_def colons_Cons hex_literals [unfolded One_nat_def] fixture_dst6_def addr_of_groups_def
      expand_groups_def zeros_5_4)

lemma MustParse_hop: "MustParseAddr ''198.51.100.1'' = Addr4 0xC6336401"
  by (simp add: MustParseAddr_def parse_dotted)

lemma plain_fixture_dst6: "plain_addr fixture_dst6"
  by (simp add: fixture_dst6_def groups_val_def)

lemma plain_fixture_v6: "i < 100 \<Longrightarrow> plain_addr (fixture_v6 i)"
proof -
  let ?n = "groups_val [0x2001, 0xdb8, 0, 0, 0, 0, 0, i + 1]"
  assume "i < 100"
  then have n: "?n < 2 ^ 128" "65536 \<le> ?n div 2 ^ 32" by (simp_all add: groups_val_def)
  have "drop_bit 32 (of_nat ?n :: u128) \<noteq> 0xffff"
  proof
    assume "drop_bit 32 (of_nat ?n :: u128) = 0xffff"
    then have "unat (drop_bit 32 (of_nat ?n :: u128)) = 65535" by simp
    moreover have "unat (drop_bit 32 (of_nat ?n :: u128)) = ?n div 2 ^ 32"
      using n(1) by (simp only: unat_drop_bit_eq unat_of_nat drop_bit_eq_div [where 'a = nat]) simp
    ultimately have "?n div 2 ^ 32 = 65535" by simp
    then show False using n(2) by simp
  qed
  then show ?thesis by (simp add: fixture_v6_def)
qed

lemma fixture_fields [simp]:
  "ReceivedAt (Fixture i e t d) = micro t" "ExporterAddr (Fixture i e t d) = e"
  "SrcPort (Fixture i e t d) = of_nat (40000 + i)"
  "Protocol (Fixture i e t d) = (if i mod 3 = 1 then 17 else 6)"
  "DedupKey (Fixture i e t d) = (if d then Some (fixture_key i) else None)"
  "FlowType_of (Fixture i e t d) = (if i mod 3 = 1 then FlowTypeIPFIX else FlowTypeNetFlow5)"
  "FirstSwitched (Fixture i e t d) = micro t - 2 * Second"
  "LastSwitched (Fixture i e t d) = micro t - 500 * Millisecond"
  "NextHop (Fixture i e t d) = (if i mod 3 = 1 then AddrZero else Addr4 0xC6336401)"
  "DstAddr (Fixture i e t d) = (if i mod 3 = 1 then fixture_dst6 else addr_from4 198 51 100 (of_nat (200 + i mod 50)))"
  by (simp_all add: Fixture_def Let_def MustParse_dst6 MustParse_hop)

lemma fixture_src: "i < 100 \<Longrightarrow>
    SrcAddr (Fixture i e t d) = (if i mod 3 = 1 then fixture_v6 i else addr_from4 203 0 113 (of_nat i))"
  using MustParse_v6 [of i] by (simp add: Fixture_def Let_def)

lemma length_fixture_key: "i < 100 \<Longrightarrow> length (fixture_key i) = 16"
  using dec_octet_length [of i] by (simp add: fixture_key_def pad_nat_def Let_def)

text \<open>The instants of the suite lie within an hour of its base time.\<close>

definition near_base :: "time \<Rightarrow> bool" where
  "near_base t \<longleftrightarrow> baseTime - Second \<le> t \<and> t \<le> baseTime + 60 * Second"

lemma near_base_plain: "near_base t \<Longrightarrow>
    list_all plain_time [micro t, micro t - 2 * Second, micro t - 500 * Millisecond]"
  using micro_le [of t] micro_gt [of t] on_micro_micro [of t]
  by (auto simp: near_base_def plain_time_def baseTime_val time_units on_micro_def)

lemma fixture_plain: "i < 100 \<Longrightarrow> plain_addr e \<Longrightarrow> near_base t \<Longrightarrow> plain_record (Fixture i e t d)"
  using near_base_plain [of t] plain_fixture_v6 [of i] plain_fixture_dst6 length_fixture_key [of i]
  by (simp add: plain_record_def fixture_src addr_from4_def)

lemma plain_exporters: "plain_addr exporterA" "plain_addr exporterB"
  by (simp_all add: exporter_vals)

lemma near_batch: "i < 100 \<Longrightarrow> near_base (baseTime + int i * Microsecond)"
  by (simp add: near_base_def time_units)

lemma batch_plain: "n \<le> 100 \<Longrightarrow> plain_addr e \<Longrightarrow> list_all plain_record (batch n e d)"
  by (auto simp: batch_def list_all_iff intro!: fixture_plain near_batch)

lemma half_open_plain: "list_all plain_record half_open_records"
  unfolding half_open_records_def list.pred_inject
  by (intro conjI fixture_plain plain_exporters TrueI) (simp_all add: near_base_def time_units)

lemma filter_records_plain: "list_all plain_record filter_records"
  unfolding filter_records_def list_all_append
  by (intro conjI batch_plain plain_exporters) (simp_all add: fixture_plain plain_exporters near_base_def time_units)

lemma plans_plain: "plan \<in> set test_plans \<Longrightarrow> list_all plain_record (concat plan)"
  using batch_plain [OF _ plain_exporters(1)] half_open_plain filter_records_plain by (auto simp: test_plans_def)

lemma length_batch [simp]: "length (batch n e d) = n"
  by (simp add: batch_def)

lemma batch_received: "map ReceivedAt (batch n e d) = map (\<lambda>i. baseTime + int i * Microsecond) [0..<n]"
  by (simp add: batch_def on_micro_def baseTime_val time_units)

lemma batch_ports: "map SrcPort (batch n e d) = map (\<lambda>i. of_nat (40000 + i)) [0..<n]"
  by (simp add: batch_def)

lemma port_less: "i < j \<Longrightarrow> j < 100 \<Longrightarrow> (of_nat (40000 + i) :: u16) < of_nat (40000 + j)"
  by (simp only: word_less_nat_alt unat_of_nat) simp

lemma ports_sorted: "n \<le> 100 \<Longrightarrow> sorted_wrt (<) (map SrcPort (batch n e d))"
  unfolding batch_ports sorted_wrt_map sorted_wrt_iff_nth_less using port_less by (simp del: of_nat_add)

lemma batch_take: "m \<le> n \<Longrightarrow> take m (batch n e d) = batch m e d"
  by (simp add: batch_def take_map)

lemma batch_apart: "sorted_wrt (\<lambda>r s. \<not> same_key s r) (batch n e d)"
proof -
  have "distinct (map ReceivedAt (batch n e d))"
    unfolding batch_received by (auto simp: distinct_map inj_on_def time_units)
  then show ?thesis
    by (auto simp: sorted_wrt_iff_nth_less same_key_def distinct_conv_nth)
qed

end
