(* ===== verification/Conformance_Props.thy ===== *)
theory Conformance_Props
  imports Conformance
begin

text \<open>
  The suite passes on every backend with the contract: each test is a few lines over what the
  contract says of a plan of writes and of following the tokens.
\<close>

section \<open>Sorting by port, scanning pages\<close>

lemma sort_key_map: "sort_key f (map g xs) = map g (sort_key (f \<circ> g) xs)"
proof -
  have ins: "insort_key f (g x) (map g ys) = map g (insort_key (f \<circ> g) x ys)" for x ys
    by (induction ys) simp_all
  show ?thesis by (induction xs) (simp_all add: ins [unfolded comp_def] comp_def)
qed

lemma sorted_by_port:
  assumes "mset (map comparable got) = mset (map comparable rs)" and "sorted_wrt (<) (map SrcPort rs)"
  shows "map comparable (bySrcPort got) = map comparable rs"
proof -
  have port: "SrcPort \<circ> comparable = SrcPort" by (simp add: fun_eq_iff)
  have ports: "map SrcPort (map comparable rs) = map SrcPort rs" by simp
  have "sort_key SrcPort (map comparable got) = map comparable rs"
  proof (rule sort_key_inj_key_eq [OF assms(1)])
    have "distinct (map SrcPort (map comparable rs))" using assms(2) by (simp only: ports strict_sorted_iff)
    then have "inj_on SrcPort (set (map comparable rs))" by (simp only: distinct_map)
    then show "inj_on SrcPort (set (map comparable got))" by (simp only: mset_eq_setD [OF assms(1)])
    show "sorted (map SrcPort (map comparable rs))" using assms(2) by (simp only: ports strict_sorted_iff)
  qed
  then show ?thesis by (simp add: bySrcPort_def sort_key_map port)
qed

lemma scan_pages_passes:
  "distinct (map SrcPort rs) \<Longrightarrow> set (map SrcPort rs) \<inter> set seen = {} \<Longrightarrow>
   sorted_wrt (\<lambda>r s. ReceivedAt s \<le> ReceivedAt r) rs \<Longrightarrow>
   is_zero prev \<or> (\<forall>r\<in>set rs. ReceivedAt r \<le> prev) \<Longrightarrow>
   scan_pages rs seen prev = Some (rev (map SrcPort rs) @ seen)"
  by (induction rs seen prev rule: scan_pages.induct) (auto simp: not_less)

lemma id_of_exporter_in:
  assumes "r \<in> set rs" and "ExporterAddr r = a"
  shows "\<exists>s\<in>set rs. ExporterAddr s = a \<and> id_of_exporter a rs = ExporterID s"
  using assms(1)
proof (induction rs rule: rev_induct)
  case (snoc x xs)
  then show ?case using assms(2) by (cases "ExporterAddr x = a") (auto simp: id_of_exporter_def)
qed simp

lemma selects_near: "near_base (ReceivedAt r) \<Longrightarrow> selects window r"
  by (simp add: selects_def window_def near_base_def time_units)

lemma batch_near: "n \<le> 100 \<Longrightarrow> \<forall>r\<in>set (batch n e d). near_base (ReceivedAt r)"
  using near_batch by (auto simp: batch_def on_micro_def baseTime_val time_units)

lemma plain_window: "plain_query window" "q_Cursor window = []" "q_ExporterID window = 0"
  by (simp_all add: window_def plain_query_def plain_time_def baseTime_val time_units on_micro_def)

lemma filter_comparable:
  "(\<And>r. P (comparable r) = P r) \<Longrightarrow>
   mset (map comparable (filter P xs)) = filter_mset P (mset (map comparable xs))"
  by (induction xs) simp_all

lemma add_rows_never: "\<forall>v\<in>set vs. \<forall>w. \<not> coll v w \<Longrightarrow> add_rows coll st vs = st @ vs"
  by (induction vs arbitrary: st) (simp_all add: add_row_def list_ex_iff)

lemma add_rows_again: "list_all (\<lambda>v. coll v v) us \<Longrightarrow> add_rows coll st (us @ us @ vs) = add_rows coll st (us @ vs)"
  by (simp add: add_rows_noop add_rows_in list_all_iff)

lemma pieces:
  assumes "length xs = 25"
  shows "take 10 xs @ take 10 (drop 10 xs) @ take 10 (drop 20 xs) = xs"
proof -
  have "take 10 (drop 20 xs) = drop 10 (drop 10 xs)" using assms by simp
  then show ?thesis by (simp only: append_take_drop_id)
qed

lemma keyed_again: "add_rows same_key st (batch n e True @ batch n e True @ vs) = add_rows same_key st (batch n e True @ vs)"
  by (rule add_rows_again) (auto simp: list_all_iff same_key_def batch_def)

lemma batch_once: "add_rows same_key [] (batch n e d) = batch n e d"
  using batch_apart by (simp add: add_rows_new)

text \<open>What the queries of the last two tests select among their records.\<close>

definition half_open_query :: FlowQuery where
  "half_open_query = window\<lparr>q_Start := baseTime, q_End := baseTime + 60 * Second, q_Limit := 100\<rparr>"

lemma half_open_selected:
  "filter (selects half_open_query) half_open_records = [half_open_records ! 1, half_open_records ! 2]"
  by (simp add: half_open_records_def half_open_query_def selects_def window_def baseTime_val micro_eq time_units)

lemma half_open_plain_query: "plain_query half_open_query" "q_Cursor half_open_query = []" "q_ExporterID half_open_query = 0"
  using plain_window by (simp_all add: half_open_query_def plain_query_def plain_time_def baseTime_val time_units on_micro_def)

lemma unkeyed_once: "list_all (\<lambda>r. DedupKey r = None) rs \<Longrightarrow> add_rows same_key [] rs = rs"
  using add_rows_never [of rs same_key "[]"] by (simp add: list_all_iff same_key_def)

lemma filter_records_eq: "filter_records =
    [Fixture 0 exporterA baseTime False, Fixture 1 exporterA (baseTime + 1000) False,
     Fixture 2 exporterA (baseTime + 2000) False, Fixture 3 exporterA (baseTime + 3000) False,
     Fixture 4 exporterA (baseTime + 4000) False, Fixture 5 exporterA (baseTime + 5000) False,
     Fixture 99 exporterB (baseTime + 1000000000) False]"
proof -
  have "[0..<6] = [0, 1, 2, 3, 4, 5 :: nat]" by (simp add: upt_rec eval_nat_numeral)
  then show ?thesis by (simp add: filter_records_def batch_def time_units)
qed

lemma length_filter_records: "length filter_records = 7"
  by (simp add: filter_records_def)

lemma unkeyed_records: "list_all (\<lambda>r. DedupKey r = None) half_open_records" "list_all (\<lambda>r. DedupKey r = None) filter_records"
  by (simp_all add: half_open_records_def filter_records_eq)

lemma filter_records_near: "\<forall>r\<in>set filter_records. near_base (ReceivedAt r)"
  by (simp add: filter_records_eq near_base_def baseTime_val micro_eq time_units)

lemma near_filter: "list_all (\<lambda>r. near_base (ReceivedAt r)) rs \<Longrightarrow> (\<And>r. selects q r \<longleftrightarrow> selects window r \<and> P r) \<Longrightarrow>
    filter (selects q) rs = filter P rs"
  by (rule filter_cong) (simp_all add: list_all_iff selects_near)

lemma filters_selected:
  "filter (selects (window\<lparr>q_SrcAddr := SrcAddr (filter_records ! 2)\<rparr>)) filter_records = [filter_records ! 2]"
  "length (filter (selects (window\<lparr>q_DstAddr := DstAddr (filter_records ! 1)\<rparr>)) filter_records) = 2"
  "length (filter (selects (window\<lparr>q_Protocol := Some 17\<rparr>)) filter_records) = 2"
  "filter (\<lambda>r. ExporterAddr r = exporterB) filter_records = [filter_records ! 6]"
  "ExporterAddr (filter_records ! 6) = exporterB"
  "selects (window\<lparr>q_Protocol := Some 17\<rparr>) r \<Longrightarrow> Protocol r = 17"
proof -
  have near: "list_all (\<lambda>r. near_base (ReceivedAt r)) filter_records"
    using filter_records_near by (simp add: list_all_iff)
  have w: "selects (window\<lparr>q_SrcAddr := a\<rparr>) r \<longleftrightarrow> selects window r \<and> (\<not> is_valid a \<or> SrcAddr r = a)"
    "selects (window\<lparr>q_DstAddr := a\<rparr>) r \<longleftrightarrow> selects window r \<and> (\<not> is_valid a \<or> DstAddr r = a)"
    "selects (window\<lparr>q_Protocol := Some p\<rparr>) r \<longleftrightarrow> selects window r \<and> Protocol r = p" for a r p
    by (auto simp: selects_def window_def)
  show "filter (selects (window\<lparr>q_SrcAddr := SrcAddr (filter_records ! 2)\<rparr>)) filter_records = [filter_records ! 2]"
    by (subst near_filter [OF near w(1)]) (simp add: filter_records_eq fixture_src fixture_v6_def addr_from4_def be_nat_def)
  show "length (filter (selects (window\<lparr>q_DstAddr := DstAddr (filter_records ! 1)\<rparr>)) filter_records) = 2"
    by (subst near_filter [OF near w(2)]) (simp add: filter_records_eq fixture_dst6_def addr_from4_def)
  show "length (filter (selects (window\<lparr>q_Protocol := Some 17\<rparr>)) filter_records) = 2"
    by (subst near_filter [OF near w(3)]) (simp add: filter_records_eq)
  show "filter (\<lambda>r. ExporterAddr r = exporterB) filter_records = [filter_records ! 6]"
    by (simp add: filter_records_eq exporter_vals)
  show "ExporterAddr (filter_records ! 6) = exporterB" by (simp add: filter_records_eq)
  show "selects (window\<lparr>q_Protocol := Some 17\<rparr>) r \<Longrightarrow> Protocol r = 17" by (simp only: w)
qed

lemma single_comparable:
  assumes "mset (map comparable got) = mset (map comparable [r])"
  obtains g where "got = [g]" and "comparable g = comparable r"
proof (cases got)
  case (Cons g gs)
  then show ?thesis using assms that mset_eq_length [OF assms] by (cases gs) auto
qed (use assms in simp)

lemma plans_bounded:
  assumes "i < 7"
  shows "list_all plain_record (concat (test_plans ! i))" and "length (concat (test_plans ! i)) \<le> 30"
proof -
  have "length test_plans = 7" by (simp add: test_plans_def)
  then have i: "test_plans ! i \<in> set test_plans" using assms by simp
  then show "list_all plain_record (concat (test_plans ! i))" by (rule plans_plain)
  have "\<forall>p\<in>set test_plans. length (concat p) \<le> 30"
    by (simp add: test_plans_def half_open_records_def length_filter_records)
  then show "length (concat (test_plans ! i)) \<le> 30" using i by blast
qed

section \<open>Any backend with the contract\<close>

context storage_contract
begin

definition fresh :: "'b \<Rightarrow> bool" where
  "fresh b \<longleftrightarrow> ok b \<and> contents b = []"

lemma plan_leaves:
  assumes "fresh b" and "spared b plan" and "list_all plain_record (concat plan)"
    and "add_rows same_key [] (concat plan) = rs"
  obtains b1 where "write_all write_batch plan b = Some b1" and "ok b1"
    and "mset (map comparable (contents b1)) = mset (map comparable rs)"
    and "length (contents b1) = length rs"
proof -
  have "map (comparable \<circ> at_micro) (concat plan) = map comparable (concat plan)"
    using assms(3) by (simp add: list_all_iff at_micro_plain)
  moreover have "map comparable (add_rows same_key [] (concat plan)) =
      add_rows same_key [] (map comparable (concat plan))"
    by (subst map_add_rows [where coll' = same_key]) simp_all
  ultimately have "mset (map comparable rs) =
      mset (add_rows same_key (map comparable (contents b)) (map (comparable \<circ> at_micro) (concat plan)))"
    using assms(1,4) unfolding fresh_def by (metis list.simps(8))
  then obtain b1 where b1: "write_all write_batch plan b = Some b1" "ok b1"
      "mset (map comparable (contents b1)) = mset (map comparable rs)"
    using plan_adds [OF _ assms(2)] assms(1) unfolding fresh_def by metis
  moreover have "length (contents b1) = length rs" using mset_eq_length [OF b1(3)] by simp
  ultimately show ?thesis using that by blast
qed

lemma count_passes:
  assumes "fresh b" and "spared b plan" and "list_all plain_record (concat plan)"
    and "add_rows same_key [] (concat plan) = rs" and "\<forall>r\<in>set rs. near_base (ReceivedAt r)" and "length rs < fuel"
  shows "passes (write_all write_batch plan b)
    (\<lambda>b1. passes (all_records fuel (query b1) window) (\<lambda>got. length got = length rs))"
proof -
  obtain b1 where b1: "write_all write_batch plan b = Some b1" "ok b1"
      "mset (map comparable (contents b1)) = mset (map comparable rs)" "length (contents b1) = length rs"
    using plan_leaves [OF assms(1-4)] .
  have "filter (selects window) rs = rs" using assms(5) selects_near by (simp add: filter_all_id)
  then obtain got where "all_records fuel (query b1) window = Some got"
      "mset (map comparable got) = mset (map comparable rs)"
    using all_comparable [OF b1(2) plain_window(1,2) _ plain_window(3) b1(3)] b1(4) assms(6) by auto
  moreover from this(2) have "length got = length rs" using mset_eq_length by fastforce
  ultimately show ?thesis using b1(1) by (simp add: passes_def)
qed

lemma round_trips_passes:
  assumes "fresh b" and "spared b [batch 6 exporterA False]" and "6 < fuel"
  shows "round_trips fuel write_batch query b"
proof -
  let ?want = "batch 6 exporterA False"
  have "add_rows same_key [] (concat [?want]) = ?want" "list_all plain_record (concat [?want])"
    using batch_apart batch_plain [OF _ plain_exporters(1)] by (simp_all add: add_rows_new)
  then obtain b1 where b1: "write_all write_batch [?want] b = Some b1" "ok b1"
      "mset (map comparable (contents b1)) = mset (map comparable ?want)" "length (contents b1) = length ?want"
    using plan_leaves [OF assms(1,2)] by metis
  have "filter (selects window) ?want = ?want"
    using batch_near [of 6] selects_near by (intro filter_all_id) simp
  then obtain got where got: "all_records fuel (query b1) window = Some got"
      "mset (map comparable got) = mset (map comparable ?want)" "\<forall>r\<in>set got. r \<in> set (contents b1)"
    using all_comparable [OF b1(2) plain_window(1,2) _ plain_window(3) b1(3)] b1(4) assms(3) by auto
  have "map comparable (bySrcPort got) = map comparable ?want"
    by (rule sorted_by_port [OF got(2) ports_sorted]) simp
  then have "list_all2 (\<lambda>w g. comparable w = comparable g) ?want (bySrcPort got)"
    by (simp add: list_all2_conv_all_nth list_eq_iff_nth_eq)
  moreover have "\<forall>g\<in>set (bySrcPort got). 0 < sint (ExporterID g)"
    using got(3) ids_positive [OF b1(2)] by (simp add: bySrcPort_def)
  ultimately have "list_all2 (\<lambda>w g. 0 < sint (ExporterID g) \<and> comparable w = comparable g) ?want (bySrcPort got)"
    by (simp add: list_all2_conv_all_nth)
  moreover have "length got = 6" using mset_eq_length [OF got(2)] by simp
  ultimately show ?thesis using b1(1) got(1) by (simp add: round_trips_def passes_def Let_def)
qed

lemma keyed_twice_passes:
  assumes "fresh b" and "spared b [batch 10 exporterA True, batch 10 exporterA True]" and "10 < fuel"
  shows "keyed_twice fuel write_batch query b"
proof -
  let ?rs = "batch 10 exporterA True"
  have "add_rows same_key [] (concat [?rs, ?rs]) = ?rs"
    using keyed_again [of "[]" 10 exporterA "[]"] by (simp add: batch_once del: add_rows_simps(3))
  from count_passes [OF assms(1,2) _ this] show ?thesis
    using batch_near [of 10] batch_plain [OF _ plain_exporters(1), of 10] assms(3)
    by (simp add: keyed_twice_def)
qed

lemma mixed_redelivery_passes:
  assumes "fresh b" and "spared b [batch 10 exporterA True, batch 20 exporterA True]" and "20 < fuel"
  shows "mixed_redelivery fuel write_batch query b"
proof -
  let ?old = "batch 10 exporterA True" and ?rs = "batch 20 exporterA True"
  have "?old @ drop 10 ?rs = ?rs"
    using append_take_drop_id [of 10 ?rs] batch_take [of 10 20 exporterA True] by simp
  then have "add_rows same_key [] (concat [?old, ?rs]) = ?rs"
    using keyed_again [of "[]" 10 exporterA "drop 10 ?rs"]
    by (simp add: batch_once del: add_rows_simps(3))
  from count_passes [OF assms(1,2) _ this] show ?thesis
    using batch_near [of 20] batch_plain [OF _ plain_exporters(1)] assms(3)
    by (simp add: mixed_redelivery_def)
qed

lemma unkeyed_twice_passes:
  assumes "fresh b" and "spared b [batch 10 exporterA False, batch 10 exporterA False]" and "20 < fuel"
  shows "unkeyed_twice fuel write_batch query b"
proof -
  let ?rs = "batch 10 exporterA False"
  have "add_rows same_key [] (?rs @ ?rs) = [] @ ?rs @ ?rs"
    by (rule add_rows_never) (auto simp: same_key_def batch_def)
  then have "add_rows same_key [] (concat [?rs, ?rs]) = ?rs @ ?rs" by simp
  from count_passes [OF assms(1,2) _ this] show ?thesis
    using batch_near [of 10] batch_plain [OF _ plain_exporters(1), of 10] assms(3)
    by (simp add: unkeyed_twice_def ball_Un)
qed

lemma pages_of_ten:
  assumes "ok b" and "q_Cursor q = []" and "size_of q = 10" and "length (rows b q) = 25" and "3 \<le> fuel"
  shows "page_list fuel (query b) q = Some (map (page_at rec token 10 (rows b q)) [0, 10, 20])"
proof -
  let ?rs = "rows b q" and ?p = "page_at rec token 10 (rows b q)"
  obtain k where fuel: "fuel = Suc (Suc (Suc k))" using assms(5) by (metis add_Suc le_add_diff_inverse numeral_3_eq_3 plus_nat.add_0)
  let ?at = "\<lambda>i. q\<lparr>q_Cursor := token (?rs ! i)\<rparr>"
  have first: "query b q = Inr (?p 0)" using first_page [OF assms(1,2)] assms(3) by simp
  have more: "query b (?at i) = Inr (?p (Suc i))" if "i < 25" for i
    using next_page [OF assms(1), of i "?at i"] that assms(3,4) by (simp add: rows_cursor size_cursor)
  have page: "HasMore (?p 0)" "NextCursor (?p 0) = token (?rs ! 9)" "HasMore (?p 10)"
      "NextCursor (?p 10) = token (?rs ! 19)" "\<not> HasMore (?p 20)"
    by (simp_all add: page_at_def Let_def assms(4))
  have again: "q\<lparr>q_Cursor := x, q_Cursor := y\<rparr> = q\<lparr>q_Cursor := y\<rparr>" for x y by simp
  show ?thesis using more [of 9] more [of 19] by (simp add: fuel first page)
qed

lemma three_pages_passes:
  assumes "fresh b" and "spared b [batch 25 exporterA False]" and "25 < fuel"
  shows "three_pages fuel write_batch query b"
proof -
  let ?want = "batch 25 exporterA False" and ?q = "window\<lparr>q_Limit := 10\<rparr>"
  have "add_rows same_key [] (concat [?want]) = ?want" "list_all plain_record (concat [?want])"
    using batch_once batch_plain [OF _ plain_exporters(1)] by simp_all
  then obtain b1 where b1: "write_all write_batch [?want] b = Some b1" "ok b1"
      "mset (map comparable (contents b1)) = mset (map comparable ?want)"
    using plan_leaves [OF assms(1,2)] by metis
  have q: "plain_query ?q" "q_Cursor ?q = []" "size_of ?q = 10" and sel: "selects ?q = selects window"
    using plain_window by (simp_all add: plain_query_def page_size clamp_limit_def maxLimit_def fun_eq_iff selects_def)
  let ?rs = "rows b1 ?q"
  have "\<forall>r\<in>set (contents b1). selects window r"
  proof
    fix r assume "r \<in> set (contents b1)"
    then have "comparable r \<in> set (map comparable ?want)" using mset_eq_setD [OF b1(3)] by auto
    then obtain w where "comparable r = comparable w" "w \<in> set ?want" by auto
    moreover have "selects window w" using batch_near [of 25] calculation(2) by (intro selects_near) simp
    ultimately show "selects window r" by (metis plain_window(3) selects_comparable)
  qed
  then have got: "mset (map rec ?rs) = mset (contents b1)"
    using rows_selected [OF b1(2) q(1)] by (simp add: sel filter_all_id)
  have "image_mset comparable (mset (map rec ?rs)) = mset (map comparable ?want)" using got b1(3) by simp
  from arg_cong [OF this, of "image_mset SrcPort"]
  have "mset (map SrcPort (map rec ?rs)) = mset (map SrcPort ?want)" by (simp add: multiset.map_comp comp_def)
  note ports = this
  have d: "distinct (map SrcPort (map rec ?rs))"
    using ports_sorted [of 25 exporterA False] mset_eq_imp_distinct_iff [OF ports] by (simp add: strict_sorted_iff)
  have len: "length ?rs = 25" using mset_eq_length [OF ports] by simp
  have "concat (map Records (map (page_at rec token 10 ?rs) [0, 10, 20])) = map rec ?rs"
    using pieces [OF len] by (simp add: page_at_def Let_def flip: map_append)
  then show ?thesis
    using d len b1(1) pages_of_ten [OF b1(2) q(2,3), of fuel] rows_newest [OF b1(2), of ?q] assms(3)
      scan_pages_passes [of "map rec ?rs" "[]" zero_time]
    by (simp add: three_pages_def passes_def page_at_def Let_def is_zero_def)
qed

lemma half_open_passes:
  assumes "fresh b" and "spared b [half_open_records]" and "4 < fuel"
  shows "half_open_range fuel write_batch query b"
proof -
  have "add_rows same_key [] (concat [half_open_records]) = half_open_records"
    using unkeyed_once [OF unkeyed_records(1)] by (simp del: add_rows_simps)
  then obtain b1 where b1: "write_all write_batch [half_open_records] b = Some b1" "ok b1"
      "mset (map comparable (contents b1)) = mset (map comparable half_open_records)" "length (contents b1) = length half_open_records"
    using plan_leaves [OF assms(1,2)] half_open_plain by (metis append_Nil2 concat.simps)
  have "length half_open_records = 4" by (simp add: half_open_records_def)
  then obtain got where got: "all_records fuel (query b1) half_open_query = Some got"
      "mset (map comparable got) = mset (map comparable [half_open_records ! 1, half_open_records ! 2])"
    using all_comparable [OF b1(2) half_open_plain_query(1,2) _ half_open_plain_query(3) b1(3)] b1(4) assms(3)
    by (auto simp: half_open_selected)
  have "sorted_wrt (<) (map SrcPort [half_open_records ! 1, half_open_records ! 2])"
    by (simp add: half_open_records_def)
  from arg_cong [OF sorted_by_port [OF got(2) this], of "map SrcPort"]
  have "map SrcPort (bySrcPort got) = [SrcPort (half_open_records ! 1), SrcPort (half_open_records ! 2)]"
    by (simp add: comp_def)
  then show ?thesis using b1(1) got(1) by (simp add: half_open_range_def passes_def flip: half_open_query_def)
qed

lemma filter_passes:
  assumes "ok b" and "mset (map comparable (contents b)) = mset (map comparable filter_records)" and "7 < fuel"
    and "plain_query q" and "q_Cursor q = []" and "q_ExporterID q = 0"
  obtains got where "all_records fuel (query b) q = Some got"
    and "mset (map comparable got) = mset (map comparable (filter (selects q) filter_records))"
  using all_comparable [OF assms(1,4,5) _ assms(6,2)] mset_eq_length [OF assms(2)] assms(3)
  by (auto simp: length_filter_records)

lemma exporter_filter:
  assumes "ok b" and "mset (map comparable (contents b)) = mset (map comparable filter_records)" and "7 < fuel"
    and "s \<in> set (contents b)" and "ExporterAddr s = exporterB"
  shows "\<exists>got. all_records fuel (query b) (window\<lparr>q_ExporterID := ExporterID s\<rparr>) = Some got \<and> map ExporterAddr got = [exporterB]"
proof -
  let ?q = "window\<lparr>q_ExporterID := ExporterID s\<rparr>"
  have q: "plain_query ?q" "q_Cursor ?q = []" using plain_window by (simp_all add: plain_query_def)
  have len: "length (contents b) < fuel" using mset_eq_length [OF assms(2)] assms(3) by (simp add: length_filter_records)
  obtain got where got: "all_records fuel (query b) ?q = Some got" "mset got = mset (filter (selects ?q) (contents b))"
    using all_selected [OF assms(1) q len] by blast
  have near: "near_base (ReceivedAt r)" if "r \<in> set (contents b)" for r
  proof -
    have "comparable r \<in> comparable ` set filter_records" using that mset_eq_setD [OF assms(2)] by auto
    then show ?thesis using filter_records_near by (metis comparable_simps(1) image_iff)
  qed
  have "selects ?q r \<longleftrightarrow> ExporterAddr r = exporterB" if r: "r \<in> set (contents b)" for r
  proof -
    have "ExporterID s \<noteq> 0" using ids_positive [OF assms(1,4)] by auto
    then have "selects ?q r \<longleftrightarrow> ExporterID r = ExporterID s"
      using selects_near [OF near [OF r]] by (simp add: selects_def window_def)
    then show ?thesis using ids_apart [OF assms(1) r assms(4)] assms(5) by simp
  qed
  then have "filter (selects ?q) (contents b) = filter (\<lambda>r. ExporterAddr r = exporterB) (contents b)"
    by (rule filter_cong [OF refl])
  then have "mset got = mset (filter (\<lambda>r. ExporterAddr r = exporterB) (contents b))" using got(2) by simp
  then have "mset (map comparable got) = mset (map comparable (filter (\<lambda>r. ExporterAddr r = exporterB) (contents b)))"
    by simp
  also have "\<dots> = mset (map comparable (filter (\<lambda>r. ExporterAddr r = exporterB) filter_records))"
    using filter_comparable [of "\<lambda>r. ExporterAddr r = exporterB"] assms(2) by (simp only: comparable_simps)
  finally have "mset (map comparable got) = mset (map comparable (filter (\<lambda>r. ExporterAddr r = exporterB) filter_records))" .
  then obtain g where "got = [g]" "comparable g = comparable (filter_records ! 6)"
    unfolding filters_selected(4) by (rule single_comparable)
  then show ?thesis using got(1) filters_selected(5) comparable_simps(4) by (metis list.simps(8,9))
qed

lemma field_filters:
  assumes "ok b" and "mset (map comparable (contents b)) = mset (map comparable filter_records)" and "7 < fuel"
  shows "\<exists>got. all_records fuel (query b) (window\<lparr>q_SrcAddr := SrcAddr (filter_records ! 2)\<rparr>) = Some got \<and>
      map SrcPort got = [SrcPort (filter_records ! 2)]"
    and "\<exists>got. all_records fuel (query b) (window\<lparr>q_DstAddr := DstAddr (filter_records ! 1)\<rparr>) = Some got \<and>
      length got = 2"
    and "\<exists>got. all_records fuel (query b) (window\<lparr>q_Protocol := Some 17\<rparr>) = Some got \<and>
      length got = 2 \<and> list_all (\<lambda>r. Protocol r = 17) got"
proof -
  note filtered = filter_passes [OF assms]
  let ?src = "window\<lparr>q_SrcAddr := SrcAddr (filter_records ! 2)\<rparr>" and ?dst = "window\<lparr>q_DstAddr := DstAddr (filter_records ! 1)\<rparr>"
    and ?udp = "window\<lparr>q_Protocol := Some 17\<rparr>"
  have "plain_addr (SrcAddr (filter_records ! 2))" "plain_addr (DstAddr (filter_records ! 1))"
    using filter_records_plain by (simp_all add: filter_records_eq plain_record_def)
  then have plain: "plain_query ?src" "plain_query ?dst" "plain_query ?udp"
    using plain_window(1) by (simp_all add: plain_query_def)
  have q: "q_Cursor ?src = []" "q_Cursor ?dst = []" "q_Cursor ?udp = []"
      "q_ExporterID ?src = 0" "q_ExporterID ?dst = 0" "q_ExporterID ?udp = 0"
    using plain_window(2,3) by simp_all
  have len: "length got = length rs" if "mset (map comparable got) = mset (map comparable rs)" for got rs
    using mset_eq_length [OF that] by simp
  obtain gotS where gotS: "all_records fuel (query b) ?src = Some gotS"
      "mset (map comparable gotS) = mset (map comparable [filter_records ! 2])"
    by (rule filtered [OF plain(1) q(1,4)]) (simp only: filters_selected(1))
  then show "\<exists>got. all_records fuel (query b) ?src = Some got \<and> map SrcPort got = [SrcPort (filter_records ! 2)]"
    by (metis single_comparable comparable_simps(3) list.simps(8,9))
  obtain gotD where "all_records fuel (query b) ?dst = Some gotD"
      "mset (map comparable gotD) = mset (map comparable (filter (selects ?dst) filter_records))"
    by (rule filtered [OF plain(2) q(2,5)])
  then show "\<exists>got. all_records fuel (query b) ?dst = Some got \<and> length got = 2"
    using len filters_selected(2) by metis
  obtain gotP where gotP: "all_records fuel (query b) ?udp = Some gotP"
      "mset (map comparable gotP) = mset (map comparable (filter (selects ?udp) filter_records))"
    by (rule filtered [OF plain(3) q(3,6)])
  have "Protocol r = 17" if "r \<in> set gotP" for r
  proof -
    have "comparable r \<in> comparable ` set (filter (selects ?udp) filter_records)"
      using that mset_eq_setD [OF gotP(2)] by auto
    then obtain w where "comparable r = comparable w" "selects ?udp w" by auto
    then show ?thesis by (metis comparable_simps(7) filters_selected(6))
  qed
  then show "\<exists>got. all_records fuel (query b) ?udp = Some got \<and> length got = 2 \<and> list_all (\<lambda>r. Protocol r = 17) got"
    using gotP(1) len [OF gotP(2)] filters_selected(3) by (simp add: list_all_iff)
qed

lemma applies_filters_passes:
  assumes "fresh b" and "spared b [filter_records]" and "7 < fuel"
  shows "applies_filters fuel write_batch query b"
proof -
  have "add_rows same_key [] (concat [filter_records]) = filter_records"
    using unkeyed_once [OF unkeyed_records(2)] by (simp del: add_rows_simps)
  then obtain b1 where b1: "write_all write_batch [filter_records] b = Some b1" "ok b1"
      "mset (map comparable (contents b1)) = mset (map comparable filter_records)"
    using plan_leaves [OF assms(1,2)] filter_records_plain by (metis append_Nil2 concat.simps)
  have "filter (selects window) filter_records = filter_records"
    using filter_records_near selects_near by (intro filter_all_id) blast
  then obtain everything where ev: "all_records fuel (query b1) window = Some everything"
      "mset (map comparable everything) = mset (map comparable filter_records)"
    "\<forall>r\<in>set everything. r \<in> set (contents b1)"
    using all_comparable [OF b1(2) plain_window(1,2) _ plain_window(3) b1(3)] mset_eq_length [OF b1(3)] assms(3)
    by (auto simp: length_filter_records)
  have "comparable (filter_records ! 6) \<in> comparable ` set everything"
    using mset_eq_setD [OF ev(2)] nth_mem [of 6 filter_records] by (auto simp: length_filter_records)
  then obtain r where "r \<in> set everything" "ExporterAddr r = exporterB"
    by (metis comparable_simps(4) filters_selected(5) image_iff)
  then obtain s where s: "s \<in> set everything" "ExporterAddr s = exporterB" "id_of_exporter exporterB everything = ExporterID s"
    using id_of_exporter_in by blast
  have sc: "s \<in> set (contents b1)" using ev(3) s(1) by (rule bspec)
  obtain gotB where gotB: "all_records fuel (query b1) (window\<lparr>q_ExporterID := ExporterID s\<rparr>) = Some gotB"
      "map ExporterAddr gotB = [exporterB]"
    using exporter_filter [OF b1(2,3) assms(3) sc s(2)] by (elim exE conjE)
  have n: "length everything = 7" using mset_eq_length [OF ev(2)] by (simp add: length_filter_records)
  obtain gotS gotD gotP where got:
      "all_records fuel (query b1) (window\<lparr>q_SrcAddr := SrcAddr (filter_records ! 2)\<rparr>) = Some gotS"
      "map SrcPort gotS = [SrcPort (filter_records ! 2)]"
      "all_records fuel (query b1) (window\<lparr>q_DstAddr := DstAddr (filter_records ! 1)\<rparr>) = Some gotD" "length gotD = 2"
      "all_records fuel (query b1) (window\<lparr>q_Protocol := Some 17\<rparr>) = Some gotP" "length gotP = 2"
      "list_all (\<lambda>r. Protocol r = 17) gotP"
    using field_filters [OF b1(2,3) assms(3)] by (elim exE conjE)
  show ?thesis
    unfolding applies_filters_def passes_def b1(1) ev(1) option.simps Let_def s(3) gotB(1) got
    using gotB(2) ids_positive [OF b1(2) sc] n got(7) by simp
qed

text \<open>Every backend with the contract passes the suite.\<close>

lemma suite_passes:
  assumes "\<And>i. i < 7 \<Longrightarrow> fresh (factory i) \<and> spared (factory i) (test_plans ! i)" and "25 < fuel"
  shows "Conformance fuel write_batch query factory"
  using assms(1) [of 0] assms(1) [of 1] assms(1) [of 2] assms(1) [of 3] assms(1) [of 4] assms(1) [of 5] assms(1) [of 6]
    assms(2)
  by (simp add: Conformance_def test_plans_def round_trips_passes keyed_twice_passes mixed_redelivery_passes
      unkeyed_twice_passes three_pages_passes half_open_passes applies_filters_passes)

end

end
