(* ===== verification/Conform_Postgres.thy ===== *)
theory Conform_Postgres
  imports Postgres_Pages Contract_Rows Conformance_Props
begin

text \<open>
  PostgreSQL keeps the contract of \<open>Contract\<close>: what a batch adds to the stored records, what a
  query then returns, and that a batch is accepted when nothing goes wrong. So the conformance
  suite passes on it, with any driver that is faithful.
\<close>

section \<open>Rows and records\<close>

definition pg_fits :: "FlowRecord \<Rightarrow> bool" where
  "pg_fits r \<longleftrightarrow> storable r \<and> nano_fits (micro (ReceivedAt r))"

lemma row_of_fields [simp]:
  "exporter_id (row_of r i) = i" "received_at (row_of r i) = micro (ReceivedAt r)" "dedup_key (row_of r i) = DedupKey r"
  "src_addr (row_of r i) = SrcAddr r" "dst_addr (row_of r i) = DstAddr r" "protocol (row_of r i) = ucast (Protocol r)"
  by (simp_all add: row_of_def row_at_def add_columns_def newColumns_def)

lemma as_stored_micro: "as_stored i r = (at_micro r)\<lparr>ExporterID := i\<rparr>"
  by (simp add: as_stored_def at_micro_def)

interpretation pg_rows: record_rows "\<lambda>r. faithful d \<and> pg_fits r" row_of "scanRecord d" exporter_id collides
  "enc_inet d" tells_apart for d
proof (unfold_locales, goal_cases)
  case (1 r)
  then show ?case by (simp add: pg_fits_def storable_addr)
next
  case (2 r s)
  then have "tells_apart (ExporterAddr r)" "tells_apart (ExporterAddr s)" by (simp_all add: pg_fits_def storable_addr)
  then show ?case using 2 faithfulD(3) [of d] by (simp add: tells_apart_def)
next
  case (4 r k i)
  then have r: "faithful d" "storable r" "tells_apart (ExporterAddr r)" by (simp_all add: pg_fits_def storable_addr)
  then have "k = ExporterAddr r" using 4(2) faithfulD(3) [OF r(1)] by (simp add: tells_apart_def)
  then show ?case
    using scan_encode_row [OF r(1,2), of i] by (simp add: encode_row_of [OF r(1,2)] as_stored_micro)
qed (simp_all add: collides_def same_key_def at_micro_def)

definition pg_contract :: "driver \<Rightarrow> pg_backend \<Rightarrow> bool" where
  "pg_contract d b \<longleftrightarrow> faithful d \<and> backend_ok d b \<and> (\<forall>v\<in>set (stored b). pg_rows.origin d (exporters (db_of b)) v)"

definition pg_contents :: "driver \<Rightarrow> pg_backend \<Rightarrow> FlowRecord list" where
  "pg_contents d b = map (scanned d) (joined exporter_id (exporters (db_of b)) (flows (db_of b)))"

lemma pg_contents_read:
  assumes "backend_ok d b"
  shows "pg_contents d b = map (pg_rows.read_row d (exporters (db_of b))) (stored b)"
proof -
  have "pg_contents d b = pg_rows.contents_of d (exporters (db_of b)) (flows (db_of b))"
    by (simp add: pg_contents_def pg_rows.contents_of_def scanned_def)
  then show ?thesis
    using assms pg_rows.contents_read unfolding stored_def backend_ok_def pg_ok_def by metis
qed

section \<open>Writing\<close>

lemma pg_write_records:
  assumes "WriteBatch d fs rs b = (None, b')" and "pg_contract d b" and "list_all pg_fits rs"
  shows "pg_contract d b'"
    and "map comparable (pg_contents d b') =
      add_rows same_key (map comparable (pg_contents d b)) (map (comparable \<circ> at_micro) rs)"
proof -
  let ?T = "exporters (db_of b)" and ?T' = "exporters (db_of b')"
  have f: "faithful d" and ok: "backend_ok d b" and org: "\<forall>v\<in>set (stored b). pg_rows.origin d ?T v"
    using assms(2) unfolding pg_contract_def by blast+
  have st: "list_all storable rs" using assms(3) by (simp add: list_all_iff pg_fits_def)
  note w = write_refines [OF assms(1) f ok st]
  then have ok': "backend_ok d b'" and rows: "stored b' = add_rows collides (stored b) (map (row_in d b') rs)" by simp_all
  have tabs: "tab_ok tells_apart ?T" "tab_ok tells_apart ?T'" using ok ok' by (simp_all add: backend_ok_def pg_ok_def)
  have "(\<forall>a i. tells_apart a \<longrightarrow> pg_id d b a = Some i \<longrightarrow> pg_id d b' a = Some i) \<and>
      (\<forall>r\<in>set rs. pg_id d b' (ExporterAddr r) \<noteq> None)"
  proof (cases "rs = []")
    case False
    obtain ids b1 where r: "resolveExporters d (f_exporters fs) rs b = (Inr ids, b1)" and e: "?T' = exporters (db_of b1)"
      using write_exporters [OF assms(1) False] .
    show ?thesis using resolve_batch(3,4) [OF r f ok st] by (simp add: e)
  qed (use assms(1) in \<open>simp add: WriteBatch_def\<close>)
  note ids = this
  have kept: "pg_id d b' a = Some i" if "tells_apart a" "pg_id d b a = Some i" for a i
    using ids that by blast
  have new: "(faithful d \<and> pg_fits r) \<and> pg_id d b' (ExporterAddr r) = Some (the (pg_id d b' (ExporterAddr r)))"
    if "r \<in> set rs" for r
    using ids that f assms(3) by (simp add: list_all_iff)
  note wr = pg_rows.write_records [OF tabs org kept new]
  have rows': "stored b' = add_rows collides (stored b) (map (\<lambda>r. row_of r (the (pg_id d b' (ExporterAddr r)))) rs)"
    unfolding rows by (simp add: row_in_def [abs_def])
  have "\<forall>v\<in>set (stored b'). pg_rows.origin d ?T' v" unfolding rows' by (rule wr(2))
  then show "pg_contract d b'" unfolding pg_contract_def by (intro conjI f ok')
  show "map comparable (pg_contents d b') =
      add_rows same_key (map comparable (pg_contents d b)) (map (comparable \<circ> at_micro) rs)"
    unfolding pg_contents_read [OF ok] pg_contents_read [OF ok'] map_map rows' by (rule wr(1))
qed

section \<open>A batch that meets no fault is accepted\<close>

lemma insert_loop_runs:
  assumes "list_all (\<lambda>v. \<exists>w. encode_row d v = Some w \<and> Valid (flow_type w) \<and> exporter_id w \<in> set ids) vs"
    and "n + int (length vs) \<le> max_int64 + 1"
  shows "\<exists>res n'. insert_loop d ids nothing vs fs n = (res, n') \<and> n' \<le> n + int (length vs) \<and>
    (is_ok res \<or> \<not> nothing \<and> res = Inl UniqueViolation)"
  using assms
proof (induction vs arbitrary: fs n)
  case (Cons v vs)
  obtain w where w: "encode_row d v = Some w" "Valid (flow_type w)" "exporter_id w \<in> set ids" using Cons.prems(1) by auto
  have n: "\<not> n > max_int64" and rest: "n + 1 + int (length vs) \<le> max_int64 + 1" using Cons.prems(2) by simp_all
  show ?case
  proof (cases "list_ex (\<lambda>f. collides w (f_row f)) fs")
    case True
    then show ?thesis using Cons.IH [OF _ rest, of fs] Cons.prems(1) w n by (cases nothing) auto
  next
    case False
    then show ?thesis using Cons.IH [OF _ rest, of "fs @ [\<lparr>f_seq = n, f_row = w\<rparr>]"] Cons.prems(1) w n by auto
  qed
qed simp

definition pg_room :: "pg_backend \<Rightarrow> nat \<Rightarrow> bool" where
  "pg_room b n \<longleftrightarrow> next_seq (db_of b) + 2 * int n \<le> max_int64 + 1 \<and> x_next (exporters (db_of b)) + int n \<le> max_int64 + 1"

lemma insert_flows_runs:
  assumes "faithful d" and "list_all storable rs" and "next_seq db + int (length rs) \<le> max_int64 + 1"
    and "\<And>r. r \<in> set rs \<Longrightarrow> ids r \<in> set (tab_ids (exporters db))"
  shows "\<exists>res db'. insert_flows d nothing (copySource (columns_of ids rs)) db = (res, db') \<and>
    next_seq db' \<le> next_seq db + int (length rs) \<and> exporters db' = exporters db \<and>
    (is_ok res \<or> \<not> nothing \<and> res = Inl UniqueViolation)"
proof -
  let ?vs = "copySource (columns_of ids rs)"
  have vs: "?vs = map (\<lambda>r. row_of r (ids r)) rs" using columns_of_rows [of rs ids] by simp
  have "Valid (flow_type (row_of r (ids r)))" if "storable r" for r
    using that by (simp add: storable_def row_of_def row_at_def add_columns_def newColumns_def)
  then have "list_all (\<lambda>v. \<exists>w. encode_row d v = Some w \<and> Valid (flow_type w) \<and> exporter_id w \<in> set (tab_ids (exporters db))) ?vs"
    using assms(2,4) encode_row_of [OF assms(1)] by (auto simp: vs list_all_iff)
  from insert_loop_runs [OF this, of "next_seq db" nothing "flows db"]
  obtain res n' where "insert_loop d (tab_ids (exporters db)) nothing ?vs (flows db) (next_seq db) = (res, n')"
      "n' \<le> next_seq db + int (length rs)" "is_ok res \<or> \<not> nothing \<and> res = Inl UniqueViolation"
    using assms(3) by (auto simp: vs)
  then show ?thesis by (cases res) (auto simp: insert_flows_def)
qed

lemma quiet_write:
  assumes "faithful d" and "backend_ok d b" and "list_all storable rs" and "pg_room b (length rs + n)"
  shows "\<exists>b'. WriteBatch d (no_faults order) rs b = (None, b') \<and> pg_room b' n"
proof (cases "rs = []")
  case False
  have keys: "enc_inet d a \<noteq> None" if "(a, t) \<in> set (seen_in order rs)" for a t
    using seen_ofD(4) [of a t rs] that assms(1,3) faithfulD(3) [OF assms(1)] by (auto simp: list_all_iff storable_def)
  have "x_next (exporters (db_of b)) + int (length (seen_in order rs)) \<le> max_int64 + 1"
    using assms(4) length_seen_in [of order rs] by (simp add: pg_room_def)
  then obtain ids c T where run: "resolve_loop cached remember (\<lambda>i t. touch_exporter i (enc_time d t))
      (\<lambda>a t. upsert_exporter (enc_inet d a) (enc_time d t)) (seen_in order rs) [] (cache b) (exporters (db_of b)) = (Inr ids, c, T)"
      "x_next T \<le> x_next (exporters (db_of b)) + int (length rs)"
    using resolve_room [where key = "enc_inet d" and ts = "enc_time d" and seen = "seen_in order rs", OF keys] length_seen_in [of order rs]
    by fastforce
  let ?b1 = "\<lparr>cache = c, db_of = (db_of b)\<lparr>exporters := T\<rparr>\<rparr>"
  have r: "resolveExporters d (order, []) rs b = (Inr ids, ?b1)" using run(1) by (simp add: resolveExporters_def)
  have known: "id_in ids r \<in> set (tab_ids T)" if "r \<in> set rs" for r
    using resolve_batch(3) [OF r assms(1-3) refl that] id_at_known by fastforce
  note ins = insert_flows_runs [OF assms(1,3), where ids = "id_in ids"]
  obtain c1 db1 where copy: "insert_flows d False (copySource (columns_of (id_in ids) rs)) (db_of ?b1) = (c1, db1)"
      "next_seq db1 \<le> next_seq (db_of b) + int (length rs)" "exporters db1 = T" "is_ok c1 \<or> c1 = Inl UniqueViolation"
    using ins [of "db_of ?b1" False] assms(4) known by (auto simp: pg_room_def)
  obtain c2 db2 where insr: "insert_flows d True (copySource (columns_of (id_in ids) rs)) db1 = (c2, db2)"
      "next_seq db2 \<le> next_seq db1 + int (length rs)" "exporters db2 = T" "is_ok c2"
    using ins [of db1 True] assms(4) known copy(2,3) by (auto simp: pg_room_def)
  have fits: "pg_room (?b1\<lparr>db_of := db\<rparr>) n" if "exporters db = T" "next_seq db \<le> next_seq (db_of b) + 2 * int (length rs)" for db
    using that assms(4) run(2) by (simp add: pg_room_def)
  show ?thesis
    using copy insr fits [of db1] fits [of db2] False r
    by (auto simp: WriteBatch_def no_faults_def exec_def CopyFrom_def insertSQL_def args_columns_of isUniqueViolation_def
        Let_def is_ok_iff)
qed (use assms(4) in \<open>simp add: WriteBatch_def pg_room_def\<close>)

section \<open>What a query selects\<close>

lemma plain_pg_time: "plain_time t \<Longrightarrow> pg_time t" "plain_time t \<Longrightarrow> nano_fits t"
  by (simp_all add: plain_time_def pg_time_def nano_fits_def time_units)

lemma plain_pg_fits: "plain_record r \<Longrightarrow> pg_fits r"
proof -
  assume r: "plain_record r"
  have a: "is_valid a \<and> zone_free a" if "plain_addr a" for a using that by (cases a) auto
  have t: "on_micro t" if "plain_time t" for t using that by (simp add: plain_time_def)
  show ?thesis
    using r a t plain_pg_time by (auto simp: pg_fits_def storable_def plain_record_def)
qed

lemma proto_eq: "sint (ucast (p :: u8) :: i16) = sint (ucast (p' :: u8) :: i16) \<longleftrightarrow> p = p'"
  by (metis signed_word_eqI ucast_back(2))

lemma pg_selects:
  assumes "pg_contract d b" and "plain_query q"
    and "p \<in> set (joined exporter_id (exporters (db_of b)) (flows (db_of b)))"
  shows "list_all (holds_on (view_of p)) (where_of d q) \<longleftrightarrow> selects q (scanned d p)"
proof -
  let ?T = "exporters (db_of b)"
  have f: "faithful d" and tab: "tab_ok tells_apart ?T"
    using assms(1) unfolding pg_contract_def backend_ok_def pg_ok_def by blast+
  have "fst p \<in> set (flows (db_of b))" "x_ip (snd p) = ip_at ?T (exporter_id (f_row (fst p)))"
    using joinedD [OF assms(3)] ip_at_row [OF tab, of "snd p"] by simp_all
  moreover from this(1) have "pg_rows.origin d ?T (f_row (fst p))"
    using assms(1) unfolding pg_contract_def stored_def by auto
  ultimately obtain r i where r: "f_row (fst p) = row_of r i" "scanned d p = (at_micro r)\<lparr>ExporterID := i\<rparr>"
    using pg_rows.read_origin [OF tab] unfolding scanned_def pg_rows.read_row_def by metis
  have a: "addr_cond c d x = (if is_valid x then [c x] else [])" if "x = AddrZero \<or> plain_addr x" for c x
    using that faithfulD(3) [OF f, of x] by (cases x) (auto simp: addr_cond_def)
  have t: "enc_time d t = t" if "plain_time t" for t using faithfulD(1) [OF f] plain_pg_time(1) that by blast
  obtain fl e where p: "p = (fl, e)" by fastforce
  show ?thesis
    using assms(2) r unfolding plain_query_def selects_def where_of_def
    by (cases "q_Protocol q") (auto simp: p view_of_def at_micro_def a t proto_eq)
qed

lemma pg_contract_pages: "pg_contract d b \<Longrightarrow> pages_ok d (db_of b)"
proof -
  assume b: "pg_contract d b"
  have "on_micro (received_at v) \<and> nano_fits (received_at v)" if "v \<in> set (stored b)" for v
  proof -
    have "pg_rows.origin d (exporters (db_of b)) v" using b that unfolding pg_contract_def by blast
    then obtain r where "pg_fits r" "v = row_of r (exporter_id v)" unfolding pg_rows.origin_def by blast
    then show ?thesis by (metis on_micro_micro pg_fits_def row_of_fields(2))
  qed
  then show ?thesis using b unfolding pg_contract_def backend_ok_def pages_ok_def stored_def by simp
qed

section \<open>The contract\<close>

definition pg_spared :: "pg_backend \<Rightarrow> FlowRecord list list \<Rightarrow> bool" where
  "pg_spared b plan \<longleftrightarrow> list_all (list_all pg_fits) plan \<and> pg_room b (length (concat plan))"

interpretation pg_store: storage_contract "pg_contract d"
  "\<lambda>b q. matching view_of (where_of d q) (joined exporter_id (exporters (db_of b)) (flows (db_of b)))"
  "scanned d" "token_of d" "\<lambda>b. Query d True (db_of b)" "\<lambda>q. clamp_limit (q_Limit q)"
  "WriteBatch d (no_faults order)" "pg_contents d" pg_spared for d order
proof (unfold_locales, goal_cases)
  case 4
  then show ?case using pg_pages.first_page pg_contract_pages by blast
next
  case 5
  then show ?case using pg_pages.next_page pg_contract_pages by blast
next
  case (7 b q p)
  then show ?case
    by (auto simp: Query_def Let_def token_of_def page_of_token split: if_splits sum.splits)
next
  case (8 b q)
  then show ?case unfolding pg_contents_def by (intro mset_matching pg_selects)
next
  case (9 b q)
  then show ?case by (intro matching_newest) (simp add: view_of_def split: prod.split)
next
  case (10 b rs plan)
  then have ok: "faithful d" "backend_ok d b" and fits: "list_all pg_fits rs" "list_all (list_all pg_fits) plan"
      and room: "pg_room b (length rs + length (concat plan))"
    unfolding pg_contract_def pg_spared_def by simp_all
  have "list_all storable rs" using fits(1) by (simp add: list_all_iff pg_fits_def)
  from quiet_write [OF ok this room] obtain b' where
    b': "WriteBatch d (no_faults order) rs b = (None, b')" "pg_room b' (length (concat plan))" by blast
  show ?case
    using b' fits(2) pg_write_records [OF b'(1) 10(1) fits(1)]
    by (intro exI [of _ b']) (simp add: pg_spared_def del: mset_map)
next
  case (11 b r)
  then show ?case
    unfolding pg_contract_def using pg_contents_read pg_rows.read_ids(1) unfolding backend_ok_def pg_ok_def by auto
next
  case (12 b r s)
  then show ?case
    unfolding pg_contract_def using pg_contents_read pg_rows.read_ids(2) unfolding backend_ok_def pg_ok_def by auto
qed (use pg_pages.size_pos pg_pages.rows_cursor in simp_all)

text \<open>
  C5. What a query returns after a write. When \<open>WriteBatch\<close> has returned no error, whichever
  path the batch took, a client that follows the page tokens gets exactly the records it asked
  for, newest first: those stored before and those of the batch, in the batch's order of
  precedence, that are not a redelivery of a stored one; every field as it was written, times
  at microseconds.
\<close>

theorem pg_read_your_writes:
  assumes "WriteBatch d fs rs b = (None, b')" and "pg_contract d b" and "list_all pg_fits rs"
    and "plain_query q" and "q_Cursor q = []" and "q_ExporterID q = 0"
  shows "\<exists>got. follow (Suc (length (pg_contents d b'))) (Query d True (db_of b')) q = Some (Inr got) \<and>
    mset (map comparable got) = mset (filter (selects q)
      (add_rows same_key (map comparable (pg_contents d b)) (map (comparable \<circ> at_micro) rs))) \<and>
    sorted_wrt (\<lambda>r s. ReceivedAt s \<le> ReceivedAt r) got"
proof -
  note w = pg_write_records [OF assms(1-3)]
  have sel: "selects q (comparable r) = selects q r" for r by (rule selects_comparable [OF assms(6)])
  from pg_store.follow_selected [OF w(1) assms(4,5)] show ?thesis
    unfolding w(2) [symmetric] by (auto simp: filter_map comp_def sel)
qed

lemma empty_pg_contract: "faithful d \<Longrightarrow> pg_contract d empty_backend"
  using empty_backend_ok [of d] by (simp add: pg_contract_def stored_def empty_backend_def)

lemma empty_pg_contents: "pg_contents d empty_backend = []"
  by (simp add: pg_contents_def empty_backend_def joined_def)

theorem pg_read_your_writes_witness:
  "\<exists>got. follow (Suc (length (pg_contents pg_driver (snd (WriteBatch pg_driver (no_faults []) [demo_flow] empty_backend)))))
       (Query pg_driver True (db_of (snd (WriteBatch pg_driver (no_faults []) [demo_flow] empty_backend))))
       (demo_query\<lparr>q_End := 1900000000 * Second\<rparr>) = Some (Inr got) \<and>
     map comparable got = [comparable (at_micro demo_flow)]"
proof -
  let ?w = "WriteBatch pg_driver (no_faults []) [demo_flow] empty_backend" and ?q = "demo_query\<lparr>q_End := 1900000000 * Second\<rparr>"
  have w: "?w = (None, snd ?w)" using demo_write_none by (simp add: prod_eq_iff)
  have fits: "list_all pg_fits [demo_flow]"
    using demo_flow_storable by (simp add: pg_fits_def demo_flow_def nano_fits_def micro_eq time_units)
  have q: "plain_query ?q" "q_Cursor ?q = []" "q_ExporterID ?q = 0"
    by (simp_all add: demo_query_def plain_query_def plain_time_def on_micro_def time_units)
  have "selects ?q (comparable (at_micro demo_flow))"
    by (simp add: selects_def demo_query_def at_micro_def demo_flow_def micro_eq time_units)
  then have sel: "filter (selects ?q) (add_rows same_key (map comparable (pg_contents pg_driver empty_backend))
      (map (comparable \<circ> at_micro) [demo_flow])) = [comparable (at_micro demo_flow)]"
    by (simp add: empty_pg_contents add_row_def)
  from pg_read_your_writes [OF w empty_pg_contract [OF faithful_pg_driver] fits q, unfolded sel]
  show ?thesis by (metis mset_single_iff)
qed

text \<open>
  The conformance suite passes on PostgreSQL, for every driver that keeps the instants and
  addresses of its columns: each of the seven tests, started on empty tables, with no fault on
  the way.
\<close>

theorem pg_conforms:
  assumes "faithful d" and "25 < fuel"
  shows "Conformance fuel (WriteBatch d (no_faults order)) (\<lambda>b. Query d True (db_of b)) (\<lambda>_. empty_backend)"
proof (rule pg_store.suite_passes [OF _ assms(2)])
  fix i :: nat assume "i < 7"
  note plan = plans_bounded [OF this]
  have "list_all (list_all pg_fits) (test_plans ! i)" using plan(1) plain_pg_fits by (auto simp: list_all_iff)
  then have "pg_spared empty_backend (test_plans ! i)"
    using plan(2) by (simp add: pg_spared_def pg_room_def empty_backend_def empty_tab_def max_int64_def)
  then show "pg_store.fresh d empty_backend \<and> pg_spared empty_backend (test_plans ! i)"
    using empty_pg_contract [OF assms(1)] empty_pg_contents by (simp add: pg_store.fresh_def)
qed

theorem pg_conforms_witness:
  "Conformance 26 (WriteBatch pg_driver (no_faults [1])) (\<lambda>b. Query pg_driver True (db_of b)) (\<lambda>_. empty_backend)"
  by (rule pg_conforms [OF faithful_pg_driver]) simp

end
