(* ===== verification/Conform_Mariadb.thy ===== *)
theory Conform_Mariadb
  imports Mariadb_Pages Contract_Rows Conformance_Props
begin

text \<open>
  MariaDB keeps the contract of \<open>Contract\<close>, with any driver that keeps the instants of a
  \<open>DATETIME(6)\<close> column, and passes the conformance suite.
\<close>

section \<open>Rows and records\<close>

definition mdb_fits :: "FlowRecord \<Rightarrow> bool" where
  "mdb_fits r \<longleftrightarrow> fits_columns r \<and> nano_fits (micro (ReceivedAt r))"

lemma mdb_row_fields [simp]:
  "m_proto (row_of ts ids r) = Protocol r" "m_src (row_of ts ids r) = take 16 (not_null (addrBytes (SrcAddr r)))"
  "m_dst (row_of ts ids r) = take 16 (not_null (addrBytes (DstAddr r)))"
  by (simp_all add: row_of_def row_of_args_def row_args_def)

lemma mdb_stored_micro: "as_stored i r = (at_micro r)\<lparr>ExporterID := i\<rparr>"
  by (simp add: as_stored_def at_micro_def)

lemma mdb_received: "keeps_datetime ts \<Longrightarrow> mdb_fits r \<Longrightarrow> ts (micro (ReceivedAt r)) = micro (ReceivedAt r)"
  by (simp add: keeps_datetime_def mdb_fits_def fits_columns_def)

lemma mdb_dedup_key: "mdb_fits r \<Longrightarrow> map_option (take 16) (DedupKey r) = DedupKey r"
  by (cases "DedupKey r") (simp_all add: mdb_fits_def fits_columns_def)

interpretation mdb_rows: record_rows "\<lambda>r. keeps_datetime ts \<and> mdb_fits r" "\<lambda>r i. row_of ts (\<lambda>_. i) r" scanRecord
  m_exporter m_collides addrBytes ip_bytes for ts
proof (unfold_locales, goal_cases)
  case (1 r)
  then show ?case by (simp add: mdb_fits_def fits_columns_def)
next
  case (2 r s)
  then have "tells_apart (ExporterAddr r)" "tells_apart (ExporterAddr s)" by (simp_all add: mdb_fits_def fits_columns_def)
  then show ?case using 2 lawful_inj [OF lawful_bytes] by blast
next
  case (4 r k i)
  then have "k = as_slice (ExporterAddr r)" by (simp add: addrBytes_def split: if_splits)
  then show ?case using 4(1) mdb_row_roundtrip [of ts r i] by (simp add: mdb_fits_def mdb_stored_micro)
next
  case (5 r s i j)
  then show ?case
    using mdb_received [of ts r] mdb_received [of ts s] mdb_dedup_key [of r] mdb_dedup_key [of s]
    by (simp add: m_collides_def m_key_row same_key_def at_micro_def)
qed simp_all

definition mdb_contract :: "(time \<Rightarrow> time) \<Rightarrow> mdb_backend \<Rightarrow> bool" where
  "mdb_contract ts b \<longleftrightarrow> keeps_datetime ts \<and> backend_ok b \<and>
     (\<forall>v\<in>set (stored b). mdb_rows.origin ts (m_exporters (m_db b)) v)"

definition mdb_contents :: "mdb_backend \<Rightarrow> FlowRecord list" where
  "mdb_contents b = map scanned (joined m_exporter (m_exporters (m_db b)) (m_flows (m_db b)))"

lemma backend_tab: "backend_ok b \<Longrightarrow> tab_ok ip_bytes (m_exporters (m_db b))"
  by (simp add: backend_ok_def mdb_ok_def ip_bytes_def [abs_def])

lemma mdb_contents_read:
  assumes "backend_ok b"
  shows "mdb_contents b = map (mdb_rows.read_row (m_exporters (m_db b))) (stored b)"
proof -
  have "mdb_contents b = mdb_rows.contents_of (m_exporters (m_db b)) (m_flows (m_db b))"
    by (simp add: mdb_contents_def mdb_rows.contents_of_def scanned_def)
  then show ?thesis
    using assms mdb_rows.contents_read [OF backend_tab [OF assms]] unfolding stored_def backend_ok_def mdb_ok_def by metis
qed

section \<open>Writing\<close>

lemma mdb_write_exporters:
  assumes "WriteBatch ts fs rs b = (None, b')" and "rs \<noteq> []" and "keeps_datetime ts" and "backend_ok b"
    and "list_all fits_columns rs"
  obtains ids b1 where "resolveExporters ts (mf_exporters fs) rs b = (Inr ids, b1)"
    and "m_exporters (m_db b') = m_exporters (m_db b1)"
proof -
  obtain res b1 where r: "resolveExporters ts (mf_exporters fs) rs b = (res, b1)" by fastforce
  obtain ids where ids: "res = Inr ids" using assms(1,2) r by (cases res) (auto simp: WriteBatch_def)
  note rb = mariadb_resolve_batch [OF r assms(3-5)]
  have ok1: "mdb_ok (m_db b1)" using rb(1) by (simp add: backend_ok_def)
  have k: "known_exporters ids (m_db b1) rs"
    using rb(3) [OF ids] id_at_known by (fastforce simp: known_exporters_def)
  obtain ok tx where c: "insert_chunks ts ids (mf_inserts fs) rs (m_db b1) = (ok, tx)" by fastforce
  have "m_exporters (m_db b') = m_exporters (m_db b1)"
    using assms(1,2) r ids c insert_chunks_ok [OF c ok1 k]
    by (auto simp: WriteBatch_def split: if_splits bool.splits fault.splits)
  then show ?thesis using that r ids by blast
qed

lemma mdb_write_records:
  assumes "WriteBatch ts fs rs b = (None, b')" and "mdb_contract ts b" and "list_all mdb_fits rs"
  shows "mdb_contract ts b'"
    and "map comparable (mdb_contents b') =
      add_rows same_key (map comparable (mdb_contents b)) (map (comparable \<circ> at_micro) rs)"
proof -
  let ?T = "m_exporters (m_db b)" and ?T' = "m_exporters (m_db b')"
  have f: "keeps_datetime ts" and ok: "backend_ok b" and org: "\<forall>v\<in>set (stored b). mdb_rows.origin ts ?T v"
    using assms(2) unfolding mdb_contract_def by blast+
  have st: "list_all fits_columns rs" using assms(3) by (simp add: list_all_iff mdb_fits_def)
  have ok': "backend_ok b'" and rows: "stored b' = add_rows m_collides (stored b) (map (row_in ts b') rs)"
    using mariadb_write_refines [OF assms(1) f ok st] by simp_all
  have ids: "(\<forall>a i. tells_apart a \<longrightarrow> id_at addrBytes ?T a = Some i \<longrightarrow> id_at addrBytes ?T' a = Some i) \<and>
      (\<forall>r\<in>set rs. id_at addrBytes ?T' (ExporterAddr r) \<noteq> None)"
  proof (cases "rs = []")
    case False
    obtain ids b1 where r: "resolveExporters ts (mf_exporters fs) rs b = (Inr ids, b1)" and e: "?T' = m_exporters (m_db b1)"
      using mdb_write_exporters [OF assms(1) False f ok st] .
    show ?thesis using mariadb_resolve_batch(3,4) [OF r f ok st] by (simp add: e)
  qed (use assms(1) in \<open>simp add: WriteBatch_def\<close>)
  have kept: "id_at addrBytes ?T' a = Some i" if "tells_apart a" "id_at addrBytes ?T a = Some i" for a i
    using ids that by blast
  have new: "(keeps_datetime ts \<and> mdb_fits r) \<and>
      id_at addrBytes ?T' (ExporterAddr r) = Some (the (id_at addrBytes ?T' (ExporterAddr r)))" if "r \<in> set rs" for r
    using ids that f assms(3) by (simp add: list_all_iff)
  note wr = mdb_rows.write_records [OF backend_tab [OF ok] backend_tab [OF ok'] org kept new]
  have "row_in ts b' = (\<lambda>r. row_of ts (\<lambda>_. the (id_at addrBytes ?T' (ExporterAddr r))) r)"
    by (rule ext) (simp add: row_in_def row_of_def)
  then have rows': "stored b' = add_rows m_collides (stored b)
      (map (\<lambda>r. row_of ts (\<lambda>_. the (id_at addrBytes ?T' (ExporterAddr r))) r) rs)"
    using rows by (simp only:)
  have "\<forall>v\<in>set (stored b'). mdb_rows.origin ts ?T' v" unfolding rows' by (rule wr(2))
  then show "mdb_contract ts b'" unfolding mdb_contract_def by (intro conjI f ok')
  show "map comparable (mdb_contents b') =
      add_rows same_key (map comparable (mdb_contents b)) (map (comparable \<circ> at_micro) rs)"
    unfolding mdb_contents_read [OF ok] mdb_contents_read [OF ok'] map_map rows' by (rule wr(1))
qed

section \<open>A batch that meets no fault is accepted\<close>

lemma insert_ignore_runs:
  "n + int (length ws) \<le> max_int64 + 1 \<Longrightarrow>
   \<exists>fs' n'. insert_ignore ids ws fs n = (Some fs', n') \<and> n' \<le> n + int (length ws)"
proof (induction ws arbitrary: fs n)
  case (Cons w ws)
  have "n + 1 + int (length ws) \<le> max_int64 + 1" "\<not> n > max_int64" using Cons.prems by simp_all
  then show ?case
    using Cons.IH [of "n + 1" fs] Cons.IH [of "n + 1" "fs @ [\<lparr>f_seq = n, f_row = w\<rparr>]"] by auto
qed simp

lemma insert_chunks_runs:
  "m_next db + int (length rs) \<le> max_int64 + 1 \<Longrightarrow>
   \<exists>tx. insert_chunks ts ids [] rs db = (True, tx) \<and> m_next tx \<le> m_next db + int (length rs)"
proof (induction rs arbitrary: db rule: measure_induct_rule [of length])
  case (less rs)
  show ?case
  proof (cases "rs = []")
    case False
    let ?now = "take insertRows rs" and ?later = "drop insertRows rs"
    have len: "int (length rs) = int (length ?now) + int (length ?later)"
      unfolding of_nat_add [symmetric] length_append [symmetric] append_take_drop_id ..
    then have "m_next db + int (length (map (row_of ts (id_in ids)) ?now)) \<le> max_int64 + 1"
      using less.prems unfolding length_map by linarith
    from insert_ignore_runs [OF this, of "tab_ids (m_exporters db)" "m_flows db"]
    obtain fs n where i: "insert_ignore (tab_ids (m_exporters db)) (map (row_of ts (id_in ids)) ?now) (m_flows db) (m_next db)
        = (Some fs, n)" "n \<le> m_next db + int (length ?now)"
      unfolding length_map by blast
    let ?db = "db\<lparr>m_flows := fs, m_next := n\<rparr>"
    have nx: "m_next ?db = n" by simp
    have e: "exec_insert ts (insertStatement ?now ids) db = (True, ?db)"
      by (simp add: exec_insert_def rows_of_statement i(1))
    have "length ?later < length rs" using False by (simp add: insertRows_def)
    moreover have "m_next ?db + int (length ?later) \<le> max_int64 + 1"
      using less.prems i(2) len unfolding nx by linarith
    ultimately obtain tx where tx: "insert_chunks ts ids [] ?later ?db = (True, tx)" "m_next tx \<le> m_next ?db + int (length ?later)"
      using less.IH [of ?later ?db] by blast
    have "m_next tx \<le> m_next db + int (length rs)" using tx(2) i(2) len unfolding nx by linarith
    then show ?thesis using False e tx(1) by (simp add: insert_chunks.simps [of ts ids "[]" rs])
  qed (simp add: insert_chunks.simps)
qed

definition mdb_room :: "mdb_backend \<Rightarrow> nat \<Rightarrow> bool" where
  "mdb_room b n \<longleftrightarrow> m_next (m_db b) + int n \<le> max_int64 + 1 \<and> x_next (m_exporters (m_db b)) + int n \<le> max_int64 + 1"

lemma mdb_quiet_write:
  assumes "keeps_datetime ts" and "backend_ok b" and "list_all fits_columns rs" and "mdb_room b (length rs + n)"
  shows "\<exists>b'. WriteBatch ts (quiet order) rs b = (None, b') \<and> mdb_room b' n"
proof (cases "rs = []")
  case False
  have keys: "addrBytes a \<noteq> None" if "(a, t) \<in> set (seen_in order rs)" for a t
    using seen_ofD(4) [of a t rs] that assms(3) by (auto simp: list_all_iff fits_columns_def tells_apart_def addrBytes_def)
  have "x_next (m_exporters (m_db b)) + int (length (seen_in order rs)) \<le> max_int64 + 1"
    using assms(4) length_seen_in [of order rs] by (simp add: mdb_room_def)
  then obtain ids c T where run: "resolve_loop cached remember (\<lambda>i t. touch_exporter i (ts t))
      (\<lambda>a t. upsert_exporter (addrBytes a) (ts t)) (seen_in order rs) [] (m_cache b) (m_exporters (m_db b)) = (Inr ids, c, T)"
      "x_next T \<le> x_next (m_exporters (m_db b)) + int (length rs)"
    using resolve_room [where key = addrBytes and ts = ts and seen = "seen_in order rs", OF keys] length_seen_in [of order rs]
    by fastforce
  let ?b1 = "\<lparr>m_cache = c, m_db = (m_db b)\<lparr>m_exporters := T\<rparr>\<rparr>"
  have r: "resolveExporters ts (order, []) rs b = (Inr ids, ?b1)" using run(1) by (simp add: resolveExporters_def)
  note rb = mariadb_resolve_batch [OF r assms(1-3)]
  have k: "known_exporters ids (m_db ?b1) rs"
    using rb(3) [OF refl] id_at_known by (fastforce simp: known_exporters_def)
  have ok1: "mdb_ok (m_db ?b1)" using rb(1) by (simp add: backend_ok_def)
  obtain tx where tx: "insert_chunks ts ids [] rs (m_db ?b1) = (True, tx)" "m_next tx \<le> m_next (m_db b) + int (length rs)"
    using insert_chunks_runs [of "m_db ?b1" rs ts ids] assms(4) by (auto simp: mdb_room_def)
  have "m_exporters tx = T" using insert_chunks_ok [OF tx(1) ok1 k] by simp
  then show ?thesis
    using False r tx run(2) assms(4) by (simp add: WriteBatch_def quiet_def mdb_room_def)
qed (use assms(4) in \<open>simp add: WriteBatch_def mdb_room_def\<close>)

section \<open>What a query selects\<close>

lemma plain_mdb_time: "plain_time t \<Longrightarrow> mdb_time t" "plain_time t \<Longrightarrow> nano_fits t"
  by (simp_all add: plain_time_def mdb_time_def nano_fits_def time_units)

lemma plain_mdb_fits: "plain_record r \<Longrightarrow> mdb_fits r"
proof -
  assume r: "plain_record r"
  have a: "is_valid a \<and> zone_free a" if "plain_addr a" for a using that by (cases a) auto
  have t: "on_micro t" if "plain_time t" for t using that by (simp add: plain_time_def)
  have "length (FlowType_of r) \<le> 16" using r by (auto simp: plain_record_def Valid_def flow_types)
  then show ?thesis
    using r a t plain_mdb_time
    by (auto simp: mdb_fits_def fits_columns_def plain_record_def tells_apart_def split: option.splits)
qed

lemma slice_eq: "zone_free a \<Longrightarrow> x = AddrZero \<or> plain_addr x \<Longrightarrow> is_valid x \<Longrightarrow>
    take 16 (not_null (addrBytes a)) = as_slice x \<longleftrightarrow> a = x"
proof -
  assume z: "zone_free a" and x: "x = AddrZero \<or> plain_addr x" "is_valid x"
  then have "zone_free x" by (cases x) auto
  moreover have "take 16 (not_null (addrBytes x)) = as_slice x"
    using x(2) by (cases x) (simp_all add: addrBytes_def not_null_def)
  ultimately show ?thesis using slice_back [OF z] slice_back [of x] by metis
qed

lemma mdb_selects:
  assumes "mdb_contract ts b" and "plain_query q"
    and "p \<in> set (joined m_exporter (m_exporters (m_db b)) (m_flows (m_db b)))"
  shows "list_all (holds_on (view_of p)) (where_of ts q) \<longleftrightarrow> selects q (scanned p)"
proof -
  let ?T = "m_exporters (m_db b)"
  have f: "keeps_datetime ts" and tab: "tab_ok ip_bytes ?T"
    using assms(1) backend_tab unfolding mdb_contract_def by blast+
  have "fst p \<in> set (m_flows (m_db b))" "x_ip (snd p) = ip_at ?T (m_exporter (f_row (fst p)))"
    using joinedD [OF assms(3)] ip_at_row [OF tab, of "snd p"] by simp_all
  moreover from this(1) have "mdb_rows.origin ts ?T (f_row (fst p))"
    using assms(1) unfolding mdb_contract_def stored_def by auto
  ultimately obtain r i where r: "mdb_fits r" "f_row (fst p) = row_of ts (\<lambda>_. i) r"
      "scanned p = (at_micro r)\<lparr>ExporterID := i\<rparr>"
    using mdb_rows.read_origin [OF tab] unfolding scanned_def mdb_rows.read_row_def by metis
  have z: "zone_free (SrcAddr r)" "zone_free (DstAddr r)" using r(1) by (simp_all add: mdb_fits_def fits_columns_def)
  have t: "ts t = t" if "plain_time t" for t using f plain_mdb_time(1) that by (simp add: keeps_datetime_def)
  obtain fl e where p: "p = (fl, e)" by fastforce
  show ?thesis
    using assms(2) r(2,3) mdb_received [OF f r(1)] unfolding plain_query_def selects_def where_of_def
    by (cases "q_Protocol q") (auto simp: p view_of_def at_micro_def m_key_row slice_eq z t word_uint_eq_iff [of "Protocol r"])
qed

lemma mdb_contract_pages: "mdb_contract ts b \<Longrightarrow> pages_ok ts (m_db b)"
proof -
  assume b: "mdb_contract ts b"
  have "on_micro (m_received v) \<and> nano_fits (m_received v)" if "v \<in> set (stored b)" for v
  proof -
    have "mdb_rows.origin ts (m_exporters (m_db b)) v" using b that unfolding mdb_contract_def by blast
    then obtain r where "mdb_fits r" "v = row_of ts (\<lambda>_. m_exporter v) r" "keeps_datetime ts"
      unfolding mdb_rows.origin_def by blast
    then show ?thesis by (metis m_key_row(2) mdb_fits_def mdb_received on_micro_micro)
  qed
  then show ?thesis using b unfolding mdb_contract_def backend_ok_def pages_ok_def stored_def by simp
qed

section \<open>The contract\<close>

lemma mdb_ids:
  assumes "mdb_contract ts b" and "r \<in> set (mdb_contents b)" and "s \<in> set (mdb_contents b)"
  shows "0 < sint (ExporterID r)" and "ExporterID r = ExporterID s \<longleftrightarrow> ExporterAddr r = ExporterAddr s"
proof -
  let ?T = "m_exporters (m_db b)"
  have ok: "backend_ok b" and org: "\<forall>v\<in>set (stored b). mdb_rows.origin ts ?T v"
    using assms(1) unfolding mdb_contract_def by blast+
  obtain v w where "v \<in> set (stored b)" "r = mdb_rows.read_row ?T v" "w \<in> set (stored b)" "s = mdb_rows.read_row ?T w"
    using assms(2,3) unfolding mdb_contents_read [OF ok] set_map by blast
  then show "0 < sint (ExporterID r)" "ExporterID r = ExporterID s \<longleftrightarrow> ExporterAddr r = ExporterAddr s"
    using mdb_rows.read_ids [OF backend_tab [OF ok]] org by blast+
qed

definition mdb_spared :: "mdb_backend \<Rightarrow> FlowRecord list list \<Rightarrow> bool" where
  "mdb_spared b plan \<longleftrightarrow> list_all (list_all mdb_fits) plan \<and> mdb_room b (length (concat plan))"

interpretation mdb_store: storage_contract "mdb_contract ts"
  "\<lambda>b q. matching view_of (where_of ts q) (joined m_exporter (m_exporters (m_db b)) (m_flows (m_db b)))"
  scanned token_of "\<lambda>b. Query ts True (m_db b)" "\<lambda>q. clamp_limit (q_Limit q)"
  "WriteBatch ts (quiet order)" mdb_contents mdb_spared for ts order
proof (unfold_locales, goal_cases)
  case 4
  then show ?case using mdb_pages.first_page mdb_contract_pages by blast
next
  case 5
  then show ?case using mdb_pages.next_page mdb_contract_pages by blast
next
  case (7 b q p)
  then show ?case
    by (auto simp: Query_def Let_def token_of_def page_of_token split: if_splits sum.splits)
next
  case (8 b q)
  then show ?case unfolding mdb_contents_def by (intro mset_matching mdb_selects)
next
  case (9 b q)
  then show ?case by (intro matching_newest) (simp add: view_of_def split: prod.split)
next
  case (10 b rs plan)
  then have ok: "keeps_datetime ts" "backend_ok b" and fits: "list_all mdb_fits rs" "list_all (list_all mdb_fits) plan"
      and room: "mdb_room b (length rs + length (concat plan))"
    unfolding mdb_contract_def mdb_spared_def by simp_all
  have "list_all fits_columns rs" using fits(1) by (simp add: list_all_iff mdb_fits_def)
  from mdb_quiet_write [OF ok this room] obtain b' where
    b': "WriteBatch ts (quiet order) rs b = (None, b')" "mdb_room b' (length (concat plan))" by blast
  show ?case
    using b' fits(2) mdb_write_records [OF b'(1) 10(1) fits(1)]
    by (intro exI [of _ b']) (simp add: mdb_spared_def del: mset_map)
next
  case (11 b r)
  then show ?case using mdb_ids(1) by blast
next
  case (12 b r s)
  then show ?case by (rule mdb_ids(2))
qed (use mdb_pages.size_pos mdb_pages.rows_cursor in simp_all)

text \<open>
  What a query returns after a write to MariaDB: when \<open>WriteBatch\<close> has returned no error,
  following the page tokens gives exactly the selected ones among the records stored before and
  the new records of the batch, newest first, every field as it was written and times at
  microseconds.
\<close>

theorem mdb_read_your_writes:
  assumes "WriteBatch ts fs rs b = (None, b')" and "mdb_contract ts b" and "list_all mdb_fits rs"
    and "plain_query q" and "q_Cursor q = []" and "q_ExporterID q = 0"
  shows "\<exists>got. follow (Suc (length (mdb_contents b'))) (Query ts True (m_db b')) q = Some (Inr got) \<and>
    mset (map comparable got) = mset (filter (selects q)
      (add_rows same_key (map comparable (mdb_contents b)) (map (comparable \<circ> at_micro) rs))) \<and>
    sorted_wrt (\<lambda>r s. ReceivedAt s \<le> ReceivedAt r) got"
proof -
  note w = mdb_write_records [OF assms(1-3)]
  have sel: "selects q (comparable r) = selects q r" for r by (rule selects_comparable [OF assms(6)])
  from mdb_store.follow_selected [OF w(1) assms(4,5)] show ?thesis
    unfolding w(2) [symmetric] by (auto simp: filter_map comp_def sel)
qed

lemma empty_mdb_contract: "keeps_datetime ts \<Longrightarrow> mdb_contract ts empty_mdb"
  using empty_mdb_ok by (simp add: mdb_contract_def stored_def empty_mdb_def)

lemma empty_mdb_contents: "mdb_contents empty_mdb = []"
  by (simp add: mdb_contents_def empty_mdb_def joined_def)

theorem mdb_read_your_writes_witness:
  "\<exists>got. follow (Suc (length (mdb_contents (snd (WriteBatch micro (quiet []) [demo_flow] empty_mdb)))))
       (Query micro True (m_db (snd (WriteBatch micro (quiet []) [demo_flow] empty_mdb))))
       (demo_query\<lparr>q_End := 1900000000 * Second\<rparr>) = Some (Inr got) \<and>
     map comparable got = [comparable (at_micro demo_flow)]"
proof -
  let ?q = "demo_query\<lparr>q_End := 1900000000 * Second\<rparr>"
  have fits: "list_all mdb_fits [demo_flow]"
    using demo_fits by (simp add: mdb_fits_def demo_flow_def nano_fits_def micro_eq time_units)
  have q: "plain_query ?q" "q_Cursor ?q = []" "q_ExporterID ?q = 0"
    by (simp_all add: demo_query_def plain_query_def plain_time_def on_micro_def time_units)
  have "selects ?q (comparable (at_micro demo_flow))"
    by (simp add: selects_def demo_query_def at_micro_def demo_flow_def micro_eq time_units)
  then have sel: "filter (selects ?q) (add_rows same_key (map comparable (mdb_contents empty_mdb))
      (map (comparable \<circ> at_micro) [demo_flow])) = [comparable (at_micro demo_flow)]"
    by (simp add: empty_mdb_contents add_row_def)
  from mdb_read_your_writes [OF mariadb_demo_written empty_mdb_contract [OF keeps_micro] fits q, unfolded sel]
  show ?thesis by (metis mset_single_iff)
qed

text \<open>
  The conformance suite passes on MariaDB, for every driver that keeps the instants of its
  columns, started on empty tables, with no fault on the way.
\<close>

theorem mdb_conforms:
  assumes "keeps_datetime ts" and "25 < fuel"
  shows "Conformance fuel (WriteBatch ts (quiet order)) (\<lambda>b. Query ts True (m_db b)) (\<lambda>_. empty_mdb)"
proof (rule mdb_store.suite_passes [OF _ assms(2)])
  fix i :: nat assume "i < 7"
  note plan = plans_bounded [OF this]
  have "list_all (list_all mdb_fits) (test_plans ! i)" using plan(1) plain_mdb_fits by (auto simp: list_all_iff)
  then have "mdb_spared empty_mdb (test_plans ! i)"
    using plan(2) by (simp add: mdb_spared_def mdb_room_def empty_mdb_def empty_tab_def max_int64_def)
  then show "mdb_store.fresh ts empty_mdb \<and> mdb_spared empty_mdb (test_plans ! i)"
    using empty_mdb_contract [OF assms(1)] empty_mdb_contents by (simp add: mdb_store.fresh_def)
qed

theorem mdb_conforms_witness:
  "Conformance 26 (WriteBatch micro (quiet [1])) (\<lambda>b. Query micro True (m_db b)) (\<lambda>_. empty_mdb)"
  by (rule mdb_conforms [OF keeps_micro]) simp

end
