(* ===== verification/Conform_Clickhouse.thy ===== *)
theory Conform_Clickhouse
  imports Clickhouse_Props Conformance_Props
begin

text \<open>
  ClickHouse keeps the contract of \<open>Contract\<close> as long as its sequence numbers do their work:
  rows that agree in \<open>(received_at, seq)\<close> are deliveries of one record. The state is the tables
  and the \<open>rand64()\<close> values of the batches to come. The conformance suite passes unless the
  random numbers of its two writes without keys collide.
\<close>

section \<open>The backend\<close>

type_synonym ch_state = "(nat \<Rightarrow> nat \<Rightarrow> u64) \<times> ch_db"

definition ch_write :: "ch_driver \<Rightarrow> nat list \<Rightarrow> FlowRecord list \<Rightarrow> ch_state \<Rightarrow> string option \<times> ch_state" where
  "ch_write d order rs s =
     (case WriteBatch d (ch_quiet order, fst s 0) rs (snd s) of (e, db) \<Rightarrow> (e, (\<lambda>k. fst s (Suc k), db)))"

definition ch_contents :: "ch_driver \<Rightarrow> ch_state \<Rightarrow> FlowRecord list" where
  "ch_contents d s = map (scanRecord d) (final_flows (h_flows (snd s)))"

definition ch_fits :: "FlowRecord \<Rightarrow> bool" where
  "ch_fits r \<longleftrightarrow> ch_storable r \<and> micro_fits (micro (ReceivedAt r))"

text \<open>The rows a plan of batches will insert, with the random numbers at hand.\<close>

fun planned :: "ch_driver \<Rightarrow> (nat \<Rightarrow> nat \<Rightarrow> u64) \<Rightarrow> FlowRecord list list \<Rightarrow> ch_row list" where
  "planned d rand [] = []"
| "planned d rand (rs # plan) = rows_of d (rand 0) rs @ planned d (\<lambda>k. rand (Suc k)) plan"

text \<open>
  Rows are \<open>clean\<close> when a shared key means a shared record, no two rows without a dedup key
  share one, and no two exporters share an id.
\<close>

definition clean :: "ch_driver \<Rightarrow> ch_row list \<Rightarrow> bool" where
  "clean d rows \<longleftrightarrow> (\<forall>u\<in>set rows. \<forall>v\<in>set rows. key_of u = key_of v \<longrightarrow> scanRecord d u = scanRecord d v) \<and>
     distinct (map key_of (filter (\<lambda>v. h_key v = []) rows)) \<and>
     (\<forall>u\<in>set rows. \<forall>v\<in>set rows. ExporterID (scanRecord d u) = ExporterID (scanRecord d v) \<longrightarrow>
        ExporterAddr (scanRecord d u) = ExporterAddr (scanRecord d v))"

definition made :: "ch_driver \<Rightarrow> ch_row \<Rightarrow> bool" where
  "made d v \<longleftrightarrow> (\<exists>r n. ch_fits r \<and> v = store_row d n (insertRow r))"

definition ch_contract :: "ch_driver \<Rightarrow> ch_state \<Rightarrow> bool" where
  "ch_contract d s \<longleftrightarrow> faithful_ch d \<and> list_all (made d) (h_flows (snd s)) \<and> clean d (h_flows (snd s))"

definition ch_spared :: "ch_driver \<Rightarrow> ch_state \<Rightarrow> FlowRecord list list \<Rightarrow> bool" where
  "ch_spared d s plan \<longleftrightarrow> list_all (list_all ch_fits) plan \<and> clean d (h_flows (snd s) @ planned d (fst s) plan)"

lemma clean_prefix: "clean d (xs @ ys) \<Longrightarrow> clean d xs"
  by (auto simp: clean_def)

section \<open>Rows and records\<close>

lemma ch_scan:
  assumes "faithful_ch d" and "ch_fits r"
  shows "scanRecord d (store_row d n (insertRow r)) = (at_micro r)\<lparr>ExporterID := exporterID (ExporterAddr r)\<rparr>"
  using ch_row_roundtrip [OF assms(1), of r n] assms(2) by (simp add: ch_fits_def at_micro_def)

lemma made_key:
  assumes "made d v"
  shows "DedupKey (scanRecord d v) = (if h_key v = [] then None else Some (h_key v))"
    and "ReceivedAt (scanRecord d v) = h_received v"
    and "h_key v \<noteq> [] \<Longrightarrow> key_of v = (h_received v, reinterpretAsUInt64 (take 8 (h_key v)))"
  using assms by (auto simp: made_def scanRecord_def key_of_def store_row_def seq_of_def)

lemma final_snoc: "final_flows (rs @ [v]) = filter (\<lambda>u. key_of u \<noteq> key_of v) (final_flows rs) @ [v]"
  by (induction rs) auto

lemma filter_own_key: "distinct (map k xs) \<Longrightarrow> u \<in> set xs \<Longrightarrow> filter (\<lambda>x. k x = k u) xs = [u]"
proof (induction xs)
  case (Cons x xs)
  show ?case
  proof (cases "u = x")
    case True
    have "filter (\<lambda>y. k y = k x) xs = []" using Cons.prems(1) by (auto simp: filter_empty_conv) (metis image_eqI)
    then show ?thesis using True by simp
  next
    case False
    then show ?thesis using Cons by auto
  qed
qed simp

text \<open>One more row: it takes the place of the row with its key, if there is one.\<close>

lemma contents_snoc:
  assumes "clean d (rs @ [v])" and "list_all (made d) (rs @ [v])"
  shows "mset (map (comparable \<circ> scanRecord d) (final_flows (rs @ [v]))) =
    mset (add_row same_key (map (comparable \<circ> scanRecord d) (final_flows rs)) (comparable (scanRecord d v)))"
proof (cases "key_of v \<in> key_of ` set rs")
  case True
  let ?scan = "comparable \<circ> scanRecord d"
  have "key_of v \<in> key_of ` set (final_flows rs)" using True by (simp only: final_keys)
  then obtain u where u: "u \<in> set (final_flows rs)" "key_of u = key_of v" by force
  then have ur: "u \<in> set rs" using final_subset by blast
  have "u \<in> set (rs @ [v])" "v \<in> set (rs @ [v])" using ur by simp_all
  then have same: "scanRecord d u = scanRecord d v" using assms(1) u(2) unfolding clean_def by blast
  have "h_key v \<noteq> []"
  proof
    assume v: "h_key v = []"
    moreover have "made d u" "made d v" using assms(2) ur by (auto simp: list_all_iff)
    ultimately have "h_key u = []" using made_key(1) [of d u] made_key(1) [of d v] same by (cases "h_key u") simp_all
    then have "key_of u \<in> set (map key_of (filter (\<lambda>v. h_key v = []) rs))" using ur by simp
    then show False using assms(1) v u(2) unfolding clean_def by simp
  qed
  then have "same_key (?scan v) (?scan u)" using made_key(1) [of d v] assms(2) same by (simp add: same_key_def)
  then have "list_ex (same_key (?scan v)) (map ?scan (final_flows rs))" using u(1) by (force simp: list_ex_iff)
  moreover have part: "mset (final_flows rs) = add_mset u {#x \<in># mset (final_flows rs). key_of x \<noteq> key_of v#}"
    using multiset_partition [of "mset (final_flows rs)" "\<lambda>x. key_of x \<noteq> key_of v"]
      filter_own_key [OF final_distinct u(1)] u(2) by (simp flip: mset_filter)
  have "image_mset ?scan (mset (final_flows rs)) =
      add_mset (?scan v) (image_mset ?scan {#x \<in># mset (final_flows rs). key_of x \<noteq> key_of v#})"
    by (subst part) (simp add: same)
  ultimately show ?thesis by (simp add: final_snoc add_row_def)
next
  case False
  let ?scan = "comparable \<circ> scanRecord d"
  have "\<not> same_key (?scan v) (?scan u)" if "u \<in> set rs" for u
  proof
    assume "same_key (?scan v) (?scan u)"
    moreover have "made d u" "made d v" using assms(2) that by (auto simp: list_all_iff)
    ultimately have "key_of v = key_of u"
      using made_key [of d u] made_key [of d v] by (auto simp: same_key_def split: if_splits)
    then show False using False that by blast
  qed
  then have "\<not> list_ex (same_key (?scan v)) (map ?scan (final_flows rs))" using final_subset by (force simp: list_ex_iff)
  moreover have "filter (\<lambda>x. key_of x \<noteq> key_of v) (final_flows rs) = final_flows rs"
    using False final_keys [of rs] by (intro filter_all_id) (metis image_eqI)
  ultimately show ?thesis by (simp add: final_snoc add_row_def)
qed

lemma contents_append:
  assumes "clean d (rs @ vs)" and "list_all (made d) (rs @ vs)"
  shows "mset (map (comparable \<circ> scanRecord d) (final_flows (rs @ vs))) =
    mset (add_rows same_key (map (comparable \<circ> scanRecord d) (final_flows rs)) (map (comparable \<circ> scanRecord d) vs))"
  using assms
proof (induction vs rule: rev_induct)
  case (snoc v vs)
  have c: "clean d ((rs @ vs) @ [v])" "list_all (made d) ((rs @ vs) @ [v])" using snoc.prems by simp_all
  have IH: "mset (map (comparable \<circ> scanRecord d) (final_flows (rs @ vs))) =
      mset (add_rows same_key (map (comparable \<circ> scanRecord d) (final_flows rs)) (map (comparable \<circ> scanRecord d) vs))"
    by (rule snoc.IH [OF clean_prefix [OF c(1)]]) (use c(2) in simp)
  from contents_snoc [OF c] mset_add_row [OF IH, of same_key "comparable (scanRecord d v)"] show ?case by (simp add: comp_def)
qed simp

section \<open>Writing\<close>

lemma ch_quiet_write: "ch_write d order rs s =
    (None, (\<lambda>k. fst s (Suc k), snd (WriteBatch d (ch_quiet order, fst s 0) rs (snd s)))) \<and>
   h_flows (snd (WriteBatch d (ch_quiet order, fst s 0) rs (snd s))) = h_flows (snd s) @ rows_of d (fst s 0) rs"
  by (auto simp: ch_write_def WriteBatch_def touchExporters_def ch_quiet_def send_def rows_of_def split: prod.split)

lemma rows_made: "list_all ch_fits rs \<Longrightarrow> list_all (made d) (rows_of d rand rs)"
  unfolding list_all_length by (auto simp: rows_of_def made_def)

lemma rows_scan:
  assumes "faithful_ch d" and "list_all ch_fits rs"
  shows "map (comparable \<circ> scanRecord d) (rows_of d rand rs) = map (comparable \<circ> at_micro) rs"
proof (rule nth_equalityI)
  fix i assume "i < length (map (comparable \<circ> scanRecord d) (rows_of d rand rs))"
  then have i: "i < length rs" by (simp add: rows_of_def)
  then have "ch_fits (rs ! i)" using assms(2) by (simp add: list_all_length)
  then show "map (comparable \<circ> scanRecord d) (rows_of d rand rs) ! i = map (comparable \<circ> at_micro) rs ! i"
    using i by (simp add: rows_of_def ch_scan [OF assms(1)] comparable_def)
qed (simp add: rows_of_def)

lemma ch_write_adds:
  assumes "ch_contract d s" and "ch_spared d s (rs # plan)"
  shows "\<exists>s'. ch_write d order rs s = (None, s') \<and> ch_contract d s' \<and> ch_spared d s' plan \<and>
    mset (map comparable (ch_contents d s')) =
    mset (add_rows same_key (map comparable (ch_contents d s)) (map (comparable \<circ> at_micro) rs))"
proof -
  let ?F = "h_flows (snd s)" and ?N = "rows_of d (fst s 0) rs" and ?P = "planned d (\<lambda>k. fst s (Suc k)) plan"
  let ?s = "(\<lambda>k. fst s (Suc k), snd (WriteBatch d (ch_quiet order, fst s 0) rs (snd s)))"
  have f: "faithful_ch d" "list_all (made d) ?F" and fits: "list_all ch_fits rs" "list_all (list_all ch_fits) plan"
    and c: "clean d ((?F @ ?N) @ ?P)"
    using assms by (simp_all add: ch_contract_def ch_spared_def)
  have rows: "h_flows (snd ?s) = ?F @ ?N" and w: "ch_write d order rs s = (None, ?s)" using ch_quiet_write [of d order rs s] by simp_all
  have m: "list_all (made d) (?F @ ?N)" using f(2) rows_made [OF fits(1)] by simp
  have "ch_contract d ?s" unfolding ch_contract_def rows by (intro conjI f(1) m clean_prefix [OF c])
  moreover have "ch_spared d ?s plan" unfolding ch_spared_def rows using fits(2) c by simp
  moreover have "mset (map comparable (ch_contents d ?s)) =
      mset (add_rows same_key (map comparable (ch_contents d s)) (map (comparable \<circ> at_micro) rs))"
    unfolding ch_contents_def rows map_map
    using contents_append [OF clean_prefix [OF c] m] rows_scan [OF f(1) fits(1)] by simp
  ultimately show ?thesis using w by blast
qed

section \<open>What a query selects\<close>

lemma plain_ch_range: "plain_time t \<Longrightarrow> ch_range t" "plain_time t \<Longrightarrow> micro_fits t"
  by (simp_all add: plain_time_def ch_range_def micro_fits_def time_units) linarith

lemma plain_ch_fits: "plain_record r \<Longrightarrow> ch_fits r"
proof -
  assume r: "plain_record r"
  have t: "on_micro t" if "plain_time t" for t using that by (simp add: plain_time_def)
  show ?thesis
    using r t plain_ch_range by (auto simp: ch_fits_def ch_storable_def plain_record_def)
qed

lemma plain_bound: "plain_time t \<Longrightarrow> fromUnixTimestamp64Micro (unix_micro t) = t"
proof -
  assume t: "plain_time t"
  then have "unix_micro t = t div Microsecond" using plain_ch_range(2) by (simp add: unix_micro_def wrap64_id micro_fits_def)
  then show ?thesis
    using t by (simp add: fromUnixTimestamp64Micro_def plain_time_def on_micro_def flip: minus_mod_eq_div_mult)
qed

lemma ch_selects:
  assumes "ch_contract d s" and "plain_query q" and "v \<in> set (h_flows (snd s))"
  shows "list_all (holds_on (view_of v)) (where_of d q) \<longleftrightarrow> selects q (scanRecord d v)"
proof -
  have f: "faithful_ch d" using assms(1) by (simp add: ch_contract_def)
  obtain r n where r: "ch_fits r" "v = store_row d n (insertRow r)"
    using assms(1,3) by (auto simp: ch_contract_def list_all_iff made_def)
  have a: "is_valid x \<and> ch_text d x = as16 x" if "plain_addr x" for x using f plainD [OF that] by (simp add: faithful_ch_def)
  have src: "h_src v = as16 (SrcAddr r)" "h_dst v = as16 (DstAddr r)" "plain_addr (SrcAddr r)" "plain_addr (DstAddr r)"
      "h_received v = micro (ReceivedAt r)" "h_proto v = Protocol r" "h_exporter v = exporterID (ExporterAddr r)"
    using r f plainD by (auto simp: store_row_def insertRow_def ch_fits_def ch_storable_def faithful_ch_def)
  have scan: "scanRecord d v = (at_micro r)\<lparr>ExporterID := exporterID (ExporterAddr r)\<rparr>" using ch_scan [OF f r(1)] r(2) by simp
  show ?thesis
    using assms(2) unfolding plain_query_def selects_def where_of_def scan
    by (cases "q_Protocol q")
       (auto simp: view_of_def at_micro_def src plain_bound a as16_inject_plain word_uint_eq_iff [of "Protocol r"])
qed

lemma ch_contract_pages: "ch_contract d s \<Longrightarrow> pages_ok (snd s)"
  by (fastforce simp: ch_contract_def pages_ok_def list_all_iff made_def ch_fits_def ch_storable_def faithful_ch_def
      store_row_def insertRow_def)

section \<open>The contract\<close>

lemma ch_ids:
  assumes "ch_contract d s" and "v \<in> set (h_flows (snd s))" and "w \<in> set (h_flows (snd s))"
  shows "0 < sint (ExporterID (scanRecord d v))"
    and "ExporterID (scanRecord d v) = ExporterID (scanRecord d w) \<longleftrightarrow>
      ExporterAddr (scanRecord d v) = ExporterAddr (scanRecord d w)"
proof -
  have i: "ExporterID (scanRecord d x) = exporterID (ExporterAddr (scanRecord d x))" if "x \<in> set (h_flows (snd s))" for x
    using assms(1) that ch_scan [of d] by (fastforce simp: ch_contract_def list_all_iff made_def at_micro_def)
  show "0 < sint (ExporterID (scanRecord d v))"
    using ch_exporterID_range [of "ExporterAddr (scanRecord d v)"] i [OF assms(2)] by (simp add: word_less_def)
  show "ExporterID (scanRecord d v) = ExporterID (scanRecord d w) \<longleftrightarrow>
      ExporterAddr (scanRecord d v) = ExporterAddr (scanRecord d w)"
    using assms i unfolding ch_contract_def clean_def by metis
qed

interpretation ch_store: storage_contract "ch_contract d"
  "\<lambda>s q. matching view_of (where_of d q) (final_flows (h_flows (snd s)))"
  "scanRecord d" "token_of d" "\<lambda>s. Query d True (snd s)" "\<lambda>q. clamp_limit (q_Limit q)"
  "ch_write d order" "ch_contents d" "ch_spared d" for d order
proof (unfold_locales, goal_cases)
  case 4
  then show ?case using ch_pages.first_page ch_contract_pages by blast
next
  case 5
  then show ?case using ch_pages.next_page ch_contract_pages by blast
next
  case (7 b q p)
  then show ?case
    by (auto simp: Query_def Let_def token_of_def page_of_token split: if_splits sum.splits)
next
  case (8 b q)
  then show ?case unfolding ch_contents_def using final_subset by (intro mset_matching ch_selects) auto
next
  case (9 b q)
  then show ?case by (intro matching_newest) (simp add: view_of_def scanRecord_def)
next
  case (10 b rs plan)
  then show ?case by (rule ch_write_adds)
next
  case (11 b r)
  then show ?case using ch_ids(1) final_subset by (fastforce simp: ch_contents_def)
next
  case (12 b r s)
  then obtain v w where "v \<in> set (h_flows (snd b))" "w \<in> set (h_flows (snd b))" "r = scanRecord d v" "s = scanRecord d w"
    using final_subset by (fastforce simp: ch_contents_def)
  then show ?case using ch_ids(2) [OF 12(1)] by simp
qed (use ch_pages.size_pos ch_pages.rows_cursor in simp_all)

section \<open>The suite\<close>

lemma planned_row: "u \<in> set (planned d rand plan) \<Longrightarrow> \<exists>r n. r \<in> set (concat plan) \<and> u = store_row d n (insertRow r)"
proof (induction plan arbitrary: rand)
  case (Cons rs plan)
  show ?case
  proof (cases "u \<in> set (rows_of d (rand 0) rs)")
    case True
    then show ?thesis by (force simp: rows_of_def)
  next
    case False
    then show ?thesis using Cons by fastforce
  qed
qed simp

text \<open>The two exporters of the suite have different ids.\<close>

lemma be_bytes_numeral: "be_bytes (numeral k) x = be_bytes (pred_numeral k) (x div 256) @ [of_nat x]"
  by (simp only: numeral_eq_Suc be_bytes.simps)

lemma as16_exporters:
  "as16 exporterA = [0, 0, 0, 0, 0, 0, 0, 0, 0, 0, 255, 255, 192, 0, 2, 1]"
  "as16 exporterB = [0, 0, 0, 0, 0, 0, 0, 0, 0, 0, 255, 255, 192, 0, 2, 2]"
  by (simp_all add: exporter_vals be128_def map4_def be_bytes_numeral)

lemma fnv_exporters: "fnv64a (as16 exporterA) = 15692527384915268854" "fnv64a (as16 exporterB) = 15692526285403640643"
  by (simp_all add: as16_exporters fnv64a_def)

lemma exporter_ids_differ: "exporterID exporterA \<noteq> exporterID exporterB"
  by (simp add: exporterID_def fnv_exporters Let_def)

lemma suite_clean:
  assumes "faithful_ch d" and "list_all plain_record (concat plan)" and "inj_on ReceivedAt (set (concat plan))"
    and "\<forall>r\<in>set (concat plan). ExporterAddr r \<in> {exporterA, exporterB}"
    and "distinct (map key_of (filter (\<lambda>v. h_key v = []) (planned d rand plan)))"
  shows "clean d (planned d rand plan)"
proof -
  have row: "\<exists>r\<in>set (concat plan). scanRecord d u = r\<lparr>ExporterID := exporterID (ExporterAddr r)\<rparr> \<and> fst (key_of u) = ReceivedAt r"
    if "u \<in> set (planned d rand plan)" for u
  proof -
    obtain r n where r: "r \<in> set (concat plan)" "u = store_row d n (insertRow r)" using planned_row [OF \<open>u \<in> _\<close>] by blast
    have p: "plain_record r" using assms(2) r(1) unfolding list_all_iff by blast
    then have "scanRecord d u = r\<lparr>ExporterID := exporterID (ExporterAddr r)\<rparr>"
      using ch_scan [OF assms(1) plain_ch_fits] r(2) by (simp add: at_micro_plain)
    moreover have "ReceivedAt (scanRecord d u) = fst (key_of u)" by (simp add: scanRecord_def key_of_def)
    ultimately show ?thesis by (intro bexI [OF _ r(1)]) simp
  qed
  have "scanRecord d u = scanRecord d v" if uv: "u \<in> set (planned d rand plan)" "v \<in> set (planned d rand plan)" "key_of u = key_of v" for u v
    using row [OF uv(1)] row [OF uv(2)] uv(3) assms(3) by (metis inj_onD)
  moreover have "ExporterAddr (scanRecord d u) = ExporterAddr (scanRecord d v)"
    if uv: "u \<in> set (planned d rand plan)" "v \<in> set (planned d rand plan)" "ExporterID (scanRecord d u) = ExporterID (scanRecord d v)" for u v
  proof -
    obtain r s where rs: "r \<in> set (concat plan)" "s \<in> set (concat plan)"
        "scanRecord d u = r\<lparr>ExporterID := exporterID (ExporterAddr r)\<rparr>"
        "scanRecord d v = s\<lparr>ExporterID := exporterID (ExporterAddr s)\<rparr>"
      using row [OF uv(1)] row [OF uv(2)] by blast
    have "ExporterAddr r \<in> {exporterA, exporterB}" "ExporterAddr s \<in> {exporterA, exporterB}"
      using rs(1,2) assms(4) by blast+
    then show ?thesis using uv(3) exporter_ids_differ by (auto simp: rs(3,4))
  qed
  ultimately show ?thesis using assms(5) unfolding clean_def by blast
qed

lemma rows_keys:
  assumes "faithful_ch d" and "list_all plain_record rs"
  shows "map (fst \<circ> key_of) (rows_of d rand rs) = map ReceivedAt rs"
proof (rule nth_equalityI)
  fix i assume "i < length (map (fst \<circ> key_of) (rows_of d rand rs))"
  then have i: "i < length rs" by (simp add: rows_of_def)
  then have "plain_record (rs ! i)" using assms(2) by (simp add: list_all_length)
  then have "plain_time (ReceivedAt (rs ! i))" "on_micro (ReceivedAt (rs ! i))"
    by (simp_all add: plain_record_def plain_time_def)
  then show "map (fst \<circ> key_of) (rows_of d rand rs) ! i = map ReceivedAt rs ! i"
    using i assms(1) plain_ch_range(1) by (simp add: rows_of_def key_of_def store_row_def insertRow_def faithful_ch_def)
qed (simp add: rows_of_def)

lemma rows_distinct:
  assumes "faithful_ch d" and "list_all plain_record rs" and "distinct (map ReceivedAt rs)"
  shows "distinct (map key_of (rows_of d rand rs))"
proof -
  have "distinct (map fst (map key_of (rows_of d rand rs)))" using assms(3) rows_keys [OF assms(1,2)] by simp
  then show ?thesis by (rule distinct_map [THEN iffD1, THEN conjunct1])
qed

lemma single_batch_clean:
  assumes "faithful_ch d" and "list_all plain_record rs" and "distinct (map ReceivedAt rs)"
    and "\<forall>r\<in>set rs. ExporterAddr r \<in> {exporterA, exporterB}"
  shows "clean d (planned d rand [rs])"
  using assms rows_distinct [OF assms(1-3), of "rand 0"]
  by (intro suite_clean) (simp_all add: distinct_map distinct_map_filter inj_on_def)

lemma batch_distinct: "distinct (map ReceivedAt (batch n e d))"
  unfolding batch_received by (auto simp: distinct_map inj_on_def time_units)

lemma records_distinct: "distinct (map ReceivedAt half_open_records)" "distinct (map ReceivedAt filter_records)"
  by (simp_all add: half_open_records_def filter_records_eq micro_eq baseTime_val time_units)

lemma keyed_clean:
  assumes "faithful_ch d" and "m \<le> n" and "n \<le> 100"
  shows "clean d (planned d rand [batch m exporterA True, batch n exporterA True])"
proof (rule suite_clean [OF assms(1)])
  let ?plan = "[batch m exporterA True, batch n exporterA True]"
  have sub: "set (batch m exporterA True) \<subseteq> set (batch n exporterA True)"
    using assms(2) set_take_subset [of m "batch n exporterA True"] by (simp add: batch_take)
  show plain: "list_all plain_record (concat ?plan)"
    using assms(2,3) batch_plain [OF _ plain_exporters(1)] by simp
  show "inj_on ReceivedAt (set (concat ?plan))"
    using batch_distinct [of n exporterA True] sub by (simp add: distinct_map Un_absorb1)
  show "\<forall>r\<in>set (concat ?plan). ExporterAddr r \<in> {exporterA, exporterB}" by (auto simp: batch_def)
  have "h_key v \<noteq> []" if v: "v \<in> set (planned d rand ?plan)" for v
  proof -
    obtain r k where "r \<in> set (concat ?plan)" "v = store_row d k (insertRow r)" using planned_row [OF v] by blast
    moreover from this(1) obtain i where "i < n" "DedupKey r = Some (fixture_key i)"
      using sub by (auto simp: batch_def)
    ultimately show ?thesis using length_fixture_key [of i] assms(3) by (auto simp: store_row_def insertRow_def)
  qed
  then have "filter (\<lambda>v. h_key v = []) (planned d rand ?plan) = []" by (simp only: filter_empty_conv) blast
  then show "distinct (map key_of (filter (\<lambda>v. h_key v = []) (planned d rand ?plan)))" by (simp only: list.map distinct.simps)
qed

text \<open>Two writes without keys collide only where their random numbers do.\<close>

lemma unkeyed_clean:
  assumes "faithful_ch d" and "n \<le> 100" and "\<forall>j<n. rand 0 j \<noteq> rand 1 j"
  shows "clean d (planned d rand [batch n exporterA False, batch n exporterA False])"
proof (rule suite_clean [OF assms(1)])
  let ?b = "batch n exporterA False" and ?plan = "[batch n exporterA False, batch n exporterA False]"
  have plain: "list_all plain_record ?b" using assms(2) batch_plain [OF _ plain_exporters(1)] by simp
  then show "list_all plain_record (concat ?plan)" by simp
  show "inj_on ReceivedAt (set (concat ?plan))" using batch_distinct [of n exporterA False] by (simp add: distinct_map)
  show "\<forall>r\<in>set (concat ?plan). ExporterAddr r \<in> {exporterA, exporterB}" by (auto simp: batch_def)
  have apart: "key_of (rows_of d (rand 0) ?b ! i) \<noteq> key_of (rows_of d (rand 1) ?b ! j)" if ij: "i < n" "j < n" for i j
  proof
    let ?u = "rows_of d (rand 0) ?b ! i" and ?v = "rows_of d (rand 1) ?b ! j"
    assume k: "key_of ?u = key_of ?v"
    have "fst (key_of ?u) = map ReceivedAt ?b ! i" "fst (key_of ?v) = map ReceivedAt ?b ! j"
      using ij rows_keys [OF assms(1) plain, of "rand 0"] rows_keys [OF assms(1) plain, of "rand 1"]
        nth_map [of i "rows_of d (rand 0) ?b" "fst \<circ> key_of"] nth_map [of j "rows_of d (rand 1) ?b" "fst \<circ> key_of"]
      by (simp_all add: rows_of_def)
    then have "i = j" using k ij batch_distinct [of n exporterA False] by (metis length_batch length_map nth_eq_iff_index_eq)
    moreover have "DedupKey (?b ! i) = None" "DedupKey (?b ! j) = None" using ij by (simp_all add: batch_def)
    ultimately have "rand 0 i = rand 1 i"
      using k ij by (simp add: rows_of_def key_of_def store_row_def insertRow_def seq_of_def)
    then show False using assms(3) ij by blast
  qed
  have "distinct (map key_of (rows_of d (rand 0) ?b @ rows_of d (rand 1) ?b))"
    unfolding map_append distinct_append
  proof (intro conjI rows_distinct [OF assms(1) plain batch_distinct])
    show "set (map key_of (rows_of d (rand 0) ?b)) \<inter> set (map key_of (rows_of d (rand 1) ?b)) = {}"
      using apart by (auto simp: in_set_conv_nth) (metis (no_types, lifting) length_batch length_map length_upt minus_nat.diff_0 rows_of_def)
  qed
  then show "distinct (map key_of (filter (\<lambda>v. h_key v = []) (planned d rand ?plan)))"
    by (intro distinct_map_filter) simp
qed

text \<open>
  The conformance suite passes on ClickHouse, for every faithful driver, started on empty
  tables with no fault on the way, provided the random sequence numbers of the test that
  writes records without keys twice differ between the two writes.
\<close>

theorem ch_conforms:
  assumes "faithful_ch d" and "\<forall>j<10. rand 0 j \<noteq> rand 1 j" and "25 < fuel"
  shows "Conformance fuel (ch_write d order) (\<lambda>s. Query d True (snd s)) (\<lambda>_. (rand, ch_empty))"
proof (rule ch_store.suite_passes [OF _ assms(3)])
  fix i :: nat assume i: "i < 7"
  have fits: "list_all (list_all ch_fits) (test_plans ! i)"
    using plans_bounded(1) [OF i] plain_ch_fits by (auto simp: list_all_iff)
  have "clean d (planned d rand [batch n exporterA False])" if "n \<le> 100" for n
    by (rule single_batch_clean [OF assms(1) batch_plain [OF that plain_exporters(1)] batch_distinct]) (auto simp: batch_def)
  moreover have "clean d (planned d rand [half_open_records])" "clean d (planned d rand [filter_records])"
    by (rule single_batch_clean [OF assms(1) half_open_plain records_distinct(1)], simp add: half_open_records_def)
       (rule single_batch_clean [OF assms(1) filter_records_plain records_distinct(2)], simp add: filter_records_eq)
  ultimately have "\<forall>plan\<in>set test_plans. clean d (planned d rand plan)"
    using keyed_clean [OF assms(1), of 10 10] keyed_clean [OF assms(1), of 10 20] unkeyed_clean [OF assms(1) _ assms(2)]
    by (simp add: test_plans_def del: planned.simps)
  moreover have "length test_plans = 7" by (simp add: test_plans_def)
  ultimately have "ch_spared d (rand, ch_empty) (test_plans ! i)"
    using i fits by (simp add: ch_spared_def ch_empty_def)
  moreover have "ch_store.fresh d (rand, ch_empty)"
    using assms(1) by (simp add: ch_store.fresh_def ch_contract_def ch_contents_def ch_empty_def clean_def)
  ultimately show "ch_store.fresh d (rand, ch_empty) \<and> ch_spared d (rand, ch_empty) (test_plans ! i)" by simp
qed

theorem ch_conforms_witness:
  "Conformance 26 (ch_write ch_plain [1]) (\<lambda>s. Query ch_plain True (snd s)) (\<lambda>_. (\<lambda>k j. of_nat k, ch_empty))"
  by (rule ch_conforms [OF faithful_ch_plain]) simp_all

end
