(* ===== verification/Sink_Boot.thy ===== *)
theory Sink_Boot
  imports Gotext
begin

text \<open>
  Opening and migrating the storage backends: \<open>New\<close>, \<open>Migrate\<close> and \<open>Close\<close> of \<open>internal/sink/postgres\<close> and
  \<open>internal/sink/clickhouse\<close>, \<open>New\<close> of \<open>internal/sink/mariadb\<close> (whose migration starts the retention goroutine of
  theory Mariadb_Sink). What the drivers and the migration library answer are arguments; a connection is
  counted when it is opened and when it is closed. Of the servers the model uses two documented behaviours:
  \<open>add_retention_policy\<close> with \<open>if_not_exists\<close> keeps a policy that exists, and \<open>system.tables\<close> shows the table's TTL.
\<close>

datatype boot_error =
    Connect string
  | ParseDSN string
  | DSNOptions
  | OpenFailed string
  | PingFailed string
  | MigrateError string
  | RetentionPolicy string
  | InspectRetention string
  | SetRetention string

section \<open>Opening\<close>

record handles_count =
  h_opened :: nat
  h_closed :: nat

text \<open>\<open>postgres.New\<close>: the pool, and the ping that must answer.\<close>

definition pg_New :: "(string \<Rightarrow> string option) \<Rightarrow> string option \<Rightarrow> string \<Rightarrow> int \<Rightarrow> handles_count \<Rightarrow>
    (boot_error + int) \<times> handles_count" where
  "pg_New newPool ping dsn retentionDays c =
     (case newPool dsn of
        Some e \<Rightarrow> (Inl (Connect e), c)
      | None \<Rightarrow>
          (let c1 = c\<lparr>h_opened := Suc (h_opened c)\<rparr>
           in case ping of
                Some e \<Rightarrow> (Inl (PingFailed e), c1\<lparr>h_closed := Suc (h_closed c1)\<rparr>)
              | None \<Rightarrow> (Inr retentionDays, c1)))"

text \<open>\<open>mysql.ParseDSN\<close>'s result, as far as the check reads it.\<close>

record dsn_config =
  ParseTime :: bool
  Loc :: "string option"

definition mdb_New :: "(string \<Rightarrow> string + dsn_config) \<Rightarrow> (string \<Rightarrow> string option) \<Rightarrow> string option \<Rightarrow> string \<Rightarrow> int \<Rightarrow>
    handles_count \<Rightarrow> (boot_error + int) \<times> handles_count" where
  "mdb_New parse_dsn sql_open ping dsn retentionDays c =
     (case parse_dsn dsn of
        Inl e \<Rightarrow> (Inl (ParseDSN e), c)
      | Inr cfg \<Rightarrow>
          if \<not> ParseTime cfg \<or> Loc cfg = None \<or> Loc cfg \<noteq> Some ''UTC'' then (Inl DSNOptions, c)
          else case sql_open dsn of
                 Some e \<Rightarrow> (Inl (OpenFailed e), c)
               | None \<Rightarrow>
                   (let c1 = c\<lparr>h_opened := Suc (h_opened c)\<rparr>
                    in case ping of
                         Some e \<Rightarrow> (Inl (PingFailed e), c1\<lparr>h_closed := Suc (h_closed c1)\<rparr>)
                       | None \<Rightarrow> (Inr retentionDays, c1)))"

text \<open>\<open>clickhouse.New\<close>: a second handle, for the migrations, is opened once the first answers.\<close>

definition ch_New :: "(string \<Rightarrow> string option) \<Rightarrow> string option \<Rightarrow> string option \<Rightarrow> string \<Rightarrow> int \<Rightarrow> handles_count \<Rightarrow>
    (boot_error + int) \<times> handles_count" where
  "ch_New parse_dsn open_conn ping dsn retentionDays c =
     (case parse_dsn dsn of
        Some e \<Rightarrow> (Inl (ParseDSN e), c)
      | None \<Rightarrow>
          (case open_conn of
             Some e \<Rightarrow> (Inl (OpenFailed e), c)
           | None \<Rightarrow>
               (let c1 = c\<lparr>h_opened := Suc (h_opened c)\<rparr>
                in case ping of
                     Some e \<Rightarrow> (Inl (PingFailed e), c1\<lparr>h_closed := Suc (h_closed c1)\<rparr>)
                   | None \<Rightarrow> (Inr retentionDays, c1\<lparr>h_opened := Suc (h_opened c1)\<rparr>))))"

definition pg_Close :: "handles_count \<Rightarrow> handles_count" where
  "pg_Close c = c\<lparr>h_closed := Suc (h_closed c)\<rparr>"

definition ch_Close :: "handles_count \<Rightarrow> handles_count" where
  "ch_Close c = c\<lparr>h_closed := h_closed c + 2\<rparr>"

section \<open>Migrating\<close>

text \<open>
  The database, as far as retention goes: the age the policy or the TTL names, if there is one, and how often a statement
  changed it.
\<close>

record retention_state =
  keep_days :: "int option"
  alters :: nat

definition add_retention_policy :: "int \<Rightarrow> retention_state \<Rightarrow> retention_state" where
  "add_retention_policy days t =
     (case keep_days t of
        Some _ \<Rightarrow> t
      | None \<Rightarrow> t\<lparr>keep_days := Some days, alters := Suc (alters t)\<rparr>)"

definition pg_Migrate :: "string option \<Rightarrow> string option \<Rightarrow> string option \<Rightarrow> int \<Rightarrow> retention_state \<Rightarrow>
    boot_error option \<times> retention_state" where
  "pg_Migrate set_dialect up exec retentionDays t =
     (case set_dialect of
        Some e \<Rightarrow> (Some (MigrateError e), t)
      | None \<Rightarrow>
          (case up of
             Some e \<Rightarrow> (Some (MigrateError e), t)
           | None \<Rightarrow>
               (case exec of
                  Some e \<Rightarrow> (Some (RetentionPolicy e), t)
                | None \<Rightarrow> (None, add_retention_policy retentionDays t))))"

definition ttl_text :: "int \<Rightarrow> string" where
  "ttl_text days = ''toIntervalDay('' @ dec_int days @ '')''"

text \<open>
  \<open>applyRetention\<close>: \<open>inspect\<close> answers the count for a pattern, \<open>alter\<close> whether the statement failed.
\<close>

definition ch_applyRetention :: "(string \<Rightarrow> retention_state \<Rightarrow> string + nat) \<Rightarrow> string option \<Rightarrow> int \<Rightarrow> retention_state \<Rightarrow>
    boot_error option \<times> retention_state" where
  "ch_applyRetention inspect alter retentionDays t =
     (case inspect (''%TTL toDateTime(received_at) + '' @ ttl_text retentionDays @ ''%'') t of
        Inl e \<Rightarrow> (Some (InspectRetention e), t)
      | Inr n \<Rightarrow>
          if n = 1 then (None, t)
          else case alter of
                 Some e \<Rightarrow> (Some (SetRetention e), t)
               | None \<Rightarrow> (None, t\<lparr>keep_days := Some retentionDays, alters := Suc (alters t)\<rparr>))"

definition ch_Migrate where
  "ch_Migrate set_dialect up inspect alter retentionDays t =
     (case (case set_dialect of None \<Rightarrow> up | Some e \<Rightarrow> Some e) of
        Some e \<Rightarrow> (Some (MigrateError e), t)
      | None \<Rightarrow> ch_applyRetention inspect alter retentionDays t)"

section \<open>What is shown\<close>

lemma funpow_idem:
  assumes "\<And>t. f (f t) = f t" and "0 < (n :: nat)"
  shows "(f ^^ n) t = f t"
  using assms(2)
proof (induction n)
  case (Suc n)
  then show ?case using assms(1) by (cases n) auto
qed simp

text \<open>What \<open>system.tables\<close> answers: the pattern of an age is found exactly when the table's TTL is that age.\<close>

definition shows_ttl :: "(string \<Rightarrow> retention_state \<Rightarrow> string + nat) \<Rightarrow> bool" where
  "shows_ttl inspect \<longleftrightarrow>
     (\<forall>days t. inspect (''%TTL toDateTime(received_at) + '' @ ttl_text days @ ''%'') t =
        Inr (if keep_days t = Some days then 1 else 0))"

text \<open>
  The ClickHouse boot makes the configured retention the table's, and leaves the table alone when it already is: after
  any number of boots with a setting the TTL is that setting, and only the first of them ran a statement.
\<close>

theorem ch_retention_follows_setting:
  assumes "shows_ttl inspect" and "0 < n"
  shows "((\<lambda>t. snd (ch_Migrate None None inspect None days t)) ^^ n) t =
           t\<lparr>keep_days := Some days, alters := (if keep_days t = Some days then alters t else Suc (alters t))\<rparr>"
proof -
  let ?f = "\<lambda>t. snd (ch_Migrate None None inspect None days t)"
  have f: "?f t = t\<lparr>keep_days := Some days, alters := (if keep_days t = Some days then alters t else Suc (alters t))\<rparr>" for t
    using assms(1) by (cases t) (simp add: ch_Migrate_def ch_applyRetention_def shows_ttl_def)
  have "(?f ^^ n) t = ?f t" using assms(2) by (intro funpow_idem) (simp_all add: f)
  then show ?thesis by (simp only: f)
qed

definition ttl_table :: "string \<Rightarrow> retention_state \<Rightarrow> string + nat" where
  "ttl_table pattern t =
     Inr (case keep_days t of
            Some d \<Rightarrow> if pattern = ''%TTL toDateTime(received_at) + '' @ ttl_text d @ ''%'' then 1 else 0
          | None \<Rightarrow> 0)"

lemma dec_nat_inj: "dec_nat m = dec_nat n \<Longrightarrow> m = n"
  by (metis dec_val_dec_nat)

lemma dec_int_inj: "dec_int i = dec_int j \<Longrightarrow> i = j"
proof -
  assume e: "dec_int i = dec_int j"
  have "hd (dec_nat n) \<noteq> CHR ''-''" for n using hd_dec_nat [of n] by (auto simp: is_digit_def)
  then have neg: "(hd (dec_int k) = CHR ''-'') = (k < 0)" for k by (simp add: dec_int_def)
  from neg [of i] neg [of j] e have "(i < 0) = (j < 0)" by simp
  with e show ?thesis by (auto simp: dec_int_def split: if_splits dest!: dec_nat_inj)
qed

lemma ttl_table_shows: "shows_ttl ttl_table"
  by (auto simp: shows_ttl_def ttl_table_def ttl_text_def dest: dec_int_inj split: option.splits)

theorem ch_retention_follows_setting_witness:
  "((\<lambda>t. snd (ch_Migrate None None ttl_table None 7 t)) ^^ 3) \<lparr>keep_days = Some 30, alters = 1\<rparr> =
     \<lparr>keep_days = Some 7, alters = 2\<rparr>"
  using ch_retention_follows_setting [OF ttl_table_shows, of 3 7 "\<lparr>keep_days = Some 30, alters = 1\<rparr>"]
  by (simp del: funpow.simps)

text \<open>
  The PostgreSQL boot keeps the age of the first boot: whatever the setting is changed to later, the policy of the
  hypertable stays what it was.
\<close>

theorem pg_retention_first_boot_wins:
  "(case pg_Migrate None None None first \<lparr>keep_days = None, alters = 0\<rparr> of
      (_, t) \<Rightarrow> keep_days (snd (pg_Migrate None None None later t))) = Some first"
  by (simp add: pg_Migrate_def add_retention_policy_def)

text \<open>A backend that could not be opened holds no connection; one that was opened gives all of them back on \<open>Close\<close>.\<close>

lemma boot_balanced:
  assumes "h_opened c = h_closed c"
  shows "pg_New newPool ping dsn days c = (r, c') \<Longrightarrow> h_opened (if is_ok r then pg_Close c' else c') =
           h_closed (if is_ok r then pg_Close c' else c')"
    and "ch_New parse_dsn open_conn ping dsn days c = (r, c') \<Longrightarrow> h_opened (if is_ok r then ch_Close c' else c') =
           h_closed (if is_ok r then ch_Close c' else c')"
    and "mdb_New parse_sql sql_open ping dsn days c = (r, c') \<Longrightarrow> h_opened (if is_ok r then pg_Close c' else c') =
           h_closed (if is_ok r then pg_Close c' else c')"
  using assms
  by (auto simp: pg_New_def ch_New_def mdb_New_def pg_Close_def ch_Close_def Let_def
      split: option.splits sum.splits if_splits)

end
