(* ===== verification/Sink_Kafka.thy ===== *)
theory Sink_Kafka
  imports Kafka_Dedup Netip_Text
begin

text \<open>
  \<open>internal/sink/kafka\<close>: the sink that hands a batch to the message bus, one wire message per
  record, keyed by the exporter's address. The client library is not part of this repository:
  \<open>newClient\<close>, \<open>ping\<close> and \<open>produce\<close> stand for it. What the collector relies on is \<open>producer_ok\<close>:
  when a produce call reports success, every partition has grown by the messages whose
  key belongs to it, in the order they were handed over.
\<close>

record 'b krecord =
  kr_Key :: string
  kr_Value :: 'b
  kr_Timestamp :: time

datatype kafka_sink_error =
    KNotConfigured
  | KClient string
  | KPing string
  | KEncode wire_error
  | KProduce nat string string

text \<open>A connected sink: the client and the topic. \<open>New\<close> also says whether it closed the client.\<close>

record 'cl sink =
  cl :: 'cl
  sink_topic :: string

definition New :: "(string list \<Rightarrow> string \<Rightarrow> string + 'cl) \<Rightarrow> ('cl \<Rightarrow> string option) \<Rightarrow>
    string list \<Rightarrow> string \<Rightarrow> (kafka_sink_error + 'cl sink) \<times> bool" where
  "New newClient ping brokers topic =
     (if length brokers = 0 \<or> topic = [] then (Inl KNotConfigured, False)
      else case newClient brokers topic of
             Inl e \<Rightarrow> (Inl (KClient e), False)
           | Inr c \<Rightarrow>
               (case ping c of
                  Some e \<Rightarrow> (Inl (KPing e), True)
                | None \<Rightarrow> (Inr \<lparr>cl = c, sink_topic = topic\<rparr>, False)))"

definition record_for :: "FlowRecord \<Rightarrow> 'b \<Rightarrow> 'b krecord" where
  "record_for r body =
     \<lparr>kr_Key = addr_String (ExporterAddr r), kr_Value = body, kr_Timestamp = ReceivedAt r\<rparr>"

fun encode_all ::
    "(Message \<Rightarrow> string + 'b) \<Rightarrow> FlowRecord list \<Rightarrow> 'b krecord list \<Rightarrow> wire_error + 'b krecord list" where
  "encode_all marshal [] recs = Inr recs"
| "encode_all marshal (r # rs) recs =
     (case Encode marshal r of
        Inl e \<Rightarrow> Inl e
      | Inr body \<Rightarrow> encode_all marshal rs (recs @ [record_for r body]))"

definition WriteBatch :: "(Message \<Rightarrow> string + 'b) \<Rightarrow>
    ('b krecord list \<Rightarrow> 'cluster \<Rightarrow> string option \<times> 'cluster) \<Rightarrow>
    'cl sink \<Rightarrow> FlowRecord list \<Rightarrow> 'cluster \<Rightarrow> kafka_sink_error option \<times> 'cluster" where
  "WriteBatch marshal produce s records bus =
     (if length records = 0 then (None, bus)
      else case encode_all marshal records [] of
             Inl e \<Rightarrow> (Some (KEncode e), bus)
           | Inr recs \<Rightarrow>
               (case produce recs bus of
                  (Some e, bus') \<Rightarrow> (Some (KProduce (length records) (sink_topic s) e), bus')
                | (None, bus') \<Rightarrow> (None, bus')))"

definition Ping :: "('cl \<Rightarrow> string option) \<Rightarrow> 'cl sink \<Rightarrow> kafka_sink_error option" where
  "Ping ping s = map_option KPing (ping (cl s))"

section \<open>Encoding a batch\<close>

lemma encode_all_acc:
  "encode_all marshal rs recs =
     (case encode_all marshal rs [] of Inl e \<Rightarrow> Inl e | Inr new \<Rightarrow> Inr (recs @ new))"
proof (induction rs arbitrary: recs)
  case (Cons r rs)
  show ?case
    using Cons.IH [of "recs @ [record_for r body]" for body] Cons.IH [of "[record_for r body]" for body]
    by (auto split: sum.splits)
qed simp

lemma encode_all_Inr:
  "encode_all marshal rs [] = Inr recs \<longleftrightarrow>
     list_all2 (\<lambda>r k. \<exists>body. Encode marshal r = Inr body \<and> k = record_for r body) rs recs"
proof (induction rs arbitrary: recs)
  case (Cons r rs)
  show ?case
  proof (cases "Encode marshal r")
    case (Inr body)
    have "encode_all marshal rs [record_for r body] = Inr recs \<longleftrightarrow>
        (\<exists>new. encode_all marshal rs [] = Inr new \<and> recs = record_for r body # new)"
      by (subst encode_all_acc) (auto split: sum.splits)
    then show ?thesis using Inr by (simp add: list_all2_Cons1 Cons.IH) blast
  qed (simp add: list_all2_Cons1)
qed auto

lemma encode_all_ok:
  assumes "\<forall>r\<in>set rs. is_ok (Encode marshal r)"
  shows "\<exists>recs. encode_all marshal rs [] = Inr recs"
  using assms
proof (induction rs)
  case (Cons r rs)
  then show ?case
    using encode_all_acc [of marshal rs "[record_for r body]" for body]
    by (auto simp: is_ok_iff split: sum.splits)
qed simp

lemma encode_all_bad:
  assumes "r \<in> set rs" and "\<not> is_ok (Encode marshal r)"
  shows "\<exists>e. encode_all marshal rs [] = Inl e"
proof (cases "encode_all marshal rs []")
  case (Inr recs)
  then show ?thesis
    using assms unfolding encode_all_Inr by (auto simp: list_all2_conv_all_nth in_set_conv_nth)
qed simp

section \<open>The message bus\<close>

text \<open>
  \<open>logs\<close> reads the partitions of the topic off the cluster's state, \<open>part\<close> is the partition a key
  is sent to.
\<close>

definition producer_ok :: "('b krecord list \<Rightarrow> 'cluster \<Rightarrow> string option \<times> 'cluster) \<Rightarrow>
    ('cluster \<Rightarrow> nat \<Rightarrow> 'b krecord list) \<Rightarrow> (string \<Rightarrow> nat) \<Rightarrow> bool" where
  "producer_ok produce logs part \<longleftrightarrow>
     (\<forall>recs bus bus'. produce recs bus = (None, bus') \<longrightarrow>
        (\<forall>p. logs bus' p = logs bus p @ filter (\<lambda>k. part (kr_Key k) = p) recs))"

text \<open>A record as the next tier stores it.\<close>

definition received :: "FlowRecord \<Rightarrow> FlowRecord" where
  "received r = (canonical r)\<lparr>DedupKey := Some (DedupKey_of r)\<rparr>"

text \<open>What the next tier makes of a record's message.\<close>

definition arrives :: "FlowRecord \<Rightarrow> wire_error + FlowRecord" where
  "arrives r = (if complete_record r then Inr (received r) else Inl (refusal r))"

lemma decode_sent:
  assumes "faithful_json marshal unmarshal" and "carried r" and "Encode marshal r = Inr body"
  shows "Decode_keyed unmarshal body t = arrives r"
  using Decode_keyed_Encode(2) [OF assms] by (simp add: arrives_def received_def)

lemma sendable_encodes:
  "faithful_json marshal unmarshal \<Longrightarrow> sendable r \<Longrightarrow> is_ok (Encode marshal r)"
  using sendable_message [of r] by (fastforce simp: faithful_json_def Encode_def)

lemma decode_filtered:
  assumes "faithful_json marshal unmarshal" and "\<forall>r\<in>set rs. carried r"
    and "list_all2 (\<lambda>r k. \<exists>body. Encode marshal r = Inr body \<and> k = record_for r body) rs recs"
  shows "map (\<lambda>k. Decode_keyed unmarshal (kr_Value k) t) (filter (\<lambda>k. P (kr_Key k)) recs) =
    map arrives (filter (\<lambda>r. P (addr_String (ExporterAddr r))) rs)"
  using assms(3,2)
  by (induction rule: list_all2_induct) (auto simp: record_for_def decode_sent [OF assms(1)])

text \<open>
  C12. The two tiers compose: when the sink accepts a batch of records JSON can carry, every partition
  has grown by one message for each record of the batch that belongs to the partition, in their order. Whatever
  timestamps it is handed, the consuming tier decodes a message to its record in canonical form with its dedup
  key, if the record has valid exporter, source and destination addresses, a known flow type and instants that are
  not zero; a record without one of these is accepted by the producing and refused by the consuming tier. Two records
  of one exporter share a partition, so they arrive in the order they were sent.
\<close>

theorem tiers_compose:
  assumes "faithful_json marshal unmarshal" and "producer_ok produce logs part"
    and "\<forall>r\<in>set records. carried r"
    and "WriteBatch marshal produce s records bus = (None, bus')"
  shows "\<exists>new. logs bus' p = logs bus p @ new \<and>
    map (\<lambda>k. Decode_keyed unmarshal (kr_Value k) t) new =
    map (\<lambda>r. if complete_record r then Inr ((canonical r)\<lparr>DedupKey := Some (DedupKey_of r)\<rparr>) else Inl (refusal r))
      (filter (\<lambda>r. part (addr_String (ExporterAddr r)) = p) records)"
proof (cases "records = []")
  case True
  then show ?thesis using assms(4) by (simp add: WriteBatch_def)
next
  case False
  obtain recs where recs: "encode_all marshal records [] = Inr recs" "produce recs bus = (None, bus')"
    using assms(4) False by (auto simp: WriteBatch_def split: sum.splits prod.splits option.splits)
  then have "logs bus' p = logs bus p @ filter (\<lambda>k. part (kr_Key k) = p) recs"
    using assms(2) by (auto simp: producer_ok_def)
  then show ?thesis
    using decode_filtered [OF assms(1,3) recs(1) [unfolded encode_all_Inr], where P = "\<lambda>k. part k = p"]
    unfolding arrives_def received_def by blast
qed

definition demo_bus :: "Message krecord list \<Rightarrow> Message krecord list \<Rightarrow> string option \<times> Message krecord list"
  where "demo_bus recs log = (None, log @ recs)"

definition demo_sink :: "unit sink" where
  "demo_sink = \<lparr>cl = (), sink_topic = ''flows''\<rparr>"

lemma demo_sent_sendable: "sendable demo_sent"
  by (simp add: sendable_def demo_sent_def zero_record_def json_time_def micro_eq time_units
      is_zero_def zero_time_def unix_to_internal_def)

definition no_start :: FlowRecord where
  "no_start = demo_sent\<lparr>FirstSwitched := zero_time\<rparr>"

lemma no_start_carried: "carried no_start \<and> \<not> complete_record no_start \<and> refusal no_start = NoSwitched"
  by (auto simp: no_start_def carried_def complete_record_def refusal_def json_message_def message_of_def demo_sent_def
      zero_record_def json_time_def micro_eq time_units is_zero_def zero_time_def unix_to_internal_def Format_def
      FlowTypeIPFIX_def Valid_def flow_types)

lemma tiers_compose_witness:
  "\<exists>new. snd (WriteBatch Inr demo_bus demo_sink [demo_sent, no_start] []) = new \<and>
     map (\<lambda>k. Decode_keyed Inr (kr_Value k) 5) new =
       [Inr ((canonical demo_sent)\<lparr>DedupKey := Some (DedupKey_of demo_sent)\<rparr>), Inl NoSwitched]"
proof -
  have f: "faithful_json Inr Inr" by (simp add: faithful_json_def)
  have p: "producer_ok demo_bus (\<lambda>log p. if p = 0 then log else []) (\<lambda>_. 0)"
    by (simp add: producer_ok_def demo_bus_def)
  have w: "WriteBatch Inr demo_bus demo_sink [demo_sent, no_start] [] =
      (None, [record_for demo_sent (message_of demo_sent), record_for no_start (message_of no_start)])"
    by (simp add: WriteBatch_def demo_bus_def Encode_def)
  have s: "carried demo_sent \<and> complete_record demo_sent" using demo_sent_sendable by (simp add: sendable_iff)
  have "\<forall>r\<in>set [demo_sent, no_start]. carried r" using s no_start_carried by simp
  from tiers_compose [OF f p this w, where p = 0 and t = 5] w s no_start_carried show ?thesis by simp
qed

text \<open>
  A batch is refused as a whole: when a record cannot be encoded, nothing of the batch is
  handed to the message bus and the sink reports the encoding error.
\<close>

theorem kafka_sink_refuses_whole_batch:
  assumes "r \<in> set records" and "\<not> is_ok (Encode marshal r)"
  shows "\<exists>e. WriteBatch marshal produce s records bus = (Some (KEncode e), bus)"
proof -
  obtain e where "encode_all marshal records [] = Inl e" using encode_all_bad [OF assms] by blast
  moreover have "length records \<noteq> 0" using assms(1) by auto
  ultimately show ?thesis by (simp add: WriteBatch_def)
qed

definition year_10000 :: FlowRecord where
  "year_10000 = demo_sent\<lparr>LastSwitched := 253402300800 * Second\<rparr>"

lemma kafka_sink_refuses_whole_batch_witness:
  "\<exists>e. WriteBatch (\<lambda>m. if json_message m then Inr m else Inl ''year outside of range'') demo_bus
     demo_sink [demo_sent, year_10000] [] = (Some (KEncode e), [])"
  by (rule kafka_sink_refuses_whole_batch [of year_10000])
    (simp_all add: Encode_def json_message_def message_of_def year_10000_def json_time_def
      demo_sent_def micro_eq time_units)

end
