(* ===== verification/Netflow_Templates.thy ===== *)
theory Netflow_Templates
  imports Netflow_Decode Netip_Text
begin

text \<open>
  \<open>internal/source/netflow/templates.go\<close>: sharing v9/IPFIX templates between instances. The
  template systems and the template records are goflow2's and not part of this repository:
  \<open>add\<close>, \<open>get\<close> and \<open>remove\<close> stand for three methods of an inner system \<open>'in\<close>, the three record
  types are type parameters and their JSON form is an argument (\<open>template_json\<close>). The library
  parser is \<open>drive\<close>: for a datagram, the program of calls it makes on the methods of whatever system it
  is given, each continued with the answer of the call. \<open>GetTemplates\<close>, the fourth method, only
  forwards and the parser does not call it; it is left out.
\<close>

section \<open>Store keys\<close>

datatype key_error = KeyShape | KeyExporter | KeyVersion | KeyDomain | KeyId

definition templateKey :: "Addr \<Rightarrow> u16 \<Rightarrow> u32 \<Rightarrow> u16 \<Rightarrow> string" where
  "templateKey exporter version domain i =
     addr_String exporter @ ''/'' @ dec_nat (unat version) @ ''/'' @ dec_nat (unat domain) @ ''/'' @
     dec_nat (unat i)"

definition parseTemplateKey :: "string \<Rightarrow> key_error + Addr \<times> u16 \<times> u32 \<times> u16" where
  "parseTemplateKey key =
     (case split_at_char (CHR ''/'') key of
        [p0, p1, p2, p3] \<Rightarrow>
          (case ParseAddr p0 of
             None \<Rightarrow> Inl KeyExporter
           | Some exporter \<Rightarrow>
               (case ParseUint p1 16 of
                  Inl _ \<Rightarrow> Inl KeyVersion
                | Inr v \<Rightarrow>
                    (case ParseUint p2 32 of
                       Inl _ \<Rightarrow> Inl KeyDomain
                     | Inr d \<Rightarrow>
                         (case ParseUint p3 16 of
                            Inl _ \<Rightarrow> Inl KeyId
                          | Inr i \<Rightarrow> Inr (exporter, of_nat v, of_nat d, of_nat i)))))
      | _ \<Rightarrow> Inl KeyShape)"

section \<open>Stored values\<close>

datatype ('t, 'n, 'i) tpl =
    TemplateRecord 't
  | NFv9OptionsTemplateRecord 'n
  | IPFIXOptionsTemplateRecord 'i
  | UnknownTemplate

definition kindTemplate :: string where "kindTemplate = ''template''"
definition kindNFv9Options :: string where "kindNFv9Options = ''nfv9-options''"
definition kindIPFIXOptions :: string where "kindIPFIXOptions = ''ipfix-options''"

lemmas template_kinds = kindTemplate_def kindNFv9Options_def kindIPFIXOptions_def

record 'raw templateEnvelope =
  Kind :: string
  Record :: 'raw

record ('t, 'n, 'i, 'raw, 'body) template_json =
  marshal_tpl :: "('t, 'n, 'i) tpl \<Rightarrow> string + 'raw"
  unmarshal_t :: "'raw \<Rightarrow> string + 't"
  unmarshal_n :: "'raw \<Rightarrow> string + 'n"
  unmarshal_i :: "'raw \<Rightarrow> string + 'i"
  marshal_env :: "'raw templateEnvelope \<Rightarrow> string + 'body"
  unmarshal_env :: "'body \<Rightarrow> string + 'raw templateEnvelope"

datatype template_error = UnknownType | UnknownKind string | JsonError string

fun kind_of :: "('t, 'n, 'i) tpl \<Rightarrow> string option" where
  "kind_of (TemplateRecord _) = Some kindTemplate"
| "kind_of (NFv9OptionsTemplateRecord _) = Some kindNFv9Options"
| "kind_of (IPFIXOptionsTemplateRecord _) = Some kindIPFIXOptions"
| "kind_of UnknownTemplate = None"

fun json_result :: "('a \<Rightarrow> 'b) \<Rightarrow> string + 'a \<Rightarrow> template_error + 'b" where
  "json_result f (Inl e) = Inl (JsonError e)"
| "json_result f (Inr x) = Inr (f x)"

definition encodeTemplate ::
    "('t, 'n, 'i, 'raw, 'body) template_json \<Rightarrow> ('t, 'n, 'i) tpl \<Rightarrow> template_error + 'body" where
  "encodeTemplate js t =
     (case kind_of t of
        None \<Rightarrow> Inl UnknownType
      | Some kind \<Rightarrow>
          (case marshal_tpl js t of
             Inl e \<Rightarrow> Inl (JsonError e)
           | Inr rec \<Rightarrow> json_result id (marshal_env js \<lparr>Kind = kind, Record = rec\<rparr>)))"

definition decodeTemplate ::
    "('t, 'n, 'i, 'raw, 'body) template_json \<Rightarrow> 'body \<Rightarrow> template_error + ('t, 'n, 'i) tpl" where
  "decodeTemplate js b =
     (case unmarshal_env js b of
        Inl e \<Rightarrow> Inl (JsonError e)
      | Inr env \<Rightarrow>
          if Kind env = kindTemplate
          then json_result TemplateRecord (unmarshal_t js (Record env))
          else if Kind env = kindNFv9Options
          then json_result NFv9OptionsTemplateRecord (unmarshal_n js (Record env))
          else if Kind env = kindIPFIXOptions
          then json_result IPFIXOptionsTemplateRecord (unmarshal_i js (Record env))
          else Inl (UnknownKind (Kind env)))"

section \<open>The publishing system\<close>

text \<open>
  What the decoder keeps per exporter. A publishing system carries, beside the inner system and
  the exporter, the templates it has handed to \<open>enqueue\<close> and that have not been moved to the
  queue yet.
\<close>

datatype ('t, 'n, 'i, 'in) tsystem =
    Inner (inner: 'in)
  | PublishingSystem (inner: 'in) (ps_exporter: Addr) (outbox: "(string \<times> ('t, 'n, 'i) tpl) list")

type_synonym ('t, 'n, 'i, 'in) add_fun =
  "u16 \<Rightarrow> u32 \<Rightarrow> u16 \<Rightarrow> ('t, 'n, 'i) tpl \<Rightarrow> 'in \<Rightarrow> string option \<times> 'in"

type_synonym ('t, 'n, 'i, 'in) get_fun = "u16 \<Rightarrow> u32 \<Rightarrow> u16 \<Rightarrow> 'in \<Rightarrow> ('t, 'n, 'i) tpl option"

type_synonym ('t, 'n, 'i, 'in) remove_fun = "u16 \<Rightarrow> u32 \<Rightarrow> u16 \<Rightarrow> 'in \<Rightarrow> ('t, 'n, 'i) tpl option \<times> 'in"

fun AddTemplate :: "('t, 'n, 'i, 'in) add_fun \<Rightarrow> u16 \<Rightarrow> u32 \<Rightarrow> u16 \<Rightarrow> ('t, 'n, 'i) tpl \<Rightarrow>
    ('t, 'n, 'i, 'in) tsystem \<Rightarrow> string option \<times> ('t, 'n, 'i, 'in) tsystem" where
  "AddTemplate add v d i t (Inner s) = (case add v d i t s of (e, s') \<Rightarrow> (e, Inner s'))"
| "AddTemplate add v d i t (PublishingSystem s exp out) =
     (case add v d i t s of
        (Some e, s') \<Rightarrow> (Some e, PublishingSystem s' exp out)
      | (None, s') \<Rightarrow> (None, PublishingSystem s' exp (out @ [(templateKey exp v d i, t)])))"

text \<open>A lookup or a removal that answers with an error is \<open>None\<close>.\<close>

definition GetTemplate :: "('t, 'n, 'i, 'in) get_fun \<Rightarrow> u16 \<Rightarrow> u32 \<Rightarrow> u16 \<Rightarrow>
    ('t, 'n, 'i, 'in) tsystem \<Rightarrow> ('t, 'n, 'i) tpl option" where
  "GetTemplate get v d i sys = get v d i (inner sys)"

fun RemoveTemplate :: "('t, 'n, 'i, 'in) remove_fun \<Rightarrow> u16 \<Rightarrow> u32 \<Rightarrow> u16 \<Rightarrow>
    ('t, 'n, 'i, 'in) tsystem \<Rightarrow> ('t, 'n, 'i) tpl option \<times> ('t, 'n, 'i, 'in) tsystem" where
  "RemoveTemplate remove v d i (Inner s) = (case remove v d i s of (t, s') \<Rightarrow> (t, Inner s'))"
| "RemoveTemplate remove v d i (PublishingSystem s exp out) =
     (case remove v d i s of (t, s') \<Rightarrow> (t, PublishingSystem s' exp out))"

text \<open>\<open>sharing.system\<close>: the constructor of the decoder's systems when there is a store.\<close>

definition system :: "'in \<Rightarrow> Addr \<Rightarrow> ('t, 'n, 'i, 'in) tsystem" where
  "system fresh exp = PublishingSystem fresh exp []"

text \<open>
  A parser as a program over the methods of a template system: it returns, or calls a method and goes
  on with its answer. It is run on any system through that system's methods.
\<close>

datatype ('t, 'n, 'i, 'r) parser =
    Returns 'r
  | CallsAdd u16 u32 u16 "('t, 'n, 'i) tpl" "string option \<Rightarrow> ('t, 'n, 'i, 'r) parser"
  | CallsGet u16 u32 u16 "('t, 'n, 'i) tpl option \<Rightarrow> ('t, 'n, 'i, 'r) parser"
  | CallsRemove u16 u32 u16 "('t, 'n, 'i) tpl option \<Rightarrow> ('t, 'n, 'i, 'r) parser"

type_synonym ('t, 'n, 'i) driver = "byte list \<Rightarrow> ('t, 'n, 'i, string + v9_packet \<times> ipfix_packet) parser"

primrec run_parser :: "('t, 'n, 'i, 's) add_fun \<Rightarrow> ('t, 'n, 'i, 's) get_fun \<Rightarrow> ('t, 'n, 'i, 's) remove_fun \<Rightarrow>
    ('t, 'n, 'i, 'r) parser \<Rightarrow> 's \<Rightarrow> 'r \<times> 's" where
  "run_parser add get remove (Returns r) s = (r, s)"
| "run_parser add get remove (CallsAdd v d i t k) s =
     (case add v d i t s of (e, s') \<Rightarrow> run_parser add get remove (k e) s')"
| "run_parser add get remove (CallsGet v d i k) s = run_parser add get remove (k (get v d i s)) s"
| "run_parser add get remove (CallsRemove v d i k) s =
     (case remove v d i s of (t, s') \<Rightarrow> run_parser add get remove (k t) s')"

text \<open>The library on the plain systems, and on the systems of a decoder that may share its templates.\<close>

definition inner_lib :: "('t, 'n, 'i) driver \<Rightarrow> ('t, 'n, 'i, 'in) add_fun \<Rightarrow> ('t, 'n, 'i, 'in) get_fun \<Rightarrow>
    ('t, 'n, 'i, 'in) remove_fun \<Rightarrow> 'in templated_lib" where
  "inner_lib drive add get remove b s = run_parser add get remove (drive b) s"

definition system_lib :: "('t, 'n, 'i) driver \<Rightarrow> ('t, 'n, 'i, 'in) add_fun \<Rightarrow> ('t, 'n, 'i, 'in) get_fun \<Rightarrow>
    ('t, 'n, 'i, 'in) remove_fun \<Rightarrow> ('t, 'n, 'i, 'in) tsystem templated_lib" where
  "system_lib drive add get remove b sys =
     run_parser (AddTemplate add) (GetTemplate get) (RemoveTemplate remove) (drive b) sys"

section \<open>The queue, the publisher and the store\<close>

definition publishQueue :: nat where "publishQueue = 1024"

record 'body sharing =
  queue :: "(string \<times> 'body) list"
  not_shared :: nat

definition newSharing :: "'body sharing" where
  "newSharing = \<lparr>queue = [], not_shared = 0\<rparr>"

definition enqueue :: "('t, 'n, 'i, 'raw, 'body) template_json \<Rightarrow> string \<Rightarrow> ('t, 'n, 'i) tpl \<Rightarrow>
    'body sharing \<Rightarrow> 'body sharing" where
  "enqueue js key t sh =
     (case encodeTemplate js t of
        Inl _ \<Rightarrow> sh\<lparr>not_shared := not_shared sh + 1\<rparr>
      | Inr value \<Rightarrow>
          (case chan_try_send publishQueue (queue sh) (key, value) of
             Some q \<Rightarrow> sh\<lparr>queue := q\<rparr>
           | None \<Rightarrow> sh\<lparr>not_shared := not_shared sh + 1\<rparr>))"

text \<open>One round of \<open>publish\<close>: a failed \<open>Put\<close> is logged and the template is not retried.\<close>

definition publish :: "(string \<Rightarrow> 'body \<Rightarrow> 'store \<Rightarrow> string option \<times> 'store) \<Rightarrow>
    'body sharing \<times> 'store \<Rightarrow> ('body sharing \<times> 'store) option" where
  "publish put st =
     (case st of (sh, store) \<Rightarrow>
        (case chan_try_recv (queue sh) of
           None \<Rightarrow> None
         | Some ((key, value), q) \<Rightarrow>
             (case put key value store of
                (None, store') \<Rightarrow> Some (sh\<lparr>queue := q\<rparr>, store')
              | (Some _, store') \<Rightarrow>
                  Some (sh\<lparr>queue := q, not_shared := not_shared sh + 1\<rparr>, store'))))"

definition set_system :: "Addr \<Rightarrow> 'ts \<Rightarrow> 'ts decoder \<Rightarrow> 'ts decoder" where
  "set_system exp sys d = d\<lparr>templates := (templates d)(exp \<mapsto> sys)\<rparr>"

definition apply_template :: "('t, 'n, 'i, 'raw, 'body) template_json \<Rightarrow> ('t, 'n, 'i, 'in) add_fun \<Rightarrow>
    string \<Rightarrow> 'body \<Rightarrow> ('t, 'n, 'i, 'in) tsystem decoder \<Rightarrow> ('t, 'n, 'i, 'in) tsystem decoder" where
  "apply_template js add key value d =
     (case parseTemplateKey key of
        Inl _ \<Rightarrow> d
      | Inr (exp, v, domain, i) \<Rightarrow>
          (case decodeTemplate js value of
             Inl _ \<Rightarrow> d
           | Inr t \<Rightarrow>
               (case templatesFor exp d of
                  (Inner s, d1) \<Rightarrow> d1
                | (PublishingSystem s e out, d1) \<Rightarrow>
                    set_system exp (PublishingSystem (snd (add v domain i t s)) e out) d1)))"

section \<open>Keys round trip\<close>

lemma slash_not_hex: "\<not> is_hex (CHR ''/'')"
  by (simp add: is_hex_def hex_digit_val_def)

lemma slash_not_in_dec_nat [simp]: "CHR ''/'' \<notin> set (dec_nat n)"
  by (rule dec_nat_no_char) (simp add: is_digit_def)

lemma slash_not_in_string4 [simp]: "CHR ''/'' \<notin> set (string4 w)"
proof -
  obtain a b c d where w: "be32 w = [a, b, c, d]" using four_bytes by blast
  show ?thesis by (simp add: string4_def w)
qed

lemma slash_not_in_groups: "CHR ''/'' \<notin> set (groups_text gs)"
  using colons_chars slash_not_hex by (fastforce simp: groups_text_def split: option.splits)

lemma slash_not_in_String: "zone_free a \<Longrightarrow> CHR ''/'' \<notin> set (addr_String a)"
  by (cases a) (auto simp: slash_not_in_groups)

lemma split_templateKey:
  assumes "zone_free e"
  shows "split_at_char (CHR ''/'') (templateKey e v d i) =
    [addr_String e, dec_nat (unat v), dec_nat (unat d), dec_nat (unat i)]"
  using slash_not_in_String [OF assms]
  by (simp add: templateKey_def split_at_char_join split_at_char_none)

lemma parse_templateKey:
  assumes "is_valid e" and "zone_free e"
  shows "parseTemplateKey (templateKey e v d i) = Inr (e, v, d, i)"
  using assms unat_bound [of v] unat_bound [of d] unat_bound [of i]
  by (simp add: parseTemplateKey_def split_templateKey ParseAddr_String ParseUint_dec_nat)

lemma parse_templateKey_invalid: "parseTemplateKey (templateKey AddrZero v d i) = Inl KeyExporter"
  by (simp add: parseTemplateKey_def split_templateKey ParseAddr_invalid del: addr_String.simps)

text \<open>
  The store key of a template identifies it: for every exporter address a datagram can come
  from, the key parses back to exactly the exporter, version, observation domain and
  template id it was made of, so two different templates never share a key.
\<close>

theorem template_key_roundtrip:
  assumes "is_valid e" and "zone_free e"
  shows "parseTemplateKey (templateKey e v d i) = Inr (e, v, d, i) \<and>
    (is_valid e' \<and> zone_free e' \<and> templateKey e v d i = templateKey e' v' d' i' \<longrightarrow>
       (e, v, d, i) = (e', v', d', i'))"
proof (intro conjI impI)
  show "parseTemplateKey (templateKey e v d i) = Inr (e, v, d, i)"
    by (rule parse_templateKey [OF assms])
next
  assume "is_valid e' \<and> zone_free e' \<and> templateKey e v d i = templateKey e' v' d' i'"
  then have "(Inr (e, v, d, i) :: key_error + _) = Inr (e', v', d', i')"
    by (metis parse_templateKey assms)
  then show "(e, v, d, i) = (e', v', d', i')" by simp
qed

lemma template_key_roundtrip_witness:
  "parseTemplateKey (templateKey (Addr6 0x20010db8000000000000000000000009 []) 10 4294967295 256) =
     Inr (Addr6 0x20010db8000000000000000000000009 [], 10, 4294967295, 256)"
  using template_key_roundtrip [of "Addr6 0x20010db8000000000000000000000009 []" 10 4294967295 256]
  by simp

section \<open>Values round trip\<close>

text \<open>The JSON of the library's template records and of the envelope loses nothing.\<close>

definition faithful_templates :: "('t, 'n, 'i, 'raw, 'body) template_json \<Rightarrow> bool" where
  "faithful_templates js \<longleftrightarrow>
     (\<forall>t. \<exists>raw. marshal_tpl js (TemplateRecord t) = Inr raw \<and> unmarshal_t js raw = Inr t) \<and>
     (\<forall>n. \<exists>raw. marshal_tpl js (NFv9OptionsTemplateRecord n) = Inr raw \<and> unmarshal_n js raw = Inr n) \<and>
     (\<forall>i. \<exists>raw. marshal_tpl js (IPFIXOptionsTemplateRecord i) = Inr raw \<and> unmarshal_i js raw = Inr i) \<and>
     (\<forall>env. \<exists>b. marshal_env js env = Inr b \<and> unmarshal_env js b = Inr env)"

lemma template_roundtrip:
  assumes "faithful_templates js" and "t \<noteq> UnknownTemplate"
  shows "\<exists>b. encodeTemplate js t = Inr b \<and> decodeTemplate js b = Inr t"
proof -
  obtain kind where k: "kind_of t = Some kind" using assms(2) by (cases t) auto
  have "\<exists>raw. marshal_tpl js t = Inr raw \<and>
      (\<forall>b. unmarshal_env js b = Inr \<lparr>Kind = kind, Record = raw\<rparr> \<longrightarrow> decodeTemplate js b = Inr t)"
  proof (cases t)
    case (TemplateRecord a)
    obtain raw where "marshal_tpl js t = Inr raw" "unmarshal_t js raw = Inr a"
      using assms(1) unfolding faithful_templates_def TemplateRecord by blast
    then show ?thesis
      using TemplateRecord k by (auto simp: decodeTemplate_def template_kinds)
  next
    case (NFv9OptionsTemplateRecord a)
    obtain raw where "marshal_tpl js t = Inr raw" "unmarshal_n js raw = Inr a"
      using assms(1) unfolding faithful_templates_def NFv9OptionsTemplateRecord by blast
    then show ?thesis
      using NFv9OptionsTemplateRecord k by (auto simp: decodeTemplate_def template_kinds)
  next
    case (IPFIXOptionsTemplateRecord a)
    obtain raw where "marshal_tpl js t = Inr raw" "unmarshal_i js raw = Inr a"
      using assms(1) unfolding faithful_templates_def IPFIXOptionsTemplateRecord by blast
    then show ?thesis
      using IPFIXOptionsTemplateRecord k by (auto simp: decodeTemplate_def template_kinds)
  qed (use assms(2) in simp)
  then obtain raw where raw: "marshal_tpl js t = Inr raw"
    "\<And>b. unmarshal_env js b = Inr \<lparr>Kind = kind, Record = raw\<rparr> \<Longrightarrow> decodeTemplate js b = Inr t"
    by blast
  obtain b where "marshal_env js \<lparr>Kind = kind, Record = raw\<rparr> = Inr b"
    "unmarshal_env js b = Inr \<lparr>Kind = kind, Record = raw\<rparr>"
    using assms(1) unfolding faithful_templates_def by blast
  then show ?thesis using raw k by (auto simp: encodeTemplate_def)
qed

section \<open>Publishing does not change decoding\<close>

definition strip :: "('t, 'n, 'i, 'in) tsystem decoder \<Rightarrow> 'in decoder" where
  "strip d = \<lparr>templates = map_option inner \<circ> templates d, newSystem = inner \<circ> newSystem d\<rparr>"

text \<open>The methods of a publishing system answer as those of the system inside, and change it alike.\<close>

lemma AddTemplate_inner:
  "fst (AddTemplate add v d i t sys) = fst (add v d i t (inner sys))"
  "inner (snd (AddTemplate add v d i t sys)) = snd (add v d i t (inner sys))"
  by (cases sys; auto split: prod.splits option.splits)+

lemma RemoveTemplate_inner:
  "fst (RemoveTemplate remove v d i sys) = fst (remove v d i (inner sys))"
  "inner (snd (RemoveTemplate remove v d i sys)) = snd (remove v d i (inner sys))"
  by (cases sys; auto split: prod.splits)+

lemma run_parser_inner:
  "run_parser add get remove p (inner sys) =
     apsnd inner (run_parser (AddTemplate add) (GetTemplate get) (RemoveTemplate remove) p sys)"
proof (induction p arbitrary: sys)
  case (CallsAdd v d i t k)
  then show ?case
    using AddTemplate_inner [of add v d i t sys] CallsAdd.IH [OF rangeI, of _ "snd (AddTemplate add v d i t sys)"]
    by (simp add: case_prod_unfold)
next
  case (CallsRemove v d i k)
  then show ?case
    using RemoveTemplate_inner [of remove v d i sys]
      CallsRemove.IH [OF rangeI, of _ "snd (RemoveTemplate remove v d i sys)"]
    by (simp add: case_prod_unfold)
qed (simp_all add: GetTemplate_def)

lemma templatesFor_strip:
  "templatesFor e (strip d) = (inner (fst (templatesFor e d)), strip (snd (templatesFor e d)))"
  by (cases "templates d e") (auto simp: templatesFor_def strip_def Let_def)

lemma decodeTemplated_strip:
  "decodeTemplated (inner_lib drive add get remove) b e t (strip d) =
     apsnd strip (decodeTemplated (system_lib drive add get remove) b e t d)"
proof -
  obtain sys d1 where s: "templatesFor e d = (sys, d1)" by fastforce
  obtain res sys' where dr:
      "run_parser (AddTemplate add) (GetTemplate get) (RemoveTemplate remove) (drive b) sys = (res, sys')"
    by fastforce
  have "strip (d1\<lparr>templates := (templates d1)(e \<mapsto> x)\<rparr>) =
      (strip d1)\<lparr>templates := (templates (strip d1))(e \<mapsto> inner x)\<rparr>" for x
    by (auto simp: strip_def)
  then show ?thesis
    by (auto simp: decodeTemplated_def templatesFor_strip s inner_lib_def system_lib_def
        run_parser_inner dr Let_def split: sum.splits)
qed

text \<open>
  C24. Sharing templates is transparent to decoding. Whatever calls the library makes on the template
  system it is given, and however it goes on from their answers, errors included, a decoder whose
  systems publish returns for every datagram exactly what a decoder on the plain systems returns,
  and its template systems are the plain ones behind the publishing hook.
\<close>

theorem sharing_transparent:
  "decode lib5 (inner_lib drive add get remove) b e t (strip d) =
     apsnd strip (decode lib5 (system_lib drive add get remove) b e t d)"
  by (simp add: decode_def Let_def decodeTemplated_strip)

section \<open>From one instance to another\<close>

definition lawful_system :: "('t, 'n, 'i, 'in) add_fun \<Rightarrow> ('t, 'n, 'i, 'in) get_fun \<Rightarrow> bool" where
  "lawful_system add get \<longleftrightarrow>
     (\<forall>v d i t s s' v' d' i'. add v d i t s = (None, s') \<longrightarrow>
        get v' d' i' s' = (if (v', d', i') = (v, d, i) then Some t else get v' d' i' s)) \<and>
     (\<forall>v d i t s s'. fst (add v d i t s) = fst (add v d i t s'))"

lemma lawful_add:
  "lawful_system add get \<Longrightarrow> fst (add v d i t s) = None \<Longrightarrow>
     get v' d' i' (snd (add v d i t s')) = (if (v', d', i') = (v, d, i) then Some t else get v' d' i' s')"
  unfolding lawful_system_def by (metis prod.collapse)

definition shared_decoder :: "('t, 'n, 'i, 'in) tsystem decoder \<Rightarrow> bool" where
  "shared_decoder d \<longleftrightarrow> (\<forall>e. \<exists>s out. fst (templatesFor e d) = PublishingSystem s e out)"

lemma apply_template_eq:
  assumes "parseTemplateKey key = Inr (e, v, d, i)" and "decodeTemplate js val = Inr t"
    and "fst (templatesFor e dec) = PublishingSystem s e' out"
  shows "fst (templatesFor e (apply_template js add key val dec)) =
    PublishingSystem (snd (add v d i t s)) e' out"
proof -
  obtain d1 where "templatesFor e dec = (PublishingSystem s e' out, d1)"
    using assms(3) by (metis prod.collapse)
  then show ?thesis
    using assms(1,2) by (simp add: apply_template_def set_system_def templatesFor_fst)
qed

lemma apply_template_other:
  assumes "\<And>v d i. parseTemplateKey key \<noteq> Inr (e, v, d, i)"
  shows "fst (templatesFor e (apply_template js add key val dec)) = fst (templatesFor e dec)"
proof -
  have other: "fst (templatesFor e (snd (templatesFor x dec))) = fst (templatesFor e dec)"
    if "x \<noteq> e" for x
    using that by (simp add: templatesFor_def Let_def split: option.splits)
  have newS: "newSystem (snd (templatesFor x dec)) = newSystem dec" for x
    by (simp add: templatesFor_def Let_def split: option.splits)
  show ?thesis
  proof (cases "parseTemplateKey key")
    case (Inr k)
    obtain x v d i where k: "k = (x, v, d, i)" by (cases k) auto
    then have "x \<noteq> e" using assms Inr by auto
    obtain sys d1 where s: "templatesFor x dec = (sys, d1)" by fastforce
    show ?thesis
      using Inr k s \<open>x \<noteq> e\<close> other [of x] templatesFor_other [of e x dec] newS [of x]
      by (cases sys)
        (auto simp: apply_template_def set_system_def templatesFor_fst
          split: sum.splits option.splits)
  qed (simp add: apply_template_def)
qed

section \<open>What an instance publishes\<close>

text \<open>The calls a run of the parser makes that change a plain system, and the templates they add as the hook
  hands them to \<open>enqueue\<close>.\<close>

datatype ('t, 'n, 'i) tcall =
    CallAdd u16 u32 u16 "('t, 'n, 'i) tpl"
  | CallRemove u16 u32 u16

primrec calls :: "('t, 'n, 'i, 's) add_fun \<Rightarrow> ('t, 'n, 'i, 's) get_fun \<Rightarrow> ('t, 'n, 'i, 's) remove_fun \<Rightarrow>
    ('t, 'n, 'i, 'r) parser \<Rightarrow> 's \<Rightarrow> ('t, 'n, 'i) tcall list" where
  "calls add get remove (Returns r) s = []"
| "calls add get remove (CallsAdd v d i t k) s =
     CallAdd v d i t # (case add v d i t s of (e, s') \<Rightarrow> calls add get remove (k e) s')"
| "calls add get remove (CallsGet v d i k) s = calls add get remove (k (get v d i s)) s"
| "calls add get remove (CallsRemove v d i k) s =
     CallRemove v d i # (case remove v d i s of (t, s') \<Rightarrow> calls add get remove (k t) s')"

fun inner_call where
  "inner_call add remove (CallAdd v d i t) s = snd (add v d i t s)"
| "inner_call add remove (CallRemove v d i) s = snd (remove v d i s)"

fun accepted where
  "accepted add remove e [] s = []"
| "accepted add remove e (CallAdd v d i t # cs) s =
     (case add v d i t s of
        (Some _, s') \<Rightarrow> accepted add remove e cs s'
      | (None, s') \<Rightarrow> (templateKey e v d i, t) # accepted add remove e cs s')"
| "accepted add remove e (CallRemove v d i # cs) s = accepted add remove e cs (snd (remove v d i s))"

lemma run_parser_calls:
  "snd (run_parser add get remove p s) = fold (inner_call add remove) (calls add get remove p s) s"
  by (induction p arbitrary: s) (auto simp: case_prod_unfold)

lemma run_parser_publishing:
  "run_parser (AddTemplate add) (GetTemplate get) (RemoveTemplate remove) p (PublishingSystem s e out) =
     (fst (run_parser add get remove p s),
      PublishingSystem (snd (run_parser add get remove p s)) e
        (out @ accepted add remove e (calls add get remove p s) s))"
proof (induction p arbitrary: s out)
  case (CallsAdd v d i t k)
  obtain err s' where "add v d i t s = (err, s')" by fastforce
  then show ?case using CallsAdd by (cases err) simp_all
qed (auto simp: GetTemplate_def case_prod_unfold)

text \<open>The calls of \<open>enqueue\<close> a decoded datagram has made, moved to the queue in their order.\<close>

definition flush_outbox :: "('t, 'n, 'i, 'raw, 'body) template_json \<Rightarrow> Addr \<Rightarrow>
    ('t, 'n, 'i, 'in) tsystem decoder \<times> 'body sharing \<Rightarrow>
    ('t, 'n, 'i, 'in) tsystem decoder \<times> 'body sharing" where
  "flush_outbox js e st =
     (case st of (d, sh) \<Rightarrow>
        (case templates d e of
           Some (PublishingSystem s x out) \<Rightarrow>
             (set_system e (PublishingSystem s x []) d, fold (\<lambda>(key, t). enqueue js key t) out sh)
         | _ \<Rightarrow> (d, sh)))"

lemma enqueue_bound: "length (queue sh) \<le> publishQueue \<Longrightarrow> length (queue (enqueue js k t sh)) \<le> publishQueue"
  by (auto simp: enqueue_def chan_try_send_def split: sum.splits)

lemma enqueue_accounts:
  "length (queue (enqueue js k t sh)) + not_shared (enqueue js k t sh) =
     Suc (length (queue sh) + not_shared sh)"
  by (auto simp: enqueue_def chan_try_send_def split: sum.splits)

lemma fold_enqueue_bound:
  "length (queue sh) \<le> publishQueue \<Longrightarrow>
     length (queue (fold (\<lambda>(key, t). enqueue js key t) es sh)) \<le> publishQueue"
  by (induction es arbitrary: sh) (auto simp: enqueue_bound)

lemma fold_enqueue_accounts:
  "length (queue (fold (\<lambda>(key, t). enqueue js key t) es sh)) +
     not_shared (fold (\<lambda>(key, t). enqueue js key t) es sh) =
     length es + length (queue sh) + not_shared sh"
  by (induction es arbitrary: sh) (auto simp: enqueue_accounts)

lemma fold_enqueue_room:
  assumes "length (queue sh) + length es \<le> publishQueue"
    and "\<forall>(key, t)\<in>set es. \<exists>b. encodeTemplate js t = Inr b"
  shows "fold (\<lambda>(key, t). enqueue js key t) es sh =
    sh\<lparr>queue := queue sh @ map (\<lambda>(key, t). (key, projr (encodeTemplate js t))) es\<rparr>"
  using assms
proof (induction es arbitrary: sh)
  case (Cons e es)
  obtain k t where e: "e = (k, t)" by fastforce
  obtain b where b: "encodeTemplate js t = Inr b" using Cons.prems(2) e by auto
  have "enqueue js k t sh = sh\<lparr>queue := queue sh @ [(k, b)]\<rparr>"
    using b Cons.prems(1) by (simp add: enqueue_def chan_try_send_def)
  then show ?case using Cons.prems Cons.IH [of "sh\<lparr>queue := queue sh @ [(k, b)]\<rparr>"] e b by simp
qed simp

text \<open>
  The publish queue never blocks the read loop and never grows beyond 1024 templates, and no
  template is lost without being counted: after the hook has handed over any number of
  templates, those waiting and those reported as not shared add up to all of them.
\<close>

theorem publish_queue_accounts:
  assumes "length (queue sh) \<le> publishQueue" and "flush_outbox js e (d, sh) = (d', sh')"
    and "templates d e = Some (PublishingSystem s x out)"
  shows "length (queue sh') \<le> publishQueue \<and>
    length (queue sh') + not_shared sh' = length out + length (queue sh) + not_shared sh \<and>
    templates d' e = Some (PublishingSystem s x [])"
  using assms fold_enqueue_bound [OF assms(1), of js out] fold_enqueue_accounts [of js out sh]
  by (auto simp: flush_outbox_def set_system_def)

definition demo_json :: "(nat, nat, nat, (nat, nat, nat) tpl, (nat, nat, nat) tpl templateEnvelope) template_json" where
  "demo_json = \<lparr>marshal_tpl = Inr,
     unmarshal_t = (\<lambda>t. case t of TemplateRecord a \<Rightarrow> Inr a | _ \<Rightarrow> Inl ''type''),
     unmarshal_n = (\<lambda>t. case t of NFv9OptionsTemplateRecord a \<Rightarrow> Inr a | _ \<Rightarrow> Inl ''type''),
     unmarshal_i = (\<lambda>t. case t of IPFIXOptionsTemplateRecord a \<Rightarrow> Inr a | _ \<Rightarrow> Inl ''type''),
     marshal_env = Inr, unmarshal_env = Inr\<rparr>"

definition demo_add :: "(nat, nat, nat, u16 \<times> u32 \<times> u16 \<Rightarrow> (nat, nat, nat) tpl option) add_fun" where
  "demo_add v d i t s = (None, s((v, d, i) \<mapsto> t))"

definition demo_get :: "(nat, nat, nat, u16 \<times> u32 \<times> u16 \<Rightarrow> (nat, nat, nat) tpl option) get_fun" where
  "demo_get v d i s = s (v, d, i)"

definition demo_remove :: "(nat, nat, nat, u16 \<times> u32 \<times> u16 \<Rightarrow> (nat, nat, nat) tpl option) remove_fun" where
  "demo_remove v d i s = (s (v, d, i), s((v, d, i) := None))"

lemma demo_json_faithful: "faithful_templates demo_json"
  by (simp add: faithful_templates_def demo_json_def)

lemma demo_lawful: "lawful_system demo_add demo_get"
  by (auto simp: lawful_system_def demo_add_def demo_get_def)

definition demo_outbox :: "(string \<times> (nat, nat, nat) tpl) list" where
  "demo_outbox = [(templateKey (Addr4 1) 9 0 256, TemplateRecord 7), (''k'', UnknownTemplate)]"

definition demo_shared :: "(nat, nat, nat, nat) tsystem decoder" where
  "demo_shared = set_system (Addr4 1) (PublishingSystem 0 (Addr4 1) demo_outbox)
     \<lparr>templates = Map.empty, newSystem = system 0\<rparr>"

lemma publish_queue_accounts_witness:
  "length (queue (snd (flush_outbox demo_json (Addr4 1) (demo_shared, newSharing)))) +
     not_shared (snd (flush_outbox demo_json (Addr4 1) (demo_shared, newSharing))) = 2"
proof -
  obtain d' sh' where f: "flush_outbox demo_json (Addr4 1) (demo_shared, newSharing) = (d', sh')"
    by fastforce
  have q: "length (queue newSharing) \<le> publishQueue" by (simp add: newSharing_def)
  have t: "templates demo_shared (Addr4 1) = Some (PublishingSystem 0 (Addr4 1) demo_outbox)"
    by (simp add: demo_shared_def set_system_def)
  show ?thesis
    using publish_queue_accounts [OF q f t] f by (simp add: demo_outbox_def newSharing_def)
qed

section \<open>Replaying the store\<close>

definition replay where
  "replay js add log d = fold (\<lambda>(key, val). apply_template js add key val) log d"

text \<open>The newest template of a log under a key: what the store promises an instance.\<close>

fun latest :: "('t, 'n, 'i, 'raw, 'body) template_json \<Rightarrow> Addr \<times> u16 \<times> u32 \<times> u16 \<Rightarrow>
    (string \<times> 'body) list \<Rightarrow> ('t, 'n, 'i) tpl option" where
  "latest js k [] = None"
| "latest js k ((key, val) # log) =
     (case latest js k log of
        Some t \<Rightarrow> Some t
      | None \<Rightarrow>
          if parseTemplateKey key = Inr k
          then (case decodeTemplate js val of Inl _ \<Rightarrow> None | Inr t \<Rightarrow> Some t) else None)"

definition accepts_known :: "('t, 'n, 'i, 'in) add_fun \<Rightarrow> bool" where
  "accepts_known add \<longleftrightarrow> (\<forall>v d i t s. t \<noteq> UnknownTemplate \<longrightarrow> fst (add v d i t s) = None)"

lemma json_result_Inr: "json_result f x = Inr y \<longleftrightarrow> (\<exists>a. x = Inr a \<and> y = f a)"
  by (cases x) auto

lemma decodeTemplate_known: "decodeTemplate js b = Inr t \<Longrightarrow> t \<noteq> UnknownTemplate"
  by (auto simp: decodeTemplate_def json_result_Inr split: if_splits sum.splits)

lemma replay_simps [simp]:
  "replay js add [] d = d"
  "replay js add ((key, val) # log) d = replay js add log (apply_template js add key val d)"
  "replay js add (log @ log') d = replay js add log' (replay js add log d)"
  by (simp_all add: replay_def)

lemma apply_shared:
  assumes "fst (templatesFor e d) = PublishingSystem s e out"
  shows "\<exists>s'. fst (templatesFor e (apply_template js add key val d)) = PublishingSystem s' e out"
proof (cases "\<exists>v dm i. parseTemplateKey key = Inr (e, v, dm, i)")
  case True
  then obtain v dm i where k: "parseTemplateKey key = Inr (e, v, dm, i)" by blast
  show ?thesis
  proof (cases "decodeTemplate js val")
    case (Inl x)
    then show ?thesis using k assms by (simp add: apply_template_def)
  next
    case (Inr t)
    then show ?thesis using apply_template_eq [OF k Inr assms] by blast
  qed
next
  case False
  then show ?thesis using apply_template_other [of key e js add val d] assms by simp
qed

lemma apply_get:
  assumes "lawful_system add get" and "accepts_known add"
    and "fst (templatesFor e d) = PublishingSystem s e out"
  shows "GetTemplate get v dm i (fst (templatesFor e (apply_template js add key val d))) =
    (case latest js (e, v, dm, i) [(key, val)] of
       Some t \<Rightarrow> Some t
     | None \<Rightarrow> GetTemplate get v dm i (fst (templatesFor e d)))"
proof (cases "\<exists>v' dm' i'. parseTemplateKey key = Inr (e, v', dm', i')")
  case True
  then obtain v' dm' i' where k: "parseTemplateKey key = Inr (e, v', dm', i')" by blast
  show ?thesis
  proof (cases "decodeTemplate js val")
    case (Inl x)
    then show ?thesis using k assms(3) by (simp add: apply_template_def)
  next
    case (Inr t)
    have "fst (add v' dm' i' t s) = None"
      using assms(2) decodeTemplate_known [OF Inr] by (simp add: accepts_known_def)
    then show ?thesis
      using apply_template_eq [OF k Inr assms(3), of add] Inr k assms(3)
        lawful_add [OF assms(1), of v' dm' i' t s v dm i s] by (auto simp: GetTemplate_def)
  qed
next
  case False
  then show ?thesis using apply_template_other [of key e js add val d] by simp
qed

lemma replay_get:
  assumes "lawful_system add get" and "accepts_known add"
    and "fst (templatesFor e d) = PublishingSystem s e out"
  shows "GetTemplate get v dm i (fst (templatesFor e (replay js add log d))) =
      (case latest js (e, v, dm, i) log of
         Some t \<Rightarrow> Some t
       | None \<Rightarrow> GetTemplate get v dm i (fst (templatesFor e d)))"
    and "\<exists>s'. fst (templatesFor e (replay js add log d)) = PublishingSystem s' e out"
proof -
  show "GetTemplate get v dm i (fst (templatesFor e (replay js add log d))) =
      (case latest js (e, v, dm, i) log of
         Some t \<Rightarrow> Some t
       | None \<Rightarrow> GetTemplate get v dm i (fst (templatesFor e d)))"
    using assms(3)
  proof (induction log arbitrary: d s)
    case (Cons kv log)
    obtain key val where kv: "kv = (key, val)" by fastforce
    obtain s' where "fst (templatesFor e (apply_template js add key val d)) = PublishingSystem s' e out"
      using apply_shared [OF Cons.prems, of js add key val] by blast
    from Cons.IH [OF this] show ?case
      using apply_get [OF assms(1,2) Cons.prems, of v dm i js key val] kv
      by (auto split: option.splits)
  qed simp
  show "\<exists>s'. fst (templatesFor e (replay js add log d)) = PublishingSystem s' e out"
    using assms(3)
  proof (induction log arbitrary: d s)
    case (Cons kv log)
    obtain key val where kv: "kv = (key, val)" by fastforce
    obtain s' where "fst (templatesFor e (apply_template js add key val d)) = PublishingSystem s' e out"
      using apply_shared [OF Cons.prems, of js add key val] by blast
    from Cons.IH [OF this] show ?case using kv by simp
  qed simp
qed

section \<open>Compaction\<close>

inductive compacts :: "(string \<times> 'body) list \<Rightarrow> (string \<times> 'body) list \<Rightarrow> bool" where
  keep: "compacts log log"
| drop_older: "compacts log (xs @ (key, val) # ys) \<Longrightarrow> key \<in> fst ` set ys \<Longrightarrow> compacts log (xs @ ys)"

lemma latest_append:
  "latest js k (xs @ ys) = (case latest js k ys of Some t \<Rightarrow> Some t | None \<Rightarrow> latest js k xs)"
  by (induction xs) (auto split: option.splits)

definition readable_values :: "('t, 'n, 'i, 'raw, 'body) template_json \<Rightarrow> (string \<times> 'body) list \<Rightarrow> bool" where
  "readable_values js log \<longleftrightarrow> list_all (\<lambda>(key, val). is_ok (decodeTemplate js val)) log"

lemma latest_present:
  assumes "readable_values js ys" and "key \<in> fst ` set ys" and "parseTemplateKey key = Inr k"
  shows "latest js k ys \<noteq> None"
  using assms
proof (induction ys)
  case (Cons y ys)
  then show ?case
    by (cases y; cases "key \<in> fst ` set ys")
      (auto simp: readable_values_def is_ok_iff split: option.splits sum.splits)
qed simp

lemma compacts_latest:
  assumes "compacts log log'" and "readable_values js log"
  shows "latest js k log' = latest js k log \<and> readable_values js log'"
  using assms
proof (induction rule: compacts.induct)
  case (drop_older log xs key val ys)
  have r: "readable_values js (xs @ (key, val) # ys)" using drop_older by simp
  have "latest js k ((key, val) # ys) = latest js k ys"
    using latest_present [of js ys key k] r drop_older.hyps(2)
    by (auto simp: readable_values_def split: option.splits)
  then have "latest js k (xs @ (key, val) # ys) = latest js k (xs @ ys)"
    by (simp only: latest_append)
  moreover have "readable_values js (xs @ ys)" using r by (simp add: readable_values_def)
  ultimately show ?case using drop_older by simp
qed simp

text \<open>
  A replay of the template topic, compacted or not, gives an instance every template any
  instance has published: after the replay, the system of an exporter answers a lookup with the
  newest template published under that key, and with what it knew before where nothing
  was published; nothing it received from the store is published again.
\<close>

theorem replay_gives_newest_template:
  assumes "lawful_system add get" and "accepts_known add" and "compacts log log'"
    and "readable_values js log" and "fst (templatesFor e d) = PublishingSystem s e out"
  shows "GetTemplate get v dm i (fst (templatesFor e (replay js add log' d))) =
      (case latest js (e, v, dm, i) log of
         Some t \<Rightarrow> Some t
       | None \<Rightarrow> GetTemplate get v dm i (fst (templatesFor e d))) \<and>
    outbox (fst (templatesFor e (replay js add log' d))) = out"
proof -
  obtain s' where "fst (templatesFor e (replay js add log' d)) = PublishingSystem s' e out"
    using replay_get(2) [OF assms(1,2,5)] by blast
  then show ?thesis
    using replay_get(1) [OF assms(1,2,5), of v dm i js log'] compacts_latest [OF assms(3,4)] by simp
qed

lemma replay_gives_newest_template_witness:
  "GetTemplate demo_get 9 0 256 (fst (templatesFor (Addr4 1)
     (replay demo_json demo_add
        [(templateKey (Addr4 1) 9 0 256, projr (encodeTemplate demo_json (TemplateRecord 2)))]
        \<lparr>templates = Map.empty, newSystem = system Map.empty\<rparr>))) = Some (TemplateRecord 2)"
proof -
  let ?k = "templateKey (Addr4 1) 9 0 256"
  let ?v = "\<lambda>n. projr (encodeTemplate demo_json (TemplateRecord n))"
  let ?d = "\<lparr>templates = Map.empty, newSystem = system Map.empty\<rparr>"
  have acc: "accepts_known demo_add" by (simp add: accepts_known_def demo_add_def)
  have c: "compacts [(?k, ?v 1), (?k, ?v 2)] ([] @ [(?k, ?v 2)])"
    by (rule drop_older [of _ "[]" ?k "?v 1"]) (auto intro: keep)
  have dec: "decodeTemplate demo_json (?v n) = Inr (TemplateRecord n)" for n
    by (simp add: encodeTemplate_def decodeTemplate_def demo_json_def template_kinds)
  have r: "readable_values demo_json [(?k, ?v 1), (?k, ?v 2)]"
    using dec by (simp add: readable_values_def)
  have s: "fst (templatesFor (Addr4 1) ?d) = PublishingSystem Map.empty (Addr4 1) []"
    by (simp add: templatesFor_def system_def Let_def)
  have "latest demo_json (Addr4 1, 9, 0, 256) [(?k, ?v 1), (?k, ?v 2)] = Some (TemplateRecord 2)"
    using parse_templateKey [of "Addr4 1" 9 0 256] dec by simp
  then show ?thesis
    using replay_gives_newest_template [OF demo_lawful acc c r s, of 9 0 256] by simp
qed

section \<open>A learned template reaches the fleet\<close>

definition published_entries :: "('t, 'n, 'i, 'raw, 'body) template_json \<Rightarrow>
    (string \<times> ('t, 'n, 'i) tpl) list \<Rightarrow> (string \<times> 'body) list" where
  "published_entries js es = map (\<lambda>(key, t). (key, projr (encodeTemplate js t))) es"

fun learns_only :: "('t, 'n, 'i) tcall list \<Rightarrow> bool" where
  "learns_only [] = True"
| "learns_only (CallAdd v d i t # cs) = (t \<noteq> UnknownTemplate \<and> learns_only cs)"
| "learns_only (CallRemove v d i # cs) = False"

lemma latest_accepted:
  assumes js: "faithful_templates js" and law: "lawful_system add get" and acc: "accepts_known add"
    and e: "is_valid e" "zone_free e" and "learns_only cs"
  shows "get v d i (fold (inner_call add remove) cs s) =
    (case latest js (e, v, d, i) (published_entries js (accepted add remove e cs s)) of
       Some t \<Rightarrow> Some t | None \<Rightarrow> get v d i s)"
  using assms(6)
proof (induction cs arbitrary: s)
  case (Cons c cs)
  obtain v' d' i' t where c: "c = CallAdd v' d' i' t" and t: "t \<noteq> UnknownTemplate" "learns_only cs"
    using Cons.prems by (cases c) auto
  obtain s' where s': "add v' d' i' t s = (None, s')"
    using acc t(1) unfolding accepts_known_def by (metis prod.collapse)
  obtain b where b: "encodeTemplate js t = Inr b" "decodeTemplate js b = Inr t"
    using template_roundtrip [OF js t(1)] by blast
  have "get v d i s' = (if (v, d, i) = (v', d', i') then Some t else get v d i s)"
    using lawful_add [OF law, of v' d' i' t s v d i s] s' by simp
  then show ?case
    using Cons.IH [OF t(2), of s'] c s' b parse_templateKey [OF e, of v' d' i']
    by (auto simp: published_entries_def split: option.splits)
qed (simp add: published_entries_def)

lemma latest_added:
  assumes "accepts_known add" and "is_valid e" "zone_free e" and "faithful_templates js"
    and "learns_only cs" and "CallAdd v d i t \<in> set cs"
  shows "latest js (e, v, d, i) (published_entries js (accepted add remove e cs s)) \<noteq> None"
  using assms(5,6)
proof (induction cs arbitrary: s)
  case (Cons c cs)
  obtain v' d' i' t' where c: "c = CallAdd v' d' i' t'" and t: "t' \<noteq> UnknownTemplate" "learns_only cs"
    using Cons.prems by (cases c) auto
  obtain s' where s': "add v' d' i' t' s = (None, s')"
    using assms(1) t(1) unfolding accepts_known_def by (metis prod.collapse)
  obtain b where b: "encodeTemplate js t' = Inr b" "decodeTemplate js b = Inr t'"
    using template_roundtrip [OF assms(4) t(1)] by blast
  show ?case
    using Cons.IH [OF t(2), of s'] Cons.prems(2) c s' b parse_templateKey [OF assms(2,3), of v' d' i']
    by (auto simp: published_entries_def split: option.splits)
qed simp

text \<open>
  C25. A template learned by one instance is known to every other: when an instance decodes a
  datagram that adds templates, and the entries its hook hands over are replayed by
  another instance, then for each of those templates the other instance's system answers exactly
  as the first one's does, so data records decode alike at both.
\<close>

theorem learned_template_reaches_fleet:
  assumes "faithful_templates js" and "lawful_system add get" and "accepts_known add"
    and "is_valid e" "zone_free e"
    and "fst (templatesFor e dA) = PublishingSystem sA e outA"
    and "fst (templatesFor e dB) = PublishingSystem sB e outB"
    and "calls add get remove (drive b) sA = cs" and "learns_only cs" and "CallAdd v dm i t \<in> set cs"
    and "sysA = fst (templatesFor e (snd (decodeTemplated (system_lib drive add get remove) b e now dA)))"
    and "entries = published_entries js (drop (length outA) (outbox sysA))"
  shows "GetTemplate get v dm i (fst (templatesFor e (replay js add entries dB))) =
    GetTemplate get v dm i sysA"
proof -
  have sys: "sysA = PublishingSystem (fold (inner_call add remove) cs sA) e
      (outA @ accepted add remove e cs sA)"
    using assms(6,8,11)
    by (simp add: decodeTemplated_templates system_lib_def run_parser_publishing run_parser_calls)
  have en: "entries = published_entries js (accepted add remove e cs sA)"
    using assms(12) sys by simp
  obtain t' where t': "latest js (e, v, dm, i) entries = Some t'"
    using latest_added [OF assms(3,4,5,1,9,10)] en by blast
  have "GetTemplate get v dm i (fst (templatesFor e (replay js add entries dB))) = Some t'"
    using replay_get(1) [OF assms(2,3,7), of v dm i js entries] t' by simp
  moreover have "GetTemplate get v dm i sysA = Some t'"
    using latest_accepted [OF assms(1-5,9), of v dm i remove sA] t' en sys by (simp add: GetTemplate_def)
  ultimately show ?thesis by simp
qed

definition demo_drive :: "(nat, nat, nat) driver" where
  "demo_drive b =
     CallsGet 9 0 256 (\<lambda>known.
       CallsAdd 9 0 256 (TemplateRecord (if known = None then 1 else 3)) (\<lambda>err.
         CallsAdd 9 0 256 (TemplateRecord 2) (\<lambda>err'. Returns (Inl ''no data''))))"

lemma learned_template_reaches_fleet_witness:
  "GetTemplate demo_get 9 0 256 (fst (templatesFor (Addr4 1)
     (replay demo_json demo_add
       (published_entries demo_json (outbox (fst (templatesFor (Addr4 1)
          (snd (decodeTemplated (system_lib demo_drive demo_add demo_get demo_remove) [0, 9] (Addr4 1) 0
             \<lparr>templates = Map.empty, newSystem = system Map.empty\<rparr>))))))
        \<lparr>templates = Map.empty, newSystem = system Map.empty\<rparr>))) = Some (TemplateRecord 2)"
proof -
  let ?d = "\<lparr>templates = Map.empty, newSystem = system Map.empty\<rparr> ::
    (nat, nat, nat, u16 \<times> u32 \<times> u16 \<Rightarrow> (nat, nat, nat) tpl option) tsystem decoder"
  let ?cs = "[CallAdd 9 0 256 (TemplateRecord 1), CallAdd 9 0 256 (TemplateRecord 2)] :: (nat, nat, nat) tcall list"
  have acc: "accepts_known demo_add" by (simp add: accepts_known_def demo_add_def)
  have v: "is_valid (Addr4 1)" "zone_free (Addr4 1)" by simp_all
  have s: "fst (templatesFor (Addr4 1) ?d) = PublishingSystem Map.empty (Addr4 1) []"
    by (simp add: templatesFor_def system_def Let_def)
  have dr: "calls demo_add demo_get demo_remove (demo_drive [0, 9]) Map.empty = ?cs"
    by (simp add: demo_drive_def demo_add_def demo_get_def)
  have l: "learns_only ?cs" by simp
  have m: "CallAdd 9 0 256 (TemplateRecord 2) \<in> set ?cs" by simp
  show ?thesis
    using learned_template_reaches_fleet [where drive = demo_drive and b = "[0, 9]",
        OF demo_json_faithful demo_lawful acc v s s dr l m refl refl, of 0]
    by (simp add: decodeTemplated_templates s system_lib_def demo_drive_def demo_add_def GetTemplate_def
        demo_get_def)
qed

end
