(* ===== verification/Template_Store.thy ===== *)
theory Template_Store
  imports Netflow_Templates "HOL-Library.AList" "HOL-Library.Sublist"
begin

text \<open>
  \<open>internal/templatestore\<close>: the template store on a compacted topic. The bus client is not
  part of this repository; its calls are arguments (\<open>newClient\<close>, \<open>ping\<close>, \<open>create\<close>, \<open>produce\<close>) or
  appear as what they returned (the consumer, the listed end offsets, the polls). \<open>Watch\<close> is modelled as the run
  over the polls it makes.
\<close>

record 'b trecord =
  t_Key :: string
  t_Value :: 'b
  t_Partition :: nat
  t_Offset :: nat

datatype kerr = TopicAlreadyExists | OtherKerr string

datatype store_error =
    StoreNotConfigured
  | StoreClient string
  | StorePing string
  | StoreCreate string kerr
  | StorePublish string string
  | StoreConsumer string
  | StoreEndOffsets string
  | StoreFetch nat string

record 'cl kafka_store =
  ks_brokers :: "string list"
  ks_topic :: string
  ks_cl :: 'cl

text \<open>The result of \<open>CreateTopic\<close>: its error and, when there is none, the error in its response.\<close>

definition ensureCompacted :: "string \<Rightarrow> kerr option \<times> kerr option \<Rightarrow> store_error option" where
  "ensureCompacted topic res =
     (case res of
        (Some e, _) \<Rightarrow> if e \<noteq> TopicAlreadyExists then Some (StoreCreate topic e) else None
      | (None, Some e) \<Rightarrow> if e \<noteq> TopicAlreadyExists then Some (StoreCreate topic e) else None
      | (None, None) \<Rightarrow> None)"

text \<open>The second component tells whether the client was closed again.\<close>

definition NewKafka :: "(string list \<Rightarrow> string \<Rightarrow> string + 'cl) \<Rightarrow> ('cl \<Rightarrow> string option) \<Rightarrow>
    ('cl \<Rightarrow> string \<Rightarrow> kerr option \<times> kerr option) \<Rightarrow> string list \<Rightarrow> string \<Rightarrow>
    (store_error + 'cl kafka_store) \<times> bool" where
  "NewKafka newClient ping create brokers topic =
     (if length brokers = 0 \<or> topic = [] then (Inl StoreNotConfigured, False)
      else case newClient brokers topic of
             Inl e \<Rightarrow> (Inl (StoreClient e), False)
           | Inr c \<Rightarrow>
               (case ping c of
                  Some e \<Rightarrow> (Inl (StorePing e), True)
                | None \<Rightarrow>
                    (case ensureCompacted topic (create c topic) of
                       Some e \<Rightarrow> (Inl e, True)
                     | None \<Rightarrow>
                         (Inr \<lparr>ks_brokers = brokers, ks_topic = topic, ks_cl = c\<rparr>, False))))"

definition Put :: "(string \<times> 'b \<Rightarrow> 'bus \<Rightarrow> string option \<times> 'bus) \<Rightarrow> string \<Rightarrow> 'b \<Rightarrow> 'bus \<Rightarrow>
    store_error option \<times> 'bus" where
  "Put produce key val bus =
     (case produce (key, val) bus of
        (Some e, bus') \<Rightarrow> (Some (StorePublish key e), bus')
      | (None, bus') \<Rightarrow> (None, bus'))"

section \<open>Watch\<close>

text \<open>
  One partition of the listing: an offset, \<open>-1\<close> where the client could not list it, and then the error.
\<close>

record listed_offset =
  lo_Partition :: nat
  lo_Offset :: int
  lo_Err :: "string option"

record 's watch =
  wt_state :: 's
  remaining :: "(nat \<times> int) list"
  synced_calls :: nat

definition remaining_of :: "listed_offset list \<Rightarrow> (nat \<times> int) list" where
  "remaining_of ends =
     fold (\<lambda>lo m. if lo_Offset lo > 0 then AList.update (lo_Partition lo) (lo_Offset lo) m else m) ends []"

definition watch_start :: "listed_offset list \<Rightarrow> 's \<Rightarrow> 's watch" where
  "watch_start ends s =
     (let rem = remaining_of ends
      in \<lparr>wt_state = s, remaining = rem, synced_calls = (if length rem = 0 then 1 else 0)\<rparr>)"

definition on_record :: "(string \<Rightarrow> 'b \<Rightarrow> 's \<Rightarrow> 's) \<Rightarrow> 'b trecord \<Rightarrow> 's watch \<Rightarrow> 's watch" where
  "on_record apply r w =
     (let w1 = w\<lparr>wt_state := apply (t_Key r) (t_Value r) (wt_state w)\<rparr>
      in case map_of (remaining w) (t_Partition r) of
           Some n \<Rightarrow>
             if int (t_Offset r) + 1 \<ge> n
             then let rem = AList.delete (t_Partition r) (remaining w)
                  in w1\<lparr>remaining := rem,
                       synced_calls := synced_calls w + (if length rem = 0 then 1 else 0)\<rparr>
             else w1
         | None \<Rightarrow> w1)"

text \<open>
  What a poll comes back with: the context is done, or fetch errors (\<open>None\<close> for
  \<open>context.Canceled\<close>) and records.
\<close>

datatype 'b watch_poll = PollDone | Fetches "(nat \<times> string option) list" "'b trecord list"

datatype watch_end = Watching | WatchReturned "store_error option"

fun fetch_error :: "(nat \<times> string option) list \<Rightarrow> store_error option" where
  "fetch_error [] = None"
| "fetch_error ((p, None) # es) = fetch_error es"
| "fetch_error ((p, Some e) # es) = Some (StoreFetch p e)"

fun watch_loop :: "(string \<Rightarrow> 'b \<Rightarrow> 's \<Rightarrow> 's) \<Rightarrow> 'b watch_poll list \<Rightarrow> 's watch \<Rightarrow> watch_end \<times> 's watch" where
  "watch_loop apply [] w = (Watching, w)"
| "watch_loop apply (PollDone # polls) w = (WatchReturned None, w)"
| "watch_loop apply (Fetches errs recs # polls) w =
     (case fetch_error errs of
        Some e \<Rightarrow> (WatchReturned (Some e), w)
      | None \<Rightarrow> watch_loop apply polls (fold (on_record apply) recs w))"

text \<open>\<open>Watch\<close>, with what creating the consumer and listing the end offsets came back with.\<close>

definition Watch :: "(string \<Rightarrow> 'b \<Rightarrow> 's \<Rightarrow> 's) \<Rightarrow> string option \<Rightarrow> string + listed_offset list \<Rightarrow>
    'b watch_poll list \<Rightarrow> 's \<Rightarrow> watch_end \<times> 's watch" where
  "Watch apply consumer listing polls s =
     (let unstarted = \<lparr>wt_state = s, remaining = [], synced_calls = 0\<rparr>
      in case consumer of
           Some e \<Rightarrow> (WatchReturned (Some (StoreConsumer e)), unstarted)
         | None \<Rightarrow>
             (case listing of
                Inl e \<Rightarrow> (WatchReturned (Some (StoreEndOffsets e)), unstarted)
              | Inr ends \<Rightarrow> watch_loop apply polls (watch_start ends s)))"

section \<open>The records a run has processed\<close>

fun delivered :: "'b watch_poll list \<Rightarrow> 'b trecord list" where
  "delivered [] = []"
| "delivered (PollDone # polls) = []"
| "delivered (Fetches errs recs # polls) =
     (case fetch_error errs of Some e \<Rightarrow> [] | None \<Rightarrow> recs @ delivered polls)"

lemma watch_loop_state:
  "snd (watch_loop apply polls w) = fold (on_record apply) (delivered polls) w"
proof (induction polls arbitrary: w)
  case (Cons p polls)
  then show ?case by (cases p) (auto split: option.splits)
qed simp

lemma on_record_state [simp]:
  "wt_state (on_record apply r w) = apply (t_Key r) (t_Value r) (wt_state w)"
  by (simp add: on_record_def Let_def split: option.splits)

lemma fold_record_state:
  "wt_state (fold (on_record apply) rs w) =
     fold (\<lambda>r. apply (t_Key r) (t_Value r)) rs (wt_state w)"
  by (induction rs arbitrary: w) simp_all

definition reached :: "'b trecord list \<Rightarrow> nat \<Rightarrow> int \<Rightarrow> bool" where
  "reached rs p n \<longleftrightarrow> (\<exists>r\<in>set rs. t_Partition r = p \<and> n \<le> int (t_Offset r) + 1)"

text \<open>Every partition listed as not empty has delivered a record at or behind its end.\<close>

definition replay_done :: "listed_offset list \<Rightarrow> 'b trecord list \<Rightarrow> bool" where
  "replay_done ends rs \<longleftrightarrow>
     list_all (\<lambda>lo. 0 < lo_Offset lo \<longrightarrow> reached rs (lo_Partition lo) (lo_Offset lo)) ends"

lemma replay_doneD:
  "replay_done ends rs \<Longrightarrow> lo \<in> set ends \<Longrightarrow> 0 < lo_Offset lo \<Longrightarrow> reached rs (lo_Partition lo) (lo_Offset lo)"
  by (simp add: replay_done_def list_all_iff)

lemma reached_snoc:
  "reached (rs @ [r]) p n \<longleftrightarrow> reached rs p n \<or> (t_Partition r = p \<and> n \<le> int (t_Offset r) + 1)"
  by (auto simp: reached_def)

lemma Nil_iff_map_of: "m = [] \<longleftrightarrow> map_of m = Map.empty"
  by (cases m) (auto simp: fun_eq_iff)

text \<open>What is left after some records, and how often \<open>synced\<close> has been called.\<close>

definition sync_ok :: "'s watch \<Rightarrow> bool" where
  "sync_ok w \<longleftrightarrow> synced_calls w = (if remaining w = [] then 1 else 0)"

lemma on_record_remaining:
  "map_of (remaining (on_record apply r w)) p =
     (case map_of (remaining w) p of
        None \<Rightarrow> None
      | Some n \<Rightarrow> if t_Partition r = p \<and> n \<le> int (t_Offset r) + 1 then None else Some n)"
  by (auto simp: on_record_def Let_def delete_conv split: option.splits)

lemma on_record_sync: "sync_ok w \<Longrightarrow> sync_ok (on_record apply r w)"
  by (cases "remaining w = []") (auto simp: sync_ok_def on_record_def Let_def split: option.splits)

lemma fold_record_sync: "sync_ok w \<Longrightarrow> sync_ok (fold (on_record apply) rs w)"
  by (induction rs arbitrary: w) (simp_all add: on_record_sync)

lemma fold_record_remaining:
  "map_of (remaining (fold (on_record apply) rs w)) p =
     (case map_of (remaining w) p of
        None \<Rightarrow> None
      | Some n \<Rightarrow> if reached rs p n then None else Some n)"
proof (induction rs rule: rev_induct)
  case Nil
  show ?case by (simp add: reached_def split: option.splits)
next
  case (snoc r rs)
  then show ?case by (simp add: on_record_remaining reached_snoc split: option.splits)
qed

lemma map_of_updates:
  assumes "distinct (map lo_Partition es)"
  shows "map_of (fold (\<lambda>lo m. if lo_Offset lo > 0 then AList.update (lo_Partition lo) (lo_Offset lo) m else m) es m) p =
      Some n \<longleftrightarrow>
    (\<exists>lo\<in>set es. lo_Partition lo = p \<and> lo_Offset lo = n \<and> 0 < n) \<or>
    (list_all (\<lambda>lo. lo_Partition lo = p \<longrightarrow> lo_Offset lo \<le> 0) es \<and> map_of m p = Some n)"
  using assms
proof (induction es arbitrary: m)
  case (Cons lo es)
  have fresh: "\<forall>lo'\<in>set es. lo_Partition lo' \<noteq> lo_Partition lo" and d: "distinct (map lo_Partition es)"
    using Cons.prems by (simp_all, metis image_eqI)
  have m: "map_of (if lo_Offset lo > 0 then AList.update (lo_Partition lo) (lo_Offset lo) m else m) p =
      (if 0 < lo_Offset lo \<and> p = lo_Partition lo then Some (lo_Offset lo) else map_of m p)"
    by (simp add: update_conv')
  show ?case
    unfolding fold_simps Cons.IH [OF d] m list_all_iff using fresh
    by (cases "p = lo_Partition lo"; cases "0 < lo_Offset lo") (simp_all, blast+)
qed simp

lemma map_of_remaining_of:
  "distinct (map lo_Partition ends) \<Longrightarrow> map_of (remaining_of ends) p = Some n \<longleftrightarrow>
     (\<exists>lo\<in>set ends. lo_Partition lo = p \<and> lo_Offset lo = n \<and> 0 < n)"
  by (simp add: remaining_of_def map_of_updates)

lemma sync_start: "sync_ok (watch_start ends s)"
  by (simp add: sync_ok_def watch_start_def Let_def)

lemma watch_remaining_Nil:
  assumes "distinct (map lo_Partition ends)"
  shows "remaining (fold (on_record apply) rs (watch_start ends s)) = [] \<longleftrightarrow>
    replay_done ends rs"
proof -
  let ?w = "fold (on_record apply) rs (watch_start ends s)"
  have start: "remaining (watch_start ends s) = remaining_of ends"
    by (simp add: watch_start_def Let_def)
  have left: "map_of (remaining ?w) p = Some n \<longleftrightarrow>
      (\<exists>lo\<in>set ends. lo_Partition lo = p \<and> lo_Offset lo = n \<and> 0 < n) \<and> \<not> reached rs p n" for p n
    using map_of_remaining_of [OF assms, of p n]
    by (cases "map_of (remaining_of ends) p") (auto simp: fold_record_remaining start)
  have "remaining ?w = [] \<longleftrightarrow> (\<forall>p n. map_of (remaining ?w) p \<noteq> Some n)"
    unfolding Nil_iff_map_of [of "remaining ?w"] by (metis not_None_eq ext)
  also have "\<dots> \<longleftrightarrow> replay_done ends rs" unfolding left replay_done_def list_all_iff by blast
  finally show ?thesis .
qed

section \<open>What \<open>synced\<close> means\<close>

text \<open>
  Per partition, the log of the topic with increasing offsets (compaction leaves gaps), and
  a consumer from the start: what it has been given is a prefix of the partition.
\<close>

definition topic_log :: "(nat \<Rightarrow> 'b trecord list) \<Rightarrow> bool" where
  "topic_log topic \<longleftrightarrow> (\<forall>p. sorted_wrt (<) (map t_Offset (topic p)) \<and> (\<forall>r\<in>set (topic p). t_Partition r = p))"

definition from_start :: "(nat \<Rightarrow> 'b trecord list) \<Rightarrow> 'b trecord list \<Rightarrow> bool" where
  "from_start topic rs \<longleftrightarrow> (\<forall>p. prefix (filter (\<lambda>r. t_Partition r = p) rs) (topic p))"

lemma reached_has_all:
  assumes "topic_log topic" and "from_start topic rs" and "reached rs p n"
    and "r \<in> set (topic p)" and "int (t_Offset r) < n"
  shows "r \<in> set rs"
proof -
  let ?f = "filter (\<lambda>r. t_Partition r = p) rs"
  obtain q where q: "q \<in> set ?f" "n \<le> int (t_Offset q) + 1"
    using assms(3) by (auto simp: reached_def)
  obtain rest where rest: "topic p = ?f @ rest" using assms(2) by (auto simp: from_start_def prefix_def)
  have "r \<in> set ?f"
  proof (rule ccontr)
    assume "r \<notin> set ?f"
    then have "r \<in> set rest" using assms(4) rest by auto
    have "sorted_wrt (<) (map t_Offset (topic p))"
      using assms(1) by (simp add: topic_log_def)
    then have "sorted_wrt (<) (map t_Offset ?f @ map t_Offset rest)" by (simp only: rest map_append)
    then have "\<forall>x\<in>set (map t_Offset ?f). \<forall>y\<in>set (map t_Offset rest). x < y"
      unfolding sorted_wrt_append by blast
    then have "t_Offset q < t_Offset r" using q(1) \<open>r \<in> set rest\<close> unfolding set_map by blast
    then show False using q(2) assms(5) by simp
  qed
  then show ?thesis by simp
qed

text \<open>
  C26. The replay is complete when it says so. \<open>synced\<close> is called at most once; it has been called
  exactly when every partition listed with an end behind its start has delivered a record at or behind that
  end; every record delivered has been applied, in order; and once
  \<open>synced\<close> has been called, every record the topic held below the listed ends is among
  the applied ones.
\<close>

theorem watch_synced_complete:
  assumes "distinct (map lo_Partition ends)" and "topic_log topic" and "from_start topic (delivered polls)"
    and "Watch apply None (Inr ends) polls s = (res, w)"
  shows "wt_state w = fold (\<lambda>r. apply (t_Key r) (t_Value r)) (delivered polls) s \<and>
    synced_calls w = (if replay_done ends (delivered polls) then 1 else 0) \<and>
    (synced_calls w = 1 \<longrightarrow>
      (\<forall>lo\<in>set ends. \<forall>r\<in>set (topic (lo_Partition lo)).
         int (t_Offset r) < lo_Offset lo \<longrightarrow> r \<in> set (delivered polls)))"
proof -
  let ?rs = "delivered polls"
  have w: "w = fold (on_record apply) ?rs (watch_start ends s)"
    using assms(4) watch_loop_state [of "apply" polls "watch_start ends s"] by (simp add: Watch_def)
  have st: "wt_state w = fold (\<lambda>r. apply (t_Key r) (t_Value r)) ?rs s"
    unfolding w fold_record_state by (simp add: watch_start_def Let_def)
  have calls: "synced_calls w = (if replay_done ends ?rs then 1 else 0)"
    using fold_record_sync [OF sync_start, of "apply" ?rs ends s]
      watch_remaining_Nil [OF assms(1), of "apply" ?rs s]
    unfolding w sync_ok_def by simp
  have "r \<in> set ?rs" if "synced_calls w = 1" "lo \<in> set ends" "r \<in> set (topic (lo_Partition lo))"
    "int (t_Offset r) < lo_Offset lo" for lo r
  proof -
    have "0 < lo_Offset lo" using that(4) by simp
    moreover have "replay_done ends ?rs" using calls that(1) by (cases "replay_done ends ?rs") simp_all
    ultimately have "reached ?rs (lo_Partition lo) (lo_Offset lo)" using that(2) replay_doneD by blast
    then show ?thesis by (rule reached_has_all [OF assms(2,3) _ that(3,4)])
  qed
  then show ?thesis using st calls by blast
qed

definition demo_topic :: "nat \<Rightarrow> nat trecord list" where
  "demo_topic p = (if p = 0 then [\<lparr>t_Key = ''a'', t_Value = 1, t_Partition = 0, t_Offset = 3\<rparr>,
     \<lparr>t_Key = ''b'', t_Value = 2, t_Partition = 0, t_Offset = 4\<rparr>] else [])"

definition demo_ends :: "listed_offset list" where
  "demo_ends = [\<lparr>lo_Partition = 0, lo_Offset = 5, lo_Err = None\<rparr>, \<lparr>lo_Partition = 1, lo_Offset = 0, lo_Err = None\<rparr>]"

lemma watch_synced_complete_witness:
  "snd (Watch (\<lambda>k v s. v # s) None (Inr demo_ends) [Fetches [] (demo_topic 0)] []) =
     \<lparr>wt_state = [2, 1], remaining = [], synced_calls = 1\<rparr> \<and>
   synced_calls (snd (Watch (\<lambda>k v s. v # s) None (Inr demo_ends) [Fetches [] (demo_topic 0)] [])) =
     (if replay_done demo_ends (delivered [Fetches [] (demo_topic 0)]) then 1 else 0)"
proof -
  have d: "distinct (map lo_Partition demo_ends)" by (simp add: demo_ends_def)
  have t: "topic_log demo_topic" by (simp add: topic_log_def demo_topic_def)
  have f: "from_start demo_topic (delivered [Fetches [] (demo_topic 0)])"
    by (simp add: from_start_def demo_topic_def)
  have w: "Watch (\<lambda>k v s. v # s) None (Inr demo_ends) [Fetches [] (demo_topic 0)] [] =
      (Watching, \<lparr>wt_state = [2, 1], remaining = [], synced_calls = 1\<rparr>)"
    by (simp add: Watch_def watch_start_def remaining_of_def on_record_def demo_topic_def demo_ends_def Let_def)
  from watch_synced_complete [OF d t f w] w show ?thesis by simp
qed

text \<open>
  A partition whose end could not be listed counts as empty: when the leader of the only partition does not answer the listing,
  \<open>synced\<close> is called before any of its records has been read.
\<close>

lemma unlisted_partition_counts_as_empty:
  "Watch apply None (Inr [\<lparr>lo_Partition = 0, lo_Offset = -1, lo_Err = Some ''NOT_LEADER''\<rparr>]) [] s =
     (Watching, \<lparr>wt_state = s, remaining = [], synced_calls = 1\<rparr>)"
  by (simp add: Watch_def watch_start_def remaining_of_def)

text \<open>Without a consumer or a listing nothing is applied and \<open>synced\<close> is not called.\<close>

lemma watch_not_started:
  "Watch apply (Some e) listing polls s =
     (WatchReturned (Some (StoreConsumer e)), \<lparr>wt_state = s, remaining = [], synced_calls = 0\<rparr>)"
  "Watch apply None (Inl e) polls s =
     (WatchReturned (Some (StoreEndOffsets e)), \<lparr>wt_state = s, remaining = [], synced_calls = 0\<rparr>)"
  by (simp_all add: Watch_def)

end
