(* ===== verification/Netflow_Source.thy ===== *)
theory Netflow_Source
  imports Netflow_Templates
begin

text \<open>
  \<open>internal/source/netflow/netflow.go\<close>: the listener. \<open>Start\<close> runs beside the publisher and the
  watcher of the template store; the model is one run over the events of the three in the order
  in which they happen: what a read of the socket came back with, one round of the publisher, one
  delivery of the store. The socket, the clock and the store are what the events report.
\<close>

definition maxDatagram :: nat where "maxDatagram = 65535"

definition templateSyncTimeout :: duration where "templateSyncTimeout = 15 * Second"

definition newDecoder :: "'in \<Rightarrow> ('t, 'n, 'i, 'in) tsystem decoder" where
  "newDecoder fresh = \<lparr>templates = Map.empty, newSystem = (\<lambda>_. Inner fresh)\<rparr>"

record ('ts, 'body) Source =
  src_addr :: string
  src_dec :: "'ts decoder"
  src_share :: "'body sharing option"

text \<open>\<open>fresh\<close> is what \<open>CreateTemplateSystem\<close> of the library returns.\<close>

definition WithTemplateStore :: "'in \<Rightarrow> bool \<Rightarrow>
    (('t, 'n, 'i, 'in) tsystem, 'body) Source \<Rightarrow> (('t, 'n, 'i, 'in) tsystem, 'body) Source" where
  "WithTemplateStore fresh store s =
     (if \<not> store then s
      else s\<lparr>src_share := Some newSharing, src_dec := (src_dec s)\<lparr>newSystem := system fresh\<rparr>\<rparr>)"

definition newSource where
  "newSource fresh address opts =
     fold (\<lambda>opt s. opt s) opts \<lparr>src_addr = address, src_dec = newDecoder fresh, src_share = None\<rparr>"

definition New where
  "New fresh address opts =
     (if address = [] then Inl ''netflow: NFC_NETFLOW_ADDR must be set'' else Inr (newSource fresh address opts))"

text \<open>
  \<open>startSharing\<close> waits for whichever comes first: the store's replay (or the end of its watch), the
  cancellation, the timeout. The instants are counted from the start of the wait; when two
  coincide, either may be picked.
\<close>

datatype sync_outcome = Synced | SyncTimedOut | SyncCancelled

definition sync_candidates :: "duration option \<Rightarrow> duration option \<Rightarrow> (sync_outcome \<times> duration) list" where
  "sync_candidates synced_at cancelled_at =
     (case synced_at of Some t \<Rightarrow> [(Synced, t)] | None \<Rightarrow> []) @
     (case cancelled_at of Some t \<Rightarrow> [(SyncCancelled, t)] | None \<Rightarrow> []) @
     [(SyncTimedOut, templateSyncTimeout)]"

definition startSharing :: "duration option \<Rightarrow> duration option \<Rightarrow> sync_outcome \<times> duration \<Rightarrow> bool" where
  "startSharing synced_at cancelled_at out \<longleftrightarrow>
     out \<in> set (sync_candidates synced_at cancelled_at) \<and>
     list_all (\<lambda>c. snd out \<le> snd c) (sync_candidates synced_at cancelled_at)"

lemma startSharing_bounded: "startSharing s c (o1, t) \<Longrightarrow> t \<le> templateSyncTimeout"
  by (auto simp: startSharing_def sync_candidates_def)

section \<open>The run\<close>

text \<open>
  A read fails for good (the context is done or the socket closed) or in passing; a datagram has a
  sender, a payload and the clock's reading, and \<open>room\<close> says after how many sends the context
  is found done (\<open>None\<close>: every send goes through).
\<close>

datatype 'body event =
    ReadFailed bool
  | Datagram "byte list option" "byte list" time "nat option"
  | PublishRound
  | StoreDelivers string 'body

record ('ts, 'body, 'store) listener =
  run_dec :: "'ts decoder"
  run_share :: "'body sharing option"
  run_store :: 'store
  sent :: "FlowRecord list"
  decodeErrors :: nat

fun flush_share where
  "flush_share js e (d, None) = (d, None)"
| "flush_share js e (d, Some sh) = apsnd Some (flush_outbox js e (d, sh))"

definition on_datagram where
  "on_datagram js lib5 libT from buf now room st =
     (let e = exporterAddr from;
          (res, d) = decode lib5 libT (take maxDatagram buf) e (micro now) (run_dec st);
          (d', sh) = flush_share js e (d, run_share st);
          st1 = st\<lparr>run_dec := d', run_share := sh\<rparr>
      in case res of
           Inl _ \<Rightarrow> (False, st1\<lparr>decodeErrors := decodeErrors st + 1\<rparr>)
         | Inr records \<Rightarrow>
             (case room of
                None \<Rightarrow> (False, st1\<lparr>sent := sent st @ records\<rparr>)
              | Some k \<Rightarrow> (k < length records, st1\<lparr>sent := sent st @ take k records\<rparr>)))"

definition publish_round where
  "publish_round put st =
     (case run_share st of
        None \<Rightarrow> st
      | Some sh \<Rightarrow>
          (case publish put (sh, run_store st) of
             None \<Rightarrow> st
           | Some (sh', store) \<Rightarrow> st\<lparr>run_share := Some sh', run_store := store\<rparr>))"

definition store_delivers where
  "store_delivers js add key val st =
     (case run_share st of
        None \<Rightarrow> st
      | Some _ \<Rightarrow> st\<lparr>run_dec := apply_template js add key val (run_dec st)\<rparr>)"

text \<open>The result says whether \<open>Start\<close> has returned.\<close>

fun Start_loop where
  "Start_loop js lib5 libT add put [] st = (False, st)"
| "Start_loop js lib5 libT add put (ReadFailed good # evs) st =
     (if good then (True, st) else Start_loop js lib5 libT add put evs st)"
| "Start_loop js lib5 libT add put (Datagram from buf now room # evs) st =
     (case on_datagram js lib5 libT from buf now room st of
        (True, st') \<Rightarrow> (True, st')
      | (False, st') \<Rightarrow> Start_loop js lib5 libT add put evs st')"
| "Start_loop js lib5 libT add put (PublishRound # evs) st =
     Start_loop js lib5 libT add put evs (publish_round put st)"
| "Start_loop js lib5 libT add put (StoreDelivers key val # evs) st =
     Start_loop js lib5 libT add put evs (store_delivers js add key val st)"

definition listener_start where
  "listener_start s store =
     \<lparr>run_dec = src_dec s, run_share = src_share s, run_store = store, sent = [], decodeErrors = 0\<rparr>"

section \<open>One exporter's view\<close>

text \<open>
  What decides an exporter's records: its template system, whatever the hook still holds.
\<close>

fun clear_outbox :: "('t, 'n, 'i, 'in) tsystem \<Rightarrow> ('t, 'n, 'i, 'in) tsystem" where
  "clear_outbox (Inner s) = Inner s"
| "clear_outbox (PublishingSystem s e out) = PublishingSystem s e []"

definition view_of :: "Addr \<Rightarrow> ('t, 'n, 'i, 'in) tsystem decoder \<Rightarrow> ('t, 'n, 'i, 'in) tsystem" where
  "view_of e d = clear_outbox (fst (templatesFor e d))"

lemma inner_clear [simp]: "inner (clear_outbox sys) = inner sys"
  by (cases sys) simp_all

lemma clear_clear [simp]: "clear_outbox (clear_outbox sys) = clear_outbox sys"
  by (cases sys) simp_all

lemma clear_inner: "clear_outbox sys = clear_outbox sys' \<Longrightarrow> inner sys = inner sys'"
  by (metis inner_clear)

lemma clear_AddTemplate:
  "clear_outbox sys = clear_outbox sys' \<Longrightarrow>
     clear_outbox (snd (AddTemplate add v d i t sys)) = clear_outbox (snd (AddTemplate add v d i t sys'))"
  by (cases sys; cases sys'; cases "add v d i t (inner sys)"; cases "fst (add v d i t (inner sys))") auto

lemma clear_RemoveTemplate:
  "clear_outbox sys = clear_outbox sys' \<Longrightarrow>
     clear_outbox (snd (RemoveTemplate remove v d i sys)) = clear_outbox (snd (RemoveTemplate remove v d i sys'))"
  by (cases sys; cases sys'; cases "remove v d i (inner sys)") auto

text \<open>What the parser finds and leaves does not depend on what the hook still holds.\<close>

lemma run_parser_clear:
  assumes "clear_outbox sys = clear_outbox sys'"
  shows "apsnd clear_outbox (run_parser (AddTemplate add) (GetTemplate get) (RemoveTemplate remove) p sys) =
    apsnd clear_outbox (run_parser (AddTemplate add) (GetTemplate get) (RemoveTemplate remove) p sys')"
  using assms
proof (induction p arbitrary: sys sys')
  case (CallsAdd v d i t k)
  have "inner sys = inner sys'" by (rule clear_inner [OF CallsAdd.prems])
  with CallsAdd.IH [OF rangeI clear_AddTemplate [OF CallsAdd.prems]] show ?case
    by (simp add: case_prod_unfold AddTemplate_inner)
next
  case (CallsGet v d i k)
  have "inner sys = inner sys'" by (rule clear_inner [OF CallsGet.prems])
  with CallsGet.IH [OF rangeI CallsGet.prems] show ?case by (simp add: GetTemplate_def)
next
  case (CallsRemove v d i k)
  have "inner sys = inner sys'" by (rule clear_inner [OF CallsRemove.prems])
  with CallsRemove.IH [OF rangeI clear_RemoveTemplate [OF CallsRemove.prems]] show ?case
    by (simp add: case_prod_unfold RemoveTemplate_inner)
qed simp

lemma view_of_eq:
  "view_of e d = clear_outbox (case templates d e of Some ts \<Rightarrow> ts | None \<Rightarrow> newSystem d e)"
  by (simp add: view_of_def templatesFor_fst)

lemma system_lib_clear:
  assumes "clear_outbox sys = clear_outbox sys'"
  shows "fst (system_lib drive add get remove b sys) = fst (system_lib drive add get remove b sys')"
    and "clear_outbox (snd (system_lib drive add get remove b sys)) =
      clear_outbox (snd (system_lib drive add get remove b sys'))"
  using run_parser_clear [OF assms, of add get remove "drive b"]
  by (simp_all add: system_lib_def prod_eq_iff)

lemma decode_view:
  assumes "view_of e d = view_of e d'"
  shows "fst (decode lib5 (system_lib drive add get remove) b e t d) =
      fst (decode lib5 (system_lib drive add get remove) b e t d')"
    and "view_of e (snd (decode lib5 (system_lib drive add get remove) b e t d)) =
      view_of e (snd (decode lib5 (system_lib drive add get remove) b e t d'))"
  using assms system_lib_clear [of "fst (templatesFor e d)" "fst (templatesFor e d')" drive add get remove b]
  by (simp_all add: decode_def Let_def decodeTemplated_result decodeTemplated_templates view_of_def)

lemma decode_view_other:
  "e' \<noteq> e \<Longrightarrow> view_of e' (snd (decode lib5 libT b e t d)) = view_of e' d"
  using agree_on_other [of e' e lib5 libT b t d] by (simp add: view_of_def agree_on_def)

lemma flush_view: "view_of e (fst (flush_share js e' (d, sh))) = view_of e d"
proof (cases sh)
  case (Some sh')
  show ?thesis
  proof (cases "templates d e'")
    case None
    then show ?thesis using Some by (simp add: flush_outbox_def)
  next
    case sys: (Some sys)
    then show ?thesis
      using Some by (cases sys) (auto simp: flush_outbox_def set_system_def view_of_eq split: option.splits)
  qed
qed simp

fun apply_view where
  "apply_view js add e key val (Inner s) = Inner s"
| "apply_view js add e key val (PublishingSystem s x out) =
     (case parseTemplateKey key of
        Inl _ \<Rightarrow> PublishingSystem s x out
      | Inr (e', v, dm, i) \<Rightarrow>
          if e' \<noteq> e then PublishingSystem s x out
          else (case decodeTemplate js val of
                  Inl _ \<Rightarrow> PublishingSystem s x out
                | Inr t \<Rightarrow> PublishingSystem (snd (add v dm i t s)) x out))"

lemma view_apply:
  "view_of e (apply_template js add key val d) = apply_view js add e key val (view_of e d)"
proof (cases "\<exists>v dm i. parseTemplateKey key = Inr (e, v, dm, i)")
  case False
  then have "fst (templatesFor e (apply_template js add key val d)) = fst (templatesFor e d)"
    by (intro apply_template_other) blast
  then show ?thesis
    using False by (cases "view_of e d") (auto simp: view_of_def split: sum.splits)
next
  case True
  then obtain v dm i where k: "parseTemplateKey key = Inr (e, v, dm, i)" by blast
  obtain sys d1 where s: "templatesFor e d = (sys, d1)" by fastforce
  show ?thesis
  proof (cases sys)
    case (Inner x)
    have "fst (templatesFor e d1) = fst (templatesFor e d)"
      using s by (auto simp: templatesFor_def Let_def split: option.splits)
    then show ?thesis
      using k s Inner by (auto simp: view_of_def apply_template_def split: sum.splits)
  next
    case (PublishingSystem x ex out)
    then show ?thesis
      using k s apply_template_eq [OF k, of js val _ d x ex out add]
      by (cases "decodeTemplate js val") (simp_all add: view_of_def apply_template_def)
  qed
qed

lemma apply_view_other:
  assumes "\<And>v dm i. parseTemplateKey key \<noteq> Inr (e, v, dm, i)"
  shows "apply_view js add e key val sys = sys"
  using assms by (cases sys) (auto split: sum.splits)

section \<open>Isolation\<close>

text \<open>The events that concern an exporter: its datagrams and the deliveries under its keys.\<close>

fun concerns :: "Addr \<Rightarrow> 'body event \<Rightarrow> bool" where
  "concerns e (ReadFailed _) = True"
| "concerns e (Datagram from _ _ _) = (exporterAddr from = e)"
| "concerns e PublishRound = True"
| "concerns e (StoreDelivers key _) =
     (case parseTemplateKey key of Inl _ \<Rightarrow> False | Inr (e', _, _, _) \<Rightarrow> e' = e)"

text \<open>An event after which the loop goes on.\<close>

fun running_event :: "'body event \<Rightarrow> bool" where
  "running_event (ReadFailed good) = (\<not> good)"
| "running_event (Datagram _ _ _ room) = (room = None)"
| "running_event _ = True"

definition of_exporter :: "Addr \<Rightarrow> FlowRecord list \<Rightarrow> FlowRecord list" where
  "of_exporter e rs = filter (\<lambda>r. ExporterAddr r = e) rs"

lemma decode_exporter:
  assumes "fst (decode lib5 libT b e t d) = Inr rs" and "r \<in> set rs"
  shows "decoded_ok e t r"
  using assms
  by (auto simp: decode_def Let_def decodeV5_Inr v5_flow_ok decodeTemplated_result templated_records_ok
      split: if_splits sum.splits prod.splits)

lemma of_exporter_decoded:
  assumes "fst (decode lib5 libT b e t d) = Inr rs"
  shows "of_exporter x rs = (if x = e then rs else [])"
  using decode_exporter [OF assms] by (auto simp: of_exporter_def decoded_ok_def filter_empty_conv)

text \<open>Two runs look the same to an exporter.\<close>

definition same_view where
  "same_view e st st' \<longleftrightarrow>
     view_of e (run_dec st) = view_of e (run_dec st') \<and>
     (run_share st = None \<longleftrightarrow> run_share st' = None) \<and>
     of_exporter e (sent st) = of_exporter e (sent st')"

lemma flush_share_None [simp]: "snd (flush_share js e (d, sh)) = None \<longleftrightarrow> sh = None"
  by (cases sh) (simp_all add: apsnd_def map_prod_def split: prod.splits)

lemma on_datagram_runs:
  assumes "decode lib5 libT (take maxDatagram buf) (exporterAddr from) (micro now) (run_dec st) = (res, d)"
    and "flush_share js (exporterAddr from) (d, run_share st) = (d', sh)"
  shows "on_datagram js lib5 libT from buf now None st =
    (False, st\<lparr>run_dec := d', run_share := sh,
       sent := sent st @ (case res of Inl _ \<Rightarrow> [] | Inr rs \<Rightarrow> rs),
       decodeErrors := decodeErrors st + (case res of Inl _ \<Rightarrow> 1 | Inr _ \<Rightarrow> 0)\<rparr>)"
  using assms by (simp add: on_datagram_def split: sum.splits)

lemma of_exporter_append [simp]: "of_exporter e (xs @ ys) = of_exporter e xs @ of_exporter e ys"
  by (simp add: of_exporter_def)

lemma datagram_view:
  assumes "same_view e st st'" and "exporterAddr from = e"
  shows "\<exists>s1 s2. on_datagram js lib5 (system_lib drive add get remove) from buf now None st = (False, s1) \<and>
    on_datagram js lib5 (system_lib drive add get remove) from buf now None st' = (False, s2) \<and> same_view e s1 s2"
proof -
  let ?L = "system_lib drive add get remove"
  obtain res d where d: "decode lib5 ?L (take maxDatagram buf) e (micro now) (run_dec st) = (res, d)"
    by fastforce
  obtain res' d2 where d2: "decode lib5 ?L (take maxDatagram buf) e (micro now) (run_dec st') = (res', d2)"
    by fastforce
  obtain d' sh where f: "flush_share js e (d, run_share st) = (d', sh)" by fastforce
  obtain d2' sh2 where f2: "flush_share js e (d2, run_share st') = (d2', sh2)" by fastforce
  have v: "view_of e (run_dec st) = view_of e (run_dec st')" using assms(1) by (simp add: same_view_def)
  have "res = res'" "view_of e d = view_of e d2"
    using decode_view [OF v, of lib5 drive add get remove "take maxDatagram buf" "micro now"] d d2 by simp_all
  moreover have "view_of e d' = view_of e d" "view_of e d2' = view_of e d2"
    using flush_view [of e js e d "run_share st"] flush_view [of e js e d2 "run_share st'"] f f2 by simp_all
  moreover have "sh = None \<longleftrightarrow> run_share st = None" "sh2 = None \<longleftrightarrow> run_share st' = None"
    using flush_share_None [of js e d "run_share st"] flush_share_None [of js e d2 "run_share st'"] f f2
    by simp_all
  ultimately show ?thesis
    using on_datagram_runs [of lib5 ?L buf "from" now st res d js d' sh]
      on_datagram_runs [of lib5 ?L buf "from" now st' res' d2 js d2' sh2] d d2 f f2 assms
    by (simp add: same_view_def)
qed

lemma datagram_other_view:
  assumes "exporterAddr from \<noteq> e"
  shows "\<exists>s1. on_datagram js lib5 libT from buf now None st = (False, s1) \<and> same_view e s1 st"
proof -
  let ?x = "exporterAddr from"
  obtain res d where d: "decode lib5 libT (take maxDatagram buf) ?x (micro now) (run_dec st) = (res, d)"
    by fastforce
  obtain d' sh where f: "flush_share js ?x (d, run_share st) = (d', sh)" by fastforce
  have "view_of e d' = view_of e (run_dec st)"
    using flush_view [of e js ?x d "run_share st"] f d
      decode_view_other [of e ?x lib5 libT "take maxDatagram buf" "micro now" "run_dec st"] assms by simp
  moreover have "sh = None \<longleftrightarrow> run_share st = None"
    using flush_share_None [of js ?x d "run_share st"] f by simp
  moreover have "of_exporter e (case res of Inl _ \<Rightarrow> [] | Inr rs \<Rightarrow> rs) = []"
    using of_exporter_decoded [of lib5 libT "take maxDatagram buf" ?x "micro now" "run_dec st" _ e] d assms
    by (auto simp: of_exporter_def split: sum.splits)
  ultimately show ?thesis
    using on_datagram_runs [OF d f] by (simp add: same_view_def)
qed

lemma publish_view: "same_view e (publish_round put st) st"
  by (auto simp: publish_round_def same_view_def split: option.splits)

lemma store_view:
  assumes "same_view e st st'"
  shows "same_view e (store_delivers js add key val st) (store_delivers js add key val st')"
  using assms by (auto simp: store_delivers_def same_view_def view_apply split: option.splits)

lemma store_other_view:
  assumes "\<not> concerns e (StoreDelivers key val)"
  shows "same_view e (store_delivers js add key val st) st"
proof -
  have "apply_view js add e key val sys = sys" for sys
    using assms by (intro apply_view_other) auto
  then show ?thesis by (auto simp: store_delivers_def same_view_def view_apply split: option.splits)
qed

lemma same_view_refl [simp]: "same_view e st st"
  by (simp add: same_view_def)

lemma same_view_trans: "same_view e a b \<Longrightarrow> same_view e b c \<Longrightarrow> same_view e a c"
  by (simp add: same_view_def)

lemma same_view_sym: "same_view e a b \<Longrightarrow> same_view e b a"
  by (simp add: same_view_def)

lemma isolation:
  assumes "same_view e st st'" and "list_all running_event evs"
  shows "same_view e (snd (Start_loop js lib5 (system_lib drive add get remove) add put evs st))
    (snd (Start_loop js lib5 (system_lib drive add get remove) add put (filter (concerns e) evs) st'))"
  using assms
proof (induction evs arbitrary: st st')
  case (Cons ev evs)
  show ?case
  proof (cases ev)
    case (ReadFailed good)
    then show ?thesis using Cons by simp
  next
    case (Datagram "from" buf now room)
    then have room: "room = None" using Cons.prems by simp
    show ?thesis
    proof (cases "exporterAddr from = e")
      case True
      obtain s1 s2 where "on_datagram js lib5 (system_lib drive add get remove) from buf now None st = (False, s1)"
        "on_datagram js lib5 (system_lib drive add get remove) from buf now None st' = (False, s2)" "same_view e s1 s2"
        using datagram_view [OF Cons.prems(1) True] by blast
      then show ?thesis using Cons Datagram room True by simp
    next
      case False
      obtain s1 where s1: "on_datagram js lib5 (system_lib drive add get remove) from buf now None st = (False, s1)"
        "same_view e s1 st"
        using datagram_other_view [OF False] by blast
      then have "same_view e s1 st'" using same_view_trans Cons.prems(1) by blast
      then show ?thesis using Cons Datagram room False s1 by simp
    qed
  next
    case PublishRound
    have "same_view e (publish_round put st) (publish_round put st')"
      by (rule same_view_trans [OF publish_view same_view_trans [OF Cons.prems(1)
            same_view_sym [OF publish_view]]])
    from Cons.IH [OF this] show ?thesis using Cons.prems(2) PublishRound by simp
  next
    case (StoreDelivers key val)
    show ?thesis
    proof (cases "concerns e ev")
      case True
      then show ?thesis
        using Cons.IH [OF store_view [OF Cons.prems(1), of js add key val]] Cons.prems(2) StoreDelivers
        by simp
    next
      case False
      then have "same_view e (store_delivers js add key val st) st"
        using store_other_view [of e key val js add st] StoreDelivers by simp
      from Cons.IH [OF same_view_trans [OF this Cons.prems(1)]] show ?thesis
        using Cons.prems(2) StoreDelivers False by simp
    qed
  qed
qed simp

text \<open>
  C10. Exporters cannot disturb one another. In a run of the listener with its publisher and its
  watcher, the records an exporter's datagrams produce are exactly those of the run from
  which the datagrams of all other exporters and the deliveries under their keys are taken out:
  malformed datagrams, templates and sampling options of one exporter never change, drop or
  reorder the records of another.
\<close>

theorem exporter_isolation:
  assumes "list_all running_event evs"
  shows "of_exporter e (sent (snd (Start_loop js lib5 (system_lib drive add get remove) add put evs
      (listener_start s store)))) =
    of_exporter e (sent (snd (Start_loop js lib5 (system_lib drive add get remove) add put
      (filter (concerns e) evs) (listener_start s store))))"
  using isolation [OF same_view_refl assms] unfolding same_view_def by blast

definition demo_data_drive :: "(nat, nat, nat) driver" where
  "demo_data_drive b =
     (if length b < 4 then Returns (Inl ''short'')
      else CallsAdd 9 0 256 (TemplateRecord 1) (\<lambda>err.
        CallsGet 9 0 256 (\<lambda>known.
          Returns (if known = None then Inl ''template not found''
            else Inr (\<lparr>v9_Version = 9, v9_UnixSeconds = 0, v9_SystemUptime = 0,
                        v9_FlowSets = [DataFlowSet [[]]]\<rparr>,
                      \<lparr>ix_ExportTime = 0, ix_FlowSets = []\<rparr>)))))"

definition demo_events :: "(nat, nat, nat) tpl templateEnvelope event list" where
  "demo_events =
     [Datagram (Some [10, 0, 0, 1]) [0, 9, 0, 0] 5000 None, Datagram (Some [10, 0, 0, 2]) [0, 9] 6000 None,
      ReadFailed False, Datagram (Some [10, 0, 0, 2]) [0, 9, 1, 1] 7000 None]"

lemmas demo_run_simps = demo_events_def on_datagram_def exporterAddr_def addr_from_slice_def
  be_nat_def decode_def be_u16_at_def decodeTemplated_def templatesFor_def listener_start_def newSource_def
  newDecoder_def system_lib_def demo_data_drive_def demo_add_def demo_get_def GetTemplate_def maxDatagram_def Let_def templated_records_def
  templated_base_def apply_record_def of_exporter_def micro_eq time_units

lemma exporter_isolation_witness:
  "map ReceivedAt (of_exporter (Addr4 0x0a000002) (sent (snd (Start_loop demo_json (\<lambda>_. Inl [])
     (system_lib demo_data_drive demo_add demo_get demo_remove) demo_add (\<lambda>k v s. (None, s)) demo_events
     (listener_start (newSource Map.empty ''0.0.0.0:2055'' []) ()))))) = [7000]"
proof -
  have r: "list_all running_event demo_events" by (simp add: demo_events_def)
  have f: "filter (concerns (Addr4 0x0a000002)) demo_events = drop 1 demo_events"
    by (simp add: demo_events_def exporterAddr_def addr_from_slice_def be_nat_def)
  show ?thesis
    unfolding exporter_isolation [OF r] f
    by (simp add: demo_run_simps)
qed

section \<open>What the listener sends\<close>

lemma on_datagram_sent:
  assumes "on_datagram js lib5 libT from buf now room st = (stop, st')" and "r \<in> set (sent st')"
  shows "r \<in> set (sent st) \<or> decoded_ok (exporterAddr from) (micro now) r"
proof -
  obtain res d where d: "decode lib5 libT (take maxDatagram buf) (exporterAddr from) (micro now)
      (run_dec st) = (res, d)" by fastforce
  obtain d' sh where f: "flush_share js (exporterAddr from) (d, run_share st) = (d', sh)" by fastforce
  show ?thesis
  proof (cases res)
    case (Inl e)
    then show ?thesis using assms d f by (auto simp: on_datagram_def Let_def)
  next
    case (Inr rs)
    have "r \<in> set (sent st) \<or> r \<in> set rs"
      using assms d f Inr by (auto simp: on_datagram_def Let_def split: option.splits dest: in_set_takeD)
    then show ?thesis
      using decode_exporter [of lib5 libT "take maxDatagram buf" "exporterAddr from" "micro now"
          "run_dec st" rs r] d Inr by auto
  qed
qed

lemma sent_publish [simp]: "sent (publish_round put st) = sent st"
  by (auto simp: publish_round_def split: option.splits)

lemma sent_store [simp]: "sent (store_delivers js add key val st) = sent st"
  by (auto simp: store_delivers_def split: option.splits)

lemma Start_loop_sent:
  assumes "r \<in> set (sent (snd (Start_loop js lib5 libT add put evs st)))"
  shows "r \<in> set (sent st) \<or>
    (\<exists>from buf now room. Datagram from buf now room \<in> set evs \<and> decoded_ok (exporterAddr from) (micro now) r)"
  using assms
proof (induction evs arbitrary: st)
  case (Cons ev evs)
  show ?case
  proof (cases ev)
    case (ReadFailed good)
    then show ?thesis using Cons by (cases good) auto
  next
    case (Datagram "from" buf now room)
    obtain stop st' where o: "on_datagram js lib5 libT from buf now room st = (stop, st')" by fastforce
    have "r \<in> set (sent st') \<or> (\<exists>from buf now room. Datagram from buf now room \<in> set evs \<and>
        decoded_ok (exporterAddr from) (micro now) r)"
      using Cons.IH [of st'] Cons.prems Datagram o by (cases stop) auto
    then show ?thesis
      using on_datagram_sent [OF o, of r] unfolding Datagram by (meson list.set_intros)
  next
    case PublishRound
    then show ?thesis using Cons.IH [of "publish_round put st"] Cons.prems by auto
  next
    case (StoreDelivers key val)
    then show ?thesis using Cons.IH [of "store_delivers js add key val st"] Cons.prems by auto
  qed
qed simp

lemma exporterAddr_plain: "\<not> is4in6 (exporterAddr from)"
proof (cases "from")
  case (Some ip)
  then show ?thesis
    by (cases "addr_from_slice ip"; cases "snd (addr_from_slice ip)") (simp_all add: exporterAddr_def)
qed (simp add: exporterAddr_def)

text \<open>
  Whatever arrives on the socket, every record the listener hands to the pipeline is well
  formed: it comes from a datagram that was received, carries that datagram's sender, never in
  IPv4-mapped form, and its receive time in whole microseconds, a known flow type and a sampling
  rate of at least one.
\<close>

theorem listener_records_ok:
  assumes "r \<in> set (sent (snd (Start_loop js lib5 libT add put evs (listener_start s store))))"
  shows "\<exists>from buf now room. Datagram from buf now room \<in> set evs \<and>
    decoded_ok (exporterAddr from) (micro now) r \<and> \<not> is4in6 (ExporterAddr r) \<and> on_micro (ReceivedAt r)"
proof -
  obtain "from" buf now room where d: "Datagram from buf now room \<in> set evs"
      "decoded_ok (exporterAddr from) (micro now) r"
    using Start_loop_sent [OF assms] by (auto simp: listener_start_def)
  then have "\<not> is4in6 (ExporterAddr r)" "on_micro (ReceivedAt r)"
    using exporterAddr_plain [of "from"] by (simp_all add: decoded_ok_def)
  with d show ?thesis by blast
qed

definition demo_listened :: "FlowRecord list" where
  "demo_listened = sent (snd (Start_loop demo_json (\<lambda>_. Inl [])
     (system_lib demo_data_drive demo_add demo_get demo_remove) demo_add (\<lambda>k v s. (None, s)) demo_events
     (listener_start (newSource Map.empty ''0.0.0.0:2055'' []) ())))"

lemma listener_records_ok_witness:
  "length demo_listened = 2 \<and>
   (\<exists>from buf now room. Datagram from buf now room \<in> set demo_events \<and>
      decoded_ok (exporterAddr from) (micro now) (hd demo_listened) \<and>
      \<not> is4in6 (ExporterAddr (hd demo_listened)) \<and> on_micro (ReceivedAt (hd demo_listened)))"
proof -
  have two: "length demo_listened = 2" by (simp add: demo_listened_def demo_run_simps)
  then have "demo_listened \<noteq> []" by auto
  then have "hd demo_listened \<in> set demo_listened" by simp
  from listener_records_ok [OF this [unfolded demo_listened_def]] two show ?thesis
    unfolding demo_listened_def by blast
qed

end
