(* ===== verification/Api_Http.thy ===== *)
theory Api_Http
  imports Gotext Netip_Text Gotime_Text Flow "HOL-Library.List_Lexorder"
begin

text \<open>
  What the API takes of HTTP: a request with its escaped path, raw query string and
  \<open>Authorization\<close> header, the query values and the unescaping of \<open>net/url\<close>, and
  the response envelopes of \<open>internal/api/server.go\<close>. JSON encoding of a response that has been
  built is left to the standard library: a response is the value that is encoded.
\<close>

text \<open>\<open>EscapedPath\<close> is what \<open>URL.EscapedPath\<close> returns.\<close>

record request =
  Method :: string
  EscapedPath :: string
  RawQuery :: string
  Authorization :: string

section \<open>Unescaping\<close>

text \<open>
  \<open>url.QueryUnescape\<close> and \<open>url.PathUnescape\<close>: a percent sign without two hexadecimal digits is an error; in
  a query a plus sign is a space.
\<close>

fun unescape :: "bool \<Rightarrow> string \<Rightarrow> string option" where
  "unescape query [] = Some []"
| "unescape query (c # cs) =
     (if c = CHR ''%'' then
        (case cs of
           a # b # rest \<Rightarrow>
             (case (hex_digit_val a, hex_digit_val b) of
                (Some x, Some y) \<Rightarrow> map_option ((#) (char_of (16 * x + y))) (unescape query rest)
              | _ \<Rightarrow> None)
         | _ \<Rightarrow> None)
      else map_option ((#) (if query \<and> c = CHR ''+'' then CHR '' '' else c)) (unescape query cs))"

definition QueryUnescape :: "string \<Rightarrow> string option" where
  "QueryUnescape s = unescape True s"

text \<open>The mux keeps a text it cannot unescape.\<close>

definition pathUnescape :: "string \<Rightarrow> string" where
  "pathUnescape s = (case unescape False s of Some u \<Rightarrow> u | None \<Rightarrow> s)"

text \<open>\<open>URL.Path\<close>, of which the escaped path is an encoding.\<close>

definition Path :: "request \<Rightarrow> string" where
  "Path r = pathUnescape (EscapedPath r)"

section \<open>Query values\<close>

text \<open>
  \<open>url.ParseQuery\<close>: a pair with a semicolon or a broken escape is an error and left out; \<open>URL.Query\<close>
  drops the error and keeps the other pairs.
\<close>

definition parse_pair :: "string \<Rightarrow> (string \<times> string) option" where
  "parse_pair p =
     (if p = [] \<or> CHR '';'' \<in> set p then None
      else case cut_at (CHR ''='') p of
             (k, v, _) \<Rightarrow>
               (case (QueryUnescape k, QueryUnescape v) of
                  (Some k', Some v') \<Rightarrow> Some (k', v')
                | _ \<Rightarrow> None))"

definition URL_Query :: "string \<Rightarrow> (string \<times> string) list" where
  "URL_Query raw = List.map_filter parse_pair (split_at_char (CHR ''&'') raw)"

text \<open>\<open>Values.Get\<close>: the first value of a key, empty when there is none.\<close>

definition query_Get :: "(string \<times> string) list \<Rightarrow> string \<Rightarrow> string" where
  "query_Get vs k = (case map_of vs k of Some v \<Rightarrow> v | None \<Rightarrow> [])"

definition has_prefix :: "string \<Rightarrow> string \<Rightarrow> bool" where
  "has_prefix s p \<longleftrightarrow> take (length p) s = p"

section \<open>Responses\<close>

definition CodeValidation :: string where "CodeValidation = ''validation_error''"
definition CodeBadRequest :: string where "CodeBadRequest = ''bad_request''"
definition CodeUnauthorized :: string where "CodeUnauthorized = ''unauthorized''"
definition CodeNotFound :: string where "CodeNotFound = ''not_found''"
definition CodeMethodNotAllowed :: string where "CodeMethodNotAllowed = ''method_not_allowed''"
definition CodeBackendUnavailable :: string where "CodeBackendUnavailable = ''backend_unavailable''"
definition CodeInternal :: string where "CodeInternal = ''internal_error''"

record meta =
  meta_NextCursor :: string
  meta_HasMore :: bool

record Detail =
  d_Field :: string
  d_Message :: string

record errorBody =
  e_Code :: string
  e_Message :: string
  e_Details :: "Detail list"
  e_RequestID :: string

record FlowJSON =
  j_ReceivedAt :: string
  j_ExporterID :: i64
  j_ExporterAddr :: Addr
  j_FlowType :: string
  j_FirstSwitched :: string
  j_LastSwitched :: string
  j_SrcAddr :: Addr
  j_DstAddr :: Addr
  j_SrcPort :: u16
  j_DstPort :: u16
  j_Protocol :: u8
  j_TCPFlags :: u8
  j_Packets :: u64
  j_Bytes :: u64
  j_SamplingRate :: u32
  j_InputIface :: u32
  j_OutputIface :: u32
  j_SrcAS :: u32
  j_DstAS :: u32
  j_NextHop :: "string option"

record ExporterJSON =
  x_ID :: i64
  x_IPAddress :: Addr
  x_Label :: "string option"
  x_FirstSeenAt :: string
  x_LastSeenAt :: string

datatype payload =
    FlowsData "FlowJSON list"
  | ExportersData "ExporterJSON list"
  | StatusData string "(string \<times> string) list"

datatype body =
    Success payload meta
  | Error errorBody
  | Metrics
  | RedirectTo string string
  | PlainText string

record response =
  status :: nat
  content :: body
  authenticate :: "string option"

definition writeJSON :: "nat \<Rightarrow> body \<Rightarrow> response" where
  "writeJSON st b = \<lparr>status = st, content = b, authenticate = None\<rparr>"

definition writeData :: "payload \<Rightarrow> meta \<Rightarrow> response" where
  "writeData d mt = writeJSON 200 (Success d mt)"

definition writeError :: "string \<Rightarrow> nat \<Rightarrow> string \<Rightarrow> string \<Rightarrow> Detail list \<Rightarrow> response" where
  "writeError rid st code msg details =
     writeJSON st (Error \<lparr>e_Code = code, e_Message = msg, e_Details = details, e_RequestID = rid\<rparr>)"

definition notFound :: "string \<Rightarrow> request \<Rightarrow> response" where
  "notFound rid r = writeError rid 404 CodeNotFound (''no route matches '' @ Path r) []"

definition methodNotAllowed :: "string \<Rightarrow> request \<Rightarrow> response" where
  "methodNotAllowed rid r =
     writeError rid 405 CodeMethodNotAllowed (Method r @ '' is not allowed on '' @ Path r) []"

section \<open>The authenticated subtree\<close>

definition CheckConfig :: "string \<Rightarrow> string list \<Rightarrow> string option" where
  "CheckConfig httpAddr apiKeys =
     (if httpAddr = [] then None
      else if length apiKeys = 0
      then Some ''NFC_API_KEYS: must list at least one key while NFC_HTTP_ADDR enables the API''
      else map_option (\<lambda>i. ''NFC_API_KEYS: key '' @ dec_nat (i + 1) @ '' is empty'')
             (List.find (\<lambda>i. TrimSpace (apiKeys ! i) = []) [0..<length apiKeys]))"

definition scheme :: string where "scheme = ''Bearer ''"

definition bearerToken :: "string \<Rightarrow> string \<times> bool" where
  "bearerToken header =
     (if length header \<le> length scheme \<or> \<not> EqualFold (take (length scheme) header) scheme
      then ([], False)
      else let token = TrimSpace (drop (length scheme) header) in (token, token \<noteq> []))"

text \<open>
  \<open>subtle.ConstantTimeCompare\<close> is 1 on equal and 0 on different contents; the results are or-ed.
\<close>

definition ConstantTimeCompare :: "string \<Rightarrow> string \<Rightarrow> nat" where
  "ConstantTimeCompare x y = (if x = y then 1 else 0)"

definition keyMatches :: "string list \<Rightarrow> string \<Rightarrow> bool" where
  "keyMatches keys token = (fold (\<lambda>k m. or m (ConstantTimeCompare k token)) keys 0 = 1)"

definition prefix_of :: "string \<Rightarrow> string" where
  "prefix_of token = (if length token > 6 then take 6 token else token)"

text \<open>The warning a refused request leaves behind.\<close>

record warning =
  w_RequestID :: string
  w_Path :: string
  w_KeyPrefix :: string
  w_HeaderPresent :: bool

definition requireAPIKey :: "string list \<Rightarrow> (string \<Rightarrow> request \<Rightarrow> response) \<Rightarrow> string \<Rightarrow> request \<Rightarrow>
    response \<times> warning list" where
  "requireAPIKey keys next_handler rid r =
     (case bearerToken (Authorization r) of
        (token, ok) \<Rightarrow>
          if \<not> ok \<or> \<not> keyMatches keys token
          then ((writeError rid 401 CodeUnauthorized ''a valid API key is required'' [])
                  \<lparr>authenticate := Some (''Bearer realm='' @ [CHR 0x22] @ ''netflow-collector'' @ [CHR 0x22])\<rparr>,
                [\<lparr>w_RequestID = rid, w_Path = Path r, w_KeyPrefix = prefix_of token,
                  w_HeaderPresent = (Authorization r \<noteq> [])\<rparr>])
          else (next_handler rid r, []))"

lemma keyMatches_iff: "keyMatches keys token \<longleftrightarrow> token \<in> set keys"
proof -
  have "fold (\<lambda>k m. or m (ConstantTimeCompare k token)) keys m =
      (if m = 1 \<or> token \<in> set keys then 1 else 0)" if "m = 0 \<or> m = 1" for m :: nat
    using that
  proof (induction keys arbitrary: m)
    case (Cons k keys)
    have "or m (ConstantTimeCompare k token) = (if m = 1 \<or> k = token then 1 else 0)"
      using Cons.prems by (auto simp: ConstantTimeCompare_def)
    then show ?case using Cons.IH [of "if m = 1 \<or> k = token then 1 else 0"] by auto
  qed auto
  from this [of 0] show ?thesis by (simp add: keyMatches_def)
qed

end
