(* ===== verification/Api_Flows.thy ===== *)
theory Api_Flows
  imports Api_Http Cursor Storage
begin

text \<open>
  \<open>internal/api/flows.go\<close>: the request structs with their tags, the binder, and the two \<open>/v1\<close>
  handlers. The tags of a struct are a table of fields that \<open>bind\<close> and the OpenAPI builder
  walk, as the code walks the struct with \<open>reflect\<close>. The validator package is not part of this
  repository: \<open>validate\<close> returns the failed rules of a request as (field, tag, parameter), and
  \<open>validator_ok\<close> is what its documentation says of the tags used here.
\<close>

section \<open>Rendering\<close>

definition toJSON :: "FlowRecord \<Rightarrow> FlowJSON" where
  "toJSON r =
     \<lparr>j_ReceivedAt = format_micro (ReceivedAt r), j_ExporterID = ExporterID r,
      j_ExporterAddr = ExporterAddr r, j_FlowType = FlowType_of r,
      j_FirstSwitched = format_micro (FirstSwitched r), j_LastSwitched = format_micro (LastSwitched r),
      j_SrcAddr = SrcAddr r, j_DstAddr = DstAddr r, j_SrcPort = SrcPort r, j_DstPort = DstPort r,
      j_Protocol = Protocol r, j_TCPFlags = TCPFlags r, j_Packets = Packets r, j_Bytes = Bytes r,
      j_SamplingRate = SamplingRate r, j_InputIface = InputIface r, j_OutputIface = OutputIface r,
      j_SrcAS = SrcAS r, j_DstAS = DstAS r,
      j_NextHop = (if is_valid (NextHop r) then Some (addr_String (NextHop r)) else None)\<rparr>"

definition toExporterJSON :: "Exporter \<Rightarrow> ExporterJSON" where
  "toExporterJSON e =
     \<lparr>x_ID = ex_ID e, x_IPAddress = ex_IPAddress e, x_Label = ex_Label e,
      x_FirstSeenAt = format_micro (ex_FirstSeenAt e), x_LastSeenAt = format_micro (ex_LastSeenAt e)\<rparr>"

section \<open>The request structs\<close>

record FlowsRequest =
  r_Start :: time
  r_End :: time
  r_ExporterID :: "int option"
  r_SrcAddr :: Addr
  r_DstAddr :: Addr
  r_Protocol :: "int option"
  r_Limit :: int
  r_Cursor :: string

definition zero_request :: FlowsRequest where
  "zero_request = \<lparr>r_Start = zero_time, r_End = zero_time, r_ExporterID = None, r_SrcAddr = AddrZero,
     r_DstAddr = AddrZero, r_Protocol = None, r_Limit = 0, r_Cursor = []\<rparr>"

datatype gotype = TTime | TAddr | TIntPtr | TInt64Ptr | TInt | TString

record field =
  f_Name :: string
  f_Query :: string
  f_Type :: gotype
  f_Validate :: string

definition flows_fields :: "field list" where
  "flows_fields =
    [\<lparr>f_Name = ''Start'', f_Query = ''start'', f_Type = TTime, f_Validate = ''required''\<rparr>,
     \<lparr>f_Name = ''End'', f_Query = ''end'', f_Type = TTime, f_Validate = ''required,gtfield=Start''\<rparr>,
     \<lparr>f_Name = ''ExporterID'', f_Query = ''exporter_id'', f_Type = TInt64Ptr, f_Validate = ''omitempty,min=1''\<rparr>,
     \<lparr>f_Name = ''SrcAddr'', f_Query = ''src_addr'', f_Type = TAddr, f_Validate = []\<rparr>,
     \<lparr>f_Name = ''DstAddr'', f_Query = ''dst_addr'', f_Type = TAddr, f_Validate = []\<rparr>,
     \<lparr>f_Name = ''Protocol'', f_Query = ''protocol'', f_Type = TIntPtr, f_Validate = ''omitempty,min=0,max=255''\<rparr>,
     \<lparr>f_Name = ''Limit'', f_Query = ''limit'', f_Type = TInt, f_Validate = []\<rparr>,
     \<lparr>f_Name = ''Cursor'', f_Query = ''cursor'', f_Type = TString, f_Validate = []\<rparr>]"

definition exporters_fields :: "field list" where
  "exporters_fields = []"

section \<open>Binding\<close>

datatype field_value = VTime time | VAddr Addr | VIntPtr int | VInt int | VString string

definition setField :: "gotype \<Rightarrow> string \<Rightarrow> string + field_value" where
  "setField ty raw =
     (case ty of
        TTime \<Rightarrow> (case ParseRFC3339 raw of Some t \<Rightarrow> Inr (VTime t) | None \<Rightarrow> Inl ''must be an RFC 3339 timestamp'')
      | TAddr \<Rightarrow> (case ParseAddr raw of Some a \<Rightarrow> Inr (VAddr a) | None \<Rightarrow> Inl ''must be an IPv4 or IPv6 address'')
      | TIntPtr \<Rightarrow> (case Atoi raw of Inr n \<Rightarrow> Inr (VIntPtr n) | Inl _ \<Rightarrow> Inl ''must be an integer'')
      | TInt64Ptr \<Rightarrow> (case ParseInt raw 64 of Inr n \<Rightarrow> Inr (VIntPtr n) | Inl _ \<Rightarrow> Inl ''must be an integer'')
      | TInt \<Rightarrow> (case ParseInt raw 64 of Inr n \<Rightarrow> Inr (VInt n) | Inl _ \<Rightarrow> Inl ''must be an integer'')
      | TString \<Rightarrow> Inr (VString raw))"

text \<open>Setting the struct's field of a name, as \<open>reflect\<close> does through its index.\<close>

definition put_field :: "string \<Rightarrow> field_value \<Rightarrow> FlowsRequest \<Rightarrow> FlowsRequest" where
  "put_field name v r =
     (case v of
        VTime t \<Rightarrow> if name = ''Start'' then r\<lparr>r_Start := t\<rparr> else if name = ''End'' then r\<lparr>r_End := t\<rparr> else r
      | VAddr a \<Rightarrow> if name = ''SrcAddr'' then r\<lparr>r_SrcAddr := a\<rparr> else if name = ''DstAddr'' then r\<lparr>r_DstAddr := a\<rparr> else r
      | VIntPtr n \<Rightarrow> if name = ''ExporterID'' then r\<lparr>r_ExporterID := Some n\<rparr>
                    else if name = ''Protocol'' then r\<lparr>r_Protocol := Some n\<rparr> else r
      | VInt n \<Rightarrow> if name = ''Limit'' then r\<lparr>r_Limit := n\<rparr> else r
      | VString s \<Rightarrow> if name = ''Cursor'' then r\<lparr>r_Cursor := s\<rparr> else r)"

fun bind_fields :: "(string \<times> string) list \<Rightarrow> field list \<Rightarrow> Detail list \<Rightarrow> FlowsRequest \<Rightarrow>
    Detail list \<times> FlowsRequest" where
  "bind_fields vs [] details req = (details, req)"
| "bind_fields vs (f # fs) details req =
     (let raw = query_Get vs (f_Query f)
      in if f_Query f = [] \<or> raw = [] then bind_fields vs fs details req
         else case setField (f_Type f) raw of
                Inl msg \<Rightarrow> bind_fields vs fs (details @ [\<lparr>d_Field = f_Query f, d_Message = msg\<rparr>]) req
              | Inr v \<Rightarrow> bind_fields vs fs details (put_field (f_Name f) v req))"

definition unknown_keys :: "(string \<times> string) list \<Rightarrow> field list \<Rightarrow> string list" where
  "unknown_keys vs fs = sort (filter (\<lambda>k. k \<notin> set (map f_Query fs)) (remdups (map fst vs)))"

type_synonym field_error = "string \<times> string \<times> string"

fun describe :: "field_error \<Rightarrow> string" where
  "describe (fld, tag, param) =
     (if tag = ''required'' then ''is required''
      else if tag = ''gtfield'' then ''must be after '' @ ToLower param
      else if tag = ''min'' then ''must be at least '' @ param
      else if tag = ''max'' then ''must be at most '' @ param
      else ''failed '' @ tag)"

definition bind :: "(FlowsRequest \<Rightarrow> field_error list) \<Rightarrow> field list \<Rightarrow> request \<Rightarrow> FlowsRequest \<Rightarrow>
    Detail list \<times> FlowsRequest" where
  "bind validate fs r req0 =
     (let vs = URL_Query (RawQuery r);
          (details, req) = bind_fields vs fs [] req0;
          details1 = details @ map (\<lambda>k. \<lparr>d_Field = k, d_Message = ''unknown parameter''\<rparr>) (unknown_keys vs fs)
      in if details1 \<noteq> [] then (details1, req)
         else (map (\<lambda>fe. \<lparr>d_Field = fst fe, d_Message = describe fe\<rparr>) (validate req), req))"

section \<open>The handlers\<close>

type_synonym querier = "FlowQuery \<Rightarrow> string + FlowResultPage"

definition query_of :: "FlowsRequest \<Rightarrow> FlowQuery" where
  "query_of req =
     (let l1 = (if r_Limit req < 1 then defaultLimit else r_Limit req);
          limit = (if l1 > maxLimit then maxLimit else l1)
      in \<lparr>q_Start = r_Start req, q_End = r_End req,
          q_ExporterID = (case r_ExporterID req of Some n \<Rightarrow> word_of_int n | None \<Rightarrow> 0),
          q_SrcAddr = r_SrcAddr req, q_DstAddr = r_DstAddr req,
          q_Protocol = map_option word_of_int (r_Protocol req),
          q_Limit = limit, q_Cursor = r_Cursor req\<rparr>)"

definition flows :: "(FlowsRequest \<Rightarrow> field_error list) \<Rightarrow> querier option \<Rightarrow> string \<Rightarrow> request \<Rightarrow> response" where
  "flows validate querier rid r =
     (let (details, req) = bind validate flows_fields r zero_request
      in if length details > 0 then writeError rid 422 CodeValidation ''invalid parameters'' details
         else if r_Cursor req \<noteq> [] \<and> checkCursor (r_Cursor req) \<noteq> None
         then writeError rid 400 CodeBadRequest ''undecodable cursor'' []
         else case querier of
                None \<Rightarrow> writeError rid 503 CodeBackendUnavailable
                          ''no queryable storage backend is configured on this instance'' []
              | Some query \<Rightarrow>
                  (case query (query_of req) of
                     Inl _ \<Rightarrow> writeError rid 503 CodeBackendUnavailable
                                ''the storage backend did not answer'' []
                   | Inr page \<Rightarrow>
                       writeData (FlowsData (map toJSON (Records page)))
                         \<lparr>meta_NextCursor = NextCursor page, meta_HasMore = HasMore page\<rparr>))"

text \<open>
  What a sink can do for the API, found by type assertion: \<open>Ping\<close>, \<open>Query\<close> and \<open>ListExporters\<close>, each
  with the answer it would give.
\<close>

record sink_caps =
  cap_Ping :: "string option option"
  cap_Query :: "querier option"
  cap_List :: "(string + Exporter list) option"

fun first_list :: "(string \<rightharpoonup> sink_caps) \<Rightarrow> string list \<Rightarrow> Exporter list option" where
  "first_list sinks [] = None"
| "first_list sinks (name # names) =
     (case sinks name of
        None \<Rightarrow> first_list sinks names
      | Some s \<Rightarrow>
          (case cap_List s of
             Some (Inr es) \<Rightarrow> Some es
           | _ \<Rightarrow> first_list sinks names))"

definition exporters :: "(string \<times> sink_caps) list \<Rightarrow> string \<Rightarrow> request \<Rightarrow> response" where
  "exporters sinks rid r =
     (let (details, _) = bind (\<lambda>_. []) exporters_fields r zero_request
      in if length details > 0 then writeError rid 422 CodeValidation ''invalid parameters'' details
         else case first_list (map_of sinks) (sort (map fst sinks)) of
                Some es \<Rightarrow> writeData (ExportersData (map toExporterJSON es))
                             \<lparr>meta_NextCursor = [], meta_HasMore = False\<rparr>
              | None \<Rightarrow> writeError rid 503 CodeBackendUnavailable
                          ''no configured backend can list exporters'' [])"

section \<open>The document's parameters\<close>

text \<open>The schema and the parameter list of \<open>OpenAPI\<close>.\<close>

record schema =
  s_Type :: string
  s_Format :: "string option"
  s_Minimum :: "int option"
  s_Maximum :: "int option"

fun rule_bound :: "string \<Rightarrow> schema \<Rightarrow> schema" where
  "rule_bound rule s =
     (case cut_at (CHR ''='') rule of
        (k, v, ok) \<Rightarrow>
          if \<not> ok then s
          else case Atoi v of
                 Inl _ \<Rightarrow> s
               | Inr n \<Rightarrow> if k = ''min'' then s\<lparr>s_Minimum := Some n\<rparr>
                         else if k = ''max'' then s\<lparr>s_Maximum := Some n\<rparr> else s)"

definition schemaFor :: "gotype \<Rightarrow> string \<Rightarrow> schema" where
  "schemaFor ty rules =
     fold rule_bound (split_at_char (CHR '','') rules)
       (case ty of
          TTime \<Rightarrow> \<lparr>s_Type = ''string'', s_Format = Some ''date-time'', s_Minimum = None, s_Maximum = None\<rparr>
        | TAddr \<Rightarrow> \<lparr>s_Type = ''string'', s_Format = Some ''ip'', s_Minimum = None, s_Maximum = None\<rparr>
        | TString \<Rightarrow> \<lparr>s_Type = ''string'', s_Format = None, s_Minimum = None, s_Maximum = None\<rparr>
        | _ \<Rightarrow> \<lparr>s_Type = ''integer'', s_Format = None, s_Minimum = None, s_Maximum = None\<rparr>)"

fun contains :: "string \<Rightarrow> string \<Rightarrow> bool" where
  "contains [] sub = (sub = [])"
| "contains (c # cs) sub = (has_prefix (c # cs) sub \<or> contains cs sub)"

record parameter =
  p_Name :: string
  p_Required :: bool
  p_Schema :: schema

definition openapi_parameters :: "field list \<Rightarrow> parameter list" where
  "openapi_parameters fs =
     map (\<lambda>f. \<lparr>p_Name = f_Query f, p_Required = contains (f_Validate f) ''required'',
               p_Schema = schemaFor (f_Type f) (f_Validate f)\<rparr>)
       (filter (\<lambda>f. f_Query f \<noteq> []) fs)"

section \<open>What reaches a backend\<close>

text \<open>The rules of the tags, as the validator's documentation states them.\<close>

definition rules_ok :: "FlowsRequest \<Rightarrow> bool" where
  "rules_ok req \<longleftrightarrow>
     \<not> is_zero (r_Start req) \<and> \<not> is_zero (r_End req) \<and> r_Start req < r_End req \<and>
     (case r_ExporterID req of None \<Rightarrow> True | Some n \<Rightarrow> 1 \<le> n) \<and>
     (case r_Protocol req of None \<Rightarrow> True | Some p \<Rightarrow> 0 \<le> p \<and> p \<le> 255)"

definition validator_ok :: "(FlowsRequest \<Rightarrow> field_error list) \<Rightarrow> bool" where
  "validator_ok validate \<longleftrightarrow> (\<forall>req. validate req = [] \<longleftrightarrow> rules_ok req)"

text \<open>A validator that follows the rules field by field.\<close>

definition reference_validate :: "FlowsRequest \<Rightarrow> field_error list" where
  "reference_validate req =
     (if is_zero (r_Start req) then [(''start'', ''required'', [])] else []) @
     (if is_zero (r_End req) then [(''end'', ''required'', [])]
      else if r_End req \<le> r_Start req then [(''end'', ''gtfield'', ''Start'')] else []) @
     (case r_ExporterID req of Some n \<Rightarrow> if n < 1 then [(''exporter_id'', ''min'', ''1'')] else [] | None \<Rightarrow> []) @
     (case r_Protocol req of
        Some p \<Rightarrow> if p < 0 then [(''protocol'', ''min'', ''0'')]
                  else if 255 < p then [(''protocol'', ''max'', ''255'')] else []
      | None \<Rightarrow> [])"

lemma reference_validate_ok: "validator_ok reference_validate"
  by (auto simp: validator_ok_def reference_validate_def rules_ok_def split: option.splits)

text \<open>The queries the storage contract allows.\<close>

definition query_ok :: "FlowQuery \<Rightarrow> bool" where
  "query_ok q \<longleftrightarrow>
     q_Start q < q_End q \<and> 1 \<le> q_Limit q \<and> q_Limit q \<le> maxLimit \<and>
     0 \<le> sint (q_ExporterID q) \<and> (q_Cursor q = [] \<or> checkCursor (q_Cursor q) = None)"

lemma ParseInt_range:
  assumes "ParseInt s bits = Inr n"
  shows "- (2 ^ (bits - 1)) \<le> n \<and> n < 2 ^ (bits - 1)"
proof -
  let ?p = "2 ^ (bits - 1)"
  have "\<exists>v. (n = int v \<and> v < ?p) \<or> (n = - int v \<and> v \<le> ?p)"
    using assms by (auto simp: ParseInt_def Let_def not_le not_less split: if_splits)
  then obtain v where v: "(n = int v \<and> v < ?p) \<or> (n = - int v \<and> v \<le> ?p)" by blast
  have "(v < ?p \<longrightarrow> int v < ?p) \<and> (v \<le> ?p \<longrightarrow> int v \<le> ?p)"
    by (metis of_nat_less_iff of_nat_le_iff of_nat_numeral of_nat_power)
  moreover have "(0 :: int) < ?p" by simp
  ultimately show ?thesis using v by linarith
qed

definition ptr_ok :: "FlowsRequest \<Rightarrow> bool" where
  "ptr_ok req \<longleftrightarrow> (case r_ExporterID req of None \<Rightarrow> True | Some n \<Rightarrow> - (2 ^ 63) \<le> n \<and> n < 2 ^ 63)"

lemma setField_ptr:
  "setField ty raw = Inr (VIntPtr n) \<Longrightarrow> - (2 ^ 63) \<le> n \<and> n < 2 ^ 63"
  using ParseInt_range [of raw 64 n]
  by (auto simp: setField_def Atoi_def split: gotype.splits option.splits sum.splits)

lemma put_field_ptr:
  assumes "ptr_ok req" and "setField ty raw = Inr v"
  shows "ptr_ok (put_field name v req)"
  using assms setField_ptr [of ty raw]
  by (cases v) (auto simp: put_field_def ptr_ok_def)

lemma bind_fields_ptr: "ptr_ok req \<Longrightarrow> ptr_ok (snd (bind_fields vs fs details req))"
  by (induction vs fs details req rule: bind_fields.induct)
    (auto simp: Let_def put_field_ptr split: sum.splits)

lemma bind_no_details:
  assumes "bind validate fs r req0 = ([], req)"
  shows "validate req = [] \<and> req = snd (bind_fields (URL_Query (RawQuery r)) fs [] req0) \<and>
    fst (bind_fields (URL_Query (RawQuery r)) fs [] req0) = [] \<and>
    unknown_keys (URL_Query (RawQuery r)) fs = []"
  using assms by (auto simp: bind_def Let_def split: prod.splits if_splits)

lemma query_of_ok:
  assumes "rules_ok req" and "ptr_ok req" and "r_Cursor req = [] \<or> checkCursor (r_Cursor req) = None"
  shows "query_ok (query_of req)"
proof -
  have "0 \<le> sint (word_of_int n :: i64)" if "1 \<le> n" "n < 2 ^ 63" for n
    using wrap64_id [of n] that by (simp add: wrap64_def)
  then show ?thesis
    using assms
    by (auto simp: query_ok_def query_of_def rules_ok_def ptr_ok_def Let_def defaultLimit_def
        maxLimit_def split: option.splits)
qed

lemma bind_query_ok:
  assumes "validator_ok validate" and "bind validate flows_fields r zero_request = ([], req)"
    and "r_Cursor req = [] \<or> checkCursor (r_Cursor req) = None"
  shows "query_ok (query_of req)"
proof -
  have v: "validate req = []" and req: "req = snd (bind_fields (URL_Query (RawQuery r)) flows_fields [] zero_request)"
    using bind_no_details [OF assms(2)] by blast+
  have "rules_ok req" using assms(1) v unfolding validator_ok_def by blast
  moreover have "ptr_ok zero_request" by (simp add: ptr_ok_def zero_request_def)
  then have "ptr_ok req" using bind_fields_ptr unfolding req by blast
  ultimately show ?thesis using query_of_ok assms(3) by blast
qed

text \<open>
  C33. Only well-formed queries reach a storage backend. Whatever the client sends, the answer
  depends on how the backend treats queries with a non-empty range, a limit between 1 and
  1000, a non-negative exporter id and an empty or decodable cursor, and on no others; and it is
  200, 400, 422 or 503.
\<close>

theorem flows_query_well_formed:
  assumes "validator_ok validate" and "\<And>q. query_ok q \<Longrightarrow> query q = query' q"
  shows "flows validate (Some query) rid r = flows validate (Some query') rid r \<and>
    status (flows validate (Some query) rid r) \<in> {200, 400, 422, 503}"
proof -
  obtain details req where b: "bind validate flows_fields r zero_request = (details, req)" by fastforce
  show ?thesis
  proof (cases "details = [] \<and> (r_Cursor req = [] \<or> checkCursor (r_Cursor req) = None)")
    case True
    then have "query (query_of req) = query' (query_of req)"
      using assms(2) bind_query_ok [OF assms(1)] b by blast
    then show ?thesis
      using b True by (auto simp: flows_def writeError_def writeData_def writeJSON_def split: sum.splits)
  next
    case False
    then show ?thesis using b by (auto simp: flows_def writeError_def writeJSON_def)
  qed
qed

lemmas api_eval = flows_def bind_def flows_fields_def URL_Query_def List.map_filter_def parse_pair_def
  QueryUnescape_def hex_digit_val_def query_Get_def setField_def put_field_def unknown_keys_def
  zero_request_def Let_def ParseRFC3339_def digits_def expect_def hour_digits_def fraction_def zone_def
  is_digit_def dec_val_def digit_val_def days_in_def is_leap_def date_days_def days_before_year_def
  days_before_month_def unix_epoch_days_def day_seconds_def Second_def Atoi_def ParseInt_def
  reference_validate_def is_zero_def zero_time_def unix_to_internal_def query_of_def defaultLimit_def
  maxLimit_def writeError_def writeJSON_def

definition demo_flows_request :: request where
  "demo_flows_request = \<lparr>Method = ''GET'', EscapedPath = ''/v1/flows'',
     RawQuery = ''start=2026-01-19T12:00:00Z&end=2026-01-19T13:00:00Z&limit=5000&protocol=6'',
     Authorization = []\<rparr>"

lemma flows_query_well_formed_witness:
  "status (flows reference_validate
     (Some (\<lambda>q. if query_ok q then (if q_Limit q = 1000 then Inl ''down'' else Inr undefined) else Inr undefined))
     ''req_1'' demo_flows_request) = 503"
proof -
  let ?q = "\<lambda>q. if query_ok q then (if q_Limit q = 1000 then Inl ''down'' else Inr undefined) else Inr undefined"
  let ?p = "\<lambda>q. if q_Limit q = 1000 then Inl ''down'' else Inr undefined"
  have "status (flows reference_validate (Some ?p) ''req_1'' demo_flows_request) = 503"
    by (simp add: demo_flows_request_def api_eval)
  then show ?thesis
    using flows_query_well_formed [OF reference_validate_ok, of ?q ?p "''req_1''" demo_flows_request] by simp
qed

end
