(* ===== verification/Api_Openapi.thy ===== *)
theory Api_Openapi
  imports Api_Flows Json
begin

text \<open>
  \<open>OpenAPI\<close> of \<open>internal/api/flows.go\<close>: the document, as a JSON value, is built from the route table and the same
  field tables the binder reads. Its text (\<open>json.MarshalIndent\<close>, which sorts the keys) is not printed
  here.
\<close>

section \<open>The document\<close>

datatype endpoint = FlowsEndpoint | ExportersEndpoint

record route =
  rt_Method :: string
  rt_Path :: string
  rt_Summary :: string
  rt_Request :: "field list"
  rt_Handler :: endpoint

definition routes :: "route list" where
  "routes =
     [\<lparr>rt_Method = ''GET'', rt_Path = ''/v1/flows'',
       rt_Summary = ''Cursor-paginated flow records over a bounded time range, with optional filters.'',
       rt_Request = flows_fields, rt_Handler = FlowsEndpoint\<rparr>,
      \<lparr>rt_Method = ''GET'', rt_Path = ''/v1/exporters'',
       rt_Summary = ''Every known exporter with first/last seen and label.'',
       rt_Request = exporters_fields, rt_Handler = ExportersEndpoint\<rparr>]"

text \<open>The \<open>doc\<close> tags.\<close>

definition field_doc :: "string \<Rightarrow> string" where
  "field_doc name =
     (case map_of
        [(''Start'', ''Start of the half-open range [start, end) on received_at, RFC 3339 UTC.''),
         (''End'', ''End of the range, RFC 3339 UTC. Must be strictly after start.''),
         (''ExporterID'', ''Only records from this exporter id.''),
         (''SrcAddr'', ''Exact-match source address, IPv4 or IPv6.''),
         (''DstAddr'', ''Exact-match destination address, IPv4 or IPv6.''),
         (''Protocol'', ''IANA protocol number: 6 TCP, 17 UDP, 1 ICMP.''),
         (''Limit'', ''Records per page. Defaults to 100 and is clamped to 1000; a value below 1 means the default.''),
         (''Cursor'', ''Opaque cursor from a previous response'' @ [CHR 0x27] @ ''s meta.next_cursor.'')] name of
        Some d \<Rightarrow> d | None \<Rightarrow> [])"

definition json_int :: "int \<Rightarrow> json" where
  "json_int n = JNum ((if n < 0 then ''-'' else []) @ dec_nat (nat \<bar>n\<bar>))"

definition schema_json :: "schema \<Rightarrow> json" where
  "schema_json s =
     JObj ((case s_Format s of Some f \<Rightarrow> [(''format'', JStr f)] | None \<Rightarrow> []) @
           (case s_Maximum s of Some n \<Rightarrow> [(''maximum'', json_int n)] | None \<Rightarrow> []) @
           (case s_Minimum s of Some n \<Rightarrow> [(''minimum'', json_int n)] | None \<Rightarrow> []) @
           [(''type'', JStr (s_Type s))])"

definition parameter_json :: "field \<Rightarrow> json" where
  "parameter_json f =
     JObj [(''description'', JStr (field_doc (f_Name f))), (''in'', JStr ''query''), (''name'', JStr (f_Query f)),
           (''required'', JBool (contains (f_Validate f) ''required'')),
           (''schema'', schema_json (schemaFor (f_Type f) (f_Validate f)))]"

definition obj_schema :: "string list \<Rightarrow> (string \<times> json) list \<Rightarrow> json" where
  "obj_schema req props =
     JObj [(''properties'', JObj props), (''required'', JArr (map JStr req)), (''type'', JStr ''object'')]"

definition typed :: "string \<Rightarrow> json" where "typed ty = JObj [(''type'', JStr ty)]"

definition content_ref :: "string \<Rightarrow> json" where
  "content_ref name =
     JObj [(''application/json'', JObj [(''schema'',
       JObj [([CHR 0x24] @ ''ref'', JStr (''#/components/schemas/'' @ name))])])]"

definition errResponse :: "string \<Rightarrow> json" where
  "errResponse desc = JObj [(''content'', content_ref ''ErrorEnvelope''), (''description'', JStr desc)]"

definition operation_json :: "route \<Rightarrow> json" where
  "operation_json r =
     JObj [(ToLower (rt_Method r), JObj
       [(''parameters'', JArr (map parameter_json (filter (\<lambda>f. f_Query f \<noteq> []) (rt_Request r)))),
        (''responses'', JObj
           [(''200'', JObj [(''content'', content_ref ''SuccessEnvelope''), (''description'', JStr ''Success envelope'')]),
            (''400'', errResponse ''Malformed query string or undecodable cursor''),
            (''401'', errResponse ''Missing or unknown API key''),
            (''422'', errResponse ''Well-formed request, semantically invalid parameter''),
            (''503'', errResponse ''The storage backend did not answer'')]),
        (''security'', JArr [JObj [(''ApiKeyAuth'', JArr [])]]),
        (''summary'', JStr (rt_Summary r))])]"

definition SuccessEnvelope :: json where
  "SuccessEnvelope =
     obj_schema [''data'', ''meta'']
       [(''data'', JObj [(''items'', typed ''object''), (''type'', JStr ''array'')]),
        (''meta'', obj_schema [''has_more''] [(''has_more'', typed ''boolean''), (''next_cursor'', typed ''string'')])]"

definition ErrorEnvelope :: json where
  "ErrorEnvelope =
     obj_schema [''error'']
       [(''error'', obj_schema [''code'', ''message'', ''request_id'']
          [(''code'', JObj [(''enum'', JArr (map JStr
              [CodeValidation, CodeBadRequest, CodeUnauthorized, CodeNotFound, CodeMethodNotAllowed,
               CodeBackendUnavailable, CodeInternal])), (''type'', JStr ''string'')]),
           (''details'', JObj
              [(''items'', JObj [(''properties'', JObj [(''field'', typed ''string''), (''message'', typed ''string'')]),
                                 (''type'', JStr ''object'')]),
               (''type'', JStr ''array'')]),
           (''message'', typed ''string''),
           (''request_id'', typed ''string'')])]"

definition OpenAPI :: json where
  "OpenAPI =
     JObj [(''components'', JObj
              [(''schemas'', JObj [(''ErrorEnvelope'', ErrorEnvelope), (''SuccessEnvelope'', SuccessEnvelope)]),
               (''securitySchemes'', JObj [(''ApiKeyAuth'', JObj
                  [(''description'', JStr ''Bearer <key> from NFC_API_KEYS''), (''in'', JStr ''header''),
                   (''name'', JStr ''Authorization''), (''type'', JStr ''apiKey'')])])]),
           (''info'', JObj [(''title'', JStr ''NetFlow Collector API''), (''version'', JStr ''v1'')]),
           (''openapi'', JStr ''3.1.0''),
           (''paths'', JObj (map (\<lambda>r. (rt_Path r, operation_json r)) (sort_key rt_Path routes)))]"

section \<open>The document and the binder\<close>

fun jget :: "string \<Rightarrow> json \<Rightarrow> json" where
  "jget k (JObj kvs) = (case map_of kvs k of Some v \<Rightarrow> v | None \<Rightarrow> JNull)"
| "jget k _ = JNull"

fun jlist :: "json \<Rightarrow> json list" where
  "jlist (JArr xs) = xs"
| "jlist _ = []"

text \<open>The parameters the document lists for \<open>GET\<close> of a path.\<close>

definition documented :: "string \<Rightarrow> json list" where
  "documented path = jlist (jget ''parameters'' (jget ''get'' (jget path (jget ''paths'' OpenAPI))))"

lemma routes_sorted: "sort_key rt_Path routes = rev routes"
  by (simp add: routes_def)

lemma documented_fields:
  "documented ''/v1/flows'' = map parameter_json flows_fields"
  "documented ''/v1/exporters'' = []"
proof -
  have g: "ToLower ''GET'' = ''get''" by (simp add: ToLower_def to_lower_def char_of_eq_iff)
  have f: "filter (\<lambda>f. f_Query f \<noteq> []) flows_fields = flows_fields" "filter (\<lambda>f. f_Query f \<noteq> []) exporters_fields = []"
    by (simp_all add: flows_fields_def exporters_fields_def)
  show "documented ''/v1/flows'' = map parameter_json flows_fields" "documented ''/v1/exporters'' = []"
    unfolding documented_def OpenAPI_def routes_sorted
    by (simp_all add: routes_def operation_json_def g f)
qed

lemma bind_fields_messages:
  "d \<in> set (fst (bind_fields vs fs ds req)) \<Longrightarrow> d \<in> set ds \<or> d_Message d \<noteq> ''unknown parameter''"
proof (induction vs fs ds req rule: bind_fields.induct)
  case (2 vs f fs ds req)
  have "setField (f_Type f) raw = Inl msg \<Longrightarrow> msg \<noteq> ''unknown parameter''" for raw msg
    by (auto simp: setField_def split: gotype.splits option.splits sum.splits)
  with 2 show ?case by (fastforce simp: Let_def split: if_splits sum.splits)
qed simp

lemma describe_not_unknown: "describe fe \<noteq> ''unknown parameter''"
  by (cases fe) auto

text \<open>
  C34. The document cannot drift from the handler: \<open>GET /v1/flows\<close> rejects a query parameter as unknown exactly when
  the document does not list its name, whatever else is wrong with the request and whatever the validator
  reports.
\<close>

theorem openapi_documents_binder:
  "(\<lparr>d_Field = k, d_Message = ''unknown parameter''\<rparr> \<in> set (fst (bind validate flows_fields r zero_request))) \<longleftrightarrow>
   k \<in> set (map fst (URL_Query (RawQuery r))) \<and>
   JStr k \<notin> set (map (jget ''name'') (documented ''/v1/flows''))"
proof -
  let ?vs = "URL_Query (RawQuery r)"
  let ?d = "\<lparr>d_Field = k, d_Message = ''unknown parameter''\<rparr>"
  have names: "JStr k \<in> set (map (jget ''name'') (documented ''/v1/flows'')) \<longleftrightarrow> k \<in> set (map f_Query flows_fields)"
    by (auto simp: documented_fields parameter_json_def)
  have unknown: "k \<in> set (unknown_keys ?vs flows_fields) \<longleftrightarrow> k \<in> set (map fst ?vs) \<and> k \<notin> set (map f_Query flows_fields)"
    by (auto simp: unknown_keys_def)
  obtain ds req where b: "bind_fields ?vs flows_fields [] zero_request = (ds, req)" by fastforce
  have ds: "?d \<notin> set ds" using bind_fields_messages [of ?d ?vs flows_fields "[]" zero_request] b by auto
  have val: "?d \<notin> set (map (\<lambda>fe. \<lparr>d_Field = fst fe, d_Message = describe fe\<rparr>) (validate req))"
    using describe_not_unknown by fastforce
  have "?d \<in> set (fst (bind validate flows_fields r zero_request)) \<longleftrightarrow> k \<in> set (unknown_keys ?vs flows_fields)"
    using ds val by (auto simp: bind_def b Let_def)
  then show ?thesis unfolding unknown names .
qed

end
