(* ===== verification/Obs.thy ===== *)
theory Obs
  imports Gotext
begin

text \<open>
  \<open>internal/obs\<close>: the log level, the redaction of secret attributes by the log handler, and the series
  that exist before the first record. An attribute is a leaf with its text or a group;
  \<open>handled\<close> is how the JSON handler of \<open>log/slog\<close> uses the \<open>ReplaceAttr\<close> of its options: on every attribute that is not
  a group, at every depth.
\<close>

section \<open>Logging\<close>

datatype Level = LevelDebug | LevelInfo | LevelWarn | LevelError

definition ParseLevel :: "string \<Rightarrow> Level" where
  "ParseLevel s =
     (let l = ToLower (TrimSpace s)
      in if l = ''debug'' then LevelDebug
         else if l = ''warn'' \<or> l = ''warning'' then LevelWarn
         else if l = ''error'' then LevelError
         else LevelInfo)"

definition Redacted :: string where "Redacted = ''[redacted]''"

definition redactedKeys :: "string list" where
  "redactedKeys = [''authorization'', ''api_key'', ''api_keys'', ''dsn'', ''password'', ''token'', ''secret'']"

definition has_suffix :: "string \<Rightarrow> string \<Rightarrow> bool" where
  "has_suffix s t \<longleftrightarrow> length t \<le> length s \<and> drop (length s - length t) s = t"

definition IsRedactedKey :: "string \<Rightarrow> bool" where
  "IsRedactedKey key =
     (let k = ToLower key
      in list_ex (\<lambda>r. k = r \<or> has_suffix k (''_'' @ r) \<or> has_suffix k (''.'' @ r)) redactedKeys)"

datatype attr = Leaf string string | Group string "attr list"

fun redact :: "attr \<Rightarrow> attr" where
  "redact (Group k as) = Group k as"
| "redact (Leaf k v) = (if IsRedactedKey k then Leaf k Redacted else Leaf k v)"

fun handled :: "attr \<Rightarrow> attr" where
  "handled (Leaf k v) = redact (Leaf k v)"
| "handled (Group k as) = Group k (map handled as)"

text \<open>The leaves of an attribute, each with its key and what is written for it.\<close>

fun leaves :: "attr \<Rightarrow> (string \<times> string) list" where
  "leaves (Leaf k v) = [(k, v)]"
| "leaves (Group k as) = concat (map leaves as)"

section \<open>Metrics\<close>

datatype instrument = DecodeErrors | RecordsIngested_vec | RecordsDropped_vec | BatchWriteDuration_vec
  | BatchWriteErrors_vec | PipelineBufferLength_gauge | RecordVisibilityLag_hist | SourceRewinds

definition instruments :: "instrument list" where
  "instruments = [DecodeErrors, RecordsIngested_vec, RecordsDropped_vec, BatchWriteDuration_vec, BatchWriteErrors_vec,
     PipelineBufferLength_gauge, RecordVisibilityLag_hist, SourceRewinds]"

text \<open>How each is registered: its name, its help, its label and, for a histogram, the bounds in milliseconds.\<close>

record instrument_opts =
  io_Name :: string
  io_Help :: string
  io_Labels :: "string list"
  io_Buckets :: "nat list"

fun registered :: "instrument \<Rightarrow> instrument_opts" where
  "registered DecodeErrors =
     \<lparr>io_Name = ''netflow_packets_decode_errors_total'',
      io_Help = ''Datagrams or messages that failed to decode, by source.'', io_Labels = [''source''], io_Buckets = []\<rparr>"
| "registered RecordsIngested_vec =
     \<lparr>io_Name = ''netflow_records_ingested_total'',
      io_Help = ''Flow records accepted into the ingest buffer, by source.'', io_Labels = [''source''], io_Buckets = []\<rparr>"
| "registered RecordsDropped_vec =
     \<lparr>io_Name = ''netflow_records_dropped_total'',
      io_Help = ''Flow records discarded by the pipeline, by reason.'', io_Labels = [''reason''], io_Buckets = []\<rparr>"
| "registered BatchWriteDuration_vec =
     \<lparr>io_Name = ''netflow_batch_write_duration_seconds'',
      io_Help = ''Duration of one WriteBatch call, by sink.'', io_Labels = [''sink''],
      io_Buckets = [5, 10, 25, 50, 100, 250, 500, 1000, 2500, 5000, 10000]\<rparr>"
| "registered BatchWriteErrors_vec =
     \<lparr>io_Name = ''netflow_batch_write_errors_total'',
      io_Help = ''WriteBatch calls that failed, by sink.'', io_Labels = [''sink''], io_Buckets = []\<rparr>"
| "registered PipelineBufferLength_gauge =
     \<lparr>io_Name = ''netflow_pipeline_buffer_length'',
      io_Help = ''Records currently waiting in the ingest buffer.'', io_Labels = [], io_Buckets = []\<rparr>"
| "registered RecordVisibilityLag_hist =
     \<lparr>io_Name = ''netflow_record_visibility_lag_seconds'',
      io_Help = ''Seconds between a record'' @ [CHR 0x27] @
        ''s received_at and the completion of the batch write that stored it.'',
      io_Labels = [], io_Buckets = [100, 250, 500, 1000, 2500, 5000, 10000, 30000, 60000, 120000, 300000]\<rparr>"
| "registered SourceRewinds =
     \<lparr>io_Name = ''netflow_source_rewinds_total'',
      io_Help = ''Rewinds of a pull source to its last acknowledged position after a batch write failure, by source.'',
      io_Labels = [''source''], io_Buckets = []\<rparr>"

text \<open>
  The registry refuses a name twice and a histogram unsorted bounds, each with a panic at the start of the process:
  neither occurs.
\<close>

lemma registration_ok:
  "distinct (map (\<lambda>i. io_Name (registered i)) instruments) \<and>
   list_all (\<lambda>i. sorted_wrt (<) (io_Buckets (registered i))) instruments"
  by (simp add: instruments_def)

text \<open>\<open>WithLabelValues\<close> makes the series of a label exist, at zero.\<close>

definition Prime :: "string list \<Rightarrow> string list \<Rightarrow> (instrument \<times> string) list" where
  "Prime sources sinks =
     concat (map (\<lambda>s. [(RecordsIngested_vec, s), (SourceRewinds, s)]) sources) @
     map (\<lambda>r. (RecordsDropped_vec, r)) [''buffer_full'', ''shutdown''] @
     concat (map (\<lambda>s. [(BatchWriteDuration_vec, s), (BatchWriteErrors_vec, s)]) sinks)"

section \<open>What is shown\<close>

lemma leaves_handled:
  "leaves (handled a) = map (\<lambda>(k, v). (k, if IsRedactedKey k then Redacted else v)) (leaves a)"
proof (induction a)
  case (Group k as)
  then show ?case by (induction as) auto
qed simp

lemma has_suffix_iff: "has_suffix s t \<longleftrightarrow> (\<exists>p. s = p @ t)"
proof
  assume "has_suffix s t"
  then show "\<exists>p. s = p @ t" by (metis append_take_drop_id has_suffix_def)
qed (auto simp: has_suffix_def)

text \<open>The list's rule as its comment has it.\<close>

definition secret_key :: "string \<Rightarrow> bool" where
  "secret_key k \<longleftrightarrow>
     (\<exists>r \<in> set redactedKeys. ToLower k = r \<or> (\<exists>p. ToLower k = p @ ''_'' @ r \<or> ToLower k = p @ ''.'' @ r))"

lemma IsRedactedKey_secret: "IsRedactedKey k \<longleftrightarrow> secret_key k"
  unfolding IsRedactedKey_def secret_key_def Let_def list_ex_iff has_suffix_iff by blast

text \<open>
  A secret never reaches a log line under a key of the redaction list: whatever attributes are logged and however
  deeply they are grouped, every leaf whose key, in any letter case, is a listed name or ends in one after
  an underscore or a dot is written as the placeholder; every other leaf is written
  unchanged, and none is lost, added or moved.
\<close>

theorem secrets_redacted:
  "leaves (handled a) = map (\<lambda>(k, v). (k, if secret_key k then Redacted else v)) (leaves a)"
  by (simp add: leaves_handled IsRedactedKey_secret)

text \<open>
  Priming makes a series exist for every source, sink and drop reason of the instruments it visits,
  but for no source does it create the series of \<open>DecodeErrors\<close>: that instrument is absent from
  \<open>/metrics\<close> until the first undecodable message.
\<close>

theorem prime_omits_decode_errors:
  "(\<forall>s. (RecordsIngested_vec, s) \<in> set (Prime sources sinks) \<longleftrightarrow> s \<in> set sources) \<and>
   (\<forall>s. (BatchWriteErrors_vec, s) \<in> set (Prime sources sinks) \<longleftrightarrow> s \<in> set sinks) \<and>
   (\<forall>s. (DecodeErrors, s) \<notin> set (Prime sources sinks))"
  by (auto simp: Prime_def)

end
