(* ===== verification/Config.thy ===== *)
theory Config
  imports Api_Http Gotime
begin

text \<open>
  \<open>internal/config\<close>: finding and reading the \<open>.env\<close> file, overlaying the process environment, and the
  checks of \<open>parse\<close>. Two packages are not part of this repository and are arguments: \<open>bind_env\<close>, which
  fills the struct from the variables (or reports the fields it could not parse), and
  \<open>validate\<close>, which reports the failed rules of the struct's tags. The file system is \<open>is_file\<close> and
  \<open>read_file\<close>.
\<close>

definition SourceNetFlow :: string where "SourceNetFlow = ''netflow''"
definition SourceKafka :: string where "SourceKafka = ''kafka''"
definition SinkPostgres :: string where "SinkPostgres = ''postgres''"
definition SinkMariaDB :: string where "SinkMariaDB = ''mariadb''"
definition SinkClickHouse :: string where "SinkClickHouse = ''clickhouse''"
definition SinkKafka :: string where "SinkKafka = ''kafka''"

lemmas config_names = SourceNetFlow_def SourceKafka_def SinkPostgres_def SinkMariaDB_def
  SinkClickHouse_def SinkKafka_def

definition maxWalkUp :: nat where "maxWalkUp = 10"

record Config =
  LogLevel :: string
  HTTPAddr :: string
  NetFlowAddr :: string
  Sources :: "string list"
  Sinks :: "string list"
  PostgresDSN :: string
  MariaDBDSN :: string
  ClickHouseDSN :: string
  RetentionDays :: int
  KafkaBrokers :: "string list"
  KafkaTopic :: string
  KafkaGroup :: string
  KafkaTemplateTopic :: string
  PipelineBuffer :: int
  cfg_BatchSize :: int
  cfg_BatchInterval :: duration
  cfg_Workers :: int
  APIKeys :: "string list"
  PostgresEnabled :: bool
  MariaDBEnabled :: bool
  ClickHouseEnabled :: bool
  KafkaSourceEnabled :: bool
  KafkaSinkEnabled :: bool
  KafkaEnabled :: bool
  NetFlowEnabled :: bool

record VarError =
  ve_Var :: string
  ve_Msg :: string

text \<open>A failed rule: the field as its variable, the tag, its parameter and the offending value.\<close>

record cfg_rule =
  cr_Field :: string
  cr_Tag :: string
  cr_Param :: string
  cr_Value :: string

datatype config_error =
    DotEnvUnreadable string
  | DotEnvSyntax nat
  | DotEnvTooLong
  | VarErrors "VarError list"

section \<open>The \<open>.env\<close> file\<close>

text \<open>
  A directory is the list of its path's elements, the root the empty list, so \<open>filepath.Dir\<close> drops the
  last element and leaves the root as it is.
\<close>

fun findDotEnv_from :: "(string list \<Rightarrow> bool) \<Rightarrow> nat \<Rightarrow> string list \<Rightarrow> string list option" where
  "findDotEnv_from is_file 0 dir = None"
| "findDotEnv_from is_file (Suc n) dir =
     (if is_file (dir @ [''.env'']) then Some (dir @ [''.env''])
      else if butlast dir = dir then None
      else findDotEnv_from is_file n (butlast dir))"

definition findDotEnv :: "(string list \<Rightarrow> bool) \<Rightarrow> string list \<Rightarrow> string list option" where
  "findDotEnv is_file dir = findDotEnv_from is_file (maxWalkUp + 1) dir"

text \<open>
  The lines of a \<open>bufio.Scanner\<close>: without their end, a final empty one left out; a line of
  64 KiB or more stops it with an error.
\<close>

definition newline :: char where "newline = CHR 0x0A"
definition maxToken :: nat where "maxToken = 65536"

definition scan_lines :: "string \<Rightarrow> string list" where
  "scan_lines text =
     (let ls = split_at_char newline text in if last ls = [] then butlast ls else ls)"

definition drop_cr :: "string \<Rightarrow> string" where
  "drop_cr l = (if l \<noteq> [] \<and> last l = CHR 0x0D then butlast l else l)"

definition trim_prefix :: "string \<Rightarrow> string \<Rightarrow> string" where
  "trim_prefix p s = (if has_prefix s p then drop (length p) s else s)"

definition unquote :: "string \<Rightarrow> string" where
  "unquote v =
     (if 2 \<le> length v \<and> (hd v = CHR 0x22 \<or> hd v = CHR 0x27) \<and> last v = hd v
      then butlast (tl v) else v)"

text \<open>One line: nothing, a variable, or a syntax error.\<close>

datatype dotenv_line = Skip | Var string string | BadLine

definition parse_line :: "string \<Rightarrow> dotenv_line" where
  "parse_line raw =
     (let line = TrimSpace raw
      in if line = [] \<or> has_prefix line ''#'' then Skip
         else case cut_at (CHR ''='') (trim_prefix ''export '' line) of
                (k, v, ok) \<Rightarrow>
                  if \<not> ok \<or> TrimSpace k = [] then BadLine
                  else Var (TrimSpace k) (unquote (TrimSpace v)))"

fun parse_lines :: "nat \<Rightarrow> string list \<Rightarrow> (string \<rightharpoonup> string) \<Rightarrow> config_error + (string \<rightharpoonup> string)" where
  "parse_lines n [] vars = Inr vars"
| "parse_lines n (l # ls) vars =
     (if maxToken \<le> length l then Inl DotEnvTooLong
      else case parse_line (drop_cr l) of
             Skip \<Rightarrow> parse_lines (n + 1) ls vars
           | Var k v \<Rightarrow> parse_lines (n + 1) ls (vars(k \<mapsto> v))
           | BadLine \<Rightarrow> Inl (DotEnvSyntax n))"

definition parseDotEnv :: "string \<Rightarrow> config_error + (string \<rightharpoonup> string)" where
  "parseDotEnv text = parse_lines 1 (scan_lines text) Map.empty"

section \<open>Binding and validation\<close>

text \<open>\<open>%q\<close> of an ASCII text; the bytes of other characters are kept.\<close>

fun quoted_char :: "char \<Rightarrow> string" where
  "quoted_char c =
     (if c = CHR 0x22 \<or> c = CHR 0x5C then [CHR 0x5C, c]
      else if c = CHR 0x07 then [CHR 0x5C, CHR ''a'']
      else if c = CHR 0x08 then [CHR 0x5C, CHR ''b'']
      else if c = CHR 0x0C then [CHR 0x5C, CHR ''f'']
      else if c = CHR 0x0A then [CHR 0x5C, CHR ''n'']
      else if c = CHR 0x0D then [CHR 0x5C, CHR ''r'']
      else if c = CHR 0x09 then [CHR 0x5C, CHR ''t'']
      else if c = CHR 0x0B then [CHR 0x5C, CHR ''v'']
      else if (of_char c :: nat) < 32 \<or> (of_char c :: nat) = 127
      then [CHR 0x5C, CHR ''x'', ''0123456789abcdef'' ! (of_char c div 16), ''0123456789abcdef'' ! (of_char c mod 16)]
      else [c])"

definition quoted :: "string \<Rightarrow> string" where
  "quoted s = [CHR 0x22] @ concat (map quoted_char s) @ [CHR 0x22]"

definition describe :: "cfg_rule \<Rightarrow> string" where
  "describe fe =
     (let tag = cr_Tag fe
      in if tag = ''required'' \<or> tag = ''required_if'' then ''must be set''
         else if tag = ''oneof'' then
           ''must be one of '' @ join_with '', '' (filter (\<lambda>w. w \<noteq> []) (split_at_char (CHR '' '') (cr_Param fe))) @
           '' (got '' @ quoted (cr_Value fe) @ '')''
         else if tag = ''min'' then ''must be at least '' @ cr_Param fe
         else if tag = ''gt'' then ''must be greater than '' @ cr_Param fe
         else if tag = ''hostname_port'' then ''must be host:port''
         else ''failed '' @ tag)"

text \<open>\<open>NFC_SINKS[1]\<close> becomes \<open>NFC_SINKS\<close>; a bracket in the first place stays.\<close>

definition var_name :: "string \<Rightarrow> string" where
  "var_name field =
     (case cut_at (CHR ''['') field of (a, _, found) \<Rightarrow> if found \<and> a \<noteq> [] then a else field)"

definition validationError :: "cfg_rule list \<Rightarrow> config_error" where
  "validationError fes =
     VarErrors (map (\<lambda>fe. \<lparr>ve_Var = var_name (cr_Field fe), ve_Msg = describe fe\<rparr>) fes)"

text \<open>The variable of each field, as its tag names it; the derived fields have none.\<close>

definition env_tags :: "(string \<times> string) list" where
  "env_tags =
     [(''LogLevel'', ''NFC_LOG_LEVEL''), (''HTTPAddr'', ''NFC_HTTP_ADDR''),
      (''NetFlowAddr'', ''NFC_NETFLOW_ADDR''), (''Sources'', ''NFC_SOURCES''), (''Sinks'', ''NFC_SINKS''),
      (''PostgresDSN'', ''NFC_POSTGRES_DSN''), (''MariaDBDSN'', ''NFC_MARIADB_DSN''),
      (''ClickHouseDSN'', ''NFC_CLICKHOUSE_DSN''), (''RetentionDays'', ''NFC_RETENTION_DAYS''),
      (''KafkaBrokers'', ''NFC_KAFKA_BROKERS''), (''KafkaTopic'', ''NFC_KAFKA_TOPIC''),
      (''KafkaGroup'', ''NFC_KAFKA_GROUP''), (''KafkaTemplateTopic'', ''NFC_KAFKA_TEMPLATE_TOPIC''),
      (''PipelineBuffer'', ''NFC_PIPELINE_BUFFER''), (''BatchSize'', ''NFC_BATCH_SIZE''),
      (''BatchInterval'', ''NFC_BATCH_INTERVAL''), (''Workers'', ''NFC_WORKERS''),
      (''APIKeys'', ''NFC_API_KEYS'')]"

definition envName :: "string \<Rightarrow> string" where
  "envName field = (case map_of env_tags field of Some tag \<Rightarrow> tag | None \<Rightarrow> field)"

text \<open>A binding failure: the field with the type and text of its parse error, or another error.\<close>

datatype bind_failure = ParseError string string string | OtherBind string

fun bind_var :: "bind_failure \<Rightarrow> VarError" where
  "bind_var (ParseError field ty err) =
     \<lparr>ve_Var = envName field, ve_Msg = ''invalid '' @ ty @ '': '' @ err\<rparr>"
| "bind_var (OtherBind err) = \<lparr>ve_Var = ''?'', ve_Msg = err\<rparr>"

definition bindError :: "bind_failure list \<Rightarrow> config_error" where
  "bindError fs = VarErrors (map bind_var fs)"

definition derive_flags :: "Config \<Rightarrow> Config" where
  "derive_flags cfg =
     (let cfg1 = cfg\<lparr>PostgresEnabled := SinkPostgres \<in> set (Sinks cfg),
                     MariaDBEnabled := SinkMariaDB \<in> set (Sinks cfg),
                     ClickHouseEnabled := SinkClickHouse \<in> set (Sinks cfg),
                     KafkaSourceEnabled := SourceKafka \<in> set (Sources cfg),
                     KafkaSinkEnabled := SinkKafka \<in> set (Sinks cfg)\<rparr>
      in cfg1\<lparr>KafkaEnabled := KafkaSourceEnabled cfg1 \<or> KafkaSinkEnabled cfg1 \<or> KafkaTemplateTopic cfg1 \<noteq> [],
              NetFlowEnabled := SourceNetFlow \<in> set (Sources cfg)\<rparr>)"

definition parse :: "((string \<rightharpoonup> string) \<Rightarrow> bind_failure list + Config) \<Rightarrow> (Config \<Rightarrow> cfg_rule list) \<Rightarrow>
    (string \<rightharpoonup> string) \<Rightarrow> config_error + Config" where
  "parse bind_env validate vars =
     (case bind_env vars of
        Inl fs \<Rightarrow> Inl (bindError fs)
      | Inr cfg0 \<Rightarrow>
          (let cfg = derive_flags cfg0; fes = validate cfg
           in if fes \<noteq> [] then Inl (validationError fes)
              else if KafkaTemplateTopic cfg \<noteq> [] \<and> KafkaTemplateTopic cfg = KafkaTopic cfg
              then Inl (VarErrors [\<lparr>ve_Var = ''NFC_KAFKA_TEMPLATE_TOPIC'',
                     ve_Msg = ''must differ from NFC_KAFKA_TOPIC: templates and flow records are different streams''\<rparr>])
              else if KafkaSourceEnabled cfg \<and> KafkaSinkEnabled cfg
              then Inl (VarErrors [\<lparr>ve_Var = ''NFC_SINKS'',
                     ve_Msg = ''kafka cannot be both a source and a sink of the same topic; '' @
                              ''run the edge and central tiers as separate instances''\<rparr>])
              else Inr cfg))"

fun overlay :: "string list \<Rightarrow> (string \<rightharpoonup> string) \<Rightarrow> (string \<rightharpoonup> string)" where
  "overlay [] vars = vars"
| "overlay (kv # environ) vars =
     (case cut_at (CHR ''='') kv of
        (k, v, ok) \<Rightarrow> overlay environ (if ok then vars(k \<mapsto> v) else vars))"

definition load where
  "load is_file read_file bind_env validate wd environ =
     (case (case findDotEnv is_file wd of
              None \<Rightarrow> Inr Map.empty
            | Some path \<Rightarrow>
                (case read_file path of
                   None \<Rightarrow> Inl (DotEnvUnreadable (last path))
                 | Some text \<Rightarrow> parseDotEnv text)) of
        Inl e \<Rightarrow> Inl e
      | Inr vars \<Rightarrow> parse bind_env validate (overlay environ vars))"

section \<open>Which file is read\<close>

text \<open>
  The places a \<open>.env\<close> may lie at: the working directory first, then each directory above it, at most ten
  levels up.
\<close>

definition dotenv_places :: "string list \<Rightarrow> string list list" where
  "dotenv_places wd = map (\<lambda>k. take (length wd - k) wd @ [''.env'']) [0..<min 10 (length wd) + 1]"

lemma places_up:
  assumes "dir \<noteq> []"
  shows "map (\<lambda>k. take (length dir - k) dir @ [''.env'']) [0..<Suc m] =
    (dir @ [''.env'']) # map (\<lambda>k. take (length (butlast dir) - k) (butlast dir) @ [''.env'']) [0..<m]"
proof -
  have "take (length (butlast dir) - k) (butlast dir) = take (length dir - Suc k) dir" for k
    using assms by (simp add: butlast_conv_take min_def)
  then show ?thesis by (simp add: upt_conv_Cons map_Suc_upt [symmetric] del: upt_Suc map_Suc_upt)
qed

lemma findDotEnv_from_places:
  "findDotEnv_from is_file n dir =
     List.find is_file (map (\<lambda>k. take (length dir - k) dir @ [''.env'']) [0..<min n (length dir + 1)])"
proof (induction n arbitrary: dir)
  case (Suc n)
  show ?case
  proof (cases "dir = []")
    case False
    then have "butlast dir \<noteq> dir" by (metis append_butlast_last_id not_Cons_self2 self_append_conv)
    moreover have "min (Suc n) (length dir + 1) = Suc (min n (length (butlast dir) + 1))"
      using False by (cases dir) simp_all
    ultimately show ?thesis using Suc.IH [of "butlast dir"] places_up [OF False] by (simp del: upt_Suc)
  qed simp
qed simp

text \<open>
  The file that configures the collector is the nearest \<open>.env\<close> at or above the working directory
  and at most ten levels up: no nearer one is passed over, and one that lies further up is
  never read.
\<close>

lemma findDotEnv_nearest: "findDotEnv is_file wd = List.find is_file (dotenv_places wd)"
proof -
  have "min (10 + 1) (length wd + 1) = min 10 (length wd) + 1" by simp
  then show ?thesis unfolding findDotEnv_def findDotEnv_from_places maxWalkUp_def dotenv_places_def by metis
qed

section \<open>What is read\<close>

text \<open>
  The lines the file's syntax allows: a blank one, a comment, and a variable with its indentation, the
  blanks after an \<open>export\<close> (\<open>None\<close> without one), its name, the blanks around \<open>=\<close>, how its value is
  quoted, the value, and what blanks end the line (a carriage return among them).
\<close>

datatype quoting = Bare | SingleQuoted | DoubleQuoted

datatype env_line =
    BlankLine string
  | CommentLine string string
  | VarLine string "string option" string string string quoting string string

fun quote_text :: "quoting \<Rightarrow> string" where
  "quote_text Bare = []"
| "quote_text SingleQuoted = [CHR 0x27]"
| "quote_text DoubleQuoted = [CHR 0x22]"

fun export_text :: "string option \<Rightarrow> string" where
  "export_text None = []"
| "export_text (Some blanks) = ''export '' @ blanks"

fun line_text :: "env_line \<Rightarrow> string" where
  "line_text (BlankLine pad) = pad"
| "line_text (CommentLine indent txt) = indent @ ''#'' @ txt"
| "line_text (VarLine indent ex k gap gap' q v trail) =
     indent @ (export_text ex @ k @ gap) @ ''='' @ gap' @ (quote_text q @ v @ quote_text q) @ trail"

fun line_var :: "env_line \<Rightarrow> (string \<times> string) list" where
  "line_var (VarLine indent ex k gap gap' q v trail) = [(k, v)]"
| "line_var l = []"

text \<open>
  Blanks are white space. A name begins and ends with something else and holds no \<open>=\<close>, does not begin as a comment
  or an \<open>export\<close> does, and a value without quotes neither begins nor ends with white space and is not itself in quotes.
\<close>

abbreviation blanks :: "string \<Rightarrow> bool" where
  "blanks \<equiv> list_all is_space"

definition key_ok :: "string \<Rightarrow> bool" where
  "key_ok k \<longleftrightarrow> k \<noteq> [] \<and> hd k \<noteq> CHR ''#'' \<and> CHR ''='' \<notin> set k \<and> \<not> is_space (hd k) \<and> \<not> is_space (last k)"

definition value_ok :: "quoting \<Rightarrow> string \<Rightarrow> bool" where
  "value_ok q v \<longleftrightarrow> q \<noteq> Bare \<or> TrimSpace v = v \<and> unquote v = v"

fun line_syntax :: "env_line \<Rightarrow> bool" where
  "line_syntax (BlankLine pad) \<longleftrightarrow> blanks pad"
| "line_syntax (CommentLine indent txt) \<longleftrightarrow> blanks indent"
| "line_syntax (VarLine indent ex k gap gap' q v trail) \<longleftrightarrow>
     blanks indent \<and> (case ex of None \<Rightarrow> \<not> has_prefix (k @ gap) ''export '' | Some pad \<Rightarrow> blanks pad) \<and>
     key_ok k \<and> blanks gap \<and> blanks gap' \<and> value_ok q v \<and> blanks trail"

definition line_ok :: "env_line \<Rightarrow> bool" where
  "line_ok l \<longleftrightarrow> line_syntax l \<and> newline \<notin> set (line_text l) \<and> length (line_text l) < maxToken"

definition env_text :: "env_line list \<Rightarrow> string" where
  "env_text ls = concat (map (\<lambda>l. line_text l @ [newline]) ls)"

definition env_vars :: "env_line list \<Rightarrow> (string \<rightharpoonup> string)" where
  "env_vars ls = map_of (rev (concat (map line_var ls)))"

text \<open>The text is made of these lines; the end of the last one may be missing.\<close>

definition written :: "env_line list \<Rightarrow> string \<Rightarrow> bool" where
  "written ls txt \<longleftrightarrow> list_all line_ok ls \<and> (txt = env_text ls \<or> txt @ [newline] = env_text ls)"

lemma TrimSpace_id:
  assumes "s \<noteq> []" and "\<not> is_space (hd s)" and "\<not> is_space (last s)"
  shows "TrimSpace s = s"
proof -
  have "dropWhile is_space s = s" using assms(1,2) by (cases s) auto
  moreover have "dropWhile is_space (rev s) = rev s"
    using assms(1,3) by (cases s rule: rev_cases) auto
  ultimately show ?thesis by (simp add: TrimSpace_def)
qed

lemma dropWhile_blanks: "blanks g \<Longrightarrow> dropWhile is_space (g @ s) = dropWhile is_space s"
  by (induction g) auto

lemma TrimSpace_blanks_before: "blanks g \<Longrightarrow> TrimSpace (g @ s) = TrimSpace s"
  by (simp add: TrimSpace_def dropWhile_blanks)

lemma TrimSpace_blanks_after: 
  assumes "blanks h"
  shows "TrimSpace (s @ h) = TrimSpace s"
proof (cases "blanks s")
  case True
  then have "dropWhile is_space (s @ h) = []" "dropWhile is_space s = []"
    using assms by (auto simp: list_all_iff dropWhile_eq_Nil_conv)
  then show ?thesis unfolding TrimSpace_def by (simp only:)
next
  case False
  then have "dropWhile is_space (s @ h) = dropWhile is_space s @ h"
    by (auto simp: list_all_iff)
  moreover have "blanks (rev h)" using assms by (simp add: list_all_iff)
  ultimately show ?thesis by (simp add: TrimSpace_def dropWhile_blanks)
qed

text \<open>What is left of a trimmed line around its first \<open>=\<close>: the name's side, and the value's less its end.\<close>

lemma TrimSpace_around:
  assumes "x \<noteq> []" and "\<not> is_space (hd x)" and "\<not> is_space c"
  obtains w where "TrimSpace (x @ c # t) = x @ c # w" and "TrimSpace w = TrimSpace t"
proof -
  let ?w = "rev (dropWhile is_space (rev t))"
  have "dropWhile is_space (x @ c # t) = x @ c # t" using assms(1,2) by (cases x) auto
  moreover have "dropWhile is_space (rev t @ c # rev x) = dropWhile is_space (rev t) @ c # rev x"
    using assms(3) by (induction "rev t" arbitrary: t) (auto simp: dropWhile_append)
  ultimately have one: "TrimSpace (x @ c # t) = x @ c # ?w" by (simp add: TrimSpace_def)
  have "t = ?w @ rev (takeWhile is_space (rev t))"
    by (metis rev_append rev_rev_ident takeWhile_dropWhile_id)
  moreover have "blanks (rev (takeWhile is_space (rev t)))"
    by (auto simp: list_all_iff dest: set_takeWhileD)
  ultimately have "TrimSpace ?w = TrimSpace t" by (metis TrimSpace_blanks_after)
  with one show thesis by (rule that)
qed

lemma cut_at_key: "c \<notin> set k \<Longrightarrow> cut_at c (k @ c # v) = (k, v, True)"
  by (induction k) auto

lemma trim_quoted_value:
  assumes "value_ok q v"
  shows "unquote (TrimSpace (quote_text q @ v @ quote_text q)) = v"
proof (cases q)
  case Bare
  then show ?thesis using assms by (simp add: value_ok_def)
next
  case SingleQuoted
  have "TrimSpace ([CHR 0x27] @ v @ [CHR 0x27]) = [CHR 0x27] @ v @ [CHR 0x27]"
    by (rule TrimSpace_id) (simp_all add: is_space_def)
  then show ?thesis using SingleQuoted by (simp add: unquote_def butlast_append)
next
  case DoubleQuoted
  have "TrimSpace ([CHR 0x22] @ v @ [CHR 0x22]) = [CHR 0x22] @ v @ [CHR 0x22]"
    by (rule TrimSpace_id) (simp_all add: is_space_def)
  then show ?thesis using DoubleQuoted by (simp add: unquote_def butlast_append)
qed

lemma no_export_in:
  assumes "\<not> has_prefix s ''export ''"
  shows "\<not> has_prefix (s @ CHR ''='' # w) ''export ''"
proof
  assume "has_prefix (s @ CHR ''='' # w) ''export ''"
  then have t: "take 7 (s @ CHR ''='' # w) = ''export ''"
    by (simp add: has_prefix_def eval_nat_numeral)
  show False
  proof (cases "7 \<le> length s")
    case True
    then show False using t assms by (simp add: has_prefix_def eval_nat_numeral)
  next
    case False
    then have "CHR ''='' \<in> set (take 7 (s @ CHR ''='' # w))" by (simp add: take_Cons')
    then show False unfolding t by simp
  qed
qed

lemma parse_var_line:
  assumes "line_syntax (VarLine indent ex k gap gap' q v trail)"
  shows "parse_line (line_text (VarLine indent ex k gap gap' q v trail)) = Var k v"
proof -
  let ?x = "export_text ex @ k @ gap" and ?t = "gap' @ (quote_text q @ v @ quote_text q) @ trail"
  have ok: "blanks indent" "blanks gap" "blanks gap'" "blanks trail" "key_ok k" "value_ok q v"
    using assms by simp_all
  then have k: "k \<noteq> []" "hd k \<noteq> CHR ''#''" "CHR ''='' \<notin> set k" "\<not> is_space (hd k)" "TrimSpace k = k"
    by (simp_all add: key_ok_def TrimSpace_id)
  have eq: "\<not> is_space (CHR ''='')" by (simp add: is_space_def)
  have x: "?x \<noteq> []" "\<not> is_space (hd ?x)" "hd ?x \<noteq> CHR ''#''"
    using k(1,2,4) by (cases ex; simp add: is_space_def)+
  obtain w where w: "TrimSpace (?x @ CHR ''='' # ?t) = ?x @ CHR ''='' # w" "TrimSpace w = TrimSpace ?t"
    using TrimSpace_around [OF x(1,2) eq] by blast
  have line: "TrimSpace (line_text (VarLine indent ex k gap gap' q v trail)) = ?x @ CHR ''='' # w"
    using TrimSpace_blanks_before [OF ok(1)] w(1) by simp
  have val: "unquote (TrimSpace w) = v"
    using w(2) ok(3,4) trim_quoted_value [OF ok(6)]
      TrimSpace_blanks_after [OF ok(4), of "quote_text q @ v @ quote_text q"]
    by (simp add: TrimSpace_blanks_before)
  have no_hash: "\<not> has_prefix (?x @ CHR ''='' # w) ''#''"
    using x(1,3) by (cases ?x) (simp_all add: has_prefix_def)
  obtain pad where pad: "trim_prefix ''export '' (?x @ CHR ''='' # w) = pad @ k @ gap @ CHR ''='' # w" "blanks pad"
  proof (cases ex)
    case None
    then have "\<not> has_prefix (k @ gap) ''export ''" using assms by simp
    then have "\<not> has_prefix ((k @ gap) @ CHR ''='' # w) ''export ''" by (rule no_export_in)
    then show thesis using None by (intro that [of "[]"]) (simp_all add: trim_prefix_def)
  next
    case (Some p)
    then show thesis using assms by (intro that [of p]) (simp_all add: trim_prefix_def has_prefix_def)
  qed
  have "CHR ''='' \<notin> set (pad @ k @ gap)"
    using k(3) ok(2) pad(2) eq by (auto simp: list_all_iff)
  from cut_at_key [OF this, of w]
  have cut: "cut_at (CHR ''='') (pad @ k @ gap @ CHR ''='' # w) = (pad @ k @ gap, w, True)" by simp
  have "TrimSpace (pad @ k @ gap) = k"
    using k(5) TrimSpace_blanks_after [OF ok(2), of k] by (simp add: TrimSpace_blanks_before pad(2))
  then show ?thesis
    unfolding parse_line_def line Let_def pad(1) cut using no_hash k(1) val by simp
qed

lemma parse_written_line:
  assumes "line_syntax l"
  shows "parse_line (line_text l) = (case line_var l of [] \<Rightarrow> Skip | (k, v) # _ \<Rightarrow> Var k v)"
proof (cases l)
  case (BlankLine pad)
  then have "TrimSpace (line_text l) = []"
    using assms TrimSpace_blanks_before [of pad "[]"] by (simp add: TrimSpace_def)
  then show ?thesis using BlankLine by (simp add: parse_line_def)
next
  case (CommentLine indent c)
  have "\<not> is_space (CHR ''#'')" by (simp add: is_space_def)
  then have "TrimSpace (''#'' @ c) = CHR ''#'' # rev (dropWhile is_space (rev c))"
    by (simp add: TrimSpace_def dropWhile_append)
  then have "has_prefix (TrimSpace (line_text l)) ''#''"
    using assms CommentLine by (simp add: TrimSpace_blanks_before has_prefix_def)
  then show ?thesis using CommentLine by (simp add: parse_line_def Let_def)
next
  case (VarLine indent ex k gap gap' q v trail)
  then show ?thesis using assms parse_var_line [of indent ex k gap gap' q v trail]
    by (simp del: line_text.simps line_syntax.simps)
qed

text \<open>A carriage return at the end is white space too, so it is trimmed whether the scanner drops it or not.\<close>

lemma parse_line_drop_cr: "parse_line (drop_cr l) = parse_line l"
proof (cases "l \<noteq> [] \<and> last l = CHR 0x0D")
  case True
  then have "l = butlast l @ [CHR 0x0D]" by (metis append_butlast_last_id)
  moreover have "blanks [CHR 0x0D]" by (simp add: is_space_def)
  ultimately have "TrimSpace l = TrimSpace (butlast l)" by (metis TrimSpace_blanks_after)
  then show ?thesis using True by (simp add: parse_line_def drop_cr_def)
qed (auto simp: drop_cr_def)

lemma parse_lines_written:
  "list_all line_ok ls \<Longrightarrow>
     parse_lines n (map line_text ls) vars = Inr (vars ++ env_vars ls)"
proof (induction ls arbitrary: n vars)
  case (Cons l ls)
  then have ok: "line_syntax l" "length (line_text l) < maxToken" by (simp_all add: line_ok_def)
  have "parse_line (drop_cr (line_text l)) = (case line_var l of [] \<Rightarrow> Skip | (k, v) # _ \<Rightarrow> Var k v)"
    unfolding parse_line_drop_cr by (rule parse_written_line [OF ok(1)])
  with Cons ok(2) show ?case
    by (cases l) (simp_all add: env_vars_def fun_eq_iff map_add_def split: option.splits)
qed (simp add: env_vars_def)

lemma split_written:
  "list_all line_ok ls \<Longrightarrow> split_at_char newline (env_text ls) = map line_text ls @ [[]]"
proof (induction ls)
  case (Cons l ls)
  then have "newline \<notin> set (line_text l)" by (simp add: line_ok_def)
  with Cons show ?case by (simp add: env_text_def split_at_char_join)
qed (simp add: env_text_def)

lemma parse_line_empty: "parse_line (drop_cr []) = Skip"
  by (simp add: parse_line_def drop_cr_def TrimSpace_def)

lemma parse_lines_blank_end: "parse_lines n (ls @ [[]]) vars = parse_lines n ls vars"
proof (induction n ls vars rule: parse_lines.induct)
  case (1 n vars)
  then show ?case by (simp add: parse_line_empty maxToken_def)
next
  case (2 n l ls vars)
  show ?case
  proof (cases "maxToken \<le> length l")
    case False
    then show ?thesis using 2 by (cases "parse_line (drop_cr l)") (simp_all add: fun_upd_def)
  qed simp
qed

lemma split_at_char_end: "split_at_char c (s @ [c]) = split_at_char c s @ [[]]"
  by (induction s) (auto split: list.splits)

lemma parseDotEnv_end: "parseDotEnv (s @ [newline]) = parseDotEnv s"
proof (cases "last (split_at_char newline s) = []")
  case True
  moreover have "split_at_char newline s \<noteq> []" by (cases s) (auto split: list.splits)
  ultimately have "split_at_char newline s = butlast (split_at_char newline s) @ [[]]"
    by (metis append_butlast_last_id)
  then show ?thesis using True parse_lines_blank_end
    by (simp add: parseDotEnv_def scan_lines_def split_at_char_end) metis
qed (simp add: parseDotEnv_def scan_lines_def split_at_char_end)

text \<open>
  A \<open>.env\<close> file of these lines is read back exactly: every variable with its value, unexpanded and, within
  quotes, whatever quotes, \<open>#\<close>, \<open>=\<close> or blanks the value holds, the last one where a name is repeated, and nothing else.
\<close>

lemma dotenv_roundtrip:
  assumes "written ls txt"
  shows "parseDotEnv txt = Inr (env_vars ls)"
proof -
  have "parseDotEnv (env_text ls) = Inr (env_vars ls)"
    using assms by (simp add: written_def parseDotEnv_def scan_lines_def split_written parse_lines_written)
  then show ?thesis using assms parseDotEnv_end by (auto simp: written_def) metis
qed
section \<open>Precedence, and what an accepted configuration satisfies\<close>

lemma overlay_append: "overlay (xs @ ys) vars = overlay ys (overlay xs vars)"
  by (induction xs arbitrary: vars) (auto split: prod.splits)

definition names_key :: "string \<Rightarrow> string \<Rightarrow> bool" where
  "names_key k kv \<longleftrightarrow> (case cut_at (CHR ''='') kv of (k', _, ok) \<Rightarrow> ok \<and> k' = k)"

definition shell_value :: "string \<Rightarrow> string list \<Rightarrow> string option" where
  "shell_value k environ =
     (let kvs = filter (names_key k) environ
      in if kvs = [] then None else Some (fst (snd (cut_at (CHR ''='') (last kvs)))))"

lemma overlay_lookup:
  "overlay environ vars k = (case shell_value k environ of Some v \<Rightarrow> Some v | None \<Rightarrow> vars k)"
proof (induction environ arbitrary: vars rule: rev_induct)
  case (snoc kv environ)
  obtain k' v ok where c: "cut_at (CHR ''='') kv = (k', v, ok)" by (cases "cut_at (CHR ''='') kv") auto
  show ?case
  proof (cases "names_key k kv")
    case True
    then have "shell_value k (environ @ [kv]) = Some v"
      by (simp add: shell_value_def c)
    with True show ?thesis by (simp add: overlay_append c names_key_def)
  next
    case False
    then have "shell_value k (environ @ [kv]) = shell_value k environ" by (simp add: shell_value_def)
    moreover have "overlay [kv] m k = m k" for m using False by (auto simp: c names_key_def)
    ultimately show ?thesis using snoc by (simp add: overlay_append del: overlay.simps)
  qed
qed (simp add: shell_value_def)

text \<open>
  C35. The collector runs on the variables of the nearest \<open>.env\<close> file, overlaid by the environment's: with \<open>ls\<close> the lines of the
  first file among the working directory's and the ten levels above it (no lines where there is none), the
  configuration is bound from the map that holds, for every variable, the last value exported for it if there
  is one and otherwise the last one the file gives it. The lines are any blank ones, comments and variables, with or without
  \<open>export\<close>, indentation, blanks around \<open>=\<close> and at the end, and with their value in single or double quotes or in none.
\<close>

theorem load_shell_wins:
  assumes "case List.find is_file (dotenv_places wd) of
      None \<Rightarrow> ls = []
    | Some path \<Rightarrow> (\<exists>txt. read_file path = Some txt \<and> written ls txt)"
  shows "load is_file read_file bind_env validate wd environ =
           parse bind_env validate
             (\<lambda>k. case shell_value k environ of Some v \<Rightarrow> Some v | None \<Rightarrow> env_vars ls k)"
proof -
  have "overlay environ (env_vars ls) =
      (\<lambda>k. case shell_value k environ of Some v \<Rightarrow> Some v | None \<Rightarrow> env_vars ls k)"
    by (rule ext) (rule overlay_lookup)
  moreover have "env_vars [] = Map.empty" by (simp add: env_vars_def)
  ultimately show ?thesis
    using assms by (auto simp: load_def findDotEnv_nearest dotenv_roundtrip split: option.splits)
qed

text \<open>The defaults of the tags, as a configuration to instantiate the parameters with.\<close>

definition default_config :: Config where
  "default_config =
     \<lparr>LogLevel = ''info'', HTTPAddr = [], NetFlowAddr = [], Sources = [], Sinks = [], PostgresDSN = [],
      MariaDBDSN = [], ClickHouseDSN = [], RetentionDays = 30, KafkaBrokers = [], KafkaTopic = [],
      KafkaGroup = [], KafkaTemplateTopic = [], PipelineBuffer = 65536, cfg_BatchSize = 2000,
      cfg_BatchInterval = Second, cfg_Workers = 4, APIKeys = [], PostgresEnabled = False,
      MariaDBEnabled = False, ClickHouseEnabled = False, KafkaSourceEnabled = False,
      KafkaSinkEnabled = False, KafkaEnabled = False, NetFlowEnabled = False\<rparr>"

definition list_var :: "(string \<rightharpoonup> string) \<Rightarrow> string \<Rightarrow> string list" where
  "list_var vars k = (case vars k of None \<Rightarrow> [] | Some v \<Rightarrow> if v = [] then [] else split_at_char (CHR '','') v)"

definition string_var :: "(string \<rightharpoonup> string) \<Rightarrow> string \<Rightarrow> string" where
  "string_var vars k = (case vars k of None \<Rightarrow> [] | Some v \<Rightarrow> v)"

definition demo_bind :: "(string \<rightharpoonup> string) \<Rightarrow> bind_failure list + Config" where
  "demo_bind vars =
     Inr (default_config\<lparr>Sources := list_var vars ''NFC_SOURCES'', Sinks := list_var vars ''NFC_SINKS'',
            NetFlowAddr := string_var vars ''NFC_NETFLOW_ADDR'', PostgresDSN := string_var vars ''NFC_POSTGRES_DSN''\<rparr>)"

definition demo_lines :: "env_line list" where
  "demo_lines =
     [CommentLine [] '' NFC_SINKS=mariadb'', BlankLine '' '',
      VarLine [] None ''NFC_SINKS'' [] [] Bare ''kafka'' [],
      VarLine '' '' (Some '' '') ''NFC_POSTGRES_DSN'' '' '' '' '' SingleQuoted '' # a=b '' [CHR 0x0D],
      VarLine [] (Some []) ''NFC_NETFLOW_ADDR'' [] [] DoubleQuoted '':2055'' []]"

lemma demo_lines_ok: "list_all line_ok demo_lines"
  by (simp add: demo_lines_def line_ok_def key_ok_def value_ok_def is_space_def newline_def maxToken_def
      has_prefix_def TrimSpace_def unquote_def)

theorem load_shell_wins_witness:
  "load (\<lambda>p. p = [''srv'', ''.env''] \<or> p = [''.env''])
        (\<lambda>p. if p = [''srv'', ''.env''] then Some (env_text demo_lines) else None) demo_bind (\<lambda>_. [])
        [''srv'', ''nfc''] [''HOME=/root'', ''NFC_SINKS=postgres''] =
     parse demo_bind (\<lambda>_. [])
       (\<lambda>k. case shell_value k [''HOME=/root'', ''NFC_SINKS=postgres''] of Some v \<Rightarrow> Some v
             | None \<Rightarrow> env_vars demo_lines k)"
proof (rule load_shell_wins)
  have "dotenv_places [''srv'', ''nfc''] = [[''srv'', ''nfc'', ''.env''], [''srv'', ''.env''], [''.env'']]"
    by (simp add: dotenv_places_def upt_conv_Cons)
  then show "case List.find (\<lambda>p. p = [''srv'', ''.env''] \<or> p = [''.env'']) (dotenv_places [''srv'', ''nfc'']) of
      None \<Rightarrow> demo_lines = []
    | Some path \<Rightarrow> (\<exists>txt. (if path = [''srv'', ''.env''] then Some (env_text demo_lines) else None) = Some txt \<and>
        written demo_lines txt)"
    using demo_lines_ok by (simp add: written_def)
qed

text \<open>
  The rules of the struct's tags. What the validator documents of them is the law \<open>cfg_validator_ok\<close>: it reports nothing
  exactly on the configurations that satisfy them; \<open>hp\<close> is its own test of a \<open>host:port\<close> text.
\<close>

definition tags_hold :: "(string \<Rightarrow> bool) \<Rightarrow> Config \<Rightarrow> bool" where
  "tags_hold hp cfg \<longleftrightarrow>
     LogLevel cfg \<in> {''debug'', ''info'', ''warn'', ''error''} \<and>
     (HTTPAddr cfg = [] \<or> hp (HTTPAddr cfg)) \<and>
     (NetFlowAddr cfg = [] \<or> hp (NetFlowAddr cfg)) \<and>
     set (Sources cfg) \<subseteq> {SourceNetFlow, SourceKafka} \<and>
     set (Sinks cfg) \<subseteq> {SinkPostgres, SinkMariaDB, SinkClickHouse, SinkKafka} \<and>
     (PostgresEnabled cfg \<longrightarrow> PostgresDSN cfg \<noteq> []) \<and>
     (MariaDBEnabled cfg \<longrightarrow> MariaDBDSN cfg \<noteq> []) \<and>
     (ClickHouseEnabled cfg \<longrightarrow> ClickHouseDSN cfg \<noteq> []) \<and>
     1 \<le> RetentionDays cfg \<and>
     (KafkaEnabled cfg \<longrightarrow> KafkaBrokers cfg \<noteq> []) \<and> list_all hp (KafkaBrokers cfg) \<and>
     (KafkaEnabled cfg \<longrightarrow> KafkaTopic cfg \<noteq> []) \<and>
     (KafkaSourceEnabled cfg \<longrightarrow> KafkaGroup cfg \<noteq> []) \<and>
     1 \<le> PipelineBuffer cfg \<and> 1 \<le> cfg_BatchSize cfg \<and> 0 < cfg_BatchInterval cfg \<and> 1 \<le> cfg_Workers cfg"

definition cfg_validator_ok :: "(string \<Rightarrow> bool) \<Rightarrow> (Config \<Rightarrow> cfg_rule list) \<Rightarrow> bool" where
  "cfg_validator_ok hp validate \<longleftrightarrow> (\<forall>cfg. validate cfg = [] \<longleftrightarrow> tags_hold hp cfg)"

text \<open>What the rest of the program relies on of the configuration it is given.\<close>

definition cfg_ok :: "(string \<Rightarrow> bool) \<Rightarrow> Config \<Rightarrow> bool" where
  "cfg_ok hp cfg \<longleftrightarrow>
     tags_hold hp cfg \<and> derive_flags cfg = cfg \<and>
     \<not> (SourceKafka \<in> set (Sources cfg) \<and> SinkKafka \<in> set (Sinks cfg)) \<and>
     (KafkaTemplateTopic cfg = [] \<or> KafkaTemplateTopic cfg \<noteq> KafkaTopic cfg)"

lemma derive_flags_idem [simp]: "derive_flags (derive_flags cfg) = derive_flags cfg"
  by (simp add: derive_flags_def Let_def)

lemma parse_accepted:
  assumes "cfg_validator_ok hp validate" and "parse bind_env validate vars = Inr cfg"
  shows "cfg_ok hp cfg"
proof -
  obtain cfg0 where b: "bind_env vars = Inr cfg0" using assms(2) by (auto simp: parse_def split: sum.splits)
  let ?c = "derive_flags cfg0"
  have c: "validate ?c = []" "cfg = ?c"
    "\<not> (KafkaTemplateTopic ?c \<noteq> [] \<and> KafkaTemplateTopic ?c = KafkaTopic ?c)"
    "\<not> (KafkaSourceEnabled ?c \<and> KafkaSinkEnabled ?c)"
    using assms(2) b by (simp_all add: parse_def Let_def split: if_splits)
  have "KafkaSourceEnabled ?c \<longleftrightarrow> SourceKafka \<in> set (Sources ?c)" "KafkaSinkEnabled ?c \<longleftrightarrow> SinkKafka \<in> set (Sinks ?c)"
    by (simp_all add: derive_flags_def Let_def)
  then show ?thesis using c assms(1) by (auto simp: cfg_ok_def cfg_validator_ok_def)
qed

lemma load_accepted:
  assumes "cfg_validator_ok hp validate" and "load is_file read_file bind_env validate wd environ = Inr cfg"
  shows "cfg_ok hp cfg"
  using assms(2) by (auto simp: load_def split: sum.splits option.splits intro: parse_accepted [OF assms(1)])

lemma cfg_ok_tags:
  assumes "cfg_ok hp cfg"
  shows "set (Sources cfg) \<subseteq> {SourceNetFlow, SourceKafka}"
    and "set (Sinks cfg) \<subseteq> {SinkPostgres, SinkMariaDB, SinkClickHouse, SinkKafka}"
    and "KafkaEnabled cfg \<Longrightarrow> KafkaBrokers cfg \<noteq> [] \<and> KafkaTopic cfg \<noteq> []"
    and "KafkaSourceEnabled cfg \<Longrightarrow> KafkaGroup cfg \<noteq> []"
    and "1 \<le> PipelineBuffer cfg" and "1 \<le> cfg_BatchSize cfg" and "0 < cfg_BatchInterval cfg"
    and "1 \<le> cfg_Workers cfg"
  using assms by (simp_all add: cfg_ok_def tags_hold_def)

lemma derive_flags_sel:
  "PostgresEnabled (derive_flags cfg) \<longleftrightarrow> SinkPostgres \<in> set (Sinks (derive_flags cfg))"
  "MariaDBEnabled (derive_flags cfg) \<longleftrightarrow> SinkMariaDB \<in> set (Sinks (derive_flags cfg))"
  "ClickHouseEnabled (derive_flags cfg) \<longleftrightarrow> SinkClickHouse \<in> set (Sinks (derive_flags cfg))"
  "KafkaSourceEnabled (derive_flags cfg) \<longleftrightarrow> SourceKafka \<in> set (Sources (derive_flags cfg))"
  "KafkaSinkEnabled (derive_flags cfg) \<longleftrightarrow> SinkKafka \<in> set (Sinks (derive_flags cfg))"
  "KafkaEnabled (derive_flags cfg) \<longleftrightarrow> KafkaSourceEnabled (derive_flags cfg) \<or> KafkaSinkEnabled (derive_flags cfg) \<or> KafkaTemplateTopic (derive_flags cfg) \<noteq> []"
  "NetFlowEnabled (derive_flags cfg) \<longleftrightarrow> SourceNetFlow \<in> set (Sources (derive_flags cfg))"
  by (simp_all add: derive_flags_def Let_def)

lemma cfg_ok_flags:
  assumes "cfg_ok hp cfg"
  shows "PostgresEnabled cfg \<longleftrightarrow> SinkPostgres \<in> set (Sinks cfg)"
    and "MariaDBEnabled cfg \<longleftrightarrow> SinkMariaDB \<in> set (Sinks cfg)"
    and "ClickHouseEnabled cfg \<longleftrightarrow> SinkClickHouse \<in> set (Sinks cfg)"
    and "KafkaSourceEnabled cfg \<longleftrightarrow> SourceKafka \<in> set (Sources cfg)"
    and "KafkaSinkEnabled cfg \<longleftrightarrow> SinkKafka \<in> set (Sinks cfg)"
    and "KafkaEnabled cfg \<longleftrightarrow> KafkaSourceEnabled cfg \<or> KafkaSinkEnabled cfg \<or> KafkaTemplateTopic cfg \<noteq> []"
    and "NetFlowEnabled cfg \<longleftrightarrow> SourceNetFlow \<in> set (Sources cfg)"
proof -
  have "derive_flags cfg = cfg" using assms by (simp add: cfg_ok_def)
  from derive_flags_sel [of cfg, unfolded this]
  show "PostgresEnabled cfg \<longleftrightarrow> SinkPostgres \<in> set (Sinks cfg)"
    "MariaDBEnabled cfg \<longleftrightarrow> SinkMariaDB \<in> set (Sinks cfg)"
    "ClickHouseEnabled cfg \<longleftrightarrow> SinkClickHouse \<in> set (Sinks cfg)"
    "KafkaSourceEnabled cfg \<longleftrightarrow> SourceKafka \<in> set (Sources cfg)"
    "KafkaSinkEnabled cfg \<longleftrightarrow> SinkKafka \<in> set (Sinks cfg)"
    "KafkaEnabled cfg \<longleftrightarrow> KafkaSourceEnabled cfg \<or> KafkaSinkEnabled cfg \<or> KafkaTemplateTopic cfg \<noteq> []"
    "NetFlowEnabled cfg \<longleftrightarrow> SourceNetFlow \<in> set (Sources cfg)"
    by blast+
qed

end
