(* ===== verification/Serve_Mux.thy ===== *)
theory Serve_Mux
  imports Api_Http
begin

text \<open>
  What the API uses of \<open>net/http\<close>'s \<open>ServeMux\<close> (since Go 1.22): patterns of an optional method and literal
  segments, with a trailing slash for a whole subtree; the clean path; the match on unescaped
  segments, the method first and the most specific pattern within it; and the redirects. Patterns with
  wildcards or hosts, which the API does not register, are left out.
\<close>

section \<open>Paths\<close>

text \<open>\<open>cleanPath\<close> of the mux: a rooted path without empty, dot and dot-dot elements.\<close>

fun clean_parts :: "string list \<Rightarrow> string list \<Rightarrow> string list" where
  "clean_parts acc [] = acc"
| "clean_parts acc (p # ps) =
     (if p = [] \<or> p = ''.'' then clean_parts acc ps
      else if p = ''..'' then clean_parts (butlast acc) ps
      else clean_parts (acc @ [p]) ps)"

definition cleanPath :: "string \<Rightarrow> string" where
  "cleanPath p =
     (let ps = clean_parts [] (split_at_char (CHR ''/'') p);
          np = CHR ''/'' # join_with ''/'' ps
      in if p \<noteq> [] \<and> last p = CHR ''/'' \<and> ps \<noteq> [] then np @ ''/'' else np)"

text \<open>
  The segments a match looks at, as \<open>firstSegment\<close> cuts them off one by one: each unescaped on its own, so
  that an escaped slash does not separate, and a slash for the end of a path that has a trailing
  slash.
\<close>

definition path_segments :: "string \<Rightarrow> string list" where
  "path_segments p =
     (if p = [] then []
      else let ps = split_at_char (CHR ''/'') (tl p)
           in map pathUnescape (butlast ps) @ [if last ps = [] then ''/'' else pathUnescape (last ps)])"

section \<open>Patterns\<close>

text \<open>The empty method stands for any. A subtree pattern has one more, anonymous segment.\<close>

record 'h pattern =
  pt_method :: string
  pt_segments :: "string list"
  pt_multi :: bool
  pt_handler :: 'h

definition Handle :: "string \<Rightarrow> 'h \<Rightarrow> 'h pattern" where
  "Handle text h =
     (let (meth, path) = (case cut_at (CHR '' '') text of (m, rest, found) \<Rightarrow> if found then (m, rest) else ([], text));
          ps = split_at_char (CHR ''/'') (tl path)
      in \<lparr>pt_method = meth,
          pt_segments = (if last ps = [] then butlast ps else ps),
          pt_multi = (last ps = []),
          pt_handler = h\<rparr>)"

text \<open>
  The descent of \<open>matchPath\<close>: the patterns that agree with the segments so far, each with its segments still
  ahead. A literal goes before the rest of a subtree.
\<close>

type_synonym 'h node = "(string list \<times> 'h pattern) list"

definition child :: "string \<Rightarrow> 'h node \<Rightarrow> 'h node" where
  "child s n = map (\<lambda>(ahead, p). (tl ahead, p)) (filter (\<lambda>(ahead, p). ahead \<noteq> [] \<and> hd ahead = s) n)"

definition ends_here :: "bool \<Rightarrow> 'h node \<Rightarrow> 'h pattern option" where
  "ends_here multi n = map_option snd (find (\<lambda>(ahead, p). ahead = [] \<and> pt_multi p = multi) n)"

fun matchPath :: "'h node \<Rightarrow> string list \<Rightarrow> 'h pattern option" where
  "matchPath n [] = ends_here False n"
| "matchPath n (s # rest) =
     (case matchPath (child s n) rest of
        Some p \<Rightarrow> Some p
      | None \<Rightarrow> ends_here True n)"

definition with_method :: "string \<Rightarrow> 'h pattern list \<Rightarrow> 'h node" where
  "with_method m ps = map (\<lambda>p. (pt_segments p, p)) (filter (\<lambda>p. pt_method p = m) ps)"

text \<open>\<open>matchMethodAndPath\<close>: \<open>GET\<close> patterns serve \<open>HEAD\<close>; patterns without a method come last.\<close>

definition match :: "'h pattern list \<Rightarrow> string \<Rightarrow> string \<Rightarrow> 'h pattern option" where
  "match ps meth path =
     (let segs = path_segments path; of_method = (\<lambda>m. matchPath (with_method m ps) segs)
      in case of_method meth of
           Some p \<Rightarrow> Some p
         | None \<Rightarrow>
             (case (if meth = ''HEAD'' then of_method ''GET'' else None) of
                Some p \<Rightarrow> Some p
              | None \<Rightarrow> of_method []))"

definition has_suffix_slash :: "string \<Rightarrow> bool" where
  "has_suffix_slash p \<longleftrightarrow> p \<noteq> [] \<and> last p = CHR ''/''"

definition exactMatch :: "'h pattern option \<Rightarrow> string \<Rightarrow> bool" where
  "exactMatch n path =
     (case n of
        None \<Rightarrow> False
      | Some p \<Rightarrow> \<not> pt_multi p \<or>
          has_suffix_slash path \<and> Suc (length (pt_segments p)) = length (filter (\<lambda>c. c = CHR ''/'') path))"

text \<open>
  A path that only matches exactly with a slash behind it is redirected there; \<open>u\<close> is the path of the URL.
\<close>

definition matchOrRedirect :: "'h pattern list \<Rightarrow> string \<Rightarrow> string \<Rightarrow> string \<Rightarrow> 'h pattern option \<times> string option" where
  "matchOrRedirect ps meth path u =
     (let n = match ps meth path
      in if \<not> exactMatch n path \<and> \<not> has_suffix_slash path \<and> path \<noteq> [] \<and>
            exactMatch (match ps meth (path @ ''/'')) (path @ ''/'')
         then (None, Some (cleanPath u @ ''/'')) else (n, None))"

section \<open>Serving\<close>

datatype 'h found = Handler 'h | Redirect string | NoMethod | NoPattern

definition methods_matching :: "'h pattern list \<Rightarrow> string \<Rightarrow> string list" where
  "methods_matching ps path =
     filter (\<lambda>m. matchPath (with_method m ps) (path_segments path) \<noteq> None \<or>
                 \<not> has_suffix_slash path \<and> matchPath (with_method m ps) (path_segments (path @ ''/'')) \<noteq> None)
       (filter (\<lambda>m. m \<noteq> []) (map pt_method ps))"

definition findHandler :: "'h pattern list \<Rightarrow> request \<Rightarrow> 'h found" where
  "findHandler ps r =
     (let path = (if Method r = ''CONNECT'' then EscapedPath r else cleanPath (EscapedPath r));
          (n, redirected) = matchOrRedirect ps (Method r) path (Path r)
      in case redirected of
           Some u \<Rightarrow> Redirect u
         | None \<Rightarrow>
             if path \<noteq> EscapedPath r then Redirect path
             else case n of
                    Some p \<Rightarrow> Handler (pt_handler p)
                  | None \<Rightarrow> if methods_matching ps path \<noteq> [] then NoMethod else NoPattern)"

text \<open>
  \<open>ServeMux.ServeHTTP\<close>. The status of a redirect differs between releases; \<open>own\<close> makes an answer of the mux
  itself a result of the handlers.
\<close>

definition redirect :: "nat \<Rightarrow> string \<Rightarrow> string \<Rightarrow> response" where
  "redirect code p query = \<lparr>status = code, content = RedirectTo p query, authenticate = None\<rparr>"

definition plain :: "nat \<Rightarrow> string \<Rightarrow> response" where
  "plain code text = \<lparr>status = code, content = PlainText text, authenticate = None\<rparr>"

definition serve_mux :: "nat \<Rightarrow> (response \<Rightarrow> 'a) \<Rightarrow> (string \<Rightarrow> request \<Rightarrow> 'a) pattern list \<Rightarrow> string \<Rightarrow> request \<Rightarrow> 'a" where
  "serve_mux rcode own ps rid r =
     (if EscapedPath r = ''*'' then own (plain 400 [])
      else case findHandler ps r of
             Handler h \<Rightarrow> h rid r
           | Redirect p \<Rightarrow> own (redirect rcode p (RawQuery r))
           | NoMethod \<Rightarrow> own (plain 405 ''Method Not Allowed'')
           | NoPattern \<Rightarrow> own (plain 404 ''404 page not found''))"

section \<open>What a match depends on\<close>

text \<open>A path is routed as it stands when it is clean; only \<open>CONNECT\<close> requests are not cleaned.\<close>

definition routed_as_is :: "request \<Rightarrow> bool" where
  "routed_as_is r \<longleftrightarrow> Method r = ''CONNECT'' \<or> cleanPath (EscapedPath r) = EscapedPath r"

lemma child_simps [simp]:
  "child s [] = []"
  "child s (([], p) # n) = child s n"
  "child s ((a # ahead, p) # n) = (if a = s then (ahead, p) # child s n else child s n)"
  by (simp_all add: child_def)

lemma ends_here_simps [simp]:
  "ends_here multi [] = None"
  "ends_here multi ((ahead, p) # n) = (if ahead = [] \<and> pt_multi p = multi then Some p else ends_here multi n)"
  by (simp_all add: ends_here_def)

lemma matchPath_none [simp]: "matchPath [] segs = None"
  by (induction segs) simp_all

lemma matchPath_SomeD:
  "matchPath n segs = Some p \<Longrightarrow>
     \<exists>ahead. (ahead, p) \<in> set n \<and> (if pt_multi p then \<exists>s rest. segs = ahead @ s # rest else segs = ahead)"
proof (induction n segs rule: matchPath.induct)
  case (1 n)
  then show ?case by (auto simp: ends_here_def find_Some_iff) (metis nth_mem)
next
  case (2 n s rest)
  show ?case
  proof (cases "matchPath (child s n) rest")
    case (Some q)
    then obtain ahead where a: "(ahead, p) \<in> set (child s n)"
        "if pt_multi p then \<exists>s rest'. rest = ahead @ s # rest' else rest = ahead"
      using 2 by auto
    from a(1) have "(s # ahead, p) \<in> set n" by (auto simp: child_def)
    with a(2) show ?thesis by (intro exI [of _ "s # ahead"]) (auto split: if_splits)
  next
    case None
    then have "ends_here True n = Some p" using 2 by simp
    then have "([], p) \<in> set n" "pt_multi p"
      by (auto simp: ends_here_def find_Some_iff) (metis nth_mem)+
    then show ?thesis by (intro exI [of _ "[]"]) auto
  qed
qed

text \<open>
  What a match says: a registered pattern, for the method or for \<open>GET\<close> on a \<open>HEAD\<close> request or for any method, whose
  segments are those of the path, or a proper beginning of them for a subtree.
\<close>

lemma match_SomeD:
  assumes "match ps m path = Some p"
  shows "p \<in> set ps" and "pt_method p = m \<or> m = ''HEAD'' \<and> pt_method p = ''GET'' \<or> pt_method p = []"
    and "if pt_multi p then \<exists>s rest. path_segments path = pt_segments p @ s # rest
      else path_segments path = pt_segments p"
proof -
  have "\<exists>m'. matchPath (with_method m' ps) (path_segments path) = Some p \<and>
      (m' = m \<or> m = ''HEAD'' \<and> m' = ''GET'' \<or> m' = [])"
    using assms by (auto simp: match_def Let_def split: option.splits if_splits)
  then show "p \<in> set ps" and "pt_method p = m \<or> m = ''HEAD'' \<and> pt_method p = ''GET'' \<or> pt_method p = []"
    and "if pt_multi p then \<exists>s rest. path_segments path = pt_segments p @ s # rest
      else path_segments path = pt_segments p"
    by (auto simp: with_method_def dest!: matchPath_SomeD split: if_splits)
qed

lemma findHandlerD:
  assumes "findHandler ps r = Handler h"
  shows "routed_as_is r \<and> (\<exists>p. match ps (Method r) (EscapedPath r) = Some p \<and> h = pt_handler p)"
  using assms
  by (auto simp: findHandler_def matchOrRedirect_def routed_as_is_def Let_def split: if_splits option.splits)

text \<open>A path in a subtree, at least two segments long, is no candidate for a redirect to a slash behind it.\<close>

lemma split_append_slash [simp]: "split_at_char c (s @ [c]) = split_at_char c s @ [[]]"
proof (induction s)
  case (Cons x s)
  then show ?case using split_at_char_nonempty [of c s] by (cases "split_at_char c s") auto
qed simp

lemma length_split_at_char: "length (split_at_char c s) = Suc (length (filter (\<lambda>x. x = c) s))"
  by (induction s) (auto split: list.splits)

lemma slashes_segments:
  "p \<noteq> [] \<Longrightarrow> length (path_segments p) = Suc (length (filter (\<lambda>c. c = CHR ''/'') (tl p)))"
  by (simp add: path_segments_def Let_def length_split_at_char)

end
