(* ===== verification/Api_Server.thy ===== *)
theory Api_Server
  imports Api_Openapi Serve_Mux
begin

text \<open>
  \<open>internal/api/server.go\<close> and \<open>ops.go\<close>: the operational endpoints, the two muxes with the key
  check between them, and the middleware that assigns the request id, recovers panics
  and logs. A handler that panics is a value; the JSON encoder and the metrics handler are
  the standard library's and Prometheus'.
\<close>

record Server =
  sv_querier :: "querier option"
  sv_sinks :: "(string \<times> sink_caps) list"
  sv_APIKeys :: "string list"

section \<open>Operational endpoints\<close>

definition readyBudget :: duration where "readyBudget = 2 * Second"

definition healthz :: response where
  "healthz = writeData (StatusData ''ok'' []) \<lparr>meta_NextCursor = [], meta_HasMore = False\<rparr>"

text \<open>One readiness round trip at a moment \<open>now\<close>; a sink that can neither ping nor query fails.\<close>

definition ping :: "time \<Rightarrow> sink_caps \<Rightarrow> string option" where
  "ping now s =
     (case cap_Ping s of
        Some res \<Rightarrow> res
      | None \<Rightarrow>
          (case cap_Query s of
             Some query \<Rightarrow>
               (case query \<lparr>q_Start = now - Microsecond, q_End = now, q_ExporterID = 0, q_SrcAddr = AddrZero,
                       q_DstAddr = AddrZero, q_Protocol = None, q_Limit = 1, q_Cursor = []\<rparr> of
                  Inl e \<Rightarrow> Some e
                | Inr _ \<Rightarrow> None)
           | None \<Rightarrow> Some ''sink offers no readiness probe''))"

fun joinNames :: "string list \<Rightarrow> string" where
  "joinNames [] = []"
| "joinNames [n] = n"
| "joinNames (n # ns) = n @ '', '' @ joinNames ns"

text \<open>
  The goroutines only fill a map of the sinks' names under a lock, so the map they leave does not
  depend on the order in which the pings come back.
\<close>

definition backend_status :: "time \<Rightarrow> sink_caps \<Rightarrow> string" where
  "backend_status now s = (if ping now s \<noteq> None then ''unavailable'' else ''ok'')"

definition readyz :: "time \<Rightarrow> Server \<Rightarrow> string \<Rightarrow> response" where
  "readyz now sv rid =
     (let status = map (\<lambda>(name, s). (name, backend_status now s)) (sv_sinks sv);
          healthy = list_all (\<lambda>(name, st). st = ''ok'') status
      in if \<not> healthy
         then writeError rid 503 CodeBackendUnavailable
                (''backend not ready: '' @ joinNames (sort (map fst (filter (\<lambda>(name, st). st \<noteq> ''ok'') status)))) []
         else writeData (StatusData ''ready'' status) \<lparr>meta_NextCursor = [], meta_HasMore = False\<rparr>)"

section \<open>Routing\<close>

text \<open>
  The inner mux of \<open>New\<close>: every route with its method, the same path with any other method, and everything else.
\<close>

definition endpoint_handler :: "(FlowsRequest \<Rightarrow> field_error list) \<Rightarrow> Server \<Rightarrow> endpoint \<Rightarrow> string \<Rightarrow> request \<Rightarrow> response" where
  "endpoint_handler validate sv e =
     (case e of
        FlowsEndpoint \<Rightarrow> flows validate (sv_querier sv)
      | ExportersEndpoint \<Rightarrow> exporters (sv_sinks sv))"

definition v1_patterns :: "(FlowsRequest \<Rightarrow> field_error list) \<Rightarrow> Server \<Rightarrow> (string \<Rightarrow> request \<Rightarrow> response) pattern list" where
  "v1_patterns validate sv =
     concat (map (\<lambda>rt. [Handle (rt_Method rt @ '' '' @ rt_Path rt) (endpoint_handler validate sv (rt_Handler rt)),
                        Handle (rt_Path rt) methodNotAllowed]) routes) @
     [Handle ''/'' notFound]"

definition v1_mux :: "nat \<Rightarrow> (FlowsRequest \<Rightarrow> field_error list) \<Rightarrow> Server \<Rightarrow> string \<Rightarrow> request \<Rightarrow> response" where
  "v1_mux rcode validate sv = serve_mux rcode (\<lambda>resp. resp) (v1_patterns validate sv)"

text \<open>The outer mux: the \<open>/v1/\<close> subtree behind the key, the operational endpoints, and everything else.\<close>

definition ops_metrics :: response where
  "ops_metrics = \<lparr>status = 200, content = Metrics, authenticate = None\<rparr>"

definition registerOps :: "Server \<Rightarrow> time \<Rightarrow> (string \<Rightarrow> request \<Rightarrow> response \<times> warning list) pattern list" where
  "registerOps sv now =
     [Handle ''GET /metrics'' (\<lambda>rid r. (ops_metrics, [])),
      Handle ''GET /healthz'' (\<lambda>rid r. (healthz, [])),
      Handle ''GET /readyz'' (\<lambda>rid r. (readyz now sv rid, []))]"

definition mux_patterns :: "nat \<Rightarrow> (FlowsRequest \<Rightarrow> field_error list) \<Rightarrow> Server \<Rightarrow> time \<Rightarrow>
    (string \<Rightarrow> request \<Rightarrow> response \<times> warning list) pattern list" where
  "mux_patterns rcode validate sv now =
     [Handle ''/v1/'' (requireAPIKey (sv_APIKeys sv) (v1_mux rcode validate sv))] @
     registerOps sv now @
     [Handle ''/'' (\<lambda>rid r. (notFound rid r, []))]"

definition mux :: "nat \<Rightarrow> (FlowsRequest \<Rightarrow> field_error list) \<Rightarrow> Server \<Rightarrow> time \<Rightarrow> string \<Rightarrow> request \<Rightarrow>
    response \<times> warning list" where
  "mux rcode validate sv now = serve_mux rcode (\<lambda>resp. (resp, [])) (mux_patterns rcode validate sv now)"

section \<open>Middleware\<close>

text \<open>
  A handler returns after its response, or panics with what it had written so far. The status writer
  keeps the first status.
\<close>

datatype 'r outcome = Returned 'r | Panicked "response option"

record logline =
  l_RequestID :: string
  l_Method :: string
  l_Path :: string
  l_Status :: nat
  l_Panic :: bool

definition middleware :: "(string \<Rightarrow> request \<Rightarrow> response outcome) \<Rightarrow> string \<Rightarrow> request \<Rightarrow> response \<times> logline" where
  "middleware next_handler rid r =
     (let (resp, panicked) =
        (case next_handler rid r of
           Returned resp \<Rightarrow> (resp, False)
         | Panicked None \<Rightarrow> (writeError rid 500 CodeInternal ''internal error'' [], True)
         | Panicked (Some resp) \<Rightarrow> (resp, True))
      in (resp, \<lparr>l_RequestID = rid, l_Method = Method r, l_Path = Path r, l_Status = status resp,
                 l_Panic = panicked\<rparr>))"

definition New :: "nat \<Rightarrow> (FlowsRequest \<Rightarrow> field_error list) \<Rightarrow> Server \<Rightarrow> time \<Rightarrow> string \<Rightarrow> request \<Rightarrow> response \<times> logline" where
  "New rcode validate sv now rid r = middleware (\<lambda>rid r. Returned (fst (mux rcode validate sv now rid r))) rid r"

section \<open>Where a request goes\<close>

text \<open>
  The path of a request begins with a slash, is empty (an authority or an absolute URI without one), or is
  a single star: \<open>net/http\<close> refuses any other request line.
\<close>

definition request_path :: "string \<Rightarrow> bool" where
  "request_path p \<longleftrightarrow> p = [] \<or> hd p = CHR ''/'' \<or> p = ''*''"

text \<open>The paths of the subtree: the first unescaped segment is \<open>v1\<close>, and there is a slash behind it.\<close>

definition below_v1 :: "string \<Rightarrow> bool" where
  "below_v1 p \<longleftrightarrow> (\<exists>s rest. path_segments p = ''v1'' # s # rest)"

definition is_get :: "request \<Rightarrow> bool" where
  "is_get r \<longleftrightarrow> Method r = ''GET'' \<or> Method r = ''HEAD''"

lemmas pattern_simps = mux_patterns_def registerOps_def v1_patterns_def routes_def Handle_def Let_def
  with_method_def match_def

lemma mux_match_v1:
  assumes "path_segments path = ''v1'' # s # rest"
  shows "match (mux_patterns rcode validate sv now) m path =
    Some (Handle ''/v1/'' (requireAPIKey (sv_APIKeys sv) (v1_mux rcode validate sv)))"
  using assms by (auto simp: pattern_simps)

lemma mux_match_other:
  assumes "match (mux_patterns rcode validate sv now) m path = Some p" and "\<not> below_v1 path"
  shows "pt_handler p rid r \<in> {(ops_metrics, []), (healthz, []), (readyz now sv rid, []), (notFound rid r, [])}"
  using match_SomeD(1,3) [OF assms(1)] assms(2)
  by (auto simp: mux_patterns_def registerOps_def Handle_def Let_def below_v1_def)

lemma v1_match_handlers:
  assumes "match (v1_patterns validate sv) (Method r) path = Some p"
  shows "(pt_handler p = flows validate (sv_querier sv) \<and> path_segments path = [''v1'', ''flows''] \<and> is_get r) \<or>
    (pt_handler p = exporters (sv_sinks sv) \<and> path_segments path = [''v1'', ''exporters''] \<and> is_get r) \<or>
    pt_handler p = methodNotAllowed \<or> pt_handler p = notFound"
  using match_SomeD [OF assms]
  by (auto simp: v1_patterns_def routes_def endpoint_handler_def Handle_def Let_def is_get_def)

lemma segments_append_slash:
  assumes "path_segments path = ''v1'' # s # rest" and "hd path = CHR ''/''"
  shows "path_segments (path @ ''/'') = ''v1'' # pathUnescape (split_at_char (CHR ''/'') (tl path) ! 1) #
      drop 2 (path_segments (path @ ''/''))"
    and "2 < length (filter (\<lambda>c. c = CHR ''/'') (path @ ''/''))"
proof -
  let ?ps = "split_at_char (CHR ''/'') (tl path)"
  have ne: "path \<noteq> []" using assms(1) by (auto simp: path_segments_def)
  have len: "2 \<le> length ?ps" using slashes_segments [OF ne] assms(1) length_split_at_char [of "CHR ''/''" "tl path"] by simp
  then obtain a b ps where ps: "?ps = a # b # ps" by (cases ?ps; cases "tl ?ps") auto
  have "pathUnescape a = ''v1''" using assms(1) ne ps by (simp add: path_segments_def Let_def)
  then show "path_segments (path @ ''/'') = ''v1'' # pathUnescape (?ps ! 1) # drop 2 (path_segments (path @ ''/''))"
    using ne ps by (simp add: path_segments_def Let_def)
  have "2 \<le> length (path_segments path)" using assms(1) by simp
  then show "2 < length (filter (\<lambda>c. c = CHR ''/'') (path @ ''/''))"
    using slashes_segments [OF ne] ne assms(2) by (cases path) auto
qed

lemma mux_serves_v1:
  assumes "below_v1 (EscapedPath r)" and "routed_as_is r" and "request_path (EscapedPath r)"
  shows "findHandler (mux_patterns rcode validate sv now) r =
    Handler (requireAPIKey (sv_APIKeys sv) (v1_mux rcode validate sv))"
proof -
  let ?path = "EscapedPath r" and ?ps = "mux_patterns rcode validate sv now"
  obtain s rest where segs: "path_segments ?path = ''v1'' # s # rest" using assms(1) by (auto simp: below_v1_def)
  have hd: "hd ?path = CHR ''/''"
    using assms(3) segs by (auto simp: request_path_def path_segments_def)
  note slash = segments_append_slash [OF segs hd]
  have "\<not> exactMatch (match ?ps (Method r) (?path @ ''/'')) (?path @ ''/'')"
    unfolding mux_match_v1 [OF slash(1)] using slash(2) by (simp add: exactMatch_def Handle_def)
  then have "matchOrRedirect ?ps (Method r) ?path (Path r) =
      (Some (Handle ''/v1/'' (requireAPIKey (sv_APIKeys sv) (v1_mux rcode validate sv))), None)"
    using mux_match_v1 [OF segs] by (simp add: matchOrRedirect_def)
  moreover have "(if Method r = ''CONNECT'' then ?path else cleanPath ?path) = ?path"
    using assms(2) by (auto simp: routed_as_is_def)
  ultimately show ?thesis unfolding findHandler_def Let_def by (simp add: Handle_def)
qed

section \<open>Who gets data\<close>

lemma flows_no_401: "status (flows validate q rid r) \<noteq> 401"
  by (auto simp: flows_def writeError_def writeData_def writeJSON_def Let_def
      split: prod.splits option.splits sum.splits)

lemma exporters_no_401: "status (exporters sinks rid r) \<noteq> 401"
  by (auto simp: exporters_def writeError_def writeData_def writeJSON_def Let_def
      split: prod.splits option.splits)

definition has_data :: "response \<Rightarrow> bool" where
  "has_data resp \<longleftrightarrow> (\<exists>fs mt. content resp = Success (FlowsData fs) mt) \<or>
     (\<exists>es mt. content resp = Success (ExportersData es) mt)"

lemmas answer_defs = has_data_def redirect_def plain_def notFound_def methodNotAllowed_def ops_metrics_def healthz_def
  readyz_def writeError_def writeData_def writeJSON_def Let_def

text \<open>The answers of a mux itself, and those of its handlers.\<close>

lemma own_answers: "rcode \<in> {301, 307, 308} \<Longrightarrow> status (redirect rcode p q) \<noteq> 401 \<and> \<not> has_data (redirect rcode p q)"
  "code \<in> {400, 404, 405} \<Longrightarrow> status (plain code t) \<noteq> 401 \<and> \<not> has_data (plain code t)"
  "status (notFound rid r) \<noteq> 401 \<and> \<not> has_data (notFound rid r)"
  "status (methodNotAllowed rid r) \<noteq> 401 \<and> \<not> has_data (methodNotAllowed rid r)"
  "status ops_metrics \<noteq> 401 \<and> \<not> has_data ops_metrics" "status healthz \<noteq> 401 \<and> \<not> has_data healthz"
  "status (readyz now sv rid) \<noteq> 401 \<and> \<not> has_data (readyz now sv rid)"
  by (auto simp: answer_defs)

lemma serve_mux_cases:
  assumes "serve_mux rcode own ps rid r = x"
  obtains (own) resp where "x = own resp" and "rcode \<in> {301, 307, 308} \<Longrightarrow> status resp \<noteq> 401 \<and> \<not> has_data resp"
  | (handler) p where "routed_as_is r" and "match ps (Method r) (EscapedPath r) = Some p"
      and "x = pt_handler p rid r" and "EscapedPath r \<noteq> ''*''" and "findHandler ps r = Handler (pt_handler p)"
proof (cases "EscapedPath r = ''*''")
  case True
  then show ?thesis using assms own own_answers(2) [of 400] by (auto simp: serve_mux_def)
next
  case False
  show ?thesis
  proof (cases "findHandler ps r")
    case (Handler h)
    then show ?thesis using assms False handler findHandlerD [OF Handler] by (auto simp: serve_mux_def)
  next
    case (Redirect u)
    then show ?thesis using assms False own own_answers(1) by (auto simp: serve_mux_def)
  next
    case NoMethod
    then show ?thesis using assms False own own_answers(2) [of 405] by (auto simp: serve_mux_def)
  next
    case NoPattern
    then show ?thesis using assms False own own_answers(2) [of 404] by (auto simp: serve_mux_def)
  qed
qed

definition v1_data_path :: "string \<Rightarrow> bool" where
  "v1_data_path p \<longleftrightarrow> path_segments p = [''v1'', ''flows''] \<or> path_segments p = [''v1'', ''exporters'']"

lemma v1_mux_answers:
  assumes "rcode \<in> {301, 307, 308}"
  shows "status (v1_mux rcode validate sv rid r) \<noteq> 401"
    and "has_data (v1_mux rcode validate sv rid r) \<Longrightarrow> v1_data_path (EscapedPath r) \<and> is_get r"
proof -
  have run: "serve_mux rcode (\<lambda>resp. resp) (v1_patterns validate sv) rid r = v1_mux rcode validate sv rid r"
    by (simp add: v1_mux_def)
  have "status (v1_mux rcode validate sv rid r) \<noteq> 401 \<and>
      (has_data (v1_mux rcode validate sv rid r) \<longrightarrow> v1_data_path (EscapedPath r) \<and> is_get r)"
    using run
  proof (cases rule: serve_mux_cases)
    case (own resp)
    then show ?thesis using assms by simp
  next
    case (handler p)
    then show ?thesis
      using v1_match_handlers [OF handler(2)] flows_no_401 exporters_no_401 own_answers(3,4) [of rid r]
      by (auto simp: v1_data_path_def)
  qed
  then show "status (v1_mux rcode validate sv rid r) \<noteq> 401"
    and "has_data (v1_mux rcode validate sv rid r) \<Longrightarrow> v1_data_path (EscapedPath r) \<and> is_get r" by blast+
qed

definition authorized :: "Server \<Rightarrow> request \<Rightarrow> bool" where
  "authorized sv r \<longleftrightarrow>
     length scheme < length (Authorization r) \<and>
     EqualFold (take (length scheme) (Authorization r)) scheme \<and>
     TrimSpace (drop (length scheme) (Authorization r)) \<noteq> [] \<and>
     TrimSpace (drop (length scheme) (Authorization r)) \<in> set (sv_APIKeys sv)"

lemma bearer_authorized:
  fixes sv :: Server and r :: request
  shows "(case bearerToken (Authorization r) of (token, ok) \<Rightarrow> ok \<and> keyMatches (sv_APIKeys sv) token) \<longleftrightarrow>
    authorized sv r"
  by (auto simp: bearerToken_def authorized_def keyMatches_iff Let_def)

lemma requireAPIKey_eq:
  "requireAPIKey (sv_APIKeys sv) next_handler rid r =
     (if authorized sv r then (next_handler rid r, [])
      else ((writeError rid 401 CodeUnauthorized ''a valid API key is required'' [])
              \<lparr>authenticate := Some (''Bearer realm='' @ [CHR 0x22] @ ''netflow-collector'' @ [CHR 0x22])\<rparr>,
            [\<lparr>w_RequestID = rid, w_Path = Path r, w_KeyPrefix = prefix_of (fst (bearerToken (Authorization r))),
              w_HeaderPresent = (Authorization r \<noteq> [])\<rparr>]))"
  using bearer_authorized [of sv r]
  by (cases "bearerToken (Authorization r)") (auto simp: requireAPIKey_def)

text \<open>
  C8. The API gives flow data to key holders only, and refuses nobody else's business. A request is
  answered 401 exactly when its path is routed as it stands, its first segment, unescaped, is \<open>v1\<close> with
  something below it, and the request does not carry \<open>Bearer\<close> with one of the configured keys;
  and a response with flows or exporters in it was sent to a \<open>GET\<close> or \<open>HEAD\<close> request that does, for one of
  the two endpoints. Rewriting the path does not help: with dots or doubled slashes it is redirected
  before any handler runs, percent-encoded it is matched by what it decodes to, and an encoded slash does not
  separate segments.
\<close>

theorem api_key_guards_v1:
  assumes "mux rcode validate sv now rid r = (resp, warns)" and "rcode \<in> {301, 307, 308}"
    and "request_path (EscapedPath r)"
  shows "(status resp = 401 \<longleftrightarrow> routed_as_is r \<and> below_v1 (EscapedPath r) \<and> \<not> authorized sv r) \<and>
    (has_data resp \<longrightarrow> authorized sv r \<and> v1_data_path (EscapedPath r) \<and> is_get r) \<and>
    length warns = (if status resp = 401 then 1 else 0)"
proof (cases "routed_as_is r \<and> below_v1 (EscapedPath r)")
  case True
  have "EscapedPath r \<noteq> ''*''" using True by (auto simp: below_v1_def path_segments_def)
  then have "(resp, warns) = requireAPIKey (sv_APIKeys sv) (v1_mux rcode validate sv) rid r"
    using assms(1) mux_serves_v1 [of r rcode validate sv now] True assms(3) by (simp add: mux_def serve_mux_def)
  then show ?thesis
    using True v1_mux_answers [OF assms(2), of validate sv rid r]
    by (auto simp: requireAPIKey_eq has_data_def writeError_def writeJSON_def split: if_splits)
next
  case False
  have run: "serve_mux rcode (\<lambda>resp. (resp, [])) (mux_patterns rcode validate sv now) rid r = (resp, warns)"
    using assms(1) by (simp add: mux_def)
  have "status resp \<noteq> 401 \<and> \<not> has_data resp \<and> warns = []"
    using run
  proof (cases rule: serve_mux_cases)
    case (own x)
    then show ?thesis using assms(2) by simp
  next
    case (handler p)
    then have "\<not> below_v1 (EscapedPath r)" using False by blast
    from mux_match_other [OF handler(2) this, of rid r] show ?thesis
      using handler(3) own_answers by auto
  qed
  then show ?thesis using False by auto
qed

text \<open>
  A key holder's \<open>GET\<close> of an endpoint reaches its handler, however the path is escaped.
\<close>

lemma key_holder_served:
  assumes "authorized sv r" and "routed_as_is r" and "request_path (EscapedPath r)" and "is_get r"
    and "path_segments (EscapedPath r) = [''v1'', ''flows'']"
  shows "mux rcode validate sv now rid r = (flows validate (sv_querier sv) rid r, [])"
proof -
  let ?path = "EscapedPath r"
  have star: "?path \<noteq> ''*''" using assms(5) by (auto simp: path_segments_def)
  have path: "(if Method r = ''CONNECT'' then ?path else cleanPath ?path) = ?path"
    using assms(2) by (auto simp: routed_as_is_def)
  have "match (v1_patterns validate sv) (Method r) ?path =
      Some (Handle ''GET /v1/flows'' (flows validate (sv_querier sv)))"
    using assms(4,5) by (auto simp: is_get_def pattern_simps endpoint_handler_def)
  then have "matchOrRedirect (v1_patterns validate sv) (Method r) ?path (Path r) =
      (Some (Handle ''GET /v1/flows'' (flows validate (sv_querier sv))), None)"
    by (simp add: matchOrRedirect_def exactMatch_def Handle_def)
  then have "findHandler (v1_patterns validate sv) r = Handler (flows validate (sv_querier sv))"
    unfolding findHandler_def Let_def path by (simp add: Handle_def)
  then have "v1_mux rcode validate sv rid r = flows validate (sv_querier sv) rid r"
    using star by (simp add: v1_mux_def serve_mux_def)
  moreover have "below_v1 ?path" using assms(5) by (simp add: below_v1_def)
  ultimately show ?thesis
    using mux_serves_v1 [of r rcode validate sv now] assms(1-3) star
    by (simp add: mux_def serve_mux_def requireAPIKey_eq)
qed

definition demo_server :: Server where
  "demo_server = \<lparr>sv_querier = None, sv_sinks = [], sv_APIKeys = [''k1'', ''s3cret'']\<rparr>"

definition demo_get :: "string \<Rightarrow> string \<Rightarrow> request" where
  "demo_get p auth = \<lparr>Method = ''GET'', EscapedPath = p, RawQuery = [], Authorization = auth\<rparr>"

lemma api_key_guards_v1_witness:
  "status (fst (mux 301 reference_validate demo_server 0 ''req_1'' (demo_get ''/%761/exporters'' ''Bearer s3cre''))) = 401 \<and>
   status (fst (mux 301 reference_validate demo_server 0 ''req_1'' (demo_get ''/v1%2Fexporters'' ''Bearer s3cre''))) \<noteq> 401 \<and>
   status (fst (mux 301 reference_validate demo_server 0 ''req_1'' (demo_get ''/v1/exporters'' ''Bearer s3cret ''))) \<noteq> 401"
proof -
  have clean: "routed_as_is (demo_get p auth)" if "p \<in> {''/%761/exporters'', ''/v1%2Fexporters'', ''/v1/exporters''}" for p auth
    using that by (auto simp: routed_as_is_def cleanPath_def demo_get_def)
  have below: "below_v1 ''/%761/exporters''" "\<not> below_v1 ''/v1%2Fexporters''"
    by (simp_all add: below_v1_def path_segments_def pathUnescape_def hex_digit_val_def char_of_eq_iff)
  have no: "\<not> authorized demo_server (demo_get p ''Bearer s3cre'')" for p
    by (simp add: authorized_def demo_get_def demo_server_def scheme_def EqualFold_def ToLower_def
        TrimSpace_def is_space_def)
  have yes: "authorized demo_server (demo_get p ''Bearer s3cret '')" for p
    by (simp add: authorized_def demo_get_def demo_server_def scheme_def EqualFold_def ToLower_def
        TrimSpace_def is_space_def)
  have path: "EscapedPath (demo_get p auth) = p" for p auth by (simp add: demo_get_def)
  have req: "request_path ''/%761/exporters''" "request_path ''/v1%2Fexporters''" "request_path ''/v1/exporters''"
    by (simp_all add: request_path_def)
  have guard: "status (fst (mux 301 reference_validate demo_server 0 ''req_1'' (demo_get p auth))) = 401 \<longleftrightarrow>
      routed_as_is (demo_get p auth) \<and> below_v1 p \<and> \<not> authorized demo_server (demo_get p auth)"
    if "request_path p" for p auth
    using api_key_guards_v1 [where r = "demo_get p auth", OF prod.collapse [symmetric]] that by (simp add: path)
  show ?thesis using guard [OF req(1)] guard [OF req(2)] guard [OF req(3)] clean below no yes by simp
qed

text \<open>
  A configured key with white space around it locks its holder out: the configuration check accepts
  every key that is not blank, but the token of a request is trimmed before it is compared, so
  no request is ever authorized by such a key.
\<close>

theorem padded_key_never_matches:
  assumes "TrimSpace key \<noteq> key" and "TrimSpace key \<noteq> []" and "httpAddr \<noteq> []"
  shows "CheckConfig httpAddr [key] = None \<and> \<not> authorized (sv\<lparr>sv_APIKeys := [key]\<rparr>) r"
proof -
  have "TrimSpace s \<noteq> key" for s using assms(1) TrimSpace_TrimSpace [of s] by metis
  then show ?thesis using assms(2,3) by (simp add: CheckConfig_def authorized_def)
qed

lemma padded_key_never_matches_witness:
  "CheckConfig '':8080'' ['' k2''] = None \<and>
   \<not> authorized (demo_server\<lparr>sv_APIKeys := ['' k2'']\<rparr>) (demo_get ''/v1/flows'' ''Bearer  k2'')"
  by (rule padded_key_never_matches) (simp_all add: TrimSpace_def is_space_def)

section \<open>Readiness\<close>

lemma backend_status_ok [simp]: "backend_status now s = ''ok'' \<longleftrightarrow> ping now s = None"
  by (simp add: backend_status_def)

lemma readyz_status:
  "status (readyz now sv rid) = (if list_all (\<lambda>(name, s). ping now s = None) (sv_sinks sv) then 200 else 503)"
proof -
  have "list_all (\<lambda>(name, st). st = ''ok'')
      (map (\<lambda>(name, s). (name, backend_status now s)) ss) \<longleftrightarrow>
      list_all (\<lambda>(name, s). ping now s = None) ss" for ss :: "(string \<times> sink_caps) list"
    by (induction ss) (auto split: if_splits)
  then show ?thesis
    by (simp add: readyz_def writeError_def writeData_def writeJSON_def Let_def)
qed

lemma failing_names:
  "set (map fst (filter (\<lambda>(name, st). st \<noteq> ''ok'')
      (map (\<lambda>(name, s). (name, backend_status now s)) ss))) =
    {name. \<exists>s. (name, s) \<in> set ss \<and> ping now s \<noteq> None}"
  by (induction ss) (auto split: if_splits)

text \<open>
  Readiness tells which backend is down: the endpoint answers 200 exactly when every sink answers
  its probe, and otherwise 503 with the names of exactly the failing sinks, in order; a sink that
  offers neither a ping nor a query counts as failing.
\<close>

theorem readyz_names_failing_sinks:
  "(status (readyz now sv rid) = 200 \<longleftrightarrow> list_all (\<lambda>(name, s). ping now s = None) (sv_sinks sv)) \<and>
   (status (readyz now sv rid) \<noteq> 200 \<longrightarrow>
      (\<exists>names. readyz now sv rid =
          writeError rid 503 CodeBackendUnavailable (''backend not ready: '' @ joinNames names) [] \<and>
        sorted names \<and> set names = {name. \<exists>s. (name, s) \<in> set (sv_sinks sv) \<and> ping now s \<noteq> None} \<and> names \<noteq> []))"
proof -
  let ?st = "map (\<lambda>(name, s). (name, backend_status now s)) (sv_sinks sv)"
  let ?names = "sort (map fst (filter (\<lambda>(name, st). st \<noteq> ''ok'') ?st))"
  have names: "set ?names = {name. \<exists>s. (name, s) \<in> set (sv_sinks sv) \<and> ping now s \<noteq> None}"
    using failing_names [of now "sv_sinks sv"] by simp
  have "\<exists>names. readyz now sv rid =
          writeError rid 503 CodeBackendUnavailable (''backend not ready: '' @ joinNames names) [] \<and>
        sorted names \<and> set names = {name. \<exists>s. (name, s) \<in> set (sv_sinks sv) \<and> ping now s \<noteq> None} \<and> names \<noteq> []"
    if "status (readyz now sv rid) \<noteq> 200"
  proof (intro exI conjI)
    have bad: "\<not> list_all (\<lambda>(name, s). ping now s = None) (sv_sinks sv)"
      using that readyz_status [of now sv rid] by auto
    then obtain name s where s: "(name, s) \<in> set (sv_sinks sv)" "ping now s \<noteq> None"
      by (auto simp: list_all_iff)
    then have "name \<in> set ?names" unfolding names by blast
    then show "?names \<noteq> []" by (metis list.set(1) empty_iff)
    have "\<not> list_all (\<lambda>(name, st). st = ''ok'') ?st" using s by (force simp: list_all_iff)
    then show "readyz now sv rid =
        writeError rid 503 CodeBackendUnavailable (''backend not ready: '' @ joinNames ?names) []"
      by (simp add: readyz_def Let_def)
  qed (use names in simp_all)
  then show ?thesis using readyz_status [of now sv rid] by auto
qed

end
