(* ===== verification/App.thy ===== *)
theory App
  imports Config Api_Server Netflow_Source Pipeline "HOL-Library.AList" "HOL-Library.Multiset"
begin

text \<open>
  \<open>internal/app/run.go\<close>, construction: \<open>CheckNames\<close>, the two switches, \<open>New\<close>, \<open>closeSinks\<close> and the
  choice of the querier. What a sink's constructor meets on the network is the argument \<open>connect\<close>: whether
  the \<open>i\<close>-th call succeeds. A sink is the number of the call that opened it, so that the log
  \<open>a_events\<close> tells which connections were opened and closed. A Go map is an association list without repeated
  keys, and the order in which \<open>range\<close> visits it is an argument, \<open>ord\<close>.
\<close>

datatype sink_error = NotImplemented | Unreachable string

text \<open>The errors of the package; \<open>is_ErrConfig\<close> and \<open>is_ErrMigration\<close> are \<open>errors.Is\<close> on the sentinel.\<close>

datatype app_error =
    ConfigLoad config_error
  | APIConfig string
  | UnknownSink string
  | UnknownSource string
  | SinkFailed string sink_error
  | TemplateStoreFailed string
  | SourceFailed string string
  | PipelineFailed new_error
  | MigrateFailed string string
  | ListenFailed string string
  | SourceDied string string
  | MetricsFailed string

fun is_ErrConfig :: "app_error \<Rightarrow> bool" where
  "is_ErrConfig (ConfigLoad _) = True"
| "is_ErrConfig (APIConfig _) = True"
| "is_ErrConfig (UnknownSink _) = True"
| "is_ErrConfig (UnknownSource _) = True"
| "is_ErrConfig (SinkFailed _ e) = (e = NotImplemented)"
| "is_ErrConfig (TemplateStoreFailed _) = False"
| "is_ErrConfig (SourceFailed _ _) = True"
| "is_ErrConfig (PipelineFailed _) = True"
| "is_ErrConfig (MigrateFailed _ _) = False"
| "is_ErrConfig (ListenFailed _ _) = True"
| "is_ErrConfig (SourceDied _ _) = False"
| "is_ErrConfig (MetricsFailed _) = False"

fun is_ErrMigration :: "app_error \<Rightarrow> bool" where
  "is_ErrMigration (SinkFailed _ _) = True"
| "is_ErrMigration (TemplateStoreFailed _) = True"
| "is_ErrMigration (MigrateFailed _ _) = True"
| "is_ErrMigration _ = False"

definition CheckNames :: "Config \<Rightarrow> app_error option" where
  "CheckNames cfg =
     (case CheckConfig (HTTPAddr cfg) (APIKeys cfg) of
        Some e \<Rightarrow> Some (APIConfig e)
      | None \<Rightarrow>
          (case List.find (\<lambda>s. s \<notin> {SinkPostgres, SinkMariaDB, SinkClickHouse, SinkKafka}) (Sinks cfg) of
             Some s \<Rightarrow> Some (UnknownSink s)
           | None \<Rightarrow>
               map_option UnknownSource
                 (List.find (\<lambda>s. s \<notin> {SourceNetFlow, SourceKafka}) (Sources cfg))))"

text \<open>What each constructor is called with.\<close>

datatype sink_spec =
    PostgresSink string int
  | MariaDBSink string int
  | ClickHouseSink string int
  | KafkaSink "string list" string

fun is_backend :: "sink_spec \<Rightarrow> bool" where
  "is_backend (KafkaSink _ _) = False"
| "is_backend _ = True"

record app_sink =
  s_handle :: nat
  s_spec :: sink_spec

definition sink_spec_of :: "string \<Rightarrow> Config \<Rightarrow> sink_spec option" where
  "sink_spec_of name cfg =
     (if name = SinkPostgres then Some (PostgresSink (PostgresDSN cfg) (RetentionDays cfg))
      else if name = SinkMariaDB then Some (MariaDBSink (MariaDBDSN cfg) (RetentionDays cfg))
      else if name = SinkClickHouse then Some (ClickHouseSink (ClickHouseDSN cfg) (RetentionDays cfg))
      else if name = SinkKafka then Some (KafkaSink (KafkaBrokers cfg) (KafkaTopic cfg))
      else None)"

definition newSink :: "(nat \<Rightarrow> sink_spec \<Rightarrow> string option) \<Rightarrow> nat \<Rightarrow> string \<Rightarrow> Config \<Rightarrow> sink_error + app_sink" where
  "newSink connect i name cfg =
     (case sink_spec_of name cfg of
        None \<Rightarrow> Inl NotImplemented
      | Some spec \<Rightarrow>
          (case connect i spec of
             Some e \<Rightarrow> Inl (Unreachable e)
           | None \<Rightarrow> Inr \<lparr>s_handle = i, s_spec = spec\<rparr>))"

record kafka_source =
  ks_brokers :: "string list"
  ks_topic :: string
  ks_group :: string

definition kafka_newSource :: "string list \<Rightarrow> string \<Rightarrow> string \<Rightarrow> kafka_source" where
  "kafka_newSource brokers topic grp = \<lparr>ks_brokers = brokers, ks_topic = topic, ks_group = grp\<rparr>"

definition kafka_New :: "Config \<Rightarrow> string + kafka_source" where
  "kafka_New cfg =
     (if length (KafkaBrokers cfg) = 0 \<or> KafkaTopic cfg = [] \<or> KafkaGroup cfg = []
      then Inl ''kafka: NFC_KAFKA_BROKERS, NFC_KAFKA_TOPIC and NFC_KAFKA_GROUP must be set''
      else Inr (kafka_newSource (KafkaBrokers cfg) (KafkaTopic cfg) (KafkaGroup cfg)))"

datatype 's app_source = NetflowSource 's | KafkaSource kafka_source

datatype app_event = Opened nat | Closed nat | TemplatesOpened | TemplatesClosed

record 's App =
  a_cfg :: Config
  a_sinks :: "(string \<times> app_sink) list"
  a_backends :: "(string \<times> app_sink) list"
  a_sources :: "(string \<times> 's app_source) list"
  a_templates :: bool
  a_pipe :: "Pipeline option"
  a_events :: "app_event list"

type_synonym ('t, 'n, 'i, 'in, 'body) nf_source = "(('t, 'n, 'i, 'in) tsystem, 'body) Source"

definition app_newSource :: "'in \<Rightarrow> ('t, 'n, 'i, 'in, 'body) nf_source App \<Rightarrow> string \<Rightarrow> Config \<Rightarrow>
    string + ('t, 'n, 'i, 'in, 'body) nf_source app_source" where
  "app_newSource fresh a name cfg =
     (if name = SourceNetFlow
      then (case Netflow_Source.New fresh (NetFlowAddr cfg)
                   (if a_templates a then [WithTemplateStore fresh True] else []) of
              Inl e \<Rightarrow> Inl e | Inr s \<Rightarrow> Inr (NetflowSource s))
      else if name = SourceKafka
      then (case kafka_New cfg of Inl e \<Rightarrow> Inl e | Inr s \<Rightarrow> Inr (KafkaSource s))
      else Inl (''unknown source '' @ quoted name))"

definition closeSinks :: "((string \<times> app_sink) list \<Rightarrow> (string \<times> app_sink) list) \<Rightarrow> 's App \<Rightarrow> 's App" where
  "closeSinks ord a =
     a\<lparr>a_events := a_events a @ map (\<lambda>(_, s). Closed (s_handle s)) (ord (a_sinks a)) @
                    (if a_templates a then [TemplatesClosed] else []),
       a_templates := False, a_sinks := [], a_backends := []\<rparr>"

fun open_sinks :: "(nat \<Rightarrow> sink_spec \<Rightarrow> string option) \<Rightarrow> Config \<Rightarrow> nat \<Rightarrow> string list \<Rightarrow> 's App \<Rightarrow>
    app_error option \<times> 's App" where
  "open_sinks connect cfg i [] a = (None, a)"
| "open_sinks connect cfg i (name # names) a =
     (case newSink connect i name cfg of
        Inl e \<Rightarrow> (Some (SinkFailed name e), a)
      | Inr s \<Rightarrow>
          open_sinks connect cfg (Suc i) names
            (a\<lparr>a_events := a_events a @ [Opened (s_handle s)],
               a_sinks := AList.update name s (a_sinks a),
               a_backends := (if is_backend (s_spec s) then AList.update name s (a_backends a) else a_backends a)\<rparr>))"

fun open_sources :: "'in \<Rightarrow> Config \<Rightarrow> string list \<Rightarrow> ('t, 'n, 'i, 'in, 'body) nf_source App \<Rightarrow>
    app_error option \<times> ('t, 'n, 'i, 'in, 'body) nf_source App" where
  "open_sources fresh cfg [] a = (None, a)"
| "open_sources fresh cfg (name # names) a =
     (case app_newSource fresh a name cfg of
        Inl e \<Rightarrow> (Some (SourceFailed name e), a)
      | Inr s \<Rightarrow> open_sources fresh cfg names (a\<lparr>a_sources := AList.update name s (a_sources a)\<rparr>))"

definition app_options :: "Config \<Rightarrow> Options" where
  "app_options cfg =
     \<lparr>BufferSize = PipelineBuffer cfg, BatchSize = cfg_BatchSize cfg, BatchInterval = cfg_BatchInterval cfg,
      Workers = cfg_Workers cfg, WriteTimeout = 0\<rparr>"

definition open_templates ::
    "(string list \<Rightarrow> string \<Rightarrow> string option) \<Rightarrow> Config \<Rightarrow> 's App \<Rightarrow> app_error option \<times> 's App" where
  "open_templates dial cfg a =
     (if KafkaTemplateTopic cfg \<noteq> [] \<and> NetFlowEnabled cfg
      then case dial (KafkaBrokers cfg) (KafkaTemplateTopic cfg) of
             Some e \<Rightarrow> (Some (TemplateStoreFailed e), a)
           | None \<Rightarrow> (None, a\<lparr>a_templates := True, a_events := a_events a @ [TemplatesOpened]\<rparr>)
      else (None, a))"

definition open_pipe ::
    "((string \<times> app_sink) list \<Rightarrow> (string \<times> app_sink) list) \<Rightarrow> Config \<Rightarrow> 's App \<Rightarrow> app_error option \<times> 's App" where
  "open_pipe ord cfg a =
     (case Pipeline.New (app_options cfg) (map fst (ord (a_sinks a))) of
        Inl e \<Rightarrow> (Some (PipelineFailed e), a)
      | Inr p \<Rightarrow> (None, a\<lparr>a_pipe := Some p\<rparr>))"

definition new_app :: "Config \<Rightarrow> 's App" where
  "new_app cfg =
     \<lparr>a_cfg = cfg, a_sinks = [], a_backends = [], a_sources = [], a_templates = False, a_pipe = None,
      a_events = []\<rparr>"

text \<open>
  \<open>New\<close>: the error, if any, and the app as it stands when the call returns. Every return with an error after the
  first sink was opened goes through \<open>closeSinks\<close>.
\<close>

definition and_then :: "'e option \<times> 'a \<Rightarrow> ('a \<Rightarrow> 'e option \<times> 'a) \<Rightarrow> 'e option \<times> 'a" where
  "and_then r f = (case r of (None, a) \<Rightarrow> f a | (Some e, a) \<Rightarrow> (Some e, a))"

definition build where
  "build fresh connect dial ord cfg =
     and_then (and_then (and_then
       (open_sinks connect cfg 0 (Sinks cfg) (new_app cfg))
       (open_templates dial cfg))
       (open_sources fresh cfg (Sources cfg)))
       (open_pipe ord cfg)"

definition New_app where
  "New_app fresh connect dial ord cfg =
     (case CheckNames cfg of
        Some e \<Rightarrow> (Some e, new_app cfg)
      | None \<Rightarrow>
          (case build fresh connect dial ord cfg of
             (Some e, a) \<Rightarrow> (Some e, closeSinks ord a)
           | (None, a) \<Rightarrow> (None, a)))"

text \<open>The querier of \<open>serveHTTP\<close>: the first configured sink that is storage.\<close>

definition querier_of :: "'s App \<Rightarrow> app_sink option" where
  "querier_of a =
     map_option (\<lambda>name. the (map_of (a_backends a) name))
       (List.find (\<lambda>name. map_of (a_backends a) name \<noteq> None) (Sinks (a_cfg a)))"

text \<open>
  The handler \<open>serveHTTP\<close> builds: \<open>query\<close> and \<open>caps\<close> are what the constructed sinks answer when asked.
\<close>

definition api_handler :: "(app_sink \<Rightarrow> querier) \<Rightarrow> (app_sink \<Rightarrow> sink_caps) \<Rightarrow> 's App \<Rightarrow> Server" where
  "api_handler query caps a =
     \<lparr>sv_querier = map_option query (querier_of a), sv_sinks = map (\<lambda>(n, s). (n, caps s)) (a_sinks a),
      sv_APIKeys = APIKeys (a_cfg a)\<rparr>"

datatype http_state = HttpOff | HttpServing | HttpClosing | HttpDone

text \<open>\<open>serveHTTP\<close>, with the failure of \<open>net.Listen\<close>, if any.\<close>

definition serveHTTP :: "string option \<Rightarrow> 's App \<Rightarrow> app_error option \<times> http_state" where
  "serveHTTP listen a =
     (if HTTPAddr (a_cfg a) = [] then (None, HttpOff)
      else case listen of
             Some e \<Rightarrow> (Some (ListenFailed (HTTPAddr (a_cfg a)) e), HttpOff)
           | None \<Rightarrow> (None, HttpServing))"

section \<open>Every connection is accounted for\<close>

definition opened :: "app_event list \<Rightarrow> nat list" where
  "opened evs = concat (map (\<lambda>ev. case ev of Opened h \<Rightarrow> [h] | _ \<Rightarrow> []) evs)"

definition closed :: "app_event list \<Rightarrow> nat list" where
  "closed evs = concat (map (\<lambda>ev. case ev of Closed h \<Rightarrow> [h] | _ \<Rightarrow> []) evs)"

definition handles :: "(string \<times> app_sink) list \<Rightarrow> nat list" where
  "handles ss = map (\<lambda>(_, s). s_handle s) ss"

definition range_order :: "('a list \<Rightarrow> 'a list) \<Rightarrow> bool" where
  "range_order ord \<longleftrightarrow> (\<forall>xs. mset (ord xs) = mset xs)"

lemma events_simps [simp]:
  "opened [] = []" "closed [] = []"
  "opened (e # evs) = (case e of Opened h \<Rightarrow> [h] | _ \<Rightarrow> []) @ opened evs"
  "closed (e # evs) = (case e of Closed h \<Rightarrow> [h] | _ \<Rightarrow> []) @ closed evs"
  "opened (xs @ ys) = opened xs @ opened ys" "closed (xs @ ys) = closed xs @ closed ys"
  by (simp_all add: opened_def closed_def)

lemma closed_map [simp]:
  "closed (map (\<lambda>(_, s). Closed (s_handle s)) ss) = handles ss"
  "opened (map (\<lambda>(_, s). Closed (s_handle s)) ss) = []"
  by (induction ss) (auto simp: handles_def)

lemma mset_handles_ord: "range_order ord \<Longrightarrow> mset (handles (ord ss)) = mset (handles ss)"
  unfolding handles_def range_order_def by (metis mset_map)

lemma closeSinks_frame [simp]:
  "a_sinks (closeSinks ord a) = []" "a_backends (closeSinks ord a) = []" "a_templates (closeSinks ord a) = False"
  by (simp_all add: closeSinks_def)

text \<open>
  The sinks an app holds are exactly the connections it opened and has not closed: \<open>tracked\<close>. No call
  opens one twice.
\<close>

definition tracked :: "'s App \<Rightarrow> bool" where
  "tracked a \<longleftrightarrow> mset (opened (a_events a)) = mset (closed (a_events a)) + mset (handles (a_sinks a)) \<and>
     distinct (opened (a_events a))"

lemma closeSinks_tracked:
  "range_order ord \<Longrightarrow> tracked a \<Longrightarrow> tracked (closeSinks ord a)"
  by (simp add: tracked_def closeSinks_def mset_handles_ord) (simp add: handles_def)

lemma handles_update_fresh:
  "name \<notin> fst ` set ss \<Longrightarrow> handles (AList.update name s ss) = handles ss @ [s_handle s]"
  by (induction ss) (auto simp: handles_def)

lemma open_sinks_tracked:
  assumes "open_sinks connect cfg i names a = (e, a')" and "tracked a" and "distinct names"
    and "set names \<inter> fst ` set (a_sinks a) = {}" and "\<forall>h \<in> set (opened (a_events a)). h < i"
  shows "tracked a' \<and> a_templates a' = a_templates a"
  using assms
proof (induction connect cfg i names a rule: open_sinks.induct)
  case (2 connect cfg i name names a)
  show ?case
  proof (cases "newSink connect i name cfg")
    case (Inr s)
    then have s: "s_handle s = i" by (auto simp: newSink_def split: option.splits)
    let ?a = "a\<lparr>a_events := a_events a @ [Opened (s_handle s)], a_sinks := AList.update name s (a_sinks a),
               a_backends := (if is_backend (s_spec s) then AList.update name s (a_backends a) else a_backends a)\<rparr>"
    have "name \<notin> fst ` set (a_sinks a)" using "2.prems"(4) by auto
    then have h: "handles (AList.update name s (a_sinks a)) = handles (a_sinks a) @ [i]"
      by (simp add: handles_update_fresh s)
    have "i \<notin> set (opened (a_events a))" using "2.prems"(5) by blast
    then have t: "tracked ?a" using "2.prems"(2) h by (simp add: tracked_def s)
    have n: "set names \<inter> fst ` set (a_sinks ?a) = {}"
      using "2.prems"(3,4) by (auto simp: AList.dom_update)
    have lt: "\<forall>h \<in> set (opened (a_events ?a)). h < Suc i" using "2.prems"(5) by (auto simp: s)
    have "open_sinks connect cfg (Suc i) names ?a = (e, a')" using "2.prems"(1) Inr by simp
    from "2.IH" [OF Inr this t _ n lt] show ?thesis using "2.prems"(3) by simp
  qed (use 2 in auto)
qed simp

lemma open_sources_frame:
  "open_sources fresh cfg names a = (e, a') \<Longrightarrow>
     a_events a' = a_events a \<and> a_sinks a' = a_sinks a \<and> a_backends a' = a_backends a \<and>
     a_templates a' = a_templates a \<and> a_cfg a' = a_cfg a"
  by (induction fresh cfg names a rule: open_sources.induct) (auto split: sum.splits)

lemma and_then_inv:
  assumes "P (snd r)" and "\<And>a. P a \<Longrightarrow> P (snd (f a))"
  shows "P (snd (and_then r f))"
  using assms by (cases r) (auto simp: and_then_def split: option.splits)

lemma tracked_frame:
  assumes "opened (a_events a') = opened (a_events a)" and "closed (a_events a') = closed (a_events a)"
    and "a_sinks a' = a_sinks a" and "tracked a"
  shows "tracked a'"
  using assms(4) unfolding tracked_def assms(1-3) .

lemma open_templates_frame:
  "opened (a_events (snd (open_templates dial cfg a))) = opened (a_events a)"
  "closed (a_events (snd (open_templates dial cfg a))) = closed (a_events a)"
  "a_sinks (snd (open_templates dial cfg a)) = a_sinks a"
  "a_backends (snd (open_templates dial cfg a)) = a_backends a"
  "a_cfg (snd (open_templates dial cfg a)) = a_cfg a"
  by (simp_all add: open_templates_def split: option.split)

lemma open_pipe_frame:
  "a_events (snd (open_pipe ord cfg a)) = a_events a"
  "a_sinks (snd (open_pipe ord cfg a)) = a_sinks a"
  "a_backends (snd (open_pipe ord cfg a)) = a_backends a"
  "a_cfg (snd (open_pipe ord cfg a)) = a_cfg a"
  by (simp_all add: open_pipe_def split: sum.split)

lemma open_sources_events:
  "a_events (snd (open_sources fresh cfg names a)) = a_events a"
  "a_sinks (snd (open_sources fresh cfg names a)) = a_sinks a"
  using open_sources_frame [OF prod.collapse [symmetric], of fresh cfg names a] by simp_all

lemma stages_tracked:
  "tracked a \<Longrightarrow> tracked (snd (open_templates dial cfg a))"
  "tracked a \<Longrightarrow> tracked (snd (open_pipe ord cfg a))"
  "tracked a \<Longrightarrow> tracked (snd (open_sources fresh cfg names a))"
  by (rule tracked_frame, simp_all only: open_templates_frame open_pipe_frame open_sources_events)+

lemma tracked_new: "tracked (new_app cfg)"
  by (simp add: tracked_def new_app_def handles_def)

lemma build_tracked:
  assumes "distinct (Sinks cfg)"
  shows "tracked (snd (build fresh connect dial ord cfg))"
  unfolding build_def
proof (intro and_then_inv [where P = tracked] stages_tracked)
  show "tracked (snd (open_sinks connect cfg 0 (Sinks cfg) (new_app cfg)))"
    by (rule open_sinks_tracked [THEN conjunct1], rule prod.collapse [symmetric])
      (use tracked_new assms in \<open>simp_all add: new_app_def\<close>)
qed

lemma build_tracked_pair:
  "build fresh connect dial ord cfg = (e, a) \<Longrightarrow> distinct (Sinks cfg) \<Longrightarrow> tracked a"
  using build_tracked by (metis snd_conv)

lemma New_app_tracked:
  assumes "New_app fresh connect dial ord cfg = (r, a)" and "distinct (Sinks cfg)" and "range_order ord"
  shows "tracked a" and "r \<noteq> None \<Longrightarrow> a_sinks a = [] \<and> \<not> a_templates a"
proof -
  show "tracked a"
    using assms(1)
    by (auto simp: New_app_def split: option.splits prod.splits
        intro: tracked_new closeSinks_tracked [OF assms(3)] build_tracked_pair [OF _ assms(2)])
  show "r \<noteq> None \<Longrightarrow> a_sinks a = [] \<and> \<not> a_templates a"
    using assms(1) by (auto simp: New_app_def new_app_def split: option.splits prod.splits)
qed

text \<open>What was done to the template store, in order.\<close>

definition store_log :: "app_event list \<Rightarrow> app_event list" where
  "store_log evs = filter (\<lambda>ev. ev = TemplatesOpened \<or> ev = TemplatesClosed) evs"

lemma store_log_simps [simp]:
  "store_log [] = []" "store_log (xs @ ys) = store_log xs @ store_log ys"
  "store_log (ev # evs) = (if ev = TemplatesOpened \<or> ev = TemplatesClosed then ev # store_log evs else store_log evs)"
  "store_log (map (\<lambda>(_, s). Closed (s_handle s)) ss) = []"
  by (auto simp: store_log_def filter_empty_conv)

lemma open_sinks_store:
  "store_log (a_events (snd (open_sinks connect cfg i names a))) = store_log (a_events a) \<and>
   a_templates (snd (open_sinks connect cfg i names a)) = a_templates a"
  by (induction connect cfg i names a rule: open_sinks.induct) (auto split: sum.split)

definition store_held :: "'s App \<Rightarrow> bool" where
  "store_held a \<longleftrightarrow> store_log (a_events a) = (if a_templates a then [TemplatesOpened] else [])"

lemma stages_store:
  "store_held a \<Longrightarrow> store_held (snd (open_sources fresh cfg names a))"
  "store_held a \<Longrightarrow> store_held (snd (open_pipe ord cfg a))"
  using open_sources_frame [OF prod.collapse [symmetric], of fresh cfg names a]
  by (auto simp: store_held_def open_pipe_def split: option.split sum.split)

lemma templates_stage_store:
  assumes "store_log (a_events (snd r)) = []" and "\<not> a_templates (snd r)"
  shows "store_held (snd (and_then r (open_templates dial cfg)))"
  using assms by (cases r) (auto simp: and_then_def store_held_def open_templates_def split: option.split)

lemma build_store: "store_held (snd (build fresh connect dial ord cfg))"
  unfolding build_def
  by (intro and_then_inv [where P = store_held] stages_store templates_stage_store)
    (simp_all add: open_sinks_store, simp_all add: new_app_def)

lemma build_store_pair: "build fresh connect dial ord cfg = (e, a) \<Longrightarrow> store_held a"
  using build_store by (metis snd_conv)

lemma closeSinks_store:
  "store_held a \<Longrightarrow> store_log (a_events (closeSinks ord a)) =
     (if a_templates a then [TemplatesOpened, TemplatesClosed] else [])"
  by (simp add: store_held_def closeSinks_def)

lemma New_app_store:
  assumes "New_app fresh connect dial ord cfg = (Some e, a)"
  shows "store_log (a_events a) \<in> {[], [TemplatesOpened, TemplatesClosed]}"
  using assms
  by (auto simp: New_app_def new_app_def closeSinks_store build_store_pair split: option.splits prod.splits)

text \<open>
  C36. A construction that fails at any point, an unreachable sink, the template store, a source, the
  pipeline, leaves nothing open: when no sink is configured twice, every connection that was opened has been
  closed, and exactly once, and a template store that was opened has been closed once, afterwards.
\<close>

theorem New_failure_releases:
  assumes "New_app fresh connect dial ord cfg = (Some e, a)" and "distinct (Sinks cfg)" and "range_order ord"
  shows "mset (closed (a_events a)) = mset (opened (a_events a)) \<and> distinct (closed (a_events a)) \<and>
         store_log (a_events a) \<in> {[], [TemplatesOpened, TemplatesClosed]} \<and> \<not> a_templates a"
proof -
  have t: "tracked a" "a_sinks a = []" "\<not> a_templates a" using New_app_tracked [OF assms] by simp_all
  then have "mset (closed (a_events a)) = mset (opened (a_events a))" "distinct (closed (a_events a))"
    by (auto simp: tracked_def handles_def dest: mset_eq_imp_distinct_iff)
  then show ?thesis using t(3) New_app_store [OF assms(1)] by blast
qed

definition demo_config :: Config where
  "demo_config =
     derive_flags (default_config\<lparr>Sources := [''netflow''], Sinks := [''postgres'', ''kafka''], PostgresDSN := ''d'',
       KafkaBrokers := [''b:1''], KafkaTopic := ''flows''\<rparr>)"

type_synonym demo_app = "((nat, nat, nat, unit) tsystem, nat) Source App"

definition demo_new :: "(nat \<Rightarrow> bool) \<Rightarrow> Config \<Rightarrow> app_error option \<times> demo_app" where
  "demo_new down cfg =
     New_app () (\<lambda>i _. if down i then Some ''refused'' else None) (\<lambda>_ _. None) rev cfg"

lemmas demo_eqs = demo_new_def New_app_def CheckNames_def CheckConfig_def demo_config_def derive_flags_def
  default_config_def Let_def config_names newSink_def sink_spec_of_def build_def and_then_def new_app_def
  closeSinks_def

text \<open>The NetFlow source has no address here: both sinks and the store are open when that shows.\<close>

theorem New_failure_releases_witness:
  "mset (closed (a_events (snd (demo_new (\<lambda>_. False) (demo_config\<lparr>KafkaTemplateTopic := ''t''\<rparr>))))) = {#0, 1#} \<and>
   store_log (a_events (snd (demo_new (\<lambda>_. False) (demo_config\<lparr>KafkaTemplateTopic := ''t''\<rparr>)))) =
     [TemplatesOpened, TemplatesClosed]"
proof -
  let ?c = "demo_config\<lparr>KafkaTemplateTopic := ''t''\<rparr>"
  let ?n = "demo_new (\<lambda>_. False) ?c"
  have "fst ?n \<noteq> None" and o: "opened (a_events (snd ?n)) = [0, 1]" "store_log (a_events (snd ?n)) \<noteq> []"
    by (simp_all add: demo_eqs open_templates_def app_newSource_def Netflow_Source.New_def)
  then obtain e where n: "?n = (Some e, snd ?n)" by (cases ?n) auto
  have r: "range_order rev" and d: "distinct (Sinks ?c)"
    by (simp_all add: range_order_def demo_config_def derive_flags_def default_config_def Let_def)
  from New_failure_releases [OF n [unfolded demo_new_def] d r] show ?thesis
    using o by (simp add: demo_new_def)
qed

text \<open>
  The proviso matters: with the same sink named twice the second connection replaces the first, which
  nothing closes afterwards, not even the shutdown of a collector that booted.
\<close>

lemma duplicate_sink_leaks:
  "let a = snd (demo_new (\<lambda>_. False) (demo_config\<lparr>Sinks := [''postgres'', ''postgres''], NetFlowAddr := '':2055''\<rparr>))
   in 0 \<in> set (opened (a_events a)) \<and> 0 \<notin> set (closed (a_events (closeSinks rev a)))"
  by (simp add: demo_eqs open_templates_def app_newSource_def Netflow_Source.New_def newSource_def open_pipe_def
      Pipeline.New_def app_options_def Second_def handles_def)

section \<open>Which configurations boot\<close>

lemma update_keys: "fst ` set (AList.update k v al) = insert k (fst ` set al)"
  by (simp add: AList.dom_update)

lemma open_sinks_reachable:
  assumes "\<forall>n \<in> set names. \<exists>spec. sink_spec_of n cfg = Some spec \<and> (\<forall>i. connect i spec = None)"
  shows "\<exists>a'. open_sinks connect cfg i names a = (None, a') \<and>
           fst ` set (a_sinks a') = fst ` set (a_sinks a) \<union> set names \<and> a_cfg a' = a_cfg a \<and>
           a_templates a' = a_templates a \<and> a_sources a' = a_sources a \<and>
           fst ` set (a_backends a') =
             fst ` set (a_backends a) \<union> {n \<in> set names. is_backend (the (sink_spec_of n cfg))}"
  using assms
proof (induction connect cfg i names a rule: open_sinks.induct)
  case (2 connect cfg i name names a)
  then obtain spec where spec: "sink_spec_of name cfg = Some spec" "connect i spec = None" by auto
  then have s: "newSink connect i name cfg = Inr \<lparr>s_handle = i, s_spec = spec\<rparr>" by (simp add: newSink_def)
  have "\<forall>n \<in> set names. \<exists>spec. sink_spec_of n cfg = Some spec \<and> (\<forall>i. connect i spec = None)" using 2(2) by simp
  from 2(1) [OF s this] show ?case using s spec(1) by (auto simp: update_keys)
qed simp

definition source_ok :: "Config \<Rightarrow> string \<Rightarrow> bool" where
  "source_ok cfg n \<longleftrightarrow> (n = SourceNetFlow \<and> NetFlowAddr cfg \<noteq> []) \<or>
      (n = SourceKafka \<and> KafkaBrokers cfg \<noteq> [] \<and> KafkaTopic cfg \<noteq> [] \<and> KafkaGroup cfg \<noteq> [])"

lemma app_newSource_ok: "(\<exists>s. app_newSource fresh a n cfg = Inr s) \<longleftrightarrow> source_ok cfg n"
  by (auto simp: app_newSource_def Netflow_Source.New_def kafka_New_def source_ok_def config_names)

lemma open_sources_result:
  "fst (open_sources fresh cfg names a) = None \<longleftrightarrow> list_all (source_ok cfg) names"
  "fst (open_sources fresh cfg names a) = Some e \<Longrightarrow> \<exists>n m. e = SourceFailed n m"
  "fst (open_sources fresh cfg names a) = None \<Longrightarrow>
     fst ` set (a_sources (snd (open_sources fresh cfg names a))) = fst ` set (a_sources a) \<union> set names"
proof (induction fresh cfg names a rule: open_sources.induct)
  case (2 fresh cfg name names a)
  {
    case 1
    show ?case using 2(1) app_newSource_ok [of fresh a name cfg] by (auto split: sum.split)
  next
    case 2
    then show ?case using "2.IH"(2) by (auto split: sum.splits)
  next
    case 3
    then show ?case using "2.IH"(3) by (auto simp: update_keys split: sum.splits)
  }
qed auto

lemma accepted_sinks:
  assumes "cfg_ok hp cfg" and "n \<in> set (Sinks cfg)"
  shows "\<exists>spec. sink_spec_of n cfg = Some spec"
proof -
  have "n = SinkPostgres \<or> n = SinkMariaDB \<or> n = SinkClickHouse \<or> n = SinkKafka"
    using cfg_ok_tags(2) [OF assms(1)] assms(2) by blast
  then show ?thesis by (auto simp: sink_spec_of_def)
qed

lemma accepted_sources:
  assumes "cfg_ok hp cfg"
  shows "list_all (source_ok cfg) (Sources cfg) \<longleftrightarrow> (SourceNetFlow \<in> set (Sources cfg) \<longrightarrow> NetFlowAddr cfg \<noteq> [])"
proof -
  note f = cfg_ok_flags(4,6) [OF assms]
  note t = cfg_ok_tags(1,3,4) [OF assms]
  have ne: "SourceNetFlow \<noteq> SourceKafka" by (simp add: config_names)
  show ?thesis
  proof
    assume "list_all (source_ok cfg) (Sources cfg)"
    then show "SourceNetFlow \<in> set (Sources cfg) \<longrightarrow> NetFlowAddr cfg \<noteq> []"
      using ne by (auto simp: list_all_iff source_ok_def)
  next
    assume n: "SourceNetFlow \<in> set (Sources cfg) \<longrightarrow> NetFlowAddr cfg \<noteq> []"
    have "source_ok cfg x" if "x \<in> set (Sources cfg)" for x
      using that t f n by (auto simp: source_ok_def)
    then show "list_all (source_ok cfg) (Sources cfg)" by (simp add: list_all_iff)
  qed
qed

lemma open_pipe_result:
  assumes "cfg_ok hp cfg" and "range_order ord"
  shows "fst (open_pipe ord cfg a) = (if a_sinks a = [] then Some (PipelineFailed NoSinks) else None)"
proof -
  note cfg_ok_tags(5-8) [OF assms(1)]
  moreover have "ord (a_sinks a) = [] \<longleftrightarrow> a_sinks a = []"
    using assms(2) unfolding range_order_def by (metis mset_zero_iff)
  ultimately show ?thesis by (simp add: open_pipe_def Pipeline.New_def app_options_def Let_def)
qed

lemma boot_result:
  fixes a :: "('t, 'n, 'i, 'in, 'body) nf_source App"
  assumes "cfg_ok hp cfg" and "CheckNames cfg = None" and "range_order ord"
    and "\<And>i spec. connect i spec = None" and "\<And>bs t. dial bs t = None"
    and "New_app fresh connect dial ord cfg = (r, a)"
  shows "r = None \<longleftrightarrow> Sinks cfg \<noteq> [] \<and> (SourceNetFlow \<notin> set (Sources cfg) \<or> NetFlowAddr cfg \<noteq> [])"
    and "r = None \<or> is_ErrConfig (the r)"
proof -
  let ?new = "new_app cfg :: ('t, 'n, 'i, 'in, 'body) nf_source App"
  have "\<forall>n \<in> set (Sinks cfg). \<exists>spec. sink_spec_of n cfg = Some spec \<and> (\<forall>i. connect i spec = None)"
    using accepted_sinks [OF assms(1)] assms(4) by simp
  from open_sinks_reachable [OF this, of 0 ?new] obtain a1 where
    o: "open_sinks connect cfg 0 (Sinks cfg) ?new = (None, a1)" "fst ` set (a_sinks a1) = set (Sinks cfg)"
    by (auto simp: new_app_def)
  define a2 where "a2 = snd (open_templates dial cfg a1)"
  have t: "open_templates dial cfg a1 = (None, a2)" "a_sinks a2 = a_sinks a1"
    using open_templates_frame(3) [of dial cfg a1] by (simp_all add: a2_def open_templates_def assms(5))
  obtain e a3 where s: "open_sources fresh cfg (Sources cfg) a2 = (e, a3)" by fastforce
  have s3: "a_sinks a3 = a_sinks a1" using open_sources_frame [OF s] t(2) by simp
  have empty: "a_sinks a1 = [] \<longleftrightarrow> Sinks cfg = []" using o(2) by auto
  have e: "e = None \<longleftrightarrow> (SourceNetFlow \<in> set (Sources cfg) \<longrightarrow> NetFlowAddr cfg \<noteq> [])"
    "\<And>x. e = Some x \<Longrightarrow> is_ErrConfig x"
    using open_sources_result(1,2) [of fresh cfg "Sources cfg" a2] accepted_sources [OF assms(1)] s by auto
  have b: "r = fst (and_then (e, a3) (open_pipe ord cfg))"
    using assms(2,6) by (auto simp: New_app_def build_def and_then_def o(1) t(1) s split: option.splits prod.splits)
  note p = open_pipe_result [OF assms(1,3), of a3, unfolded s3 empty]
  show "r = None \<longleftrightarrow> Sinks cfg \<noteq> [] \<and> (SourceNetFlow \<notin> set (Sources cfg) \<or> NetFlowAddr cfg \<noteq> [])"
    using b e(1) p by (cases e) (auto simp: and_then_def)
  show "r = None \<or> is_ErrConfig (the r)"
    using b e(2) p by (cases e) (auto simp: and_then_def)
qed

text \<open>
  An accepted configuration whose sinks and template topic answer boots exactly when it names a sink and,
  for the NetFlow source, an address to listen on; otherwise the collector ends with the
  configuration error, which is the one thing \<open>-validate-config\<close> does not foresee.
\<close>

theorem boot_iff:
  assumes "cfg_ok hp cfg" and "CheckNames cfg = None" and "range_order ord"
    and "\<And>i spec. connect i spec = None" and "\<And>bs t. dial bs t = None"
    and "New_app fresh connect dial ord cfg = (r, a)"
  shows "(r = None \<longleftrightarrow> Sinks cfg \<noteq> [] \<and> (SourceNetFlow \<notin> set (Sources cfg) \<or> NetFlowAddr cfg \<noteq> [])) \<and>
         (r = None \<or> is_ErrConfig (the r))"
  using boot_result [OF assms] by blast

theorem boot_iff_witness:
  "fst (demo_new (\<lambda>_. False) demo_config) \<noteq> None \<and> is_ErrConfig (the (fst (demo_new (\<lambda>_. False) demo_config)))"
proof -
  have c: "cfg_ok (\<lambda>_. True) demo_config"
    unfolding demo_config_def cfg_ok_def derive_flags_idem
    by (simp add: tags_hold_def derive_flags_def default_config_def Let_def config_names Second_def)
  have d: "CheckNames demo_config = None" "SourceNetFlow \<in> set (Sources demo_config)" "NetFlowAddr demo_config = []"
    by (simp_all add: CheckNames_def CheckConfig_def demo_config_def derive_flags_def default_config_def Let_def
        config_names)
  have r: "range_order rev" by (simp add: range_order_def)
  have n: "New_app () (\<lambda>_ _. None) (\<lambda>_ _. None) rev demo_config =
      (fst (demo_new (\<lambda>_. False) demo_config), snd (demo_new (\<lambda>_. False) demo_config))"
    by (simp add: demo_new_def)
  from boot_iff [OF c d(1) r _ _ n] d(2,3) show ?thesis by auto
qed

section \<open>Who answers queries\<close>

definition backends_ok :: "Config \<Rightarrow> (string \<times> app_sink) list \<Rightarrow> bool" where
  "backends_ok cfg bs \<longleftrightarrow> (\<forall>n s. map_of bs n = Some s \<longrightarrow> sink_spec_of n cfg = Some (s_spec s))"

lemma open_sinks_backends:
  assumes "open_sinks connect cfg i names a = (None, a')" and "backends_ok cfg (a_backends a)"
  shows "dom (map_of (a_backends a')) =
           dom (map_of (a_backends a)) \<union> {n \<in> set names. is_backend (the (sink_spec_of n cfg))} \<and>
         a_cfg a' = a_cfg a \<and> backends_ok cfg (a_backends a')"
  using assms
proof (induction connect cfg i names a rule: open_sinks.induct)
  case (2 connect cfg i name names a)
  obtain s where s: "newSink connect i name cfg = Inr s" using "2.prems" by (auto split: sum.splits)
  then have spec: "sink_spec_of name cfg = Some (s_spec s)" by (auto simp: newSink_def split: option.splits)
  let ?a = "a\<lparr>a_events := a_events a @ [Opened (s_handle s)], a_sinks := AList.update name s (a_sinks a),
     a_backends := (if is_backend (s_spec s) then AList.update name s (a_backends a) else a_backends a)\<rparr>"
  have o: "open_sinks connect cfg (Suc i) names ?a = (None, a')" using "2.prems"(1) s by simp
  have b: "backends_ok cfg (a_backends ?a)"
    using "2.prems"(2) spec by (auto simp: backends_ok_def update_conv')
  note ih = "2.IH" [OF s o b]
  have "dom (map_of (a_backends ?a)) \<union> {n \<in> set names. is_backend (the (sink_spec_of n cfg))} =
      dom (map_of (a_backends a)) \<union> {n \<in> set (name # names). is_backend (the (sink_spec_of n cfg))}"
    using spec by (auto simp: update_conv' split: if_splits)
  then show ?case using ih by simp
qed auto

lemma New_app_backends:
  fixes a :: "('t, 'n, 'i, 'in, 'body) nf_source App"
  assumes "New_app fresh connect dial ord cfg = (None, a)"
  shows "dom (map_of (a_backends a)) = {n \<in> set (Sinks cfg). n \<noteq> SinkKafka}" and "a_cfg a = cfg"
    and "backends_ok cfg (a_backends a)"
proof -
  let ?new = "new_app cfg :: ('t, 'n, 'i, 'in, 'body) nf_source App"
  obtain a1 a2 a3 where st: "open_sinks connect cfg 0 (Sinks cfg) ?new = (None, a1)"
    "open_templates dial cfg a1 = (None, a2)" "open_sources fresh cfg (Sources cfg) a2 = (None, a3)"
    "open_pipe ord cfg a3 = (None, a)" and check: "CheckNames cfg = None"
    using assms by (auto simp: New_app_def build_def and_then_def split: option.splits prod.splits)
  have same: "a_backends a = a_backends a1" "a_cfg a = a_cfg a1"
    using open_templates_frame(4,5) [of dial cfg a1] open_sources_frame [OF st(3)] open_pipe_frame(3,4) [of ord cfg a3] st
    by simp_all
  have b: "backends_ok cfg (a_backends ?new)" by (simp add: backends_ok_def new_app_def)
  note o = open_sinks_backends [OF st(1) b]
  have "n \<in> {SinkPostgres, SinkMariaDB, SinkClickHouse, SinkKafka}" if "n \<in> set (Sinks cfg)" for n
    using check that by (auto simp: CheckNames_def find_None_iff split: option.splits)
  then have "is_backend (the (sink_spec_of n cfg)) \<longleftrightarrow> n \<noteq> SinkKafka" if "n \<in> set (Sinks cfg)" for n
    using that by (fastforce simp: sink_spec_of_def config_names)
  then show "dom (map_of (a_backends a)) = {n \<in> set (Sinks cfg). n \<noteq> SinkKafka}"
    using o same by (auto simp: new_app_def)
  show "a_cfg a = cfg" "backends_ok cfg (a_backends a)" using o same by (simp_all add: new_app_def)
qed

lemma find_cong_set: "(\<And>x. x \<in> set xs \<Longrightarrow> P x = Q x) \<Longrightarrow> List.find P xs = List.find Q xs"
  by (induction xs) auto

lemma querier_spec:
  assumes "New_app fresh connect dial ord cfg = (None, a)"
  shows "map_option s_spec (querier_of a) =
           (case List.find (\<lambda>n. n \<noteq> SinkKafka) (Sinks cfg) of None \<Rightarrow> None | Some n \<Rightarrow> sink_spec_of n cfg)"
proof -
  note b = New_app_backends [OF assms]
  have f: "List.find (\<lambda>n. map_of (a_backends a) n \<noteq> None) (Sinks cfg) = List.find (\<lambda>n. n \<noteq> SinkKafka) (Sinks cfg)"
    using b(1) by (intro find_cong_set) auto
  show ?thesis
  proof (cases "List.find (\<lambda>n. n \<noteq> SinkKafka) (Sinks cfg)")
    case (Some n)
    then have "n \<in> set (Sinks cfg)" "n \<noteq> SinkKafka" by (auto simp: find_Some_iff)
    then obtain s where "map_of (a_backends a) n = Some s" using b(1) by blast
    then show ?thesis using Some f b(2,3) by (simp add: querier_of_def backends_ok_def)
  qed (use f b(2) in \<open>simp add: querier_of_def\<close>)
qed

text \<open>
  Queries go to the first configured sink that is storage, opened with that sink's own settings, whatever order the
  program's maps are walked in; a collector without a database, an edge tier, has no
  querier.
\<close>

theorem querier_is_first_storage:
  assumes "New_app fresh connect dial ord cfg = (None, a)"
  shows "map_option s_spec (querier_of a) =
           (case List.find (\<lambda>n. n \<noteq> SinkKafka) (Sinks cfg) of None \<Rightarrow> None | Some n \<Rightarrow> sink_spec_of n cfg)"
  by (rule querier_spec [OF assms])

theorem querier_is_first_storage_witness:
  "map_option s_spec (querier_of (snd (demo_new (\<lambda>_. False)
      (demo_config\<lparr>Sinks := [''kafka'', ''postgres''], NetFlowAddr := '':2055''\<rparr>)))) = Some (PostgresSink ''d'' 30)"
proof -
  let ?c = "demo_config\<lparr>Sinks := [''kafka'', ''postgres''], NetFlowAddr := '':2055''\<rparr>"
  have "fst (demo_new (\<lambda>_. False) ?c) = None"
    by (simp add: demo_eqs open_templates_def app_newSource_def Netflow_Source.New_def newSource_def open_pipe_def
      Pipeline.New_def app_options_def Second_def)
  then have "New_app () (\<lambda>_ _. None) (\<lambda>_ _. None) rev ?c = (None, snd (demo_new (\<lambda>_. False) ?c))"
    by (simp add: demo_new_def prod_eq_iff)
  from querier_is_first_storage [OF this] show ?thesis
    by (simp add: config_names sink_spec_of_def demo_config_def derive_flags_def default_config_def Let_def)
qed

text \<open>
  An edge tier, whose sinks are only transports, never answers a query for flows with data: the handler the app serves
  refuses the request as invalid (422, 400) or as unavailable (503).
\<close>

theorem edge_tier_serves_no_flows:
  assumes "New_app fresh connect dial ord cfg = (None, a)" and "set (Sinks cfg) \<subseteq> {SinkKafka}"
  shows "status (flows validate (sv_querier (api_handler query caps a)) rid r) \<in> {400, 422, 503}"
proof -
  have "List.find (\<lambda>n. n \<noteq> SinkKafka) (Sinks cfg) = None" using assms(2) by (auto simp: find_None_iff)
  then have "querier_of a = None" using querier_spec [OF assms(1)] by simp
  then show ?thesis
    by (auto simp: api_handler_def flows_def writeError_def writeJSON_def Let_def split: prod.splits)
qed

theorem edge_tier_serves_no_flows_witness:
  "status (flows reference_validate (sv_querier (api_handler (\<lambda>_ _. Inl []) (\<lambda>_. \<lparr>cap_Ping = Some None, cap_Query = None, cap_List = None\<rparr>)
      (snd (demo_new (\<lambda>_. False) (demo_config\<lparr>Sinks := [''kafka''], NetFlowAddr := '':2055''\<rparr>))))) ''id'' demo_flows_request)
     \<in> {400, 422, 503}"
proof -
  let ?c = "demo_config\<lparr>Sinks := [''kafka''], NetFlowAddr := '':2055''\<rparr>"
  have "fst (demo_new (\<lambda>_. False) ?c) = None"
    by (simp add: demo_eqs open_templates_def app_newSource_def Netflow_Source.New_def newSource_def open_pipe_def
      Pipeline.New_def app_options_def Second_def)
  then have n: "New_app () (\<lambda>_ _. None) (\<lambda>_ _. None) rev ?c = (None, snd (demo_new (\<lambda>_. False) ?c))"
    by (simp add: demo_new_def prod_eq_iff)
  have "set (Sinks ?c) \<subseteq> {SinkKafka}" by (simp add: config_names)
  from edge_tier_serves_no_flows [OF n this] show ?thesis .
qed

end
