(* ===== verification/App_Run.thy ===== *)
theory App_Run
  imports App
begin

text \<open>
  \<open>App.Run\<close> of \<open>internal/app/run.go\<close> as a step relation: the goroutine of \<open>Run\<close>, which migrates, serves,
  launches the sources, waits and shuts down in the order of the code, next to what happens on its own:
  the signal, a source that binds, fails or ends, the server and the pipeline that
  finish. \<open>phase\<close> is where the goroutine of \<open>Run\<close> stands. The pipeline counts here only as
  running, told to stop or drained: its inside is theory Pipeline_Steps.
\<close>

datatype src_state = Idle | Running bool | Finished bool

text \<open>The flag tells whether the source's \<open>Ready\<close> channel was closed, that is, its socket bound.\<close>

fun src_bound :: "src_state \<Rightarrow> bool" where
  "src_bound Idle = False"
| "src_bound (Running b) = b"
| "src_bound (Finished b) = b"

datatype pipe_state = PipeNotStarted | PipeRunning | PipeStopping | PipeDone

datatype run_phase =
    Migrating "string list"
  | ServeHTTP
  | Launch "string list"
  | AwaitBound string "string list"
  | Wait
  | AwaitSources
  | ShutdownHTTP
  | AwaitHTTP
  | Drain
  | Abort app_error
  | CloseSinks "app_error option"
  | Returned "app_error option"

record run_state =
  phase :: run_phase
  cancelled :: bool
  migrated :: "string list"
  pipe_st :: pipe_state
  http_st :: http_state
  srcs :: "string \<Rightarrow> src_state"
  src_errs :: "(string \<times> string) list"
  ready_closed :: bool
  src_stop :: bool
  run_err :: "app_error option"
  closes :: nat
  drain_timeout :: bool

definition source_names :: "'s App \<Rightarrow> string list" where
  "source_names a = map fst (a_sources a)"

definition backend_names :: "'s App \<Rightarrow> string list" where
  "backend_names a = map fst (a_backends a)"

text \<open>The type assertion of \<open>awaitBound\<close>: only the listener has \<open>Ready\<close> and \<open>LocalAddr\<close>.\<close>

definition has_ready :: "'s App \<Rightarrow> string \<Rightarrow> bool" where
  "has_ready a n \<longleftrightarrow> (case map_of (a_sources a) n of Some (NetflowSource _) \<Rightarrow> True | _ \<Rightarrow> False)"

definition run_init :: "string list \<Rightarrow> run_state" where
  "run_init bs =
     \<lparr>phase = Migrating bs, cancelled = False, migrated = [], pipe_st = PipeNotStarted, http_st = HttpOff,
      srcs = (\<lambda>_. Idle), src_errs = [], ready_closed = False, src_stop = False, run_err = None, closes = 0,
      drain_timeout = False\<rparr>"

definition stop_pipe :: "run_state \<Rightarrow> run_state" where
  "stop_pipe s = s\<lparr>pipe_st := PipeStopping\<rparr>"

text \<open>What the goroutine of \<open>Run\<close> does next.\<close>

inductive main_step :: "'s App \<Rightarrow> run_state \<Rightarrow> run_state \<Rightarrow> bool" for a where
  migrate_ok: "phase s = Migrating (b # bs) \<Longrightarrow>
    main_step a s (s\<lparr>phase := Migrating bs, migrated := b # migrated s\<rparr>)"
| migrate_failed: "phase s = Migrating (b # bs) \<Longrightarrow>
    main_step a s (s\<lparr>phase := CloseSinks (Some (MigrateFailed b e))\<rparr>)"
| start_pipe: "phase s = Migrating [] \<Longrightarrow> main_step a s (s\<lparr>phase := ServeHTTP, pipe_st := PipeRunning\<rparr>)"
| served: "phase s = ServeHTTP \<Longrightarrow> serveHTTP listen a = (None, h) \<Longrightarrow> mset ns = mset (source_names a) \<Longrightarrow>
    main_step a s (s\<lparr>phase := Launch ns, http_st := h\<rparr>)"
| listen_failed: "phase s = ServeHTTP \<Longrightarrow> serveHTTP listen a = (Some e, h) \<Longrightarrow>
    main_step a s ((stop_pipe s)\<lparr>phase := Abort e\<rparr>)"
| abort: "phase s = Abort e \<Longrightarrow> pipe_st s = PipeDone \<Longrightarrow> main_step a s (s\<lparr>phase := CloseSinks (Some e)\<rparr>)"
| launch: "phase s = Launch (n # ns) \<Longrightarrow>
    main_step a s (s\<lparr>phase := AwaitBound n ns, srcs := (srcs s)(n := Running False)\<rparr>)"
| no_listener: "phase s = AwaitBound n ns \<Longrightarrow> \<not> has_ready a n \<Longrightarrow> main_step a s (s\<lparr>phase := Launch ns\<rparr>)"
| bound: "phase s = AwaitBound n ns \<Longrightarrow> has_ready a n \<Longrightarrow> src_bound (srcs s n) \<Longrightarrow>
    main_step a s (s\<lparr>phase := Launch ns\<rparr>)"
| await_cancelled: "phase s = AwaitBound n ns \<Longrightarrow> has_ready a n \<Longrightarrow> cancelled s \<Longrightarrow>
    main_step a s (s\<lparr>phase := Launch ns\<rparr>)"
| all_launched: "phase s = Launch [] \<Longrightarrow> main_step a s (s\<lparr>phase := Wait, ready_closed := True\<rparr>)"
| wait_cancelled: "phase s = Wait \<Longrightarrow> cancelled s \<Longrightarrow> main_step a s (s\<lparr>phase := AwaitSources, src_stop := True\<rparr>)"
| wait_error: "phase s = Wait \<Longrightarrow> src_errs s = (n, e) # es \<Longrightarrow>
    main_step a s (s\<lparr>phase := AwaitSources, src_stop := True, src_errs := es, run_err := Some (SourceDied n e)\<rparr>)"
| sources_ended_no_http: "phase s = AwaitSources \<Longrightarrow> list_all (\<lambda>n. \<exists>b. srcs s n = Finished b) (source_names a) \<Longrightarrow>
    http_st s = HttpOff \<Longrightarrow> main_step a s ((stop_pipe s)\<lparr>phase := Drain\<rparr>)"
| sources_ended: "phase s = AwaitSources \<Longrightarrow> list_all (\<lambda>n. \<exists>b. srcs s n = Finished b) (source_names a) \<Longrightarrow>
    http_st s \<noteq> HttpOff \<Longrightarrow> main_step a s (s\<lparr>phase := ShutdownHTTP\<rparr>)"
| shutdown_http: "phase s = ShutdownHTTP \<Longrightarrow>
    main_step a s (s\<lparr>phase := AwaitHTTP, http_st := (if http_st s = HttpDone then HttpDone else HttpClosing)\<rparr>)"
| http_down: "phase s = AwaitHTTP \<Longrightarrow> http_st s = HttpDone \<Longrightarrow> main_step a s ((stop_pipe s)\<lparr>phase := Drain\<rparr>)"
| drained: "phase s = Drain \<Longrightarrow> pipe_st s = PipeDone \<Longrightarrow> main_step a s (s\<lparr>phase := CloseSinks (run_err s)\<rparr>)"
| drain_timed_out: "phase s = Drain \<Longrightarrow>
    main_step a s (s\<lparr>phase := CloseSinks (run_err s), drain_timeout := True\<rparr>)"
| close_sinks: "phase s = CloseSinks r \<Longrightarrow> main_step a s (s\<lparr>phase := Returned r, closes := Suc (closes s)\<rparr>)"

text \<open>What happens next to it. A source ends without an error only once its context is cancelled.\<close>

inductive env_step :: "'s App \<Rightarrow> run_state \<Rightarrow> run_state \<Rightarrow> bool" for a where
  signal: "\<not> cancelled s \<Longrightarrow> env_step a s (s\<lparr>cancelled := True\<rparr>)"
| source_binds: "srcs s n = Running False \<Longrightarrow> has_ready a n \<Longrightarrow> env_step a s (s\<lparr>srcs := (srcs s)(n := Running True)\<rparr>)"
| source_fails: "srcs s n = Running b \<Longrightarrow>
    env_step a s (s\<lparr>srcs := (srcs s)(n := Finished b), src_errs := src_errs s @ [(n, e)]\<rparr>)"
| source_ends: "srcs s n = Running b \<Longrightarrow> cancelled s \<or> src_stop s \<Longrightarrow>
    env_step a s (s\<lparr>srcs := (srcs s)(n := Finished b)\<rparr>)"
| serve_returns: "http_st s = HttpServing \<or> http_st s = HttpClosing \<Longrightarrow> env_step a s (s\<lparr>http_st := HttpDone\<rparr>)"
| pipe_drains: "pipe_st s = PipeStopping \<Longrightarrow> env_step a s (s\<lparr>pipe_st := PipeDone\<rparr>)"

definition run_step :: "'s App \<Rightarrow> run_state \<Rightarrow> run_state \<Rightarrow> bool" where
  "run_step a s t \<longleftrightarrow> main_step a s t \<or> env_step a s t"

inductive run_reach :: "'s App \<Rightarrow> run_state \<Rightarrow> bool" for a where
  start: "mset bs = mset (backend_names a) \<Longrightarrow> run_reach a (run_init bs)"
| more: "run_reach a s \<Longrightarrow> run_step a s t \<Longrightarrow> run_reach a t"

inductive_cases main_stepE: "main_step a s t"
inductive_cases env_stepE: "env_step a s t"

section \<open>What a phase implies\<close>

definition before_launch :: "run_phase \<Rightarrow> bool" where
  "before_launch p \<longleftrightarrow> (case p of Migrating _ \<Rightarrow> True | ServeHTTP \<Rightarrow> True | _ \<Rightarrow> False)"

text \<open>
  The invariant, phase by phase: the backends still to migrate and those done, the sources still to
  launch, who is running, whether the server is up, how far the pipeline is, and how often
  the sinks were closed.
\<close>

definition quiet :: "run_state \<Rightarrow> bool" where
  "quiet s \<longleftrightarrow> (\<forall>n. srcs s n = Idle) \<and> http_st s = HttpOff \<and> \<not> ready_closed s"

definition launching :: "'s App \<Rightarrow> string list \<Rightarrow> run_state \<Rightarrow> bool" where
  "launching a ns s \<longleftrightarrow>
     set (migrated s) = set (backend_names a) \<and> set ns \<subseteq> set (source_names a) \<and> distinct ns \<and>
     (\<forall>n. srcs s n = Idle \<longleftrightarrow> n \<in> set ns \<or> n \<notin> set (source_names a)) \<and> pipe_st s = PipeRunning"

definition all_bound :: "'s App \<Rightarrow> string list \<Rightarrow> run_state \<Rightarrow> bool" where
  "all_bound a ns s \<longleftrightarrow>
     (\<forall>n \<in> set (source_names a) - set ns. has_ready a n \<longrightarrow> src_bound (srcs s n) \<or> cancelled s)"

definition stopped :: "run_state \<Rightarrow> bool" where
  "stopped s \<longleftrightarrow> (\<forall>n. (\<exists>b. srcs s n = Finished b) \<or> srcs s n = Idle)"

definition at_rest :: "run_state \<Rightarrow> bool" where
  "at_rest s \<longleftrightarrow> (http_st s = HttpOff \<or> http_st s = HttpDone) \<and>
     (pipe_st s = PipeNotStarted \<or> pipe_st s = PipeDone \<or> drain_timeout s)"

fun source_death :: "app_error option \<Rightarrow> bool" where
  "source_death (Some (SourceDied _ _)) = True"
| "source_death None = True"
| "source_death _ = False"

definition run_inv :: "'s App \<Rightarrow> run_state \<Rightarrow> bool" where
  "run_inv a s \<longleftrightarrow>
     (case phase s of
        Migrating bs \<Rightarrow> quiet s \<and> set bs \<union> set (migrated s) = set (backend_names a) \<and> pipe_st s = PipeNotStarted
      | ServeHTTP \<Rightarrow> quiet s \<and> set (migrated s) = set (backend_names a) \<and> pipe_st s = PipeRunning
      | Launch ns \<Rightarrow> launching a ns s \<and> all_bound a ns s \<and> \<not> ready_closed s
      | AwaitBound n ns \<Rightarrow> launching a ns s \<and> n \<in> set (source_names a) \<and> n \<notin> set ns \<and> all_bound a (n # ns) s \<and>
          \<not> ready_closed s
      | Wait \<Rightarrow> launching a [] s \<and> all_bound a [] s
      | AwaitSources \<Rightarrow> launching a [] s \<and> all_bound a [] s \<and> src_stop s
      | ShutdownHTTP \<Rightarrow> launching a [] s \<and> all_bound a [] s \<and> stopped s
      | AwaitHTTP \<Rightarrow> launching a [] s \<and> all_bound a [] s \<and> stopped s \<and> (http_st s = HttpClosing \<or> http_st s = HttpDone)
      | Drain \<Rightarrow> set (migrated s) = set (backend_names a) \<and> all_bound a [] s \<and> stopped s \<and>
          (http_st s = HttpOff \<or> http_st s = HttpDone) \<and> (pipe_st s = PipeStopping \<or> pipe_st s = PipeDone)
      | Abort e \<Rightarrow> quiet s \<and> set (migrated s) = set (backend_names a) \<and> (pipe_st s = PipeStopping \<or> pipe_st s = PipeDone)
      | CloseSinks r \<Rightarrow> stopped s \<and> at_rest s \<and>
          (quiet s \<or> set (migrated s) = set (backend_names a) \<and> all_bound a [] s \<and> source_death r)
      | Returned r \<Rightarrow> stopped s \<and> at_rest s \<and>
          (quiet s \<or> set (migrated s) = set (backend_names a) \<and> all_bound a [] s \<and> source_death r)) \<and>
     closes s = (case phase s of Returned _ \<Rightarrow> 1 | _ \<Rightarrow> 0) \<and> source_death (run_err s)"

lemmas run_inv_defs = run_inv_def quiet_def launching_def all_bound_def stopped_def at_rest_def stop_pipe_def

lemma run_inv_init: "mset bs = mset (backend_names a) \<Longrightarrow> run_inv a (run_init bs)"
  by (auto simp: run_inv_defs run_init_def dest: mset_eq_setD)

lemma run_inv_main:
  assumes "main_step a s t" and "run_inv a s" and d: "distinct (source_names a)"
  shows "run_inv a t"
  using assms(1,2)
proof (cases rule: main_step.cases)
  case (served listen h ns)
  then have "set ns = set (source_names a)" "distinct ns"
    using d mset_eq_setD mset_eq_imp_distinct_iff by blast+
  then show ?thesis using served assms(2) by (auto simp: run_inv_defs)
next
  case (sources_ended_no_http)
  then show ?thesis using assms(2) by (auto simp: run_inv_defs list_all_iff)
next
  case (sources_ended)
  then show ?thesis using assms(2) by (auto simp: run_inv_defs list_all_iff)
qed (auto simp: run_inv_defs)

lemma running_source:
  assumes "srcs s n = Running b"
  shows "\<not> quiet s" and "\<not> stopped s"
    and "x \<noteq> Idle \<Longrightarrow> launching a ns (s\<lparr>srcs := (srcs s)(n := x)\<rparr>) \<longleftrightarrow> launching a ns s"
    and "(b \<Longrightarrow> src_bound x) \<Longrightarrow> all_bound a ns s \<Longrightarrow> all_bound a ns (s\<lparr>srcs := (srcs s)(n := x)\<rparr>)"
proof -
  show "\<not> quiet s" using assms unfolding quiet_def by (metis src_state.distinct(1))
  show "\<not> stopped s" using assms unfolding stopped_def by (metis src_state.distinct(1,5))
  show "x \<noteq> Idle \<Longrightarrow> launching a ns (s\<lparr>srcs := (srcs s)(n := x)\<rparr>) \<longleftrightarrow> launching a ns s"
  proof -
    assume "x \<noteq> Idle"
    then have "((srcs s)(n := x)) m = Idle \<longleftrightarrow> srcs s m = Idle" for m using assms by simp
    then show ?thesis by (simp add: launching_def)
  qed
  show "(b \<Longrightarrow> src_bound x) \<Longrightarrow> all_bound a ns s \<Longrightarrow> all_bound a ns (s\<lparr>srcs := (srcs s)(n := x)\<rparr>)"
    using assms unfolding all_bound_def by fastforce
qed

lemma run_inv_source:
  assumes "srcs s n = Running b" and "x \<noteq> Idle" and "b \<Longrightarrow> src_bound x" and "run_inv a s"
  shows "run_inv a (s\<lparr>srcs := (srcs s)(n := x)\<rparr>)"
  using assms(2-4) running_source(1,2) [OF assms(1)]
  by (cases "phase s") (auto simp: run_inv_def running_source(3) [OF assms(1)] intro: running_source(4) [OF assms(1)])

lemma run_inv_errs: "run_inv a s \<Longrightarrow> run_inv a (s\<lparr>src_errs := es\<rparr>)"
  by (cases "phase s") (auto simp: run_inv_defs)

lemma run_inv_env:
  assumes "env_step a s t" and "run_inv a s"
  shows "run_inv a t"
  using assms(1)
proof (cases rule: env_step.cases)
  case (source_fails n b e)
  then show ?thesis
    using run_inv_errs [OF run_inv_source [OF source_fails(2) _ _ assms(2), of "Finished b"], of "src_errs s @ [(n, e)]"]
    by simp
next
  case signal
  then show ?thesis using assms(2) by (cases "phase s") (auto simp: run_inv_defs)
next
  case serve_returns
  then show ?thesis using assms(2) by (cases "phase s") (auto simp: run_inv_defs)
next
  case pipe_drains
  then show ?thesis using assms(2) by (cases "phase s") (auto simp: run_inv_defs)
qed (auto intro!: run_inv_source [OF _ _ _ assms(2)])

lemma run_inv_reach:
  "run_reach a s \<Longrightarrow> distinct (source_names a) \<Longrightarrow> run_inv a s"
  by (induction rule: run_reach.induct) (auto simp: run_step_def intro: run_inv_init run_inv_main run_inv_env)

section \<open>Boot and shutdown\<close>

text \<open>
  C37. Every storage backend is migrated before the collector listens anywhere: whenever the server is
  or was up or any source was started, the migrations of all of them have succeeded; and the channel
  \<open>Ready\<close> is closed only once every listener is bound, unless the run was
  cancelled.
\<close>

theorem migrate_before_listen:
  assumes "run_reach a s" and "distinct (source_names a)"
  shows "(quiet s \<or> set (migrated s) = set (backend_names a)) \<and>
         (ready_closed s \<longrightarrow> cancelled s \<or> list_all (\<lambda>n. has_ready a n \<longrightarrow> src_bound (srcs s n)) (source_names a))"
proof -
  have "run_inv a s" using run_inv_reach assms by blast
  then show ?thesis
    by (cases "phase s") (auto simp: run_inv_def launching_def all_bound_def quiet_def list_all_iff)
qed

text \<open>
  C9. The shutdown order: when the sinks are closed no source is running, the server is down, and the pipeline
  has drained or its ten seconds have passed; and they are closed exactly once however the run ended.
\<close>

theorem shutdown_order:
  assumes "run_reach a s" and "distinct (source_names a)"
  shows "closes s = (case phase s of Returned _ \<Rightarrow> 1 | _ \<Rightarrow> 0) \<and>
         (closes s = 0 \<or> stopped s \<and> http_st s \<in> {HttpOff, HttpDone} \<and>
            (pipe_st s \<in> {PipeNotStarted, PipeDone} \<or> drain_timeout s))"
proof -
  have "run_inv a s" using run_inv_reach assms by blast
  then show ?thesis by (cases "phase s") (auto simp: run_inv_def at_rest_def)
qed

section \<open>A cancelled run returns\<close>

fun src_work :: "src_state \<Rightarrow> nat" where
  "src_work Idle = 3"
| "src_work (Running b) = (if b then 1 else 2)"
| "src_work (Finished _) = 0"

fun http_work :: "http_state \<Rightarrow> nat" where
  "http_work HttpOff = 3"
| "http_work HttpServing = 2"
| "http_work HttpClosing = 1"
| "http_work HttpDone = 0"

fun pipe_work :: "pipe_state \<Rightarrow> nat" where
  "pipe_work PipeNotStarted = 3"
| "pipe_work PipeRunning = 2"
| "pipe_work PipeStopping = 1"
| "pipe_work PipeDone = 0"

fun phase_work :: "nat \<Rightarrow> run_phase \<Rightarrow> nat" where
  "phase_work n (Migrating bs) = 2 * n + 10 + length bs"
| "phase_work n ServeHTTP = 2 * n + 9"
| "phase_work n (Launch ns) = 2 * length ns + 8"
| "phase_work n (AwaitBound m ns) = 2 * length ns + 9"
| "phase_work n Wait = 7"
| "phase_work n AwaitSources = 6"
| "phase_work n ShutdownHTTP = 5"
| "phase_work n AwaitHTTP = 4"
| "phase_work n Drain = 3"
| "phase_work n (Abort e) = 3"
| "phase_work n (CloseSinks r) = 2"
| "phase_work n (Returned r) = 1"

definition variant :: "'s App \<Rightarrow> run_state \<Rightarrow> nat" where
  "variant a s = phase_work (length (source_names a)) (phase s) +
     (\<Sum>n \<in> set (source_names a). src_work (srcs s n)) + http_work (http_st s) + pipe_work (pipe_st s)"

lemma src_work_update:
  assumes "n \<in> set ns" and "src_work x < src_work (f n)"
  shows "(\<Sum>m \<in> set ns. src_work ((f(n := x)) m)) < (\<Sum>m \<in> set ns. src_work (f m))"
  using assms by (intro sum_strict_mono_ex1) auto

lemma main_step_variant:
  assumes "main_step a s t" and "run_inv a s"
  shows "variant a t < variant a s"
  using assms
proof (cases rule: main_step.cases)
  case (launch n ns)
  then have "n \<in> set (source_names a)" "srcs s n = Idle" using assms(2) by (auto simp: run_inv_def launching_def)
  then have "(\<Sum>m \<in> set (source_names a). src_work (((srcs s)(n := Running False)) m)) <
      (\<Sum>m \<in> set (source_names a). src_work (srcs s m))" by (intro src_work_update) auto
  then show ?thesis using launch by (simp add: variant_def)
next
  case (served listen h ns)
  then have "length ns = length (source_names a)" by (metis mset_eq_length)
  moreover have "http_work h \<le> http_work HttpOff" by (cases h) simp_all
  ultimately show ?thesis using served assms(2) by (simp add: variant_def run_inv_def quiet_def)
next
  case shutdown_http
  then show ?thesis by (cases "http_st s") (simp_all add: variant_def)
qed (auto simp: variant_def run_inv_defs)

lemma run_inv_running:
  assumes "run_inv a s" and r: "srcs s n = Running b"
  shows "n \<in> set (source_names a)"
proof -
  have "n \<in> set (source_names a)" if "launching a ns s" for ns
    using that r unfolding launching_def by (metis src_state.distinct(1))
  then show ?thesis
    using assms(1) running_source(1,2) [OF r] by (cases "phase s") (auto simp: run_inv_def)
qed

lemma env_step_variant:
  assumes "env_step a s t" and "run_inv a s" and "cancelled s"
  shows "variant a t < variant a s"
  using assms(1)
proof (cases rule: env_step.cases)
  case (source_binds n)
  then show ?thesis using src_work_update [OF run_inv_running [OF assms(2) source_binds(2)], of "Running True" "srcs s"]
    by (simp add: variant_def)
next
  case (source_fails n b e)
  then show ?thesis using src_work_update [OF run_inv_running [OF assms(2) source_fails(2)], of "Finished b" "srcs s"]
    by (simp add: variant_def)
next
  case (source_ends n b)
  then show ?thesis using src_work_update [OF run_inv_running [OF assms(2) source_ends(2)], of "Finished b" "srcs s"]
    by (simp add: variant_def)
qed (use assms(3) in \<open>auto simp: variant_def\<close>)

text \<open>No state of a cancelled run is stuck before \<open>Run\<close> has returned.\<close>

lemma unfinished_source:
  assumes "\<not> list_all (\<lambda>n. \<exists>b. srcs s n = Finished b) (source_names a)" and "launching a [] s"
  obtains n b where "srcs s n = Running b"
proof -
  obtain n where n: "n \<in> set (source_names a)" "\<not> (\<exists>b. srcs s n = Finished b)"
    using assms(1) by (auto simp: list_all_iff)
  then have "srcs s n \<noteq> Idle" using assms(2) by (simp add: launching_def)
  with n(2) that show thesis by (cases "srcs s n") auto
qed

lemma cancelled_progress:
  assumes "run_inv a s" and "cancelled s" and "\<And>r. phase s \<noteq> Returned r"
  shows "\<exists>t. run_step a s t"
proof (cases "phase s")
  case (Migrating bs)
  then show ?thesis unfolding run_step_def by (cases bs) (blast intro: main_step.intros)+
next
  case ServeHTTP
  moreover obtain r h where "serveHTTP None a = (r, h)" by fastforce
  ultimately show ?thesis unfolding run_step_def
    by (cases r) (metis main_step.served, metis main_step.listen_failed)
next
  case (Launch ns)
  then show ?thesis unfolding run_step_def by (cases ns) (blast intro: main_step.intros)+
next
  case (AwaitBound n ns)
  then show ?thesis unfolding run_step_def using assms(2)
    by (metis main_step.no_listener main_step.await_cancelled)
next
  case AwaitSources
  then have l: "launching a [] s" "src_stop s" using assms(1) by (simp_all add: run_inv_def)
  show ?thesis
  proof (cases "list_all (\<lambda>n. \<exists>b. srcs s n = Finished b) (source_names a)")
    case True
    then show ?thesis unfolding run_step_def using AwaitSources
      by (metis main_step.sources_ended main_step.sources_ended_no_http)
  next
    case False
    then obtain n b where "srcs s n = Running b" using unfinished_source l(1) by metis
    then show ?thesis unfolding run_step_def using l(2) by (metis env_step.source_ends)
  qed
next
  case AwaitHTTP
  then have "http_st s = HttpClosing \<or> http_st s = HttpDone" using assms(1) by (simp add: run_inv_def)
  then show ?thesis unfolding run_step_def using AwaitHTTP by (metis main_step.http_down env_step.serve_returns)
next
  case (Abort e)
  then have "pipe_st s = PipeStopping \<or> pipe_st s = PipeDone" using assms(1) by (simp add: run_inv_def)
  then show ?thesis unfolding run_step_def using Abort by (metis main_step.abort env_step.pipe_drains)
qed (use assms(2,3) in \<open>auto simp: run_step_def intro: main_step.intros\<close>)

lemma cancelled_steps:
  assumes "(run_step a ^^ n) s t" and "run_reach a s" and "cancelled s" and "distinct (source_names a)"
  shows "n + variant a t \<le> variant a s \<and> run_reach a t \<and> cancelled t"
  using assms(1)
proof (induction n arbitrary: t)
  case (Suc n)
  then obtain u where u: "(run_step a ^^ n) s u" "run_step a u t" by auto
  note ih = Suc.IH [OF u(1)]
  have inv: "run_inv a u" using run_inv_reach ih assms(4) by blast
  have "variant a t < variant a u"
    using u(2) main_step_variant [OF _ inv] env_step_variant [OF _ inv] ih by (auto simp: run_step_def)
  moreover have "cancelled t"
    using u(2) ih by (auto simp: run_step_def stop_pipe_def elim!: main_step.cases env_step.cases)
  ultimately show ?case using ih u(2) by (auto intro: run_reach.more)
qed (use assms in simp)

text \<open>
  C38. A signal always ends the run: after the cancellation no interleaving of the shutdown, the sources, the server and the
  pipeline takes more than \<open>variant\<close> steps, and none of them gets stuck before \<open>Run\<close> has
  returned.
\<close>

theorem cancelled_run_returns:
  assumes "run_reach a s" and "cancelled s" and "distinct (source_names a)" and "(run_step a ^^ n) s t"
  shows "n \<le> variant a s \<and> ((\<exists>u. run_step a t u) \<or> (\<exists>r. phase t = Returned r))"
proof -
  have "n + variant a t \<le> variant a s" "run_reach a t" "cancelled t"
    using cancelled_steps [OF assms(4,1,2,3)] by simp_all
  then show ?thesis using cancelled_progress [OF run_inv_reach [OF _ assms(3)]] by fastforce
qed

text \<open>
  A migration error is the boot's alone: a run that returns one has served no request and started no source.
\<close>

lemma migration_error_quiet:
  assumes "run_reach a s" and "distinct (source_names a)" and "phase s = Returned (Some e)" and "is_ErrMigration e"
  shows "quiet s"
proof -
  have "run_inv a s" using run_inv_reach assms(1,2) by blast
  then show ?thesis using assms(3,4) by (cases e) (auto simp: run_inv_def)
qed

section \<open>A listener that cannot bind\<close>

text \<open>
  C39. When the listener ends without having bound, \<open>awaitBound\<close> waits for a channel nobody will close: whatever else
  happens, short of a signal, \<open>Run\<close> stays in that wait. The error the source reported is
  never received and the process does not end.
\<close>

theorem bind_failure_hangs:
  assumes "phase s = AwaitBound n ns" and "has_ready a n" and "srcs s n = Finished False"
    and "(\<lambda>u v. run_step a u v \<and> \<not> cancelled v)\<^sup>*\<^sup>* s t" and "\<not> cancelled s"
  shows "phase t = AwaitBound n ns"
proof -
  have "phase t = AwaitBound n ns \<and> srcs t n = Finished False \<and> \<not> cancelled t"
    using assms(4)
  proof (induction rule: rtranclp_induct)
    case (step u v)
    then show ?case using assms(2)
      by (auto simp: run_step_def stop_pipe_def elim!: main_step.cases env_step.cases)
  qed (use assms in simp)
  then show ?thesis by simp
qed

section \<open>A run from boot to return\<close>

definition demo_run_app :: demo_app where
  "demo_run_app = snd (demo_new (\<lambda>_. False) (demo_config\<lparr>Sinks := [''postgres''], NetFlowAddr := '':2055''\<rparr>))"

lemma demo_run_app [simp]:
  "source_names demo_run_app = [''netflow'']" "backend_names demo_run_app = [''postgres'']"
  "HTTPAddr (a_cfg demo_run_app) = []" "has_ready demo_run_app ''netflow''"
  by (simp_all add: demo_run_app_def source_names_def backend_names_def has_ready_def demo_eqs open_templates_def
      app_newSource_def Netflow_Source.New_def newSource_def open_pipe_def Pipeline.New_def app_options_def Second_def)

lemma reach_main: "run_reach a s \<Longrightarrow> main_step a s t \<Longrightarrow> run_reach a t"
  by (auto intro: run_reach.more simp: run_step_def)

lemma reach_env: "run_reach a s \<Longrightarrow> env_step a s t \<Longrightarrow> run_reach a t"
  by (auto intro: run_reach.more simp: run_step_def)

definition demo_waiting :: run_state where
  "demo_waiting = (run_init [])\<lparr>phase := AwaitBound ''netflow'' [], migrated := [''postgres''], pipe_st := PipeRunning,
     srcs := (\<lambda>_. Idle)(''netflow'' := Running False)\<rparr>"

lemma demo_waiting_reach: "run_reach demo_run_app demo_waiting"
proof -
  have 0: "run_reach demo_run_app (run_init [''postgres''])" by (intro run_reach.start) simp
  note 1 = reach_main [OF 0 main_step.migrate_ok [of _ "''postgres''" "[]"]]
  note 2 = reach_main [OF 1 main_step.start_pipe]
  note 3 = reach_main [OF 2 main_step.served [where ns = "[''netflow'']" and h = HttpOff]]
  note 4 = reach_main [OF 3 main_step.launch]
  show ?thesis using 4 by (simp add: demo_waiting_def run_init_def serveHTTP_def)
qed

definition demo_cancelled :: run_state where
  "demo_cancelled = demo_waiting\<lparr>cancelled := True\<rparr>"

lemma demo_cancelled_reach: "run_reach demo_run_app demo_cancelled"
  unfolding demo_cancelled_def
  by (rule reach_env [OF demo_waiting_reach env_step.signal]) (simp add: demo_waiting_def run_init_def)

definition demo_returned :: run_state where
  "demo_returned = demo_cancelled\<lparr>phase := Returned None, ready_closed := True, src_stop := True,
     srcs := (\<lambda>_. Idle)(''netflow'' := Finished False), pipe_st := PipeDone, closes := 1\<rparr>"

lemma demo_returned_reach: "run_reach demo_run_app demo_returned"
proof -
  note 0 = demo_cancelled_reach [unfolded demo_cancelled_def demo_waiting_def run_init_def, simplified]
  note 1 = reach_main [OF 0 main_step.await_cancelled [where n = "''netflow''" and ns = "[]"], simplified]
  note 2 = reach_main [OF 1 main_step.all_launched, simplified]
  note 3 = reach_main [OF 2 main_step.wait_cancelled, simplified]
  note 4 = reach_env [OF 3 env_step.source_ends [where n = "''netflow''" and b = False], simplified]
  note 5 = reach_main [OF 4 main_step.sources_ended_no_http, simplified]
  note 6 = reach_env [OF 5 env_step.pipe_drains, simplified stop_pipe_def, simplified]
  note 7 = reach_main [OF 6 main_step.drained, simplified]
  note 8 = reach_main [OF 7 main_step.close_sinks, simplified]
  have "Ex Not" by blast
  from 8 [OF this refl] show ?thesis by (simp add: demo_returned_def demo_cancelled_def demo_waiting_def run_init_def)
qed

theorem migrate_before_listen_witness:
  "\<not> quiet demo_waiting \<and> set (migrated demo_waiting) = {''postgres''}"
  using migrate_before_listen [OF demo_waiting_reach]
  by (auto simp: quiet_def demo_waiting_def run_init_def dest: spec [of _ "''netflow''"])

theorem shutdown_order_witness: "stopped demo_returned \<and> pipe_st demo_returned = PipeDone"
  using shutdown_order [OF demo_returned_reach]
  by (simp add: demo_returned_def demo_cancelled_def demo_waiting_def run_init_def)

theorem cancelled_run_returns_witness:
  "(\<exists>u. run_step demo_run_app demo_cancelled u) \<or> (\<exists>r. phase demo_cancelled = Returned r)"
  using cancelled_run_returns [OF demo_cancelled_reach, of 0 demo_cancelled]
  by (simp add: demo_cancelled_def)

theorem bind_failure_hangs_witness:
  "\<exists>s. run_reach demo_run_app s \<and> src_errs s = [(''netflow'', ''address in use'')] \<and> phase s = AwaitBound ''netflow'' []"
proof -
  let ?s = "demo_waiting\<lparr>srcs := (srcs demo_waiting)(''netflow'' := Finished False),
    src_errs := src_errs demo_waiting @ [(''netflow'', ''address in use'')]\<rparr>"
  have r: "run_reach demo_run_app ?s"
    by (rule reach_env [OF demo_waiting_reach env_step.source_fails]) (simp add: demo_waiting_def)
  have "phase ?s = AwaitBound ''netflow'' []"
    by (rule bind_failure_hangs [of ?s "''netflow''" "[]" demo_run_app])
      (simp_all add: demo_waiting_def run_init_def)
  then show ?thesis using r by (intro exI [of _ ?s]) (simp add: demo_waiting_def run_init_def)
qed

end
