(* ===== verification/Collector.thy ===== *)
theory Collector
  imports App_Run
begin

text \<open>
  \<open>cmd/collector/main.go\<close> and \<open>app.Run\<close>: the command line, the exit codes and the health probe. The \<open>flag\<close>
  package's parser is written out for the four boolean flags; what the configuration, the construction and the run came
  back with, the write to the standard output and the answer of the HTTP probe are arguments.
\<close>

section \<open>The command line\<close>

definition exitOK :: int where "exitOK = 0"
definition exitError :: int where "exitError = 1"
definition exitConfig :: int where "exitConfig = 2"
definition exitMigration :: int where "exitMigration = 3"

lemmas exit_defs = exitOK_def exitError_def exitConfig_def exitMigration_def

record flags =
  showVersion :: bool
  validateConfig :: bool
  dumpOpenAPI :: bool
  healthcheck :: bool

definition no_flags :: flags where
  "no_flags = \<lparr>showVersion = False, validateConfig = False, dumpOpenAPI = False, healthcheck = False\<rparr>"

datatype flag_error = ErrHelp | BadFlag

definition ParseBool :: "string \<Rightarrow> bool option" where
  "ParseBool s =
     (if s \<in> set [''1'', ''t'', ''T'', ''TRUE'', ''true'', ''True''] then Some True
      else if s \<in> set [''0'', ''f'', ''F'', ''FALSE'', ''false'', ''False''] then Some False
      else None)"

definition set_flag :: "string \<Rightarrow> bool \<Rightarrow> flags \<Rightarrow> flags option" where
  "set_flag name b fs =
     (if name = ''version'' then Some (fs\<lparr>showVersion := b\<rparr>)
      else if name = ''validate-config'' then Some (fs\<lparr>validateConfig := b\<rparr>)
      else if name = ''dump-openapi'' then Some (fs\<lparr>dumpOpenAPI := b\<rparr>)
      else if name = ''healthcheck'' then Some (fs\<lparr>healthcheck := b\<rparr>)
      else None)"

definition parse_name :: "string \<Rightarrow> flags \<Rightarrow> flag_error + flags" where
  "parse_name s fs =
     (if s = [] \<or> hd s = CHR ''-'' \<or> hd s = CHR ''='' then Inl BadFlag
      else case cut_at (CHR ''='') s of
             (name, v, has) \<Rightarrow>
               (case (if has then ParseBool v else Some True) of
                  None \<Rightarrow> (if set_flag name True fs = None \<and> (name = ''help'' \<or> name = ''h'') then Inl ErrHelp else Inl BadFlag)
                | Some b \<Rightarrow>
                    (case set_flag name b fs of
                       Some fs' \<Rightarrow> Inr fs'
                     | None \<Rightarrow> if name = ''help'' \<or> name = ''h'' then Inl ErrHelp else Inl BadFlag)))"

fun parse_flags :: "string list \<Rightarrow> flags \<Rightarrow> flag_error + flags" where
  "parse_flags [] fs = Inr fs"
| "parse_flags (s # args) fs =
     (if length s < 2 \<or> hd s \<noteq> CHR ''-'' \<or> s = ''--'' then Inr fs
      else case parse_name (if s ! 1 = CHR ''-'' then drop 2 s else tl s) fs of
             Inl e \<Rightarrow> Inl e
           | Inr fs' \<Rightarrow> parse_flags args fs')"

section \<open>The health probe\<close>

definition index_of :: "char \<Rightarrow> string \<Rightarrow> nat option" where
  "index_of c s = (if c \<in> set s then Some (length (takeWhile (\<lambda>x. x \<noteq> c) s)) else None)"

definition last_index_of :: "char \<Rightarrow> string \<Rightarrow> nat option" where
  "last_index_of c s =
     (if c \<in> set s then Some (length s - 1 - length (takeWhile (\<lambda>x. x \<noteq> c) (rev s))) else None)"

text \<open>\<open>net.SplitHostPort\<close>: the host and the port, or an error.\<close>

definition SplitHostPort :: "string \<Rightarrow> (string \<times> string) option" where
  "SplitHostPort hp =
     (case last_index_of (CHR '':'') hp of
        None \<Rightarrow> None
      | Some i \<Rightarrow>
          (case (if hd hp = CHR ''[''
                 then (case index_of (CHR '']'') hp of
                         None \<Rightarrow> None
                       | Some e \<Rightarrow> if e + 1 = i then Some (drop 1 (take e hp), 1, e + 1) else None)
                 else if CHR '':'' \<in> set (take i hp) then None
                 else Some (take i hp, 0, 0)) of
             None \<Rightarrow> None
           | Some (host, j, k) \<Rightarrow>
               if CHR ''['' \<in> set (drop j hp) \<or> CHR '']'' \<in> set (drop k hp) then None
               else Some (host, drop (i + 1) hp)))"

definition healthcheck_url :: "string \<Rightarrow> string" where
  "healthcheck_url address =
     (let port = (if address = [] then ''8080''
                  else case SplitHostPort address of
                         Some (_, p) \<Rightarrow> if p \<noteq> [] then p else ''8080''
                       | None \<Rightarrow> ''8080'')
      in ''http://127.0.0.1:'' @ port @ ''/healthz'')"

text \<open>\<open>get\<close> is the client's answer: the status, or no answer within its three seconds.\<close>

definition runHealthcheck :: "string \<Rightarrow> (string \<Rightarrow> nat option) \<Rightarrow> int" where
  "runHealthcheck address get =
     (case get (healthcheck_url address) of
        None \<Rightarrow> exitError
      | Some code \<Rightarrow> if code \<noteq> 200 then exitError else exitOK)"

section \<open>The process\<close>

definition Run :: "config_error + Config \<Rightarrow> string option \<Rightarrow> (Config \<Rightarrow> app_error option \<times> 'a) \<Rightarrow>
    ('a \<Rightarrow> app_error option) \<Rightarrow> app_error option" where
  "Run loaded metrics new runs =
     (case loaded of
        Inl e \<Rightarrow> Some (ConfigLoad e)
      | Inr cfg \<Rightarrow>
          (case metrics of
             Some e \<Rightarrow> Some (MetricsFailed e)
           | None \<Rightarrow> (case new cfg of (Some e, _) \<Rightarrow> Some e | (None, a) \<Rightarrow> runs a)))"

definition exit_code :: "app_error option \<Rightarrow> int" where
  "exit_code err =
     (case err of
        None \<Rightarrow> exitOK
      | Some e \<Rightarrow> if is_ErrConfig e then exitConfig else if is_ErrMigration e then exitMigration else exitError)"

record world =
  w_args :: "string list"
  w_stdout :: bool
  w_addr :: string
  w_get :: "string \<Rightarrow> nat option"
  w_load :: "config_error + Config"
  w_metrics :: "string option"

definition run :: "world \<Rightarrow> (Config \<Rightarrow> app_error option \<times> 'a) \<Rightarrow> ('a \<Rightarrow> app_error option) \<Rightarrow> int" where
  "run w new runs =
     (case parse_flags (w_args w) no_flags of
        Inl e \<Rightarrow> if e = ErrHelp then exitOK else exitConfig
      | Inr fs \<Rightarrow>
          if showVersion fs then exitOK
          else if dumpOpenAPI fs then (if w_stdout w then exitOK else exitError)
          else if healthcheck fs then runHealthcheck (w_addr w) (w_get w)
          else if validateConfig fs
          then (case w_load w of
                  Inl _ \<Rightarrow> exitConfig
                | Inr cfg \<Rightarrow> if CheckNames cfg \<noteq> None then exitConfig else exitOK)
          else exit_code (Run (w_load w) (w_metrics w) new runs))"

section \<open>The exit codes\<close>

text \<open>No error that reaches \<open>main\<close> carries both sentinels, so the order in which it tests them does not matter.\<close>

definition one_sentinel :: "app_error \<Rightarrow> bool" where
  "one_sentinel e \<longleftrightarrow> \<not> (is_ErrConfig e \<and> is_ErrMigration e)"

lemma open_sinks_error:
  assumes "open_sinks connect cfg i names a = (Some e, a')" and "\<forall>n \<in> set names. sink_spec_of n cfg \<noteq> None"
  shows "one_sentinel e"
  using assms
proof (induction connect cfg i names a rule: open_sinks.induct)
  case (2 connect cfg i name names a)
  show ?case
  proof (cases "newSink connect i name cfg")
    case (Inl x)
    then have "x \<noteq> NotImplemented" using "2.prems"(2) by (auto simp: newSink_def split: option.splits)
    then show ?thesis using Inl "2.prems"(1) by (auto simp: one_sentinel_def)
  qed (use 2 in auto)
qed simp

lemma checked_sinks: "CheckNames cfg = None \<Longrightarrow> n \<in> set (Sinks cfg) \<Longrightarrow> sink_spec_of n cfg \<noteq> None"
proof -
  assume "CheckNames cfg = None" "n \<in> set (Sinks cfg)"
  then have "n \<in> {SinkPostgres, SinkMariaDB, SinkClickHouse, SinkKafka}"
    by (auto simp: CheckNames_def find_None_iff split: option.splits)
  then show ?thesis by (auto simp: sink_spec_of_def)
qed

lemma open_sources_error: "open_sources fresh cfg names a = (Some e, a') \<Longrightarrow> one_sentinel e"
  using open_sources_result(2) [of fresh cfg names a e] by (auto simp: one_sentinel_def)

lemma New_app_error:
  fixes a :: "('t, 'n, 'i, 'in, 'body) nf_source App"
  assumes "New_app fresh connect dial ord cfg = (Some e, a)"
  shows "one_sentinel e"
proof (cases "CheckNames cfg")
  case None
  obtain b :: "('t, 'n, 'i, 'in, 'body) nf_source App" where b: "build fresh connect dial ord cfg = (Some e, b)"
    using assms None by (auto simp: New_app_def split: prod.splits option.splits)
  have "\<forall>n \<in> set (Sinks cfg). sink_spec_of n cfg \<noteq> None" using checked_sinks [OF None] by blast
  with b show ?thesis
    by (auto simp: build_def and_then_def open_templates_def open_pipe_def one_sentinel_def
        split: prod.splits option.splits if_splits sum.splits
        dest: open_sources_error open_sinks_error)
next
  case (Some x)
  then have "e = x" using assms by (simp add: New_app_def)
  then show ?thesis using Some by (auto simp: CheckNames_def one_sentinel_def split: option.splits)
qed

definition run_errors :: "run_state \<Rightarrow> bool" where
  "run_errors s \<longleftrightarrow>
     (case run_err s of None \<Rightarrow> True | Some e \<Rightarrow> one_sentinel e) \<and>
     (case phase s of Abort e \<Rightarrow> one_sentinel e
      | CloseSinks (Some e) \<Rightarrow> one_sentinel e
      | Returned (Some e) \<Rightarrow> one_sentinel e
      | _ \<Rightarrow> True)"

lemma run_errors_reach: "run_reach a s \<Longrightarrow> run_errors s"
proof (induction rule: run_reach.induct)
  case (more s t)
  then consider "main_step a s t" | "env_step a s t" by (auto simp: run_step_def)
  then show ?case
  proof cases
    case 1
    then show ?thesis using more.IH
      by (cases rule: main_step.cases)
        (auto simp: run_errors_def stop_pipe_def one_sentinel_def serveHTTP_def split: option.splits if_splits)
  next
    case 2
    then show ?thesis using more.IH by (cases rule: env_step.cases) (auto simp: run_errors_def)
  qed
qed (simp add: run_errors_def run_init_def)

text \<open>
  C40. What the process's exit code says, for a plain start and whatever the environment does: 0 exactly for a run that ended
  without an error, 2 exactly for an error of the configuration, 3 exactly for one of the storage at boot,
  and 1 for every other.
\<close>

theorem exit_code_meaning:
  fixes new :: "Config \<Rightarrow> app_error option \<times> ('t, 'n, 'i, 'in, 'body) nf_source App"
  assumes "w_args w = []" and "new = New_app fresh connect dial ord"
    and "\<And>cfg a. w_load w = Inr cfg \<Longrightarrow> new cfg = (None, a) \<Longrightarrow> \<exists>s. run_reach a s \<and> phase s = Returned (runs a)"
  defines "err \<equiv> Run (w_load w) (w_metrics w) new runs"
  shows "(run w new runs = 0 \<longleftrightarrow> err = None) \<and>
         (run w new runs = 2 \<longleftrightarrow> (\<exists>e. err = Some e \<and> is_ErrConfig e)) \<and>
         (run w new runs = 3 \<longleftrightarrow> (\<exists>e. err = Some e \<and> is_ErrMigration e)) \<and>
         (run w new runs = 1 \<longleftrightarrow> (\<exists>e. err = Some e \<and> \<not> is_ErrConfig e \<and> \<not> is_ErrMigration e))"
proof -
  have r: "one_sentinel e" if h: "runs a = Some e" "w_load w = Inr cfg" "new cfg = (None, a)" for a e cfg
  proof -
    obtain s where "run_reach a s" "phase s = Returned (runs a)" using assms(3) [OF h(2,3)] by blast
    then show ?thesis using run_errors_reach [of a s] h(1) by (simp add: run_errors_def)
  qed
  have n: "one_sentinel e" if "new cfg = (Some e, a)" for cfg e a
    by (rule New_app_error [OF that [unfolded assms(2)]])
  have one: "one_sentinel e" if "err = Some e" for e
    using that r n unfolding err_def Run_def
    by (fastforce simp: one_sentinel_def split: sum.splits option.splits prod.splits)
  have "run w new runs = exit_code err" using assms(1) by (simp add: run_def no_flags_def err_def)
  then show ?thesis
    using one by (cases err) (auto simp: exit_code_def exit_defs one_sentinel_def)
qed

definition demo_world :: world where
  "demo_world =
     \<lparr>w_args = [], w_stdout = True, w_addr = [], w_get = (\<lambda>_. None),
      w_load = Inr (demo_config\<lparr>Sinks := [''postgres''], NetFlowAddr := '':2055''\<rparr>), w_metrics = None\<rparr>"

theorem exit_code_meaning_witness: "run demo_world (demo_new (\<lambda>_. False)) (\<lambda>_. None) = 0"
proof -
  let ?c = "demo_config\<lparr>Sinks := [''postgres''], NetFlowAddr := '':2055''\<rparr>"
  have new: "demo_new (\<lambda>_. False) = New_app () (\<lambda>_ _. None) (\<lambda>_ _. None) rev"
    by (rule ext) (simp add: demo_new_def)
  have ok: "fst (demo_new (\<lambda>_. False) ?c) = None"
    by (simp add: demo_eqs open_templates_def app_newSource_def Netflow_Source.New_def newSource_def open_pipe_def
      Pipeline.New_def app_options_def Second_def)
  have run: "\<exists>s. run_reach a s \<and> phase s = Returned None"
    if "w_load demo_world = Inr cfg" "demo_new (\<lambda>_. False) cfg = (None, a)" for cfg a
  proof -
    have "a = demo_run_app" using that by (simp add: demo_world_def demo_run_app_def)
    then show ?thesis
      using demo_returned_reach by (auto intro!: exI [of _ demo_returned] simp: demo_returned_def)
  qed
  have "Run (w_load demo_world) (w_metrics demo_world) (demo_new (\<lambda>_. False)) (\<lambda>_. None) = None"
    using ok by (cases "demo_new (\<lambda>_. False) ?c") (simp add: Run_def demo_world_def)
  then show ?thesis
    using exit_code_meaning [of demo_world "demo_new (\<lambda>_. False)", OF _ new run] by (simp add: demo_world_def)
qed

section \<open>The probe's port\<close>

lemma takeWhile_before: "c \<notin> set p \<Longrightarrow> takeWhile (\<lambda>x. x \<noteq> c) (p @ c # r) = p"
  by (induction p) auto

lemma last_index_of_split: "c \<notin> set p \<Longrightarrow> last_index_of c (h @ c # p) = Some (length h)"
  by (simp add: last_index_of_def takeWhile_before)

definition plain :: "string \<Rightarrow> bool" where
  "plain s \<longleftrightarrow> CHR '':'' \<notin> set s \<and> CHR ''['' \<notin> set s \<and> CHR '']'' \<notin> set s"

lemma SplitHostPort_plain:
  assumes "plain h" and "plain p"
  shows "SplitHostPort (h @ '':'' @ p) = Some (h, p)"
proof -
  have "last_index_of (CHR '':'') (h @ '':'' @ p) = Some (length h)"
    using assms(2) last_index_of_split [of "CHR '':''" p h] by (simp add: plain_def)
  moreover have "hd (h @ '':'' @ p) \<noteq> CHR ''[''" using assms(1) by (cases h) (auto simp: plain_def)
  ultimately show ?thesis using assms by (simp add: SplitHostPort_def plain_def)
qed

lemma SplitHostPort_bracketed:
  assumes "CHR ''['' \<notin> set h" and "CHR '']'' \<notin> set h" and "plain p"
  shows "SplitHostPort (''['' @ h @ '']:'' @ p) = Some (h, p)"
proof -
  let ?hp = "''['' @ h @ '']:'' @ p"
  have "?hp = (''['' @ h @ '']'') @ CHR '':'' # p" by simp
  then have "last_index_of (CHR '':'') ?hp = Some (length h + 2)"
    using assms(3) last_index_of_split [of "CHR '':''" p "''['' @ h @ '']''"] by (simp add: plain_def)
  moreover have "index_of (CHR '']'') ?hp = Some (length h + 1)"
    using assms(2) by (simp add: index_of_def takeWhile_before)
  ultimately show ?thesis using assms by (simp add: SplitHostPort_def plain_def)
qed

text \<open>
  The container's health probe asks the port the collector listens on, whatever host the address names, a name, an
  IPv4 address, nothing, or an IPv6 address in brackets, and succeeds exactly when the answer is
  200.
\<close>

theorem healthcheck_probes_listener:
  assumes "plain port" and "port \<noteq> []" and "plain host \<or> CHR ''['' \<notin> set h6 \<and> CHR '']'' \<notin> set h6 \<and> host = ''['' @ h6 @ '']''"
  shows "runHealthcheck (host @ '':'' @ port) get = 0 \<longleftrightarrow>
           get (''http://127.0.0.1:'' @ port @ ''/healthz'') = Some 200"
proof -
  have "\<exists>h. SplitHostPort (host @ '':'' @ port) = Some (h, port)"
    using assms(3) SplitHostPort_plain [OF _ assms(1), of host] SplitHostPort_bracketed [OF _ _ assms(1), of h6] by auto
  then have "healthcheck_url (host @ '':'' @ port) = ''http://127.0.0.1:'' @ port @ ''/healthz''"
    using assms(2) by (auto simp: healthcheck_url_def)
  then show ?thesis by (auto simp: runHealthcheck_def exit_defs split: option.splits)
qed

end
