(* ===== verification/Spec2Isabelle.thy ===== *)
theory Spec2Isabelle
  imports Pipeline_Props Netflow_Wire Kafka_Pipeline Kafka_Dedup Push_Source Postgres_Pages Mariadb_Pages
    Clickhouse_Props Conform_Postgres Conform_Mariadb Conform_Clickhouse Sink_Boot Sink_Kafka Template_Store Netflow_Source Api_Openapi Obs Collector
begin

text \<open>
  A verification library for the NetFlow collector (\<open>src/\<close>): a daemon that receives flow records as NetFlow v5,
  v9 and IPFIX datagrams or from a Kafka topic, buffers and batches them, writes every batch to each
  configured sink (PostgreSQL, MariaDB, ClickHouse, a Kafka topic), and serves the stored flows over an
  HTTP API.

  \<^bold>\<open>The parts and how they meet.\<close> A \<^emph>\<open>source\<close> turns input into \<open>flow.FlowRecord\<close>s. A push source (the UDP listener)
  sends them on a channel and the pipeline may drop them; a pull source (the Kafka consumer) offers them, waits for
  room, and asks the pipeline whether everything up to a sequence number is written before it commits its offsets.
  The \<^emph>\<open>pipeline\<close> is a bounded buffer, a batcher and a pool of workers around a \<^emph>\<open>watermark\<close>. A \<^emph>\<open>sink\<close> stores a batch at
  most once per dedup key, and a storage sink answers queries page by page. The \<^emph>\<open>API\<close> binds and checks requests,
  and hands well-formed queries to the first storage sink. NetFlow instances share the templates of v9 and
  IPFIX through a \<^emph>\<open>template store\<close>. \<^emph>\<open>config\<close> reads the environment, \<^emph>\<open>app\<close> builds everything, runs it
  and shuts it down, and \<open>cmd/collector\<close> maps the outcome to an exit code.

  \<^bold>\<open>Which theory models which file.\<close>
  \<^item> Prelude: integers at their width, results as sums, bounded channels. Gotext, Gotime, Gotime_Text, Netip, Netip_Text,
    Json, Base64, Sha256: what the program uses of Go's library (\<open>strconv\<close>, \<open>strings\<close>, \<open>time\<close> with RFC 3339, \<open>net/netip\<close>
    with its text form, \<open>encoding/json\<close>, \<open>encoding/base64\<close>, \<open>crypto/sha256\<close>), written out and proved to round trip.
  \<^item> Flow: \<open>internal/flow\<close>. Watermark: \<open>pipeline/watermark.go\<close>. Pipeline: the operations of \<open>pipeline/pipeline.go\<close> on the
    record \<open>Pipeline\<close>; Pipeline_Steps: the interleavings of its goroutines as a step relation and their invariant;
    Pipeline_Exec: the same steps as an executable interpreter, for runs; Pipeline_Props: what follows.
  \<^item> Netflow_Decode, Netflow_Wire: \<open>source/netflow/decode.go\<close>. Netflow_Templates: \<open>templates.go\<close>. Netflow_Source:
    \<open>netflow.go\<close>. Template_Store: \<open>internal/templatestore\<close>.
  \<^item> Wire: \<open>internal/wire\<close>. Kafka_Dedup, Kafka_Session, Kafka_Delivery, Kafka_Pipeline, Push_Source: \<open>source/kafka\<close>, its
    pull session over any intake, the session over the pipeline, its push entry, and \<open>Pipeline.RunSource\<close>.
  \<^item> Storage, Exporters, Exporters_Table, Relational: what the three storage engines share (keyset pages, dedup,
    the exporter table with its cache). Cursor: their page tokens and the API's check of them. Postgres_Rows, Postgres,
    Postgres_Props, Postgres_Sink, Postgres_Pages: \<open>sink/postgres\<close>; Mariadb, Mariadb_Props, Mariadb_Sink, Mariadb_Pages:
    \<open>sink/mariadb\<close>; Clickhouse, Clickhouse_Props: \<open>sink/clickhouse\<close>; Sink_Boot: how the three are opened and migrated;
    Sink_Kafka: \<open>sink/kafka\<close>.
  \<^item> Contract: what a storage backend promises at the level of records, as a locale; Contract_Rows: the part the two
    relational engines share. Conformance: the suite of \<open>sink/sinktest/conformance.go\<close>, its fixtures, helpers and seven tests as
    functions of a backend; Conformance_Props: every backend with the contract passes it. Conform_Postgres, Conform_Mariadb,
    Conform_Clickhouse: the three engines have the contract.
  \<^item> Api_Http, Api_Flows, Api_Openapi, Api_Server: \<open>internal/api\<close> (\<open>auth.go\<close>; \<open>flows.go\<close>; its OpenAPI document;
    \<open>server.go\<close> and \<open>ops.go\<close>). Serve_Mux: the routing of \<open>net/http\<close> they are registered with, which matches the unescaped
    segments of a clean path and redirects any other. Config: \<open>internal/config\<close>. Obs: \<open>internal/obs\<close>. App, App_Run: \<open>app/run.go\<close>, construction
    and life cycle. Collector: \<open>cmd/collector\<close>.

  A struct is a record, a handler a function on it, an error a value of a sum or option type. Goroutines that
  interleave are step relations (the pipeline, the Kafka session, \<open>App.Run\<close>); code that runs alone is a function, with the
  order of outside events as a list. A Go map is a partial function, or an association list with the order
  of \<open>range\<close> as an argument (\<open>range_over\<close>: every permutation is the image of some list of numbers).

  \<^bold>\<open>What is outside is an argument.\<close> The packet libraries, the database servers with their drivers, the message bus, the
  validator and the binder of environment variables are parameters, and what is used of them is a named
  hypothesis (\<open>faithful\<close> of a driver, \<open>faithful_json\<close>, \<open>faithful_templates\<close>, \<open>lawful_system\<close>, \<open>producer_ok\<close>, \<open>validator_ok\<close>,
  \<open>shows_ttl\<close>); each theorem with such a hypothesis has a witness that instantiates it. Goflow2's packet parser is any program of template calls that
  goes on from their answers (the datatype \<open>parser\<close>). Database tables carry the constraints of the migrations.
  A statement outside a transaction (an exporter's update or upsert, \<open>COPY\<close> and its fallback, a retention delete, a ClickHouse send) and a
  commit may fail before or after it took effect; a statement inside the MariaDB transaction may fail, and is then rolled back.
  Preparing and appending to a ClickHouse batch may fail too. Listing the end offsets of the template topic may fail as
  a whole or for single partitions.

  \<^bold>\<open>Interfaces.\<close> The locale \<open>intake\<close> is \<open>flow.Intake\<close> as the Kafka source relies on it, interpreted by the pipeline with
  one worker. \<open>dedup_sink\<close> is the storage contract for writing, interpreted by PostgreSQL and MariaDB; \<open>keyset_store\<close> that for
  reading pages, interpreted by all three engines. \<open>storage_contract\<close> extends it to the whole backend (what a write adds to the
  records a query selects), with \<open>record_rows\<close> for the way of a record through a row; the conformance suite is proved in it
  once, and the three engines interpret it. \<open>id_cache\<close> and \<open>exporter_table\<close> are the exporter cache and
  table, interpreted by the shared implementation.

  \<^bold>\<open>What the theorems show.\<close>
  \<^item> Pipeline: the watermark is the longest completed prefix; a record below it is in every sink or was rejected and is
    pending or reported; batches hold their ranges, queues their bounds, the counters add up; shutdown drains; no
    deadlock, no lost wake-up. With one worker an acknowledgement is safe; with two it need not be
    (\<open>two_workers_ack_loses_record\<close>).
  \<^item> Sources: datagrams decode to the flows they carry (v5 with every field of header and records free, v9 and IPFIX for a full
    template), truncated ones are rejected; exporters cannot disturb one
    another; sharing templates changes no result of decoding whatever the parser asks the template system, and a learned template reaches
    the other instances, whose replay is complete below the listed end offsets; an offset the Kafka source
    commits is of a message that is stored.
  \<^item> Sinks: each relational write refines append-if-new, a redelivery of keyed records changes nothing, following the tokens gives every matching row
    once, a query after a write returns exactly the records it selects, every engine passes the conformance suite
    (ClickHouse unless \<open>rand64()\<close> repeats itself), a retention run without faults deletes exactly the rows older than its cutoff and every run ends; of two tiers
    coupled by a topic the second decodes, in order and with their dedup keys, the canonical forms of the records the first accepted, and
    refuses those without addresses, flow type or instants (\<open>tiers_compose\<close>).
  \<^item> API: data only for key holders, however the path is spelled, only well-formed queries reach a backend, the document lists exactly the parameters
    the binder knows. Config: the shell wins over the nearest file, which is read back exactly whatever comments, quotes and blanks it is written with. App: a failed construction
    with distinct sinks leaves nothing open, neither a sink nor the template store, nothing listens before the migrations, sinks are closed last and once, a signal always ends the run, a
    listener that cannot bind hangs it (\<open>bind_failure_hangs\<close>). Collector: what each exit code means.

  The lemmas and theorems named in parentheses above show defects of the code; others are \<open>clickhouse_cursor_refused\<close>, \<open>mdb_retention_cutoff\<close>,
  \<open>duplicate_sink_leaks\<close>, \<open>padded_key_never_matches\<close>, \<open>kafka_sink_refuses_whole_batch\<close> and \<open>unlisted_partition_counts_as_empty\<close>.

  \<^bold>\<open>Bounds and fuel.\<close> The JSON parser carries the length of its text as fuel, which \<open>pvalue_fuel\<close> shows to be enough; the
  walk up the directories carries the eleven rounds of the code; the retention loop and the page loop terminate by
  a measure. Sequence numbers, sampling rates, ports and columns are words of their width; instants are
  unbounded nanoseconds, with the wrap-around of \<open>int64\<close> written out where the code computes durations.

  \<^bold>\<open>Not modelled.\<close> The SQL of the migrations and the goose library; the text of log lines and of the OpenAPI document; the
  request ids, which are random; the accessors that read a field under a lock; \<open>SetupLogging\<close> and \<open>SetupMetrics\<close>, which install
  library objects; the constant time of the key comparison; concurrent writers of one database. Characters
  outside ASCII are kept as bytes where the program trims, folds or quotes text. Of \<open>internal/sink/sinktest\<close> the start of the
  database containers, and \<open>migrations/embed.go\<close>, which holds three embed directives.
\<close>

section \<open>The storage contract\<close>

text \<open>
  C6. The conformance suite passes on all three storage backends, each fresh from its factory and with no fault on the
  way: every field round trips, a redelivered key adds no row, a mixed batch adds the new records only, records without a key are
  never merged, 25 records come in pages of 10, 10 and 5 in order, the time range is half-open, and each filter selects what it names.
  For ClickHouse the random sequence numbers of the two writes without keys must differ.
\<close>

theorem all_backends_conform:
  fixes rand :: "nat \<Rightarrow> nat \<Rightarrow> u64"
  assumes "faithful d" and "keeps_datetime ts" and "faithful_ch c" and "\<forall>j<10. rand 0 j \<noteq> rand 1 j" and "25 < fuel"
  shows "Conformance fuel (Postgres.WriteBatch d (no_faults order)) (\<lambda>b. Postgres.Query d True (db_of b)) (\<lambda>_. empty_backend) \<and>
    Conformance fuel (Mariadb.WriteBatch ts (Mariadb_Sink.quiet order)) (\<lambda>b. Mariadb.Query ts True (m_db b)) (\<lambda>_. empty_mdb) \<and>
    Conformance fuel (ch_write c order) (\<lambda>s. Clickhouse.Query c True (snd s)) (\<lambda>_. (rand, ch_empty))"
  by (intro conjI pg_conforms mdb_conforms ch_conforms assms)

theorem all_backends_conform_witness:
  "Conformance 26 (Postgres.WriteBatch pg_driver (no_faults [1])) (\<lambda>b. Postgres.Query pg_driver True (db_of b)) (\<lambda>_. empty_backend) \<and>
   Conformance 26 (Mariadb.WriteBatch micro (Mariadb_Sink.quiet [1])) (\<lambda>b. Mariadb.Query micro True (m_db b)) (\<lambda>_. empty_mdb) \<and>
   Conformance 26 (ch_write ch_plain [1]) (\<lambda>s. Clickhouse.Query ch_plain True (snd s)) (\<lambda>_. (\<lambda>k j. of_nat k, ch_empty))"
  by (rule all_backends_conform [OF faithful_pg_driver keeps_micro faithful_ch_plain]) simp_all

end
